(* ===== verification/Prelude.thy ===== *)
theory Prelude
  imports Main "HOL-Library.AList" "HOL-Library.Sublist"
begin

text \<open>
  Shared vocabulary of the development.

  Text. A source string is a sequence of UTF-16 code units; the model's \<open>jstext\<close> is a HOL
  string whose characters stand for the code units 0 to 255 (Latin-1). The only other code
  units the modelled code produces itself are the ellipsis U+2026 it appends to shortened text, the
  em dash U+2014 and the check marks U+2713 and U+2717; they are represented by the otherwise
  unused characters 0x85, 0x97, 0x86 and 0x87, which the control-character test below therefore
  leaves alone. Lower-casing and the white-space class are
  those of JavaScript on this repertoire.

  Containers. A JavaScript \<open>Map\<close> keeps its insertion order, so it is an association list
  updated in place (\<open>AList.update\<close>); a \<open>Set\<close> is a duplicate-free list extended at its end.
  The laws the components rely on are the locale \<open>keyed_store\<close>, interpreted here on the
  association lists.

  Results. A TypeScript \<open>Result\<close> and an exception are both a sum: \<open>Err\<close> the error,
  \<open>Ok\<close> the value.
\<close>

section \<open>Names used throughout\<close>

type_synonym jstext = string

type_synonym ('k, 'v) jsmap = "('k \<times> 'v) list"

type_synonym 'a jsset = "'a list"

type_synonym ('e, 'a) result = "'e + 'a"

abbreviation Ok :: "'a \<Rightarrow> ('e, 'a) result" where
  "Ok \<equiv> Inr"

abbreviation Err :: "'e \<Rightarrow> ('e, 'a) result" where
  "Err \<equiv> Inl"

abbreviation is_ok :: "('e, 'a) result \<Rightarrow> bool" where
  "is_ok \<equiv> \<lambda>r. case r of Inl _ \<Rightarrow> False | Inr _ \<Rightarrow> True"

named_theorems model_defs \<open>definitions unfolded by the component proofs\<close>

named_theorems frame_simps \<open>fields an operation leaves alone\<close>

section \<open>Characters and text\<close>

definition code :: "char \<Rightarrow> nat" where
  "code c = of_char c"

definition is_upper :: "char \<Rightarrow> bool" where
  "is_upper c \<longleftrightarrow> 65 \<le> code c \<and> code c \<le> 90"

definition is_lower :: "char \<Rightarrow> bool" where
  "is_lower c \<longleftrightarrow> 97 \<le> code c \<and> code c \<le> 122"

definition is_digit :: "char \<Rightarrow> bool" where
  "is_digit c \<longleftrightarrow> 48 \<le> code c \<and> code c \<le> 57"

definition is_alnum :: "char \<Rightarrow> bool" where
  "is_alnum c \<longleftrightarrow> is_upper c \<or> is_lower c \<or> is_digit c"

definition is_lower_alnum :: "char \<Rightarrow> bool" where
  "is_lower_alnum c \<longleftrightarrow> is_lower c \<or> is_digit c"

text \<open>JavaScript's \<open>\s\<close> on the repertoire: TAB, LF, VT, FF, CR, space and no-break space.\<close>

definition is_space :: "char \<Rightarrow> bool" where
  "is_space c \<longleftrightarrow> (9 \<le> code c \<and> code c \<le> 13) \<or> code c = 32 \<or> code c = 160"

definition ellipsis :: char where
  "ellipsis = CHR 0x85"

definition em_dash :: char where
  "em_dash = CHR 0x97"

definition check_mark :: char where
  "check_mark = CHR 0x86"

definition cross_mark :: char where
  "cross_mark = CHR 0x87"

definition is_control :: "char \<Rightarrow> bool" where
  "is_control c \<longleftrightarrow> c \<notin> {ellipsis, em_dash, check_mark, cross_mark} \<and>
     (code c < 32 \<or> (127 \<le> code c \<and> code c \<le> 159))"

text \<open>\<open>toLowerCase\<close>: ASCII letters and the Latin-1 capitals (all but the sign at 215).\<close>

definition lower_char :: "char \<Rightarrow> char" where
  "lower_char c = (if is_upper c \<or> (192 \<le> code c \<and> code c \<le> 222 \<and> code c \<noteq> 215)
     then char_of (code c + 32) else c)"

definition to_lower :: "jstext \<Rightarrow> jstext" where
  "to_lower = map lower_char"

definition trim :: "jstext \<Rightarrow> jstext" where
  "trim s = rev (dropWhile is_space (rev (dropWhile is_space s)))"

text \<open>\<open>replace(/P+/g, ' ')\<close>: every maximal run of characters in \<open>P\<close> becomes one space.\<close>

fun sub_runs :: "(char \<Rightarrow> bool) \<Rightarrow> bool \<Rightarrow> jstext \<Rightarrow> jstext" where
  "sub_runs P inside [] = []"
| "sub_runs P inside (c # s) =
     (if P c then (if inside then sub_runs P True s else CHR '' '' # sub_runs P True s)
      else c # sub_runs P False s)"

definition replace_runs :: "(char \<Rightarrow> bool) \<Rightarrow> jstext \<Rightarrow> jstext" where
  "replace_runs P s = sub_runs P False s"

fun starts_with :: "jstext \<Rightarrow> jstext \<Rightarrow> bool" where
  "starts_with [] s = True"
| "starts_with (p # ps) [] = False"
| "starts_with (p # ps) (c # s) = (p = c \<and> starts_with ps s)"

definition ends_with :: "jstext \<Rightarrow> jstext \<Rightarrow> bool" where
  "ends_with p s = starts_with (rev p) (rev s)"

text \<open>\<open>includes\<close>, and more generally a pattern matched at some position of the text.\<close>

fun matches_somewhere :: "(jstext \<Rightarrow> bool) \<Rightarrow> jstext \<Rightarrow> bool" where
  "matches_somewhere M [] = M []"
| "matches_somewhere M (c # s) = (M (c # s) \<or> matches_somewhere M s)"

definition str_includes :: "jstext \<Rightarrow> jstext \<Rightarrow> bool" where
  "str_includes p s = matches_somewhere (starts_with p) s"

fun split_on :: "char \<Rightarrow> jstext \<Rightarrow> jstext list" where
  "split_on d [] = [[]]"
| "split_on d (c # s) =
     (if c = d then [] # split_on d s
      else case split_on d s of [] \<Rightarrow> [[c]] | w # ws \<Rightarrow> (c # w) # ws)"

fun join :: "jstext \<Rightarrow> jstext list \<Rightarrow> jstext" where
  "join sep [] = []"
| "join sep [s] = s"
| "join sep (s # t # ss) = s @ sep @ join sep (t # ss)"

text \<open>Shortening with an ellipsis: \<open>s.length <= max ? s : s.slice(0, max - 1) + ellipsis\<close>.\<close>

definition clip :: "nat \<Rightarrow> jstext \<Rightarrow> jstext" where
  "clip lim s = (if length s \<le> lim then s else take (lim - 1) s @ [ellipsis])"

text \<open>Decimal rendering of a number.\<close>

definition digit_char :: "nat \<Rightarrow> char" where
  "digit_char d = char_of (48 + d)"

fun show_nat :: "nat \<Rightarrow> jstext" where
  "show_nat n = (if n < 10 then [digit_char n] else show_nat (n div 10) @ [digit_char (n mod 10)])"

declare show_nat.simps [simp del]

lemma starts_with_iff_prefix [simp]: "starts_with p s \<longleftrightarrow> prefix p s"
  by (induction p s rule: starts_with.induct) auto

lemma ends_with_iff_suffix: "ends_with p s \<longleftrightarrow> suffix p s"
  by (simp add: ends_with_def suffix_to_prefix)

lemma matches_somewhere_iff: "matches_somewhere M s \<longleftrightarrow> (\<exists>pre rest. s = pre @ rest \<and> M rest)"
proof (induction s)
  case Nil
  then show ?case by simp
next
  case (Cons c s)
  show ?case
    by (auto simp: Cons.IH Cons_eq_append_conv)
qed

lemma str_includes_iff_sublist: "str_includes p s \<longleftrightarrow> sublist p s"
  unfolding str_includes_def matches_somewhere_iff sublist_def by (auto simp: prefix_def)

lemma clip_length [simp]: "0 < lim \<Longrightarrow> length (clip lim s) \<le> lim"
  by (auto simp: clip_def)

definition collapse_spaces :: "jstext \<Rightarrow> jstext" where
  \<comment> \<open>\<open>replace(/\s+/gu, ' ').trim()\<close>\<close>
  "collapse_spaces s = trim (replace_runs is_space s)"

lemma length_to_lower [simp]: "length (to_lower s) = length s"
  by (simp add: to_lower_def)

lemma split_on_not_Nil [simp]: "split_on d s \<noteq> []"
  by (induction s) (auto split: list.splits)

lemma sub_runs_no_run: "\<forall>c \<in> set s. \<not> P c \<Longrightarrow> sub_runs P b s = s"
  by (induction s arbitrary: b) auto

lemma set_sub_runs: "set (sub_runs P b s) \<subseteq> insert (CHR '' '') {c \<in> set s. \<not> P c}"
  by (induction P b s rule: sub_runs.induct) auto

lemma set_trim: "set (trim s) \<subseteq> set s"
proof -
  have "set (dropWhile P s) \<subseteq> set s" for P :: "char \<Rightarrow> bool" and s
    by (auto dest: set_dropWhileD)
  then show ?thesis
    unfolding trim_def by (metis set_rev subset_trans)
qed

section \<open>Decimal numerals are injective\<close>

definition digit_value :: "char \<Rightarrow> nat" where
  "digit_value c = code c - 48"

definition read_nat :: "jstext \<Rightarrow> nat" where
  "read_nat = foldl (\<lambda>acc c. 10 * acc + digit_value c) 0"

lemma digit_value_digit_char [simp]: "d < 10 \<Longrightarrow> digit_value (digit_char d) = d"
  by (simp add: digit_value_def digit_char_def code_def take_bit_eq_mod)

lemma read_show_nat [simp]: "read_nat (show_nat n) = n"
proof (induction n rule: show_nat.induct)
  case (1 n)
  show ?case
  proof (cases "n < 10")
    case True
    then show ?thesis
      by (subst show_nat.simps) (simp add: read_nat_def)
  next
    case False
    with 1 have "read_nat (show_nat (n div 10)) = n div 10" by simp
    with False show ?thesis
      by (subst show_nat.simps) (simp add: read_nat_def)
  qed
qed

lemma show_nat_inject [simp]: "show_nat m = show_nat n \<longleftrightarrow> m = n"
  by (metis read_show_nat)

lemma show_nat_digits: "c \<in> set (show_nat n) \<Longrightarrow> is_digit c"
proof (induction n rule: show_nat.induct)
  case (1 n)
  have digit: "is_digit (digit_char d)" if "d < 10" for d
    using that by (simp add: is_digit_def digit_char_def code_def take_bit_eq_mod)
  show ?case
  proof (cases "n < 10")
    case True
    with 1(2) digit show ?thesis by (subst (asm) show_nat.simps) auto
  next
    case False
    with 1 digit show ?thesis by (subst (asm) (2) show_nat.simps) auto
  qed
qed

lemma length_show_nat: "n < 10 ^ Suc k \<Longrightarrow> length (show_nat n) \<le> Suc k"
proof (induction k arbitrary: n)
  case 0
  then show ?case by (subst show_nat.simps) simp
next
  case (Suc k)
  then have "n div 10 < 10 ^ Suc k" by (simp add: div_less_iff_less_mult mult.commute)
  from Suc.IH [OF this] show ?case by (subst show_nat.simps) simp
qed

section \<open>JavaScript maps and sets\<close>

abbreviation map_get :: "('k, 'v) jsmap \<Rightarrow> 'k \<Rightarrow> 'v option" where
  "map_get \<equiv> map_of"

abbreviation map_set :: "'k \<Rightarrow> 'v \<Rightarrow> ('k, 'v) jsmap \<Rightarrow> ('k, 'v) jsmap" where
  "map_set \<equiv> AList.update"

definition map_has :: "('k, 'v) jsmap \<Rightarrow> 'k \<Rightarrow> bool" where
  "map_has m k \<longleftrightarrow> k \<in> set (map fst m)"

definition map_keys :: "('k, 'v) jsmap \<Rightarrow> 'k list" where
  "map_keys m = map fst m"

text \<open>\<open>if (!m.has(k)) m.set(k, v)\<close>: the first value recorded for a key stays.\<close>

definition set_if_absent :: "'k \<Rightarrow> 'v \<Rightarrow> ('k, 'v) jsmap \<Rightarrow> ('k, 'v) jsmap" where
  "set_if_absent k v m = (if map_has m k then m else map_set k v m)"

definition set_add :: "'a \<Rightarrow> 'a jsset \<Rightarrow> 'a jsset" where
  "set_add x xs = (if x \<in> set xs then xs else xs @ [x])"

text \<open>\<open>new Set(xs)\<close> and adding every element of a list to a set.\<close>

definition set_add_all :: "'a list \<Rightarrow> 'a jsset \<Rightarrow> 'a jsset" where
  "set_add_all xs s = foldl (\<lambda>s x. set_add x s) s xs"

definition to_jsset :: "'a list \<Rightarrow> 'a jsset" where
  "to_jsset xs = set_add_all xs []"

lemma map_has_get: "map_has m k \<longleftrightarrow> map_get m k \<noteq> None"
  by (simp add: map_has_def map_of_eq_None_iff)

lemma map_set_get [simp]: "map_get (map_set k v m) k' = (if k' = k then Some v else map_get m k')"
  by (simp add: update_conv)

lemma set_if_absent_get:
  "map_get (set_if_absent k v m) k' =
     (case map_get m k' of Some w \<Rightarrow> Some w | None \<Rightarrow> if k' = k then Some v else None)"
  by (auto simp: set_if_absent_def map_has_get split: option.splits)

lemma set_set_add [simp]: "set (set_add x xs) = insert x (set xs)"
  by (auto simp: set_add_def)

lemma distinct_set_add [simp]: "distinct xs \<Longrightarrow> distinct (set_add x xs)"
  by (simp add: set_add_def)

lemma length_set_add: "length (set_add x xs) = (if x \<in> set xs then length xs else Suc (length xs))"
  by (simp add: set_add_def)

lemma set_set_add_all [simp]: "set (set_add_all xs s) = set s \<union> set xs"
  by (induction xs arbitrary: s) (auto simp: set_add_all_def)

lemma distinct_set_add_all [simp]: "distinct s \<Longrightarrow> distinct (set_add_all xs s)"
  by (induction xs arbitrary: s) (auto simp: set_add_all_def)

lemma set_to_jsset [simp]: "set (to_jsset xs) = set xs"
  by (simp add: to_jsset_def)

lemma distinct_to_jsset [simp]: "distinct (to_jsset xs)"
  by (simp add: to_jsset_def)

text \<open>What the components use of a keyed store: lookup after a write, the key list and the frame.\<close>

locale keyed_store =
  fixes empty :: "'m"
    and get :: "'m \<Rightarrow> 'k \<Rightarrow> 'v option"
    and put :: "'k \<Rightarrow> 'v \<Rightarrow> 'm \<Rightarrow> 'm"
    and keys :: "'m \<Rightarrow> 'k list"
    and invar :: "'m \<Rightarrow> bool"
  assumes get_empty: "get empty k = None"
    and get_put: "invar m \<Longrightarrow> get (put k v m) k' = (if k' = k then Some v else get m k')"
    and keys_get: "invar m \<Longrightarrow> k \<in> set (keys m) \<longleftrightarrow> get m k \<noteq> None"
    and invar_empty: "invar empty"
    and invar_put: "invar m \<Longrightarrow> invar (put k v m)"
    and invar_distinct: "invar m \<Longrightarrow> distinct (keys m)"
begin

definition put_all :: "('k \<times> 'v) list \<Rightarrow> 'm \<Rightarrow> 'm" where
  "put_all kvs m = foldl (\<lambda>m (k, v). put k v m) m kvs"

lemma put_all_Nil [simp]: "put_all [] m = m"
  by (simp add: put_all_def)

lemma put_all_Cons [simp]: "put_all ((k, v) # kvs) m = put_all kvs (put k v m)"
  by (simp add: put_all_def)

lemma invar_put_all: "invar m \<Longrightarrow> invar (put_all kvs m)"
  by (induction kvs arbitrary: m) (auto simp: invar_put)

lemma get_put_all:
  "invar m \<Longrightarrow> get (put_all kvs m) k' =
     (case map_of (rev kvs) k' of Some v \<Rightarrow> Some v | None \<Rightarrow> get m k')"
proof (induction kvs arbitrary: m)
  case Nil
  then show ?case by simp
next
  case (Cons kv kvs)
  obtain k v where kv: "kv = (k, v)" by (cases kv)
  from Cons.prems have "invar (put k v m)" by (rule invar_put)
  from Cons.IH [OF this] Cons.prems kv show ?case
    by (auto simp: get_put map_add_def split: option.splits)
qed

lemma put_all_keys: "invar m \<Longrightarrow> set (keys (put_all kvs m)) = set (keys m) \<union> fst ` set kvs"
proof (induction kvs arbitrary: m)
  case Nil
  then show ?case by simp
next
  case (Cons kv kvs)
  obtain k v where kv: "kv = (k, v)" by (cases kv)
  have "set (keys (put k v m)) = insert k (set (keys m))"
    using Cons.prems by (auto simp: keys_get get_put invar_put split: if_splits)
  with Cons.IH [OF invar_put [OF Cons.prems]] kv show ?case by auto
qed

end

interpretation jsmap: keyed_store "[] :: ('k, 'v) jsmap" map_get map_set map_keys
  "\<lambda>m. distinct (map fst m)"
  by unfold_locales (auto simp: map_keys_def map_of_eq_None_iff distinct_update)

section \<open>Lists\<close>

definition last_opt :: "'a list \<Rightarrow> 'a option" where
  "last_opt xs = (if xs = [] then None else Some (last xs))"

definition nth_opt :: "'a list \<Rightarrow> nat \<Rightarrow> 'a option" where
  "nth_opt xs i = (if i < length xs then Some (xs ! i) else None)"

lemma nth_opt_Some [simp]: "nth_opt xs i = Some x \<longleftrightarrow> i < length xs \<and> xs ! i = x"
  by (simp add: nth_opt_def)

lemma last_opt_append [simp]: "last_opt (xs @ [x]) = Some x"
  by (simp add: last_opt_def)

text \<open>The index of the first element satisfying a predicate.\<close>

fun find_index :: "('a \<Rightarrow> bool) \<Rightarrow> 'a list \<Rightarrow> nat option" where
  "find_index P [] = None"
| "find_index P (x # xs) = (if P x then Some 0 else map_option Suc (find_index P xs))"

lemma find_index_Some: "find_index P xs = Some i \<Longrightarrow> i < length xs \<and> P (xs ! i)"
  by (induction xs arbitrary: i) (auto split: if_splits)

lemma find_index_None: "find_index P xs = None \<longleftrightarrow> (\<forall>x \<in> set xs. \<not> P x)"
  by (induction xs) auto

lemma find_SomeD: "find P xs = Some x \<Longrightarrow> x \<in> set xs \<and> P x"
  by (auto simp: find_Some_iff)

lemma partition_lengths: "length (filter P xs) + length (filter (\<lambda>x. \<not> P x) xs) = length xs"
  by (induction xs) auto

lemma find_append:
  "find P (xs @ ys) = (case find P xs of Some x \<Rightarrow> Some x | None \<Rightarrow> find P ys)"
  by (induction xs) auto

text \<open>The first value whose key already occurred, as \<open>firstDuplicate\<close> scans for it.\<close>

fun first_repeat :: "('a \<Rightarrow> 'k) \<Rightarrow> 'k list \<Rightarrow> 'a list \<Rightarrow> 'a option" where
  "first_repeat f seen [] = None"
| "first_repeat f seen (x # xs) =
     (if f x \<in> set seen then Some x else first_repeat f (f x # seen) xs)"

lemma first_repeat_None:
  "first_repeat f seen xs = None \<longleftrightarrow> distinct (map f xs) \<and> set seen \<inter> f ` set xs = {}"
  by (induction xs arbitrary: seen) auto

lemma first_repeat_Some: "first_repeat f seen xs = Some x \<Longrightarrow> x \<in> set xs"
  by (induction xs arbitrary: seen) (auto split: if_splits)

end
