(* ===== verification/AgentBudget.thy ===== *)
theory AgentBudget
  imports Prelude Complex_Main
begin

text \<open>
  The run-scoped budget accountant of agentic tool use, \<open>BudgetTracker\<close> of
  \<open>packages/agent/src/runtime/budget.ts\<close>. The tracker's private fields are the record
  \<open>tracker\<close>; each method is a function from the tracker to the new tracker and, where the code
  returns a \<open>Result\<close>, the decision. The injected clock is an argument: a method that reads
  \<open>this.now()\<close> takes the reading. Clock readings and byte counts are integers; the soft fraction
  is a rational and products with it are exact (the code computes them in doubles). A wall clock of
  \<open>Number.POSITIVE_INFINITY\<close> is \<open>Unbounded\<close>.
\<close>

section \<open>Limits and decisions\<close>

datatype wall_clock = Bounded nat | Unbounded

datatype budget_limit =
    Wall_clock | Wall_clock_soft | Stalled | Cumulative_bytes | Navigations | Hosts
  | Capture_count | Capture_pixels | Capture_bytes | Capture_mime
  | Deliverable_capture_count | Deliverable_capture_bytes | Deliverable_capture_pixels

record budget_decision =
  bd_limit :: budget_limit
  bd_message :: jstext
  bd_carries_publish_remedy :: bool

record budget_limits =
  wall_clock_ms :: wall_clock
  soft_wall_clock_fraction :: rat
  per_tool_timeout_ms :: nat
  max_bytes_per_result :: nat
  max_bytes_per_run :: nat
  max_navigations :: nat
  max_hosts :: nat
  max_captures :: nat
  max_capture_pixels :: nat
  max_capture_bytes :: nat
  max_deliverable_captures :: nat
  max_deliverable_parts_per_call :: nat
  max_deliverable_tile_width :: nat
  max_deliverable_tile_height :: nat
  max_deliverable_file_bytes :: nat
  max_deliverable_bytes_per_run :: nat

definition DEFAULT_BUDGET_LIMITS :: budget_limits where
  "DEFAULT_BUDGET_LIMITS = \<lparr>
     wall_clock_ms = Bounded (15 * 60 * 1000),
     soft_wall_clock_fraction = 4 / 5,
     per_tool_timeout_ms = 45 * 1000,
     max_bytes_per_result = 24 * 1024,
     max_bytes_per_run = 512 * 1024,
     max_navigations = 30,
     max_hosts = 20,
     max_captures = 3,
     max_capture_pixels = 1600 * 1200,
     max_capture_bytes = 5 * 1024 * 1024,
     max_deliverable_captures = 4,
     max_deliverable_parts_per_call = 6,
     max_deliverable_tile_width = 1920,
     max_deliverable_tile_height = 4096,
     max_deliverable_file_bytes = 8 * 1024 * 1024,
     max_deliverable_bytes_per_run = 40 * 1024 * 1024 \<rparr>"

record call_options =
  co_terminal :: bool
  co_wind_down_exempt :: bool

definition no_options :: call_options where
  "no_options = \<lparr> co_terminal = False, co_wind_down_exempt = False \<rparr>"

text \<open>
  A measurement arrives as \<open>unknown\<close>: a number (finite or not), a string, or something else.
\<close>

datatype unknown = UNumber rat | UNonFinite | UString jstext | UOther

record capture_measurement =
  cm_mime_type :: unknown
  cm_width :: unknown
  cm_height :: unknown
  cm_bytes :: unknown

record deliverable_measurement =
  dm_width :: unknown
  dm_height :: unknown
  dm_bytes :: unknown

record tracker =
  bt_limits :: budget_limits
  bt_started_at :: int
  bt_per_tool_counts :: "(jstext, nat) jsmap"
  bt_seen_hosts :: "jstext jsset"
  bt_total_calls :: nat
  bt_cumulative_bytes :: int
  bt_navigations :: nat
  bt_capture_count :: nat
  bt_capture_pixels :: int
  bt_capture_bytes :: int
  bt_deliverable_capture_count :: nat
  bt_deliverable_capture_bytes :: int
  bt_soft_wind_down :: bool
  bt_frozen :: bool
  bt_frozen_refusals :: nat

definition new_tracker :: "budget_limits \<Rightarrow> int \<Rightarrow> tracker" where
  "new_tracker limits now = \<lparr> bt_limits = limits, bt_started_at = now, bt_per_tool_counts = [],
     bt_seen_hosts = [], bt_total_calls = 0, bt_cumulative_bytes = 0, bt_navigations = 0,
     bt_capture_count = 0, bt_capture_pixels = 0, bt_capture_bytes = 0,
     bt_deliverable_capture_count = 0, bt_deliverable_capture_bytes = 0,
     bt_soft_wind_down = False, bt_frozen = False, bt_frozen_refusals = 0 \<rparr>"

section \<open>Messages\<close>

definition show_wall :: "wall_clock \<Rightarrow> jstext" where
  "show_wall w = (case w of Bounded n \<Rightarrow> show_nat n | Unbounded \<Rightarrow> ''Infinity'')"

definition is_word_char :: "char \<Rightarrow> bool" where
  "is_word_char c \<longleftrightarrow> is_alnum c \<or> c = CHR ''_''"

text \<open>\<open>PUBLISH_REMEDY_RE\<close>, \<open>/\bpublish\b/i\<close>: one of the message's words is "publish".\<close>

definition mentions_publish :: "jstext \<Rightarrow> bool" where
  "mentions_publish s \<longleftrightarrow>
     ''publish'' \<in> set (split_on CHR '' '' (replace_runs (\<lambda>c. \<not> is_word_char c) (to_lower s)))"

text \<open>The \<open>middleware\<close>/\<open>BUDGET_EXHAUSTED\<close>/\<open>stalled\<close> entry of the message catalog.\<close>

definition stalled_message :: jstext where
  "stalled_message = ''No task progress after the recovery message. Exploration is closed for this run: call result_publish now, and list each unmet requirement with its reason.''"

definition decide :: "budget_limit \<Rightarrow> jstext \<Rightarrow> budget_decision" where
  "decide limit message = \<lparr> bd_limit = limit, bd_message = message,
     bd_carries_publish_remedy = (limit = Stalled \<or> mentions_publish message) \<rparr>"

section \<open>Clock\<close>

definition elapsed :: "int \<Rightarrow> tracker \<Rightarrow> int" where
  "elapsed now t = now - bt_started_at t"

definition is_wall_clock_exhausted :: "int \<Rightarrow> tracker \<Rightarrow> bool" where
  "is_wall_clock_exhausted now t = (case wall_clock_ms (bt_limits t) of
     Bounded w \<Rightarrow> int w \<le> elapsed now t | Unbounded \<Rightarrow> False)"

definition is_soft_wall_clock_exhausted :: "int \<Rightarrow> tracker \<Rightarrow> bool" where
  "is_soft_wall_clock_exhausted now t = (case wall_clock_ms (bt_limits t) of
     Bounded w \<Rightarrow> of_nat w * soft_wall_clock_fraction (bt_limits t) \<le> of_int (elapsed now t)
   | Unbounded \<Rightarrow> False)"

definition remaining_wall_clock_ms :: "int \<Rightarrow> tracker \<Rightarrow> int option" where
  \<comment> \<open>None stands for \<open>Number.POSITIVE_INFINITY\<close>\<close>
  "remaining_wall_clock_ms now t = (case wall_clock_ms (bt_limits t) of
     Bounded w \<Rightarrow> Some (max 0 (int w - elapsed now t)) | Unbounded \<Rightarrow> None)"

definition exploration_remaining_ms :: "int \<Rightarrow> tracker \<Rightarrow> rat option" where
  "exploration_remaining_ms now t = (case wall_clock_ms (bt_limits t) of
     Bounded w \<Rightarrow>
       Some (max 0 (of_nat w * soft_wall_clock_fraction (bt_limits t) - of_int (elapsed now t)))
   | Unbounded \<Rightarrow> None)"

text \<open>\<open>Math.round\<close> rounds halves up.\<close>

definition publication_headroom_ms :: "tracker \<Rightarrow> int option" where
  "publication_headroom_ms t = (case wall_clock_ms (bt_limits t) of
     Bounded w \<Rightarrow> Some \<lfloor>of_nat w * (1 - soft_wall_clock_fraction (bt_limits t)) + 1 / 2\<rfloor>
   | Unbounded \<Rightarrow> None)"

section \<open>Operations\<close>

definition freeze_exploration :: "tracker \<Rightarrow> tracker" where
  "freeze_exploration t = t\<lparr>bt_frozen := True\<rparr>"

definition clear_progress_freeze :: "tracker \<Rightarrow> tracker" where
  "clear_progress_freeze t = t\<lparr>bt_frozen := False\<rparr>"

definition MAX_SAFE_INTEGER :: rat where
  "MAX_SAFE_INTEGER = 9007199254740991"

definition is_safe_integer :: "rat \<Rightarrow> bool" where
  "is_safe_integer r \<longleftrightarrow> of_int \<lfloor>r\<rfloor> = r \<and> \<bar>r\<bar> \<le> MAX_SAFE_INTEGER"

text \<open>\<open>validNonnegativeInteger\<close>: the narrowed value when the measurement is one.\<close>

definition valid_nonneg_int :: "unknown \<Rightarrow> int option" where
  "valid_nonneg_int v = (case v of
     UNumber r \<Rightarrow> if is_safe_integer r \<and> 0 \<le> r then Some \<lfloor>r\<rfloor> else None | _ \<Rightarrow> None)"

definition remaining_captures :: "tracker \<Rightarrow> nat" where
  "remaining_captures t = max_captures (bt_limits t) - bt_capture_count t"

definition reserve_capture :: "tracker \<Rightarrow> tracker \<times> (budget_decision, unit) result" where
  "reserve_capture t =
     (if max_captures (bt_limits t) \<le> bt_capture_count t
      then (t, Err (decide Capture_count (''Capture count budget of '' @
              show_nat (max_captures (bt_limits t)) @ '' screenshots is exhausted.'')))
      else (t\<lparr>bt_capture_count := Suc (bt_capture_count t)\<rparr>, Ok ()))"

text \<open>The guards of \<open>accountCaptureBytes\<close>: the pixels and bytes to account, or the refusal.\<close>

definition measure_capture ::
  "budget_limits \<Rightarrow> capture_measurement \<Rightarrow> (budget_decision, int \<times> int) result" where
  "measure_capture l m =
     (if cm_mime_type m \<noteq> UString ''image/png''
      then Err (decide Capture_mime ''Capture encoding must be image/png.'')
      else case (valid_nonneg_int (cm_width m), valid_nonneg_int (cm_height m)) of
        (Some w, Some h) \<Rightarrow>
          (if w = 0 \<or> h = 0
           then Err (decide Capture_pixels ''Capture dimensions must be positive.'')
           else if 1600 < w \<or> 1200 < h \<or> \<not> is_safe_integer (of_int (w * h)) \<or>
                   int (max_capture_pixels l) < w * h
           then Err (decide Capture_pixels (''Capture pixel budget of '' @
                   show_nat (max_capture_pixels l) @ '' pixels was exceeded.''))
           else case valid_nonneg_int (cm_bytes m) of
             None \<Rightarrow> Err (decide Capture_bytes ''Capture byte count is missing or invalid.'')
           | Some b \<Rightarrow>
               (if int (max_capture_bytes l) < b
                then Err (decide Capture_bytes (''Capture byte budget of '' @
                        show_nat (max_capture_bytes l) @ '' bytes was exceeded.''))
                else Ok (w * h, b)))
      | _ \<Rightarrow> Err (decide Capture_pixels ''Capture dimensions are missing or invalid.''))"

definition account_capture_bytes ::
  "capture_measurement \<Rightarrow> tracker \<Rightarrow> tracker \<times> (budget_decision, unit) result" where
  "account_capture_bytes m t =
     (case measure_capture (bt_limits t) m of
        Inl d \<Rightarrow> (t, Err d)
      | Inr (pixels, bytes) \<Rightarrow>
          (t\<lparr>bt_capture_pixels := bt_capture_pixels t + pixels,
             bt_capture_bytes := bt_capture_bytes t + bytes\<rparr>, Ok ()))"

definition remaining_deliverable_captures :: "tracker \<Rightarrow> nat" where
  "remaining_deliverable_captures t =
     max_deliverable_captures (bt_limits t) - bt_deliverable_capture_count t"

definition reserve_deliverable_capture ::
  "tracker \<Rightarrow> tracker \<times> (budget_decision, nat) result" where
  "reserve_deliverable_capture t =
     (if max_deliverable_captures (bt_limits t) \<le> bt_deliverable_capture_count t
      then (t, Err (decide Deliverable_capture_count (''The saved-screenshot budget of '' @
              show_nat (max_deliverable_captures (bt_limits t)) @ '' captures for this run is spent. Publish with the captures already saved.'')))
      else (t\<lparr>bt_deliverable_capture_count := Suc (bt_deliverable_capture_count t)\<rparr>,
            Ok (Suc (bt_deliverable_capture_count t))))"

text \<open>The loop over one call's files: the first file over a limit, else the byte total.\<close>

fun check_deliverable_files ::
  "budget_limits \<Rightarrow> deliverable_measurement list \<Rightarrow> int \<Rightarrow> (budget_decision, int) result" where
  "check_deliverable_files l [] acc = Ok acc"
| "check_deliverable_files l (f # fs) acc =
     (case (valid_nonneg_int (dm_width f), valid_nonneg_int (dm_height f)) of
        (Some w, Some h) \<Rightarrow>
          (if w = 0 \<or> h = 0 \<or> int (max_deliverable_tile_width l) < w \<or>
              int (max_deliverable_tile_height l) < h
           then Err (decide Deliverable_capture_pixels (''A saved capture file exceeded the '' @
                  show_nat (max_deliverable_tile_width l) @ '' by '' @
                  show_nat (max_deliverable_tile_height l) @ '' pixel limit.''))
           else case valid_nonneg_int (dm_bytes f) of
             Some b \<Rightarrow>
               (if int (max_deliverable_file_bytes l) < b
                then Err (decide Deliverable_capture_bytes (''A saved capture file exceeded the '' @
                       show_nat (max_deliverable_file_bytes l) @ '' byte limit.''))
                else check_deliverable_files l fs (acc + b))
           | None \<Rightarrow> Err (decide Deliverable_capture_bytes (''A saved capture file exceeded the '' @
                       show_nat (max_deliverable_file_bytes l) @ '' byte limit.'')))
      | _ \<Rightarrow> Err (decide Deliverable_capture_pixels (''A saved capture file exceeded the '' @
                  show_nat (max_deliverable_tile_width l) @ '' by '' @
                  show_nat (max_deliverable_tile_height l) @ '' pixel limit.'')))"

definition measure_deliverable ::
  "budget_limits \<Rightarrow> int \<Rightarrow> deliverable_measurement list \<Rightarrow> (budget_decision, int) result" where
  "measure_deliverable l used files =
     (if files = [] \<or> max_deliverable_parts_per_call l < length files
      then Err (decide Deliverable_capture_pixels (''A saved capture holds 1 to '' @
              show_nat (max_deliverable_parts_per_call l) @ '' files; this one had '' @
              show_nat (length files) @ ''.''))
      else case check_deliverable_files l files 0 of
        Inl d \<Rightarrow> Err d
      | Inr sum_bytes \<Rightarrow>
          (if int (max_deliverable_bytes_per_run l) < used + sum_bytes
           then Err (decide Deliverable_capture_bytes (''Saved captures would exceed the run's '' @
                   show_nat (max_deliverable_bytes_per_run l) @ '' byte limit. Publish with the captures already saved.''))
           else Ok sum_bytes))"

definition account_deliverable_bytes ::
  "deliverable_measurement list \<Rightarrow> tracker \<Rightarrow> tracker \<times> (budget_decision, unit) result" where
  "account_deliverable_bytes files t =
     (case measure_deliverable (bt_limits t) (bt_deliverable_capture_bytes t) files of
        Inl d \<Rightarrow> (t, Err d)
      | Inr sum_bytes \<Rightarrow>
          (t\<lparr>bt_deliverable_capture_bytes := bt_deliverable_capture_bytes t + sum_bytes\<rparr>, Ok ()))"

definition bytes_exhausted_message :: "budget_limits \<Rightarrow> jstext" where
  "bytes_exhausted_message l = ''Cumulative agent-visible byte budget of '' @
     show_nat (max_bytes_per_run l) @ '' bytes is exhausted.''"

definition count_of :: "jstext \<Rightarrow> tracker \<Rightarrow> nat" where
  "count_of tool t = (case map_get (bt_per_tool_counts t) tool of None \<Rightarrow> 0 | Some n \<Rightarrow> n)"

definition reserve_call ::
  "jstext \<Rightarrow> call_options \<Rightarrow> int \<Rightarrow> tracker \<Rightarrow> tracker \<times> (budget_decision, unit) result" where
  "reserve_call tool opts now t =
     (if is_wall_clock_exhausted now t
      then (t, Err (decide Wall_clock (''Run wall-clock budget of '' @
              show_wall (wall_clock_ms (bt_limits t)) @ ''ms is exhausted.'')))
      else if bt_frozen t \<and> \<not> co_terminal opts \<and> \<not> co_wind_down_exempt opts
      then (t\<lparr>bt_frozen_refusals := Suc (bt_frozen_refusals t)\<rparr>,
            Err (decide Stalled stalled_message))
      else
        let past = is_soft_wall_clock_exhausted now t;
            t = (if past then t\<lparr>bt_soft_wind_down := True\<rparr> else t)
        in if \<not> co_terminal opts \<and> \<not> co_wind_down_exempt opts \<and> past
           then (t, Err (decide Wall_clock_soft ''The run is out of exploration time. Publish now using the evidence already gathered.''))
           else if \<not> co_terminal opts \<and> int (max_bytes_per_run (bt_limits t)) \<le> bt_cumulative_bytes t
           then (t, Err (decide Cumulative_bytes (bytes_exhausted_message (bt_limits t))))
           else (t\<lparr>bt_total_calls := Suc (bt_total_calls t),
                   bt_per_tool_counts :=
                     map_set tool (Suc (count_of tool t)) (bt_per_tool_counts t)\<rparr>, Ok ()))"

definition account_result_bytes ::
  "int \<Rightarrow> call_options \<Rightarrow> tracker \<Rightarrow> tracker \<times> (budget_decision, unit) result" where
  "account_result_bytes bytes opts t =
     (let t = t\<lparr>bt_cumulative_bytes := bt_cumulative_bytes t + max 0 bytes\<rparr> in
      if \<not> co_terminal opts \<and> int (max_bytes_per_run (bt_limits t)) < bt_cumulative_bytes t
      then (t, Err (decide Cumulative_bytes (bytes_exhausted_message (bt_limits t))))
      else (t, Ok ()))"

definition reserve_navigation ::
  "jstext \<Rightarrow> tracker \<Rightarrow> tracker \<times> (budget_decision, unit) result" where
  "reserve_navigation host t =
     (if max_navigations (bt_limits t) \<le> bt_navigations t
      then (t, Err (decide Navigations (''Navigation budget of '' @
              show_nat (max_navigations (bt_limits t)) @ '' navigations is exhausted.'')))
      else if host \<notin> set (bt_seen_hosts t) \<and> max_hosts (bt_limits t) \<le> length (bt_seen_hosts t)
      then (t, Err (decide Hosts (''Distinct-host budget of '' @
              show_nat (max_hosts (bt_limits t)) @ '' hosts is exhausted.'')))
      else (t\<lparr>bt_navigations := Suc (bt_navigations t),
              bt_seen_hosts := set_add host (bt_seen_hosts t)\<rparr>, Ok ()))"

record budget_snapshot =
  bs_elapsed_ms :: int
  bs_total_calls :: nat
  bs_per_tool_calls :: "(jstext, nat) jsmap"
  bs_cumulative_bytes :: int
  bs_navigations :: nat
  bs_hosts :: nat
  bs_capture_count :: nat
  bs_capture_pixels :: int
  bs_capture_bytes :: int
  bs_deliverable_capture_count :: nat
  bs_deliverable_capture_bytes :: int

definition budget_snapshot_of :: "int \<Rightarrow> tracker \<Rightarrow> budget_snapshot" where
  "budget_snapshot_of now t = \<lparr> bs_elapsed_ms = elapsed now t, bs_total_calls = bt_total_calls t,
     bs_per_tool_calls = bt_per_tool_counts t, bs_cumulative_bytes = bt_cumulative_bytes t,
     bs_navigations = bt_navigations t, bs_hosts = length (bt_seen_hosts t),
     bs_capture_count = bt_capture_count t, bs_capture_pixels = bt_capture_pixels t,
     bs_capture_bytes = bt_capture_bytes t,
     bs_deliverable_capture_count = bt_deliverable_capture_count t,
     bs_deliverable_capture_bytes = bt_deliverable_capture_bytes t \<rparr>"

section \<open>Runs of the accountant\<close>

text \<open>
  One operation of the tracker as its callers issue it, with the clock reading where the method
  takes one. A run is a list of operations applied in order; the decisions are dropped.
\<close>

datatype budget_op =
    Op_call jstext call_options int
  | Op_result int call_options
  | Op_navigation jstext
  | Op_capture
  | Op_capture_bytes capture_measurement
  | Op_deliverable
  | Op_deliverable_bytes "deliverable_measurement list"
  | Op_freeze
  | Op_clear

fun budget_step :: "tracker \<Rightarrow> budget_op \<Rightarrow> tracker" where
  "budget_step t (Op_call tool opts now) = fst (reserve_call tool opts now t)"
| "budget_step t (Op_result bytes opts) = fst (account_result_bytes bytes opts t)"
| "budget_step t (Op_navigation host) = fst (reserve_navigation host t)"
| "budget_step t Op_capture = fst (reserve_capture t)"
| "budget_step t (Op_capture_bytes m) = fst (account_capture_bytes m t)"
| "budget_step t Op_deliverable = fst (reserve_deliverable_capture t)"
| "budget_step t (Op_deliverable_bytes fs) = fst (account_deliverable_bytes fs t)"
| "budget_step t Op_freeze = freeze_exploration t"
| "budget_step t Op_clear = clear_progress_freeze t"

definition budget_run :: "tracker \<Rightarrow> budget_op list \<Rightarrow> tracker" where
  "budget_run t ops = foldl budget_step t ops"

definition budget_inv :: "tracker \<Rightarrow> bool" where
  "budget_inv t \<longleftrightarrow>
     bt_navigations t \<le> max_navigations (bt_limits t) \<and>
     distinct (bt_seen_hosts t) \<and>
     length (bt_seen_hosts t) \<le> max_hosts (bt_limits t) \<and>
     length (bt_seen_hosts t) \<le> bt_navigations t \<and>
     bt_capture_count t \<le> max_captures (bt_limits t) \<and>
     bt_deliverable_capture_count t \<le> max_deliverable_captures (bt_limits t) \<and>
     0 \<le> bt_deliverable_capture_bytes t \<and>
     bt_deliverable_capture_bytes t \<le> int (max_deliverable_bytes_per_run (bt_limits t)) \<and>
     0 \<le> bt_cumulative_bytes t \<and>
     distinct (map fst (bt_per_tool_counts t)) \<and>
     sum_list (map snd (bt_per_tool_counts t)) = bt_total_calls t"

lemmas budget_op_defs = reserve_call_def account_result_bytes_def reserve_navigation_def
  reserve_capture_def account_capture_bytes_def reserve_deliverable_capture_def
  account_deliverable_bytes_def freeze_exploration_def clear_progress_freeze_def

lemmas budget_splits = if_splits option.splits sum.splits

subsection \<open>Frames\<close>

lemma reserve_call_frame [frame_simps]:
  "bt_limits (fst (reserve_call tool opts now t)) = bt_limits t"
  "bt_started_at (fst (reserve_call tool opts now t)) = bt_started_at t"
  "bt_cumulative_bytes (fst (reserve_call tool opts now t)) = bt_cumulative_bytes t"
  "bt_seen_hosts (fst (reserve_call tool opts now t)) = bt_seen_hosts t"
  "bt_navigations (fst (reserve_call tool opts now t)) = bt_navigations t"
  by (auto simp: reserve_call_def Let_def)

lemma account_result_frame [frame_simps]:
  "bt_limits (fst (account_result_bytes b opts t)) = bt_limits t"
  "bt_started_at (fst (account_result_bytes b opts t)) = bt_started_at t"
  "bt_cumulative_bytes (fst (account_result_bytes b opts t)) = bt_cumulative_bytes t + max 0 b"
  by (auto simp: account_result_bytes_def Let_def)

lemma reserve_navigation_frame [frame_simps]:
  "bt_limits (fst (reserve_navigation h t)) = bt_limits t"
  "bt_started_at (fst (reserve_navigation h t)) = bt_started_at t"
  "bt_cumulative_bytes (fst (reserve_navigation h t)) = bt_cumulative_bytes t"
  by (auto simp: reserve_navigation_def)

lemma capture_frame [frame_simps]:
  "bt_limits (fst (reserve_capture t)) = bt_limits t"
  "bt_started_at (fst (reserve_capture t)) = bt_started_at t"
  "bt_cumulative_bytes (fst (reserve_capture t)) = bt_cumulative_bytes t"
  "bt_limits (fst (reserve_deliverable_capture t)) = bt_limits t"
  "bt_started_at (fst (reserve_deliverable_capture t)) = bt_started_at t"
  "bt_cumulative_bytes (fst (reserve_deliverable_capture t)) = bt_cumulative_bytes t"
  by (auto simp: reserve_capture_def reserve_deliverable_capture_def)

lemma account_frame [frame_simps]:
  "bt_limits (fst (account_capture_bytes m t)) = bt_limits t"
  "bt_started_at (fst (account_capture_bytes m t)) = bt_started_at t"
  "bt_cumulative_bytes (fst (account_capture_bytes m t)) = bt_cumulative_bytes t"
  "bt_limits (fst (account_deliverable_bytes fs t)) = bt_limits t"
  "bt_started_at (fst (account_deliverable_bytes fs t)) = bt_started_at t"
  "bt_cumulative_bytes (fst (account_deliverable_bytes fs t)) = bt_cumulative_bytes t"
  by (simp_all add: account_capture_bytes_def account_deliverable_bytes_def split: sum.split)

lemma budget_step_frame [frame_simps]:
  "bt_limits (budget_step t op) = bt_limits t"
  "bt_started_at (budget_step t op) = bt_started_at t"
  "bt_cumulative_bytes t \<le> bt_cumulative_bytes (budget_step t op)"
  by (cases op; simp add: frame_simps freeze_exploration_def clear_progress_freeze_def)+

lemma budget_run_frame [frame_simps]:
  "bt_limits (budget_run t ops) = bt_limits t"
  "bt_started_at (budget_run t ops) = bt_started_at t"
  by (induction ops arbitrary: t) (simp_all add: budget_run_def frame_simps)

subsection \<open>The invariant\<close>

lemma check_deliverable_files_nonneg:
  "check_deliverable_files l fs acc = Ok n \<Longrightarrow> acc \<le> n"
proof (induction fs arbitrary: acc)
  case Nil
  then show ?case by simp
next
  case (Cons f fs)
  from Cons.prems obtain b where
    b: "valid_nonneg_int (dm_bytes f) = Some b" "check_deliverable_files l fs (acc + b) = Ok n"
    by (auto split: option.splits if_splits)
  then have "0 \<le> b"
    by (auto simp: valid_nonneg_int_def split: unknown.splits if_splits)
  with Cons.IH [OF b(2)] show ?case by simp
qed

lemma measure_deliverable_Ok:
  assumes "measure_deliverable l used files = Ok n"
  shows "0 \<le> n \<and> used + n \<le> int (max_deliverable_bytes_per_run l) \<and>
    files \<noteq> [] \<and> length files \<le> max_deliverable_parts_per_call l"
  using assms check_deliverable_files_nonneg [of l files 0 n]
  by (auto simp: measure_deliverable_def split: if_splits sum.splits)

lemma sum_update_count:
  "distinct (map fst m) \<Longrightarrow>
   sum_list (map snd (map_set k (Suc (case map_get m k of None \<Rightarrow> 0 | Some n \<Rightarrow> n)) m)) =
     Suc (sum_list (map snd m))"
  by (induction m) (auto simp: map_of_eq_None_iff split: option.splits)

lemma reserve_call_inv: "budget_inv t \<Longrightarrow> budget_inv (fst (reserve_call tool opts now t))"
  by (simp add: budget_inv_def reserve_call_def Let_def count_of_def sum_update_count distinct_update)

lemma account_result_inv: "budget_inv t \<Longrightarrow> budget_inv (fst (account_result_bytes b opts t))"
  by (simp add: budget_inv_def account_result_bytes_def Let_def)

lemma reserve_navigation_inv: "budget_inv t \<Longrightarrow> budget_inv (fst (reserve_navigation h t))"
  by (auto simp: budget_inv_def reserve_navigation_def length_set_add)

lemma captures_inv:
  assumes "budget_inv t"
  shows "budget_inv (fst (reserve_capture t))" "budget_inv (fst (reserve_deliverable_capture t))"
    "budget_inv (fst (account_capture_bytes m t))" "budget_inv (fst (account_deliverable_bytes fs t))"
  using assms
  by (auto simp: budget_inv_def reserve_capture_def reserve_deliverable_capture_def
      account_capture_bytes_def account_deliverable_bytes_def split: sum.split
      dest!: measure_deliverable_Ok)

lemma budget_step_inv: "budget_inv t \<Longrightarrow> budget_inv (budget_step t op)"
  by (cases op)
    (simp_all add: reserve_call_inv account_result_inv reserve_navigation_inv captures_inv
      freeze_exploration_def clear_progress_freeze_def, simp_all add: budget_inv_def)

lemma new_tracker_inv: "budget_inv (new_tracker l now)"
  by (simp add: budget_inv_def new_tracker_def)

lemma budget_run_snoc [simp]: "budget_run t (ops @ [op]) = budget_step (budget_run t ops) op"
  by (simp add: budget_run_def)

lemma budget_run_Nil [simp]: "budget_run t [] = t"
  by (simp add: budget_run_def)

lemma budget_run_inv: "budget_inv t \<Longrightarrow> budget_inv (budget_run t ops)"
  by (induction ops rule: rev_induct) (simp_all add: budget_step_inv)

lemma budget_run_bytes_mono: "bt_cumulative_bytes t \<le> bt_cumulative_bytes (budget_run t ops)"
  by (induction ops rule: rev_induct) (simp, simp add: order_trans [OF _ budget_step_frame(3)])

section \<open>Properties\<close>


text \<open>Publication is never starved by exploration: after any sequence of operations, the
  terminal call is accepted exactly when the hard wall clock has not run out, whatever was frozen,
  wound down or drained before.\<close>

theorem terminal_call_accepted_iff:
  "is_ok (snd (reserve_call tool \<lparr>co_terminal = True, co_wind_down_exempt = exempt\<rparr> now
       (budget_run (new_tracker limits start) ops))) \<longleftrightarrow>
   (case wall_clock_ms limits of Bounded w \<Rightarrow> now - start < int w | Unbounded \<Rightarrow> True)"
proof -
  let ?t = "budget_run (new_tracker limits start) ops"
  have "bt_limits ?t = limits" "bt_started_at ?t = start"
    by (simp_all add: frame_simps new_tracker_def)
  then show ?thesis
    by (auto simp: reserve_call_def Let_def is_wall_clock_exhausted_def elapsed_def
        split: wall_clock.splits)
qed

text \<open>A call is fully reserved or nothing is consumed. An accepted call passed every check that
  applies to it and adds one to the total and to its own tool's count only; a refused call leaves
  the totals, the per-tool counts, the hosts, the navigations and the bytes as they were, and names
  the first limit, in the order hard clock, freeze, soft clock, bytes, that it ran into.\<close>

theorem reserve_call_atomic:
  "(case reserve_call tool opts now t of
     (t', Inr u) \<Rightarrow>
       \<not> is_wall_clock_exhausted now t \<and>
       (co_terminal opts \<or> bt_cumulative_bytes t < int (max_bytes_per_run (bt_limits t))) \<and>
       (co_terminal opts \<or> co_wind_down_exempt opts \<or>
          \<not> bt_frozen t \<and> \<not> is_soft_wall_clock_exhausted now t) \<and>
       bt_total_calls t' = Suc (bt_total_calls t) \<and>
       (\<forall>k. count_of k t' = count_of k t + (if k = tool then 1 else 0))
   | (t', Inl d) \<Rightarrow>
       bt_total_calls t' = bt_total_calls t \<and> bt_per_tool_counts t' = bt_per_tool_counts t \<and>
       bt_seen_hosts t' = bt_seen_hosts t \<and> bt_navigations t' = bt_navigations t \<and>
       bt_cumulative_bytes t' = bt_cumulative_bytes t \<and>
       bd_limit d =
         (if is_wall_clock_exhausted now t then Wall_clock
          else if bt_frozen t \<and> \<not> co_wind_down_exempt opts then Stalled
          else if is_soft_wall_clock_exhausted now t \<and> \<not> co_wind_down_exempt opts
          then Wall_clock_soft else Cumulative_bytes))"
  by (auto simp: reserve_call_def Let_def decide_def count_of_def)

text \<open>Exhaustion of the run's visible bytes is final: once a non-terminal result was refused for
  the cumulative cap, every later non-terminal call is refused, whatever happens in between.\<close>

theorem bytes_exhaustion_is_final:
  assumes refused: "account_result_bytes n opts t = (t', Inl d)"
    and exploring: "\<not> co_terminal opts'"
  shows "\<not> is_ok (snd (reserve_call tool opts' now (budget_run t' ops)))"
proof -
  from refused have over: "int (max_bytes_per_run (bt_limits t')) < bt_cumulative_bytes t'"
    by (auto simp: account_result_bytes_def Let_def split: if_splits)
  moreover have "bt_cumulative_bytes t' \<le> bt_cumulative_bytes (budget_run t' ops)"
    by (rule budget_run_bytes_mono)
  ultimately show ?thesis
    using exploring by (auto simp: reserve_call_def Let_def frame_simps)
qed

lemma bytes_exhaustion_is_final_witness:
  "\<not> is_ok (snd (reserve_call ''web_search'' no_options 10
     (budget_run (fst (account_result_bytes 600000 no_options (new_tracker DEFAULT_BUDGET_LIMITS 0)))
       [Op_freeze, Op_clear, Op_result (-5) no_options])))"
proof -
  let ?t = "new_tracker DEFAULT_BUDGET_LIMITS 0"
  have "\<exists>d. account_result_bytes 600000 no_options ?t =
      (fst (account_result_bytes 600000 no_options ?t), Inl d)"
    by (simp add: account_result_bytes_def Let_def no_options_def new_tracker_def
        DEFAULT_BUDGET_LIMITS_def)
  then obtain d where "account_result_bytes 600000 no_options ?t =
      (fst (account_result_bytes 600000 no_options ?t), Inl d)" ..
  from bytes_exhaustion_is_final [OF this, of no_options] show ?thesis
    by (simp add: no_options_def)
qed

end
