(* ===== verification/UrlPolicy.thy ===== *)
theory UrlPolicy
  imports AgentBudget
begin

text \<open>
  The outbound URL policy, class \<open>UrlPolicy\<close> of \<open>packages/agent/src/runtime/url-policy.ts\<close>.
  The platform's \<open>URL\<close> parser is not part of the repository: it is the argument \<open>parse\<close>, which
  answers None where \<open>new URL\<close> throws. The policy's state is the shared budget tracker and the
  list of records given to the audit sink.
\<close>

section \<open>Data\<close>

text \<open>What the code reads of a parsed \<open>URL\<close>.\<close>

record parsed_url =
  pu_hostname :: jstext
  pu_protocol :: jstext
  pu_string :: jstext

type_synonym url_parser = "jstext \<Rightarrow> parsed_url option"

datatype url_policy_code =
    Url_invalid | Url_too_long | Url_insecure | Url_credential_shape | Url_host_not_allowed
  | Url_budget_exhausted | Url_not_from_evidence

record url_rejection =
  ur_code :: url_policy_code
  ur_message :: jstext
  ur_retryable :: bool
  ur_budget_limit :: "budget_limit option"

record allowed_url =
  au_url :: jstext
  au_host :: jstext

datatype url_decision = Allow | Reject url_policy_code

record url_audit_record =
  ua_url :: jstext
  ua_host :: "jstext option"
  ua_decision :: url_decision

record url_policy_config =
  uc_max_url_length :: nat
  uc_require_https :: bool
  uc_allowed_hosts :: "jstext list option"

definition DEFAULT_URL_POLICY_CONFIG :: url_policy_config where
  "DEFAULT_URL_POLICY_CONFIG =
     \<lparr>uc_max_url_length = 2048, uc_require_https = True, uc_allowed_hosts = None\<rparr>"

record policy_state =
  up_budgets :: tracker
  up_audit :: "url_audit_record list"

section \<open>Credential shapes\<close>

text \<open>
  The four patterns, matched at a given position. The open-ended repetitions \<open>{16,}\<close> and
  \<open>{20,}\<close> end the pattern, so the minimum decides.
\<close>

definition repeats :: "nat \<Rightarrow> (char \<Rightarrow> bool) \<Rightarrow> jstext \<Rightarrow> bool" where
  "repeats n P s \<longleftrightarrow> n \<le> length (takeWhile P s)"

definition is_token_char :: "char \<Rightarrow> bool" where
  "is_token_char c \<longleftrightarrow> is_alnum c \<or> c = CHR ''_'' \<or> c = CHR ''-''"

definition sk_key_at :: "jstext \<Rightarrow> bool" where
  "sk_key_at s \<longleftrightarrow> starts_with ''sk-'' s \<and> repeats 16 is_alnum (drop 3 s)"

definition ghp_key_at :: "jstext \<Rightarrow> bool" where
  "ghp_key_at s \<longleftrightarrow> starts_with ''ghp_'' s \<and> repeats 20 is_alnum (drop 4 s)"

definition aws_key_at :: "jstext \<Rightarrow> bool" where
  "aws_key_at s \<longleftrightarrow> starts_with ''AKIA'' s \<and>
     repeats 16 (\<lambda>c. is_upper c \<or> is_digit c) (drop 4 s)"

text \<open>One dotted part of a token: at least one token character, then the dot; answers the rest.\<close>

definition dotted_part :: "jstext \<Rightarrow> jstext option" where
  "dotted_part s =
     (if repeats 1 is_token_char s \<and> starts_with ''.'' (dropWhile is_token_char s)
      then Some (tl (dropWhile is_token_char s)) else None)"

definition jwt_at :: "jstext \<Rightarrow> bool" where
  "jwt_at s \<longleftrightarrow> starts_with ''eyJ'' s \<and>
     (case dotted_part (drop 3 s) of None \<Rightarrow> False
      | Some r \<Rightarrow> (case dotted_part r of None \<Rightarrow> False | Some r' \<Rightarrow> repeats 1 is_token_char r'))"

definition has_credential_shape :: "jstext \<Rightarrow> bool" where
  "has_credential_shape s \<longleftrightarrow>
     matches_somewhere sk_key_at s \<or> matches_somewhere ghp_key_at s \<or>
     matches_somewhere aws_key_at s \<or> matches_somewhere jwt_at s"

section \<open>The checks\<close>

definition host_matches :: "jstext \<Rightarrow> jstext \<Rightarrow> bool" where
  "host_matches host allowed =
     (let normalized = takeWhile (\<lambda>c. c \<noteq> CHR '':'') (to_lower (trim allowed)) in
      0 < length normalized \<and> (host = normalized \<or> ends_with (''.'' @ normalized) host))"

definition url_too_long_message :: "nat \<Rightarrow> jstext" where
  "url_too_long_message n = ''URL exceeds the '' @ show_nat n @ ''-character limit.''"

definition url_scheme_message :: "jstext \<Rightarrow> jstext" where
  "url_scheme_message scheme =
     ''Only http(s) URLs are allowed; got '' @ [CHR 0x22] @ remove1 (CHR '':'') scheme @ [CHR 0x22] @ ''.''"

definition url_host_message :: "jstext \<Rightarrow> jstext" where
  "url_host_message host =
     ''Host '' @ [CHR 0x22] @ host @ [CHR 0x22] @ '' is outside this run's allowed hosts.''"

definition url_rejection_of :: "url_policy_code \<Rightarrow> jstext \<Rightarrow> bool \<Rightarrow> url_rejection" where
  "url_rejection_of c m retry =
     \<lparr>ur_code = c, ur_message = m, ur_retryable = retry, ur_budget_limit = None\<rparr>"

text \<open>\<open>screen\<close> without its audit effect: the rejection with the host it is audited under.\<close>

definition screen_url ::
  "url_parser \<Rightarrow> url_policy_config \<Rightarrow> jstext \<Rightarrow> (jstext option \<times> url_rejection, allowed_url) result" where
  "screen_url parse cfg raw =
     (if uc_max_url_length cfg < length raw
      then Err (None, url_rejection_of Url_too_long (url_too_long_message (uc_max_url_length cfg)) False)
      else case parse raw of
        None \<Rightarrow> Err (None, url_rejection_of Url_invalid ''URL is not a valid absolute URL.'' True)
      | Some u \<Rightarrow>
          let host = to_lower (pu_hostname u);
              scheme = to_lower (pu_protocol u)
          in if scheme \<noteq> ''http:'' \<and> scheme \<noteq> ''https:''
             then Err (Some host, url_rejection_of Url_insecure (url_scheme_message scheme) False)
             else if uc_require_https cfg \<and> scheme \<noteq> ''https:''
             then Err (Some host, url_rejection_of Url_insecure ''Only https URLs are allowed.'' False)
             else if (case uc_allowed_hosts cfg of None \<Rightarrow> False
                      | Some hosts \<Rightarrow> \<not> list_ex (host_matches host) hosts)
             then Err (Some host, url_rejection_of Url_host_not_allowed (url_host_message host) False)
             else if has_credential_shape raw
             then Err (Some host, url_rejection_of Url_credential_shape
                    ''URL contains a credential-shaped substring and was refused.'' False)
             else Ok \<lparr>au_url = pu_string u, au_host = host\<rparr>)"

definition reject_url ::
  "jstext \<Rightarrow> jstext option \<Rightarrow> url_rejection \<Rightarrow> policy_state \<Rightarrow>
     policy_state \<times> (url_rejection, allowed_url) result" where
  "reject_url url host r s =
     (s\<lparr>up_audit := up_audit s @ [\<lparr>ua_url = url, ua_host = host, ua_decision = Reject (ur_code r)\<rparr>]\<rparr>,
      Err r)"

definition audit_allow :: "jstext \<Rightarrow> allowed_url \<Rightarrow> policy_state \<Rightarrow> policy_state" where
  "audit_allow raw a s = s\<lparr>up_audit := up_audit s @
     [\<lparr>ua_url = raw, ua_host = Some (au_host a), ua_decision = Allow\<rparr>]\<rparr>"

definition screen ::
  "url_parser \<Rightarrow> url_policy_config \<Rightarrow> jstext \<Rightarrow> policy_state \<Rightarrow>
     policy_state \<times> (url_rejection, allowed_url) result" where
  "screen parse cfg raw s = (case screen_url parse cfg raw of
     Inl (host, r) \<Rightarrow> reject_url raw host r s
   | Inr a \<Rightarrow> (s, Ok a))"

definition budget_rejection :: "budget_decision \<Rightarrow> url_rejection" where
  "budget_rejection d = \<lparr>ur_code = Url_budget_exhausted, ur_message = bd_message d,
     ur_retryable = False,
     ur_budget_limit = (if bd_limit d = Navigations \<or> bd_limit d = Hosts
                        then Some (bd_limit d) else None)\<rparr>"

definition charge ::
  "allowed_url \<Rightarrow> jstext \<Rightarrow> policy_state \<Rightarrow> policy_state \<times> (url_rejection, allowed_url) result" where
  "charge a audit_url s = (case reserve_navigation (au_host a) (up_budgets s) of
     (t, Inl d) \<Rightarrow> reject_url audit_url (Some (au_host a)) (budget_rejection d) (s\<lparr>up_budgets := t\<rparr>)
   | (t, Inr _) \<Rightarrow> (s\<lparr>up_budgets := t\<rparr>, Ok a))"

definition evaluate_url ::
  "url_parser \<Rightarrow> url_policy_config \<Rightarrow> jstext \<Rightarrow> policy_state \<Rightarrow>
     policy_state \<times> (url_rejection, allowed_url) result" where
  "evaluate_url parse cfg raw s = (case screen parse cfg raw s of
     (s', Inl r) \<Rightarrow> (s', Err r)
   | (s', Inr a) \<Rightarrow> (audit_allow raw a s', Ok a))"

definition reserve_url ::
  "allowed_url \<Rightarrow> policy_state \<Rightarrow> policy_state \<times> (url_rejection, allowed_url) result" where
  "reserve_url a s = charge a (au_url a) s"

definition check_url ::
  "url_parser \<Rightarrow> url_policy_config \<Rightarrow> jstext \<Rightarrow> policy_state \<Rightarrow>
     policy_state \<times> (url_rejection, allowed_url) result" where
  "check_url parse cfg raw s = (case screen parse cfg raw s of
     (s', Inl r) \<Rightarrow> (s', Err r)
   | (s', Inr a) \<Rightarrow> (case charge a raw s' of
        (s'', Inl r) \<Rightarrow> (s'', Err r)
      | (s'', Inr b) \<Rightarrow> (audit_allow raw a s'', Ok b)))"

section \<open>What a screened and a charged URL satisfy\<close>

definition url_permitted :: "url_parser \<Rightarrow> url_policy_config \<Rightarrow> jstext \<Rightarrow> allowed_url \<Rightarrow> bool" where
  "url_permitted parse cfg raw a \<longleftrightarrow>
     length raw \<le> uc_max_url_length cfg \<and> \<not> has_credential_shape raw \<and>
     (case parse raw of None \<Rightarrow> False
      | Some u \<Rightarrow> au_url a = pu_string u \<and> au_host a = to_lower (pu_hostname u) \<and>
          (to_lower (pu_protocol u) = ''https:'' \<or>
           to_lower (pu_protocol u) = ''http:'' \<and> \<not> uc_require_https cfg)) \<and>
     (case uc_allowed_hosts cfg of None \<Rightarrow> True
      | Some hosts \<Rightarrow> \<exists>h \<in> set hosts. host_matches (au_host a) h)"

lemma screen_url_Ok_iff: "screen_url parse cfg raw = Ok a \<longleftrightarrow> url_permitted parse cfg raw a"
  unfolding screen_url_def url_permitted_def Let_def list_ex_iff
  by (auto split: option.splits if_splits)

lemma screen_budgets [simp]: "up_budgets (fst (screen parse cfg raw s)) = up_budgets s"
  by (simp add: screen_def reject_url_def split: sum.split)

lemma screen_Inl:
  "screen parse cfg raw s = (s', Inl r) \<Longrightarrow>
   \<exists>host. up_audit s' =
     up_audit s @ [\<lparr>ua_url = raw, ua_host = host, ua_decision = Reject (ur_code r)\<rparr>] \<and>
     up_budgets s' = up_budgets s"
  by (auto simp: screen_def reject_url_def split: sum.splits)

lemma screen_Inr:
  "screen parse cfg raw s = (s', Inr a) \<longleftrightarrow> s' = s \<and> url_permitted parse cfg raw a"
  by (auto simp: screen_def reject_url_def screen_url_Ok_iff [symmetric] split: sum.splits)

lemma reserve_navigation_cases:
  obtains (refused) d where "reserve_navigation h t = (t, Inl d)"
  | (granted) t' where "reserve_navigation h t = (t', Inr ())"
      "t' = t\<lparr>bt_navigations := Suc (bt_navigations t), bt_seen_hosts := set_add h (bt_seen_hosts t)\<rparr>"
      "bt_navigations t < max_navigations (bt_limits t)"
      "h \<in> set (bt_seen_hosts t) \<or> length (bt_seen_hosts t) < max_hosts (bt_limits t)"
  by (cases "is_ok (snd (reserve_navigation h t))")
    (auto simp: reserve_navigation_def split: if_splits)

lemma charge_Inl:
  "charge a url s = (s', Inl r) \<Longrightarrow>
   up_budgets s' = up_budgets s \<and> ur_code r = Url_budget_exhausted \<and>
   up_audit s' = up_audit s @ [\<lparr>ua_url = url, ua_host = Some (au_host a),
      ua_decision = Reject (ur_code r)\<rparr>]"
  by (cases "au_host a" "up_budgets s" rule: reserve_navigation_cases)
    (auto simp: charge_def reject_url_def budget_rejection_def)

lemma charge_Inr:
  "charge a url s = (s', Inr b) \<Longrightarrow>
   b = a \<and> up_audit s' = up_audit s \<and>
   bt_navigations (up_budgets s') = Suc (bt_navigations (up_budgets s)) \<and>
   bt_seen_hosts (up_budgets s') = set_add (au_host a) (bt_seen_hosts (up_budgets s))"
  by (cases "au_host a" "up_budgets s" rule: reserve_navigation_cases)
    (auto simp: charge_def reject_url_def)

text \<open>The two outcomes of one check.\<close>

lemma check_url_cases:
  obtains (refused) s' r host where "check_url parse cfg raw s = (s', Inl r)"
      "up_budgets s' = up_budgets s"
      "up_audit s' = up_audit s @ [\<lparr>ua_url = raw, ua_host = host, ua_decision = Reject (ur_code r)\<rparr>]"
  | (allowed) s' a where "check_url parse cfg raw s = (s', Inr a)" "url_permitted parse cfg raw a"
      "bt_navigations (up_budgets s') = Suc (bt_navigations (up_budgets s))"
      "bt_seen_hosts (up_budgets s') = set_add (au_host a) (bt_seen_hosts (up_budgets s))"
      "up_audit s' = up_audit s @ [\<lparr>ua_url = raw, ua_host = Some (au_host a), ua_decision = Allow\<rparr>]"
proof (cases "screen parse cfg raw s")
  case (Pair s1 res)
  show thesis
  proof (cases res)
    case (Inl r)
    with Pair screen_Inl [of parse cfg raw s s1 r] show thesis
      by (auto simp: check_url_def intro: refused)
  next
    case (Inr a)
    with Pair have scr: "s1 = s" "url_permitted parse cfg raw a" by (simp_all add: screen_Inr)
    obtain s2 res2 where ch: "charge a raw s = (s2, res2)" by (cases "charge a raw s")
    show thesis
    proof (cases res2)
      case (Inl r)
      with Pair \<open>res = Ok a\<close> scr ch have "check_url parse cfg raw s = (s2, Err r)"
        by (simp add: check_url_def)
      with ch Inl charge_Inl [of a raw s s2 r] show thesis by (auto intro: refused)
    next
      case (Inr b)
      with Pair \<open>res = Ok a\<close> scr ch charge_Inr [of a raw s s2 b]
      have "check_url parse cfg raw s = (audit_allow raw a s2, Ok a)"
        by (simp add: check_url_def)
      with ch Inr charge_Inr [of a raw s s2 b] scr show thesis
        by (auto simp: audit_allow_def intro: allowed)
    qed
  qed
qed

lemma check_url_limits [simp]: "bt_limits (up_budgets (fst (check_url parse cfg raw s))) = bt_limits (up_budgets s)"
  by (auto simp: check_url_def screen_def charge_def reject_url_def audit_allow_def
      reserve_navigation_def split: sum.splits prod.splits if_splits)

lemma check_url_inv:
  "budget_inv (up_budgets s) \<Longrightarrow> budget_inv (up_budgets (fst (check_url parse cfg raw s)))"
  using reserve_navigation_inv [of "up_budgets s"]
  by (auto simp: check_url_def screen_def charge_def reject_url_def audit_allow_def
      split: sum.splits prod.splits) (metis fst_conv)+

definition check_all :: "url_parser \<Rightarrow> url_policy_config \<Rightarrow> policy_state \<Rightarrow> jstext list \<Rightarrow> policy_state" where
  "check_all parse cfg s raws = foldl (\<lambda>s raw. fst (check_url parse cfg raw s)) s raws"

definition allow_records :: "policy_state \<Rightarrow> url_audit_record list" where
  "allow_records s = [r \<leftarrow> up_audit s. ua_decision r = Allow]"

lemma check_all_snoc [simp]:
  "check_all parse cfg s (raws @ [raw]) = fst (check_url parse cfg raw (check_all parse cfg s raws))"
  by (simp add: check_all_def)

lemma check_all_limits [simp]: "bt_limits (up_budgets (check_all parse cfg s raws)) = bt_limits (up_budgets s)"
  by (induction raws rule: rev_induct) (simp_all add: check_all_def)

lemma check_all_inv:
  "budget_inv (up_budgets s) \<Longrightarrow> budget_inv (up_budgets (check_all parse cfg s raws))"
  by (induction raws rule: rev_induct) (simp_all add: check_all_def check_url_inv)

lemma check_all_audit:
  "map ua_url (up_audit (check_all parse cfg s raws)) = map ua_url (up_audit s) @ raws"
proof (induction raws rule: rev_induct)
  case Nil
  show ?case by (simp add: check_all_def)
next
  case (snoc raw raws)
  then show ?case
    by (cases rule: check_url_cases [where parse = parse and cfg = cfg and raw = raw and
        s = "check_all parse cfg s raws"]) simp_all
qed

lemma check_all_charged:
  assumes "bt_navigations (up_budgets s) = length (allow_records s)"
    and "set (map ua_host (allow_records s)) = Some ` set (bt_seen_hosts (up_budgets s))"
  shows "bt_navigations (up_budgets (check_all parse cfg s raws)) =
      length (allow_records (check_all parse cfg s raws)) \<and>
    set (map ua_host (allow_records (check_all parse cfg s raws))) =
      Some ` set (bt_seen_hosts (up_budgets (check_all parse cfg s raws)))"
proof (induction raws rule: rev_induct)
  case Nil
  with assms show ?case by (simp add: check_all_def)
next
  case (snoc raw raws)
  then show ?case
    by (cases rule: check_url_cases [where parse = parse and cfg = cfg and raw = raw and
        s = "check_all parse cfg s raws"])
      (simp_all add: allow_records_def)
qed

section \<open>Properties\<close>

text \<open>C2. An allowed outbound URL passed every control and was charged exactly once: it is within
  the length cap, parses, is https (or http where the configuration permits it), is on the run's
  host list when there is one, carries no credential shape, and one navigation and its lower-cased
  host were charged. A refused URL charges nothing. Either way exactly one audit record, naming the
  URL as it was asked for and the decision, is appended.\<close>

theorem check_url_sound:
  "(case check_url parse cfg raw s of
      (s', Inr a) \<Rightarrow>
        url_permitted parse cfg raw a \<and>
        bt_navigations (up_budgets s') = Suc (bt_navigations (up_budgets s)) \<and>
        bt_seen_hosts (up_budgets s') = set_add (au_host a) (bt_seen_hosts (up_budgets s)) \<and>
        up_audit s' = up_audit s @
          [\<lparr>ua_url = raw, ua_host = Some (au_host a), ua_decision = Allow\<rparr>]
    | (s', Inl r) \<Rightarrow>
        up_budgets s' = up_budgets s \<and>
        (\<exists>host. up_audit s' = up_audit s @
          [\<lparr>ua_url = raw, ua_host = host, ua_decision = Reject (ur_code r)\<rparr>]))"
  by (cases rule: check_url_cases [where parse = parse and cfg = cfg and raw = raw and s = s]) auto

text \<open>The audit trail accounts for every outbound attempt of a run: after any list of checked
  URLs the trail lists them one by one in order, the allowed ones number exactly the navigations
  charged, which never exceed the navigation cap, and their hosts are exactly the hosts counted,
  which never exceed the host cap.\<close>

theorem checked_urls_accounted:
  "(let s = check_all parse cfg \<lparr>up_budgets = new_tracker limits now, up_audit = []\<rparr> raws in
     map ua_url (up_audit s) = raws \<and>
     length (allow_records s) = bt_navigations (up_budgets s) \<and>
     length (allow_records s) \<le> max_navigations limits \<and>
     set (map ua_host (allow_records s)) = Some ` set (bt_seen_hosts (up_budgets s)) \<and>
     card (set (map ua_host (allow_records s))) \<le> max_hosts limits)"
proof -
  let ?init = "\<lparr>up_budgets = new_tracker limits now, up_audit = []\<rparr>"
  let ?s = "check_all parse cfg ?init raws"
  have inv: "budget_inv (up_budgets ?s)"
    by (rule check_all_inv) (simp add: new_tracker_inv)
  have pre: "bt_navigations (up_budgets ?init) = length (allow_records ?init)"
    "set (map ua_host (allow_records ?init)) = Some ` set (bt_seen_hosts (up_budgets ?init))"
    by (simp_all add: allow_records_def new_tracker_def)
  have charged: "bt_navigations (up_budgets ?s) = length (allow_records ?s)"
    "set (map ua_host (allow_records ?s)) = Some ` set (bt_seen_hosts (up_budgets ?s))"
    using check_all_charged [OF pre, of parse cfg raws] by blast+
  have lims: "bt_limits (up_budgets ?s) = limits" by (simp add: new_tracker_def)
  have "card (Some ` set (bt_seen_hosts (up_budgets ?s))) \<le> max_hosts limits"
    using inv unfolding budget_inv_def lims by (simp add: card_image distinct_card)
  moreover have "map ua_url (up_audit ?s) = raws"
    by (simp add: check_all_audit)
  moreover have "bt_navigations (up_budgets ?s) \<le> max_navigations limits"
    using inv unfolding budget_inv_def lims by simp
  ultimately show ?thesis
    using charged by (simp only: Let_def)
qed

text \<open>A check is exactly an evaluation followed by a reservation: same answer, same budget
  afterwards, and the evaluation alone never touches the budget, so a read answered from memory
  spends nothing.\<close>

theorem check_is_evaluate_then_reserve:
  "up_budgets (fst (evaluate_url parse cfg raw s)) = up_budgets s \<and>
   (case evaluate_url parse cfg raw s of
      (s', Inl r) \<Rightarrow> check_url parse cfg raw s = (s', Err r)
    | (s', Inr a) \<Rightarrow>
        snd (check_url parse cfg raw s) = snd (reserve_url a s') \<and>
        up_budgets (fst (check_url parse cfg raw s)) = up_budgets (fst (reserve_url a s')))"
  by (auto simp: evaluate_url_def check_url_def reserve_url_def charge_def screen_def reject_url_def
      audit_allow_def split: sum.splits prod.splits)

end
