(* ===== verification/UrlProvenance.thy ===== *)
theory UrlProvenance
  imports Prelude
begin

text \<open>
  The run-scoped record of attested URLs, class \<open>UrlProvenance\<close> of
  \<open>packages/agent/src/runtime/url-provenance.ts\<close>, with its scanners for URLs and bare host names
  in the user's goal. The platform's \<open>URL\<close> parser is the argument \<open>parse_url\<close>; the reduction of a
  parsed URL to its comparison form (the code's \<open>parse\<close>) is modelled. The regular expressions
  are deterministic scanners: a label of a host name cannot contain the dot that must follow it,
  and a shortened last part would leave a letter where the lookahead forbids one, so backtracking
  never finds another match.
\<close>

section \<open>Data\<close>

text \<open>What the code reads of a parsed \<open>URL\<close>.\<close>

record url_parts =
  up_protocol :: jstext
  up_host :: jstext
  up_hostname :: jstext
  up_pathname :: jstext
  up_search :: jstext
  up_search_keys :: "jstext list"

type_synonym url_reader = "jstext \<Rightarrow> url_parts option"

datatype provenance_origin =
    From_goal
  | From_allow_host
  | From_tool jstext
  | Discovered jstext jstext

datatype provenance_match = Exact | Origin_root | Query_variant | Allowed_host

record provenance_explanation =
  pe_match :: provenance_match
  pe_origin :: provenance_origin

record prov_url =
  pv_normalized :: jstext
  pv_origin :: jstext
  pv_origin_path :: jstext
  pv_query_keys :: "jstext list"
  pv_is_origin_root :: bool
  pv_hostname :: jstext

record provenance =
  ps_urls :: "(jstext, provenance_origin) jsmap"
  ps_origins :: "(jstext, provenance_origin) jsmap"
  ps_query_keys_by_path :: "(jstext, jstext jsset) jsmap"
  ps_origin_by_path :: "(jstext, provenance_origin) jsmap"
  ps_allowed_hosts :: "jstext jsset"

definition new_provenance :: provenance where
  "new_provenance = \<lparr>ps_urls = [], ps_origins = [], ps_query_keys_by_path = [],
     ps_origin_by_path = [], ps_allowed_hosts = []\<rparr>"

section \<open>The comparison form\<close>

text \<open>\<open>replace(/\/+$/u, '')\<close>: every trailing slash is removed.\<close>

definition strip_trailing :: "(char \<Rightarrow> bool) \<Rightarrow> jstext \<Rightarrow> jstext" where
  "strip_trailing P s = rev (dropWhile P (rev s))"

definition prov_parse :: "url_reader \<Rightarrow> jstext \<Rightarrow> prov_url option" where
  "prov_parse parse_url url = (case parse_url (trim url) of
     None \<Rightarrow> None
   | Some u \<Rightarrow>
       let scheme = to_lower (up_protocol u);
           host = to_lower (up_host u);
           path = (if up_pathname u = ''/'' then ''/''
                   else strip_trailing (\<lambda>c. c = CHR ''/'') (up_pathname u))
       in Some \<lparr>
         pv_normalized = scheme @ ''//'' @ host @ path @ up_search u,
         pv_origin = scheme @ ''//'' @ host @ ''/'',
         pv_origin_path = scheme @ ''//'' @ host @ path,
         pv_query_keys = up_search_keys u,
         pv_is_origin_root = ((path = ''/'' \<or> path = []) \<and> up_search u = []),
         pv_hostname = to_lower (up_hostname u) \<rparr>)"

section \<open>Operations\<close>

text \<open>\<open>record\<close> on a parsed URL, then on the text a tool reported.\<close>

definition record_parsed :: "prov_url \<Rightarrow> provenance_origin \<Rightarrow> provenance \<Rightarrow> provenance" where
  "record_parsed u origin s = s\<lparr>
     ps_urls := set_if_absent (pv_normalized u) origin (ps_urls s),
     ps_origins := set_if_absent (pv_origin u) origin (ps_origins s),
     ps_origin_by_path := set_if_absent (pv_origin_path u) origin (ps_origin_by_path s),
     ps_query_keys_by_path := map_set (pv_origin_path u)
       (set_add_all (pv_query_keys u)
          (case map_get (ps_query_keys_by_path s) (pv_origin_path u) of None \<Rightarrow> [] | Some ks \<Rightarrow> ks))
       (ps_query_keys_by_path s)\<rparr>"

definition record_url :: "url_reader \<Rightarrow> jstext \<Rightarrow> provenance_origin \<Rightarrow> provenance \<Rightarrow> provenance" where
  "record_url parse_url url origin s = (case prov_parse parse_url url of
     None \<Rightarrow> s | Some u \<Rightarrow> record_parsed u origin s)"

definition explain_parsed :: "prov_url \<Rightarrow> provenance \<Rightarrow> provenance_explanation option" where
  "explain_parsed u s =
     (if pv_hostname u \<in> set (ps_allowed_hosts s)
      then Some \<lparr>pe_match = Allowed_host, pe_origin = From_allow_host\<rparr>
      else case map_get (ps_urls s) (pv_normalized u) of
        Some exact \<Rightarrow> Some \<lparr>pe_match = Exact, pe_origin = exact\<rparr>
      | None \<Rightarrow>
          (case (if pv_is_origin_root u then map_get (ps_origins s) (pv_origin u) else None) of
             Some root \<Rightarrow> Some \<lparr>pe_match = Origin_root, pe_origin = root\<rparr>
           | None \<Rightarrow>
               (case (map_get (ps_query_keys_by_path s) (pv_origin_path u),
                      map_get (ps_origin_by_path s) (pv_origin_path u)) of
                  (Some known, Some granting) \<Rightarrow>
                    (if list_all (\<lambda>k. k \<in> set known) (pv_query_keys u)
                     then Some \<lparr>pe_match = Query_variant, pe_origin = granting\<rparr> else None)
                | _ \<Rightarrow> None)))"

definition explain :: "url_reader \<Rightarrow> jstext \<Rightarrow> provenance \<Rightarrow> provenance_explanation option" where
  "explain parse_url url s = (case prov_parse parse_url url of
     None \<Rightarrow> None | Some u \<Rightarrow> explain_parsed u s)"

definition has_url :: "url_reader \<Rightarrow> jstext \<Rightarrow> provenance \<Rightarrow> bool" where
  "has_url parse_url url s \<longleftrightarrow> explain parse_url url s \<noteq> None"

definition allow_host :: "url_reader \<Rightarrow> jstext \<Rightarrow> provenance \<Rightarrow> provenance" where
  "allow_host parse_url host s =
     (let trimmed = to_lower (trim host) in
      if trimmed = [] then s
      else case prov_parse parse_url (''https://'' @ trimmed @ ''/'') of
        None \<Rightarrow> s
      | Some u \<Rightarrow> s\<lparr>ps_allowed_hosts := set_add (pv_hostname u) (ps_allowed_hosts s)\<rparr>)"

definition provenance_size :: "provenance \<Rightarrow> nat" where
  "provenance_size s = length (ps_urls s)"

section \<open>URLs and host names in free text\<close>

definition is_url_char :: "char \<Rightarrow> bool" where
  "is_url_char c \<longleftrightarrow> \<not> is_space c \<and> c \<notin> set [CHR ''<'', CHR ''>'', CHR 0x22, CHR 0x27, CHR 0x60]"

text \<open>One match of \<open>URL_IN_TEXT\<close> at the start of the text: the matched characters.\<close>

definition url_at :: "jstext \<Rightarrow> jstext option" where
  "url_at s =
     (let n = (if starts_with ''http://'' (to_lower s) then 7
               else if starts_with ''https://'' (to_lower s) then 8 else 0);
          body = takeWhile is_url_char (drop n s)
      in if n = 0 \<or> body = [] then None else Some (take n s @ body))"

lemma url_at_nonempty: "url_at s = Some m \<Longrightarrow> m \<noteq> [] \<and> s \<noteq> []"
  by (auto simp: url_at_def Let_def split: if_splits)

text \<open>All matches, left to right, and the text with every match replaced by a space.\<close>

function scan_urls :: "jstext \<Rightarrow> jstext list \<times> jstext" where
  "scan_urls s = (case url_at s of
     Some m \<Rightarrow> (case scan_urls (drop (length m) s) of (ms, rest) \<Rightarrow> (m # ms, CHR '' '' # rest))
   | None \<Rightarrow> (case s of [] \<Rightarrow> ([], [])
       | c # s' \<Rightarrow> (case scan_urls s' of (ms, rest) \<Rightarrow> (ms, c # rest))))"
  by pat_completeness auto
termination
  by (relation "measure length") (auto dest: url_at_nonempty)

declare scan_urls.simps [simp del]

definition is_trailing_punctuation :: "char \<Rightarrow> bool" where
  "is_trailing_punctuation c \<longleftrightarrow> c \<in> set ''.,;:!?)]}''"

definition extract_urls :: "jstext \<Rightarrow> jstext list" where
  "extract_urls s = map (strip_trailing is_trailing_punctuation) (fst (scan_urls s))"

definition is_word :: "char \<Rightarrow> bool" where
  "is_word c \<longleftrightarrow> is_alnum c \<or> c = CHR ''_''"

text \<open>A label with the dot after it: the label and the rest of the text.\<close>

definition label_dot :: "jstext \<Rightarrow> (jstext \<times> jstext) option" where
  "label_dot s =
     (let l = takeWhile (\<lambda>c. is_alnum c \<or> c = CHR ''-'') s; r = drop (length l) s in
      if l \<noteq> [] \<and> length l \<le> 63 \<and> is_alnum (hd l) \<and> is_alnum (last l) \<and> starts_with ''.'' r
      then Some (l, tl r) else None)"

definition tld_at :: "jstext \<Rightarrow> jstext option" where
  "tld_at s =
     (let l = takeWhile (\<lambda>c. is_upper c \<or> is_lower c) s; r = drop (length l) s in
      if 2 \<le> length l \<and> length l \<le> 24 \<and>
         (case r of [] \<Rightarrow> True | c # _ \<Rightarrow> \<not> is_word c \<and> c \<noteq> CHR ''@'' \<and> c \<noteq> CHR ''-'')
      then Some l else None)"

lemma label_dot_shorter: "label_dot s = Some (l, r) \<Longrightarrow> length r < length s"
  by (cases s) (auto simp: label_dot_def Let_def split: if_splits)

text \<open>The rest of a host name after its first label: more labels where possible, else the end.\<close>

function host_rest :: "jstext \<Rightarrow> jstext option" where
  "host_rest s = (case label_dot s of
     None \<Rightarrow> tld_at s
   | Some (l, r) \<Rightarrow> (case host_rest r of
       Some m \<Rightarrow> Some (l @ ''.'' @ m) | None \<Rightarrow> tld_at s))"
  by pat_completeness auto
termination
  by (relation "measure length") (auto simp: label_dot_shorter)

declare host_rest.simps [simp del]

definition host_at :: "jstext \<Rightarrow> jstext option" where
  "host_at s = (case label_dot s of
     None \<Rightarrow> None
   | Some (l, r) \<Rightarrow> map_option (\<lambda>m. l @ ''.'' @ m) (host_rest r))"

definition blocks_host :: "char \<Rightarrow> bool" where
  "blocks_host c \<longleftrightarrow> is_word c \<or> c \<in> set ''@./-''"

lemma host_at_nonempty: "host_at s = Some m \<Longrightarrow> m \<noteq> []"
  by (auto simp: host_at_def split: option.splits prod.splits)

text \<open>\<open>prev\<close> is the character before the text, None at its beginning.\<close>

function scan_hosts :: "char option \<Rightarrow> jstext \<Rightarrow> jstext list" where
  "scan_hosts prev s = (case s of [] \<Rightarrow> []
   | c # s' \<Rightarrow>
       (case (if (case prev of None \<Rightarrow> False | Some p \<Rightarrow> blocks_host p) then None else host_at s) of
          Some m \<Rightarrow> m # scan_hosts (Some (last m)) (drop (length m) s)
        | None \<Rightarrow> scan_hosts (Some c) s'))"
  by pat_completeness auto
termination
  by (relation "measure (\<lambda>(_, s). length s)") (auto dest: host_at_nonempty split: if_splits)

declare scan_hosts.simps [simp del]

definition extract_bare_hosts :: "jstext \<Rightarrow> jstext jsset" where
  "extract_bare_hosts s = to_jsset (map to_lower (scan_hosts None (snd (scan_urls s))))"

definition seed :: "url_reader \<Rightarrow> jstext list \<Rightarrow> jstext \<Rightarrow> provenance \<Rightarrow> provenance" where
  "seed parse_url hosts goal s =
     (let s = foldl (\<lambda>s h. allow_host parse_url h s) s hosts;
          s = foldl (\<lambda>s u. record_url parse_url u From_goal s) s (extract_urls goal)
      in foldl (\<lambda>s h. record_url parse_url (''http://'' @ h @ ''/'') From_goal
                  (record_url parse_url (''https://'' @ h @ ''/'') From_goal s))
           s (extract_bare_hosts goal))"

definition match_name :: "provenance_match \<Rightarrow> jstext" where
  "match_name m = (case m of Exact \<Rightarrow> ''exact'' | Origin_root \<Rightarrow> ''origin-root''
     | Query_variant \<Rightarrow> ''query-variant'' | Allowed_host \<Rightarrow> ''allowed-host'')"

definition provenance_details :: "provenance_explanation option \<Rightarrow> (jstext, jstext) jsmap" where
  "provenance_details e = (case e of
     None \<Rightarrow> [(''match'', ''none''), (''kind'', ''none'')]
   | Some x \<Rightarrow> (''match'', match_name (pe_match x)) # (case pe_origin x of
       Discovered source link \<Rightarrow>
         [(''kind'', ''discovered''), (''via'', source), (''link_kind'', link)]
     | From_tool tool \<Rightarrow> [(''kind'', ''tool''), (''tool'', tool)]
     | From_goal \<Rightarrow> [(''kind'', ''goal'')]
     | From_allow_host \<Rightarrow> [(''kind'', ''allow-host'')]))"

section \<open>The permission record as a log\<close>

text \<open>
  The abstract record is the list of attestations in the order they were made, with the set of
  allowlisted hosts. Its answer to a candidate is the first attestation that grants it.
\<close>

type_synonym attestation = "prov_url \<times> provenance_origin"

definition first_origin :: "(prov_url \<Rightarrow> bool) \<Rightarrow> attestation list \<Rightarrow> provenance_origin option" where
  "first_origin P log = map_option snd (find (\<lambda>e. P (fst e)) log)"

definition attested_keys :: "jstext \<Rightarrow> attestation list \<Rightarrow> jstext set" where
  "attested_keys path log =
     {k. \<exists>e \<in> set log. pv_origin_path (fst e) = path \<and> k \<in> set (pv_query_keys (fst e))}"

definition log_explains ::
  "attestation list \<Rightarrow> jstext set \<Rightarrow> prov_url \<Rightarrow> provenance_explanation option" where
  "log_explains log hosts u =
     (if pv_hostname u \<in> hosts
      then Some \<lparr>pe_match = Allowed_host, pe_origin = From_allow_host\<rparr>
      else case first_origin (\<lambda>q. pv_normalized q = pv_normalized u) log of
        Some w \<Rightarrow> Some \<lparr>pe_match = Exact, pe_origin = w\<rparr>
      | None \<Rightarrow>
          (case (if pv_is_origin_root u
                 then first_origin (\<lambda>q. pv_origin q = pv_origin u) log else None) of
             Some w \<Rightarrow> Some \<lparr>pe_match = Origin_root, pe_origin = w\<rparr>
           | None \<Rightarrow>
               (case first_origin (\<lambda>q. pv_origin_path q = pv_origin_path u) log of
                  Some w \<Rightarrow>
                    (if set (pv_query_keys u) \<subseteq> attested_keys (pv_origin_path u) log
                     then Some \<lparr>pe_match = Query_variant, pe_origin = w\<rparr> else None)
                | None \<Rightarrow> None)))"

definition represents :: "provenance \<Rightarrow> attestation list \<Rightarrow> jstext set \<Rightarrow> bool" where
  "represents s log hosts \<longleftrightarrow>
     (\<forall>k. map_get (ps_urls s) k = first_origin (\<lambda>q. pv_normalized q = k) log) \<and>
     (\<forall>k. map_get (ps_origins s) k = first_origin (\<lambda>q. pv_origin q = k) log) \<and>
     (\<forall>k. map_get (ps_origin_by_path s) k = first_origin (\<lambda>q. pv_origin_path q = k) log) \<and>
     (\<forall>k. map_get (ps_query_keys_by_path s) k = None \<longleftrightarrow>
            first_origin (\<lambda>q. pv_origin_path q = k) log = None) \<and>
     (\<forall>k ks. map_get (ps_query_keys_by_path s) k = Some ks \<longrightarrow> set ks = attested_keys k log) \<and>
     set (ps_allowed_hosts s) = hosts"

lemma first_origin_append:
  "first_origin P (log @ log') = (case first_origin P log of Some w \<Rightarrow> Some w | None \<Rightarrow> first_origin P log')"
  by (simp add: first_origin_def find_append split: option.splits)

lemma first_origin_single [simp]: "first_origin P [(u, w)] = (if P u then Some w else None)"
  by (simp add: first_origin_def)

lemma first_origin_Nil [simp]: "first_origin P [] = None"
  by (simp add: first_origin_def)

lemma first_origin_Some:
  "first_origin P log = Some w \<Longrightarrow> \<exists>q. (q, w) \<in> set log \<and> P q"
  by (force simp: first_origin_def dest: find_SomeD)

lemma attested_keys_append:
  "attested_keys p (log @ log') = attested_keys p log \<union> attested_keys p log'"
  by (auto simp: attested_keys_def)

lemma attested_keys_single:
  "attested_keys p [(u, w)] = (if pv_origin_path u = p then set (pv_query_keys u) else {})"
  by (auto simp: attested_keys_def)

lemma attested_keys_none:
  "first_origin (\<lambda>q. pv_origin_path q = p) log = None \<Longrightarrow> attested_keys p log = {}"
  by (auto simp: first_origin_def attested_keys_def find_None_iff)

lemma represents_new: "represents new_provenance [] {}"
  by (simp add: represents_def new_provenance_def)

lemma represents_record:
  assumes rep: "represents s log hosts"
  shows "represents (record_parsed u w s) (log @ [(u, w)]) hosts"
proof -
  let ?old = "case map_get (ps_query_keys_by_path s) (pv_origin_path u) of None \<Rightarrow> [] | Some ks \<Rightarrow> ks"
  have old: "set ?old = attested_keys (pv_origin_path u) log"
    using rep unfolding represents_def
    by (cases "map_get (ps_query_keys_by_path s) (pv_origin_path u)") (simp_all add: attested_keys_none)
  show ?thesis
    using rep old unfolding represents_def record_parsed_def
    by (simp add: set_if_absent_get first_origin_append attested_keys_append attested_keys_single
        split: option.split)
qed

lemma represents_explain:
  "represents s log hosts \<Longrightarrow> explain_parsed u s = log_explains log hosts u"
  unfolding explain_parsed_def log_explains_def list_all_iff
  by (auto simp: represents_def split: option.splits)

section \<open>Runs\<close>

datatype prov_op =
    P_record jstext provenance_origin
  | P_allow_host jstext
  | P_seed "jstext list" jstext

fun prov_step :: "url_reader \<Rightarrow> provenance \<Rightarrow> prov_op \<Rightarrow> provenance" where
  "prov_step parse_url s (P_record url w) = record_url parse_url url w s"
| "prov_step parse_url s (P_allow_host h) = allow_host parse_url h s"
| "prov_step parse_url s (P_seed hosts goal) = seed parse_url hosts goal s"

definition prov_run :: "url_reader \<Rightarrow> prov_op list \<Rightarrow> provenance" where
  "prov_run parse_url ops = foldl (prov_step parse_url) new_provenance ops"

text \<open>The attestations and the allowlisted hosts an operation makes.\<close>

definition attest :: "url_reader \<Rightarrow> provenance_origin \<Rightarrow> jstext \<Rightarrow> attestation list" where
  "attest parse_url w url =
     (case prov_parse parse_url url of None \<Rightarrow> [] | Some u \<Rightarrow> [(u, w)])"

definition goal_urls :: "jstext \<Rightarrow> jstext list" where
  "goal_urls goal = extract_urls goal @
     concat (map (\<lambda>h. [''https://'' @ h @ ''/'', ''http://'' @ h @ ''/'']) (extract_bare_hosts goal))"

fun op_attests :: "url_reader \<Rightarrow> prov_op \<Rightarrow> attestation list" where
  "op_attests parse_url (P_record url w) = attest parse_url w url"
| "op_attests parse_url (P_allow_host h) = []"
| "op_attests parse_url (P_seed hosts goal) = concat (map (attest parse_url From_goal) (goal_urls goal))"

definition host_grant :: "url_reader \<Rightarrow> jstext \<Rightarrow> jstext set" where
  "host_grant parse_url h =
     (if to_lower (trim h) = [] then {}
      else case prov_parse parse_url (''https://'' @ to_lower (trim h) @ ''/'') of
        None \<Rightarrow> {} | Some u \<Rightarrow> {pv_hostname u})"

fun op_hosts :: "url_reader \<Rightarrow> prov_op \<Rightarrow> jstext set" where
  "op_hosts parse_url (P_record url w) = {}"
| "op_hosts parse_url (P_allow_host h) = host_grant parse_url h"
| "op_hosts parse_url (P_seed hosts goal) = (\<Union>h \<in> set hosts. host_grant parse_url h)"

definition run_log :: "url_reader \<Rightarrow> prov_op list \<Rightarrow> attestation list" where
  "run_log parse_url ops = concat (map (op_attests parse_url) ops)"

definition run_hosts :: "url_reader \<Rightarrow> prov_op list \<Rightarrow> jstext set" where
  "run_hosts parse_url ops = (\<Union>op \<in> set ops. op_hosts parse_url op)"

lemma represents_record_url:
  "represents s log hosts \<Longrightarrow>
   represents (record_url parse_url url w s) (log @ attest parse_url w url) hosts"
  by (simp add: record_url_def attest_def represents_record split: option.split)

lemma represents_record_urls:
  "represents s log hosts \<Longrightarrow>
   represents (foldl (\<lambda>s u. record_url parse_url u w s) s urls)
     (log @ concat (map (attest parse_url w) urls)) hosts"
proof (induction urls arbitrary: s log)
  case Nil
  then show ?case by simp
next
  case (Cons url urls)
  from Cons.IH [OF represents_record_url [OF Cons.prems]] show ?case by simp
qed

lemma represents_allow_host:
  "represents s log hosts \<Longrightarrow>
   represents (allow_host parse_url h s) log (hosts \<union> host_grant parse_url h)"
  by (auto simp: allow_host_def host_grant_def represents_def Let_def split: option.split)

lemma represents_allow_hosts:
  "represents s log hosts \<Longrightarrow>
   represents (foldl (\<lambda>s h. allow_host parse_url h s) s hs) log
     (hosts \<union> (\<Union>h \<in> set hs. host_grant parse_url h))"
proof (induction hs arbitrary: s hosts)
  case Nil
  then show ?case by simp
next
  case (Cons h hs)
  from Cons.IH [OF represents_allow_host [OF Cons.prems, of parse_url h]] show ?case
    by (simp add: Un_assoc)
qed

lemma seed_records:
  "seed parse_url hosts goal s = foldl (\<lambda>s u. record_url parse_url u From_goal s)
     (foldl (\<lambda>s h. allow_host parse_url h s) s hosts) (goal_urls goal)"
proof -
  have "foldl (\<lambda>s h. record_url parse_url (''http://'' @ h @ ''/'') From_goal
           (record_url parse_url (''https://'' @ h @ ''/'') From_goal s)) t hs =
        foldl (\<lambda>s u. record_url parse_url u From_goal s) t
           (concat (map (\<lambda>h. [''https://'' @ h @ ''/'', ''http://'' @ h @ ''/'']) hs))" for t hs
    by (induction hs arbitrary: t) simp_all
  then show ?thesis by (simp add: seed_def goal_urls_def Let_def)
qed

lemma represents_step:
  "represents s log hosts \<Longrightarrow>
   represents (prov_step parse_url s op) (log @ op_attests parse_url op) (hosts \<union> op_hosts parse_url op)"
  by (cases op)
    (simp_all add: represents_record_url represents_allow_host seed_records
      represents_record_urls represents_allow_hosts)

lemma represents_run: "represents (prov_run parse_url ops) (run_log parse_url ops) (run_hosts parse_url ops)"
proof (induction ops rule: rev_induct)
  case Nil
  show ?case by (simp add: prov_run_def run_log_def run_hosts_def represents_new)
next
  case (snoc op ops)
  from represents_step [OF snoc.IH, of parse_url op] show ?case
    by (simp add: prov_run_def run_log_def run_hosts_def Un_commute)
qed

lemma explain_run:
  "explain parse_url url (prov_run parse_url ops) =
     (case prov_parse parse_url url of None \<Rightarrow> None
      | Some u \<Rightarrow> log_explains (run_log parse_url ops) (run_hosts parse_url ops) u)"
  by (simp add: explain_def represents_explain [OF represents_run] split: option.split)

lemma log_explains_mono:
  "log_explains log hosts u \<noteq> None \<Longrightarrow> log_explains (log @ log') (hosts \<union> hosts') u \<noteq> None"
  by (auto simp: log_explains_def first_origin_append attested_keys_append
      split: option.splits if_splits)

section \<open>Properties\<close>

text \<open>C3. No URL is fabricated into permission. The four maps of the class answer every candidate
  exactly as the chronological log of attestations does: a candidate is admitted only because its
  host was allowlisted, or because some attested URL has the same comparison form, or the same
  origin when the candidate is the bare origin, or the same origin and path with every query
  parameter name of the candidate attested for that path; and the explanation names the first
  attestation that grants it.\<close>

theorem explain_refines_log:
  "explain parse_url url (prov_run parse_url ops) =
     (case prov_parse parse_url url of None \<Rightarrow> None
      | Some u \<Rightarrow> log_explains (run_log parse_url ops) (run_hosts parse_url ops) u)"
  by (rule explain_run)

text \<open>Permission is append-only: a URL the run may navigate to at some point stays navigable
  after any further operations, and one admitted as an exact match keeps the origin it was first
  recorded with unless its whole host is allowlisted later.\<close>

theorem provenance_append_only:
  assumes "explain parse_url url (prov_run parse_url ops) = Some e"
  shows "has_url parse_url url (prov_run parse_url (ops @ ops')) \<and>
    (pe_match e = Exact \<longrightarrow>
       explain parse_url url (prov_run parse_url (ops @ ops')) \<in>
         {Some e, Some \<lparr>pe_match = Allowed_host, pe_origin = From_allow_host\<rparr>})"
proof -
  from assms obtain u where u: "prov_parse parse_url url = Some u"
    and e: "log_explains (run_log parse_url ops) (run_hosts parse_url ops) u = Some e"
    by (auto simp: explain_run split: option.splits)
  have split: "run_log parse_url (ops @ ops') = run_log parse_url ops @ run_log parse_url ops'"
    "run_hosts parse_url (ops @ ops') = run_hosts parse_url ops \<union> run_hosts parse_url ops'"
    by (simp_all add: run_log_def run_hosts_def)
  have "has_url parse_url url (prov_run parse_url (ops @ ops'))"
    using log_explains_mono [of "run_log parse_url ops" "run_hosts parse_url ops" u] e u
    by (simp add: has_url_def explain_run split)
  moreover have "pe_match e = Exact \<Longrightarrow>
      explain parse_url url (prov_run parse_url (ops @ ops')) \<in>
         {Some e, Some \<lparr>pe_match = Allowed_host, pe_origin = From_allow_host\<rparr>}"
    using e u unfolding explain_run split log_explains_def
    by (auto simp: first_origin_append split: option.splits if_splits)
  ultimately show ?thesis by blast
qed

text \<open>A parser for the concrete checks: every text names one page of one site.\<close>

definition sample_reader :: url_reader where
  "sample_reader url = (if starts_with ''https://a.b/'' url
     then Some \<lparr>up_protocol = ''https:'', up_host = ''a.b'', up_hostname = ''a.b'',
                up_pathname = drop 11 url, up_search = [], up_search_keys = []\<rparr>
     else None)"

lemma provenance_append_only_witness:
  "has_url sample_reader ''https://a.b/x''
     (prov_run sample_reader ([P_record ''https://a.b/x/'' From_goal] @ [P_allow_host ''a.b'']))"
proof -
  have "explain sample_reader ''https://a.b/x'' (prov_run sample_reader [P_record ''https://a.b/x/'' From_goal])
      = Some \<lparr>pe_match = Exact, pe_origin = From_goal\<rparr>"
    by code_simp
  from provenance_append_only [OF this, of "[P_allow_host ''a.b'']"] show ?thesis by blast
qed

end
