(* ===== verification/ActionLedger.thy ===== *)
theory ActionLedger
  imports Prelude
begin

text \<open>
  The run's record of verified browser actions, class \<open>ActionLedger\<close> of
  \<open>packages/agent/src/runtime/action-ledger.ts\<close>, with the capture sets of
  \<open>capture-artifacts.ts\<close>. The run's sanitizer and the mask of the user's own values are the
  arguments \<open>sanitize\<close> and \<open>mask\<close> (the identity when a run has no mask); the browser's position is
  the argument \<open>location\<close>, None where reading it throws. Closed string unions the ledger only
  stores (label origins, fill resolutions, signals) are kept as text.
\<close>

section \<open>Data\<close>

datatype artifact_scope = Viewport | Full_page | Element

record artifact_ref =
  ar_path :: jstext
  ar_sha256 :: jstext
  ar_mime_type :: jstext
  ar_bytes :: nat
  ar_width :: nat
  ar_height :: nat
  ar_sent_to_model :: bool

record capture_part =
  cp_path :: jstext
  cp_sha256 :: jstext
  cp_bytes :: nat
  cp_width :: nat
  cp_height :: nat
  cp_part :: nat

record capture_set =
  cs_scope :: artifact_scope
  cs_ref :: "jstext option"
  cs_parts :: "capture_part list"
  cs_complete :: bool
  cs_labels :: "jstext list"
  cs_captured_height :: "nat option"
  cs_page_height :: "nat option"

definition artifact_refs_of_set :: "capture_set \<Rightarrow> artifact_ref list" where
  "artifact_refs_of_set s = map (\<lambda>p. \<lparr>ar_path = cp_path p, ar_sha256 = cp_sha256 p,
     ar_mime_type = ''image/png'', ar_bytes = cp_bytes p, ar_width = cp_width p,
     ar_height = cp_height p, ar_sent_to_model = False\<rparr>) (cs_parts s)"

record ledger_stamp =
  ls_call_id :: "jstext option"
  ls_seq :: nat
  ls_at :: jstext
  ls_epoch :: "int option"
  ls_host :: jstext

record fill_identity =
  fi_label :: "jstext option"
  fi_origin :: jstext
  fi_confidence :: "jstext option"
  fi_section :: "jstext option"

record fill_verification =
  fv_resolution :: "jstext option"
  fv_withheld :: "jstext option"

text \<open>
  The four kinds of entry. A producer may leave the verification of a fill and the artifact list
  of a capture out, so both are type parameters: options in an input, values in an entry.
\<close>

record 'v fill_committed =
  fc_identity :: "fill_identity option"
  fc_verification :: 'v
  fc_tool :: jstext
  fc_ref :: jstext
  fc_field :: jstext
  fc_group_key :: "jstext option"
  fc_covers :: nat
  fc_covered_refs :: "jstext list option"

record click_executed =
  ce_ref :: jstext
  ce_name :: jstext
  ce_submit_class :: "jstext option"

record submit_refused =
  sr_ref :: "jstext option"
  sr_name :: jstext
  sr_signal :: jstext

record 'a capture_entry =
  ca_artifacts :: 'a
  ca_scope :: artifact_scope
  ca_path :: jstext
  ca_sha256 :: jstext
  ca_bytes :: nat
  ca_producer :: jstext
  ca_parts :: "nat option"
  ca_complete :: "bool option"
  ca_capture_set :: "capture_set option"

datatype ('v, 'a) action =
    Fill_committed "'v fill_committed"
  | Click_executed click_executed
  | Submit_refused submit_refused
  | Capture "'a capture_entry"

type_synonym ledger_body = "(fill_verification, artifact_ref list) action"

record ledger_input =
  li_call_id :: "jstext option"
  li_action :: "(fill_verification option, artifact_ref list option) action"

record ledger_entry =
  le_stamp :: ledger_stamp
  le_body :: ledger_body

definition seq_of :: "ledger_entry \<Rightarrow> nat" where
  "seq_of e = ls_seq (le_stamp e)"

definition id_of :: "ledger_entry \<Rightarrow> jstext" where
  "id_of e = ''A'' @ show_nat (seq_of e)"

record ledger_location =
  ll_epoch :: "int option"
  ll_host :: jstext

record action_event =
  ae_kind :: jstext
  ae_seq :: nat
  ae_epoch :: "int option"
  ae_host :: jstext
  ae_covers :: "nat option"
  ae_submit_class :: "jstext option option"
  ae_signal :: "jstext option"
  ae_scope :: "artifact_scope option"
  ae_bytes :: "nat option"
  ae_parts :: "nat option"
  ae_complete :: "bool option"

record action_ledger =
  al_recorded :: "ledger_entry list"
  al_logged :: "action_event list"

definition empty_ledger :: action_ledger where
  "empty_ledger = \<lparr>al_recorded = [], al_logged = []\<rparr>"

section \<open>Cleaning\<close>

definition MAX_FIELD_CHARS :: nat where
  "MAX_FIELD_CHARS = 60"

definition MAX_NAME_CHARS :: nat where
  "MAX_NAME_CHARS = 80"

record text_env =
  te_sanitize :: "jstext \<Rightarrow> jstext"
  te_mask :: "jstext \<Rightarrow> jstext"

definition ledger_clean :: "text_env \<Rightarrow> jstext \<Rightarrow> nat \<Rightarrow> jstext" where
  "ledger_clean env s lim = clip lim (collapse_spaces (te_sanitize env (te_mask env s)))"

definition clean_identity :: "text_env \<Rightarrow> fill_identity \<Rightarrow> fill_identity" where
  "clean_identity env i = i\<lparr>fi_label := map_option (\<lambda>l. ledger_clean env l 120) (fi_label i),
     fi_section := map_option (\<lambda>l. ledger_clean env l 60) (fi_section i)\<rparr>"

definition cleaned :: "text_env \<Rightarrow> ledger_body \<Rightarrow> ledger_body" where
  "cleaned env b = (case b of
     Fill_committed f \<Rightarrow> Fill_committed (f\<lparr>fc_field := ledger_clean env (fc_field f) MAX_FIELD_CHARS,
       fc_identity := map_option (clean_identity env) (fc_identity f)\<rparr>)
   | Click_executed c \<Rightarrow> Click_executed (c\<lparr>ce_name := ledger_clean env (ce_name c) MAX_NAME_CHARS\<rparr>)
   | Submit_refused r \<Rightarrow> Submit_refused (r\<lparr>sr_name := ledger_clean env (sr_name r) MAX_NAME_CHARS\<rparr>)
   | Capture c \<Rightarrow> Capture c)"

section \<open>Recording\<close>

definition with_defaults :: "(fill_verification option, artifact_ref list option) action \<Rightarrow> ledger_body" where
  "with_defaults i = (case i of
     Fill_committed f \<Rightarrow> Fill_committed \<lparr>fc_identity = fc_identity f,
       fc_verification = (case fc_verification f of
          None \<Rightarrow> \<lparr>fv_resolution = None, fv_withheld = None\<rparr> | Some v \<Rightarrow> v),
       fc_tool = fc_tool f, fc_ref = fc_ref f, fc_field = fc_field f,
       fc_group_key = fc_group_key f, fc_covers = fc_covers f,
       fc_covered_refs = fc_covered_refs f\<rparr>
   | Click_executed c \<Rightarrow> Click_executed c
   | Submit_refused r \<Rightarrow> Submit_refused r
   | Capture c \<Rightarrow> Capture \<lparr>ca_artifacts = (case ca_artifacts c of None \<Rightarrow> [] | Some a \<Rightarrow> a),
       ca_scope = ca_scope c, ca_path = ca_path c, ca_sha256 = ca_sha256 c, ca_bytes = ca_bytes c,
       ca_producer = ca_producer c, ca_parts = ca_parts c, ca_complete = ca_complete c,
       ca_capture_set = ca_capture_set c\<rparr>)"

definition safe_locate :: "ledger_location option \<Rightarrow> ledger_location" where
  "safe_locate l = (case l of None \<Rightarrow> \<lparr>ll_epoch = None, ll_host = []\<rparr> | Some x \<Rightarrow> x)"

definition projection :: "ledger_entry \<Rightarrow> action_event" where
  "projection e =
     (let base = \<lparr>ae_kind = [], ae_seq = seq_of e, ae_epoch = ls_epoch (le_stamp e),
        ae_host = ls_host (le_stamp e), ae_covers = None, ae_submit_class = None, ae_signal = None,
        ae_scope = None, ae_bytes = None, ae_parts = None, ae_complete = None\<rparr>
      in case le_body e of
        Fill_committed f \<Rightarrow> base\<lparr>ae_kind := ''fill_committed'', ae_covers := Some (fc_covers f)\<rparr>
      | Click_executed c \<Rightarrow>
          base\<lparr>ae_kind := ''click_executed'', ae_submit_class := Some (ce_submit_class c)\<rparr>
      | Submit_refused r \<Rightarrow> base\<lparr>ae_kind := ''submit_refused'', ae_signal := Some (sr_signal r)\<rparr>
      | Capture c \<Rightarrow> base\<lparr>ae_kind := ''capture'', ae_scope := Some (ca_scope c),
          ae_bytes := Some (ca_bytes c), ae_parts := ca_parts c, ae_complete := ca_complete c\<rparr>)"

definition record_action ::
  "text_env \<Rightarrow> jstext \<Rightarrow> ledger_location option \<Rightarrow> ledger_input \<Rightarrow> action_ledger \<Rightarrow>
     action_ledger \<times> ledger_entry" where
  "record_action env now location i l =
     (let loc = safe_locate location;
          stamp = \<lparr>ls_call_id = li_call_id i, ls_seq = length (al_recorded l) + 1, ls_at = now,
                   ls_epoch = ll_epoch loc, ls_host = ll_host loc\<rparr>;
          entry = \<lparr>le_stamp = stamp, le_body = cleaned env (with_defaults (li_action i))\<rparr>
      in (\<lparr>al_recorded = al_recorded l @ [entry], al_logged = al_logged l @ [projection entry]\<rparr>,
          entry))"

definition is_committed :: "ledger_entry \<Rightarrow> bool" where
  "is_committed e \<longleftrightarrow> (case le_body e of
     Fill_committed _ \<Rightarrow> True | Click_executed _ \<Rightarrow> True | _ \<Rightarrow> False)"

definition is_capture :: "ledger_entry \<Rightarrow> bool" where
  "is_capture e \<longleftrightarrow> (case le_body e of Capture _ \<Rightarrow> True | _ \<Rightarrow> False)"

text \<open>The backwards scan of \<open>lastCommittedAction\<close>: the index counts down from the end.\<close>

fun last_committed_from :: "ledger_entry list \<Rightarrow> nat \<Rightarrow> ledger_entry option" where
  "last_committed_from es 0 = None"
| "last_committed_from es (Suc i) =
     (if is_committed (es ! i) then Some (es ! i) else last_committed_from es i)"

definition last_committed :: "ledger_entry list \<Rightarrow> ledger_entry option" where
  "last_committed es = last_committed_from es (length es)"

definition last_committed_action :: "action_ledger \<Rightarrow> ledger_entry option" where
  "last_committed_action l = last_committed (al_recorded l)"

definition captures_after :: "nat \<Rightarrow> action_ledger \<Rightarrow> ledger_entry list" where
  "captures_after s l = [e \<leftarrow> al_recorded l. is_capture e \<and> s < seq_of e]"

section \<open>Lemmas\<close>

lemma last_committed_from_eq:
  "i \<le> length es \<Longrightarrow> last_committed_from es i = last_opt (filter is_committed (take i es))"
  by (induction i) (auto simp: take_Suc_conv_app_nth last_opt_def)

lemma last_committed_eq: "last_committed es = last_opt (filter is_committed es)"
  by (simp add: last_committed_def last_committed_from_eq)

definition numbered :: "ledger_entry list \<Rightarrow> bool" where
  "numbered es \<longleftrightarrow> map seq_of es = [1..<Suc (length es)]"

definition body_bounded :: "ledger_body \<Rightarrow> bool" where
  "body_bounded b = (case b of
     Fill_committed f \<Rightarrow> length (fc_field f) \<le> 60 \<and>
       (case fc_identity f of None \<Rightarrow> True
        | Some i \<Rightarrow> (case fi_label i of None \<Rightarrow> True | Some l \<Rightarrow> length l \<le> 120) \<and>
                    (case fi_section i of None \<Rightarrow> True | Some l \<Rightarrow> length l \<le> 60))
   | Click_executed c \<Rightarrow> length (ce_name c) \<le> 80
   | Submit_refused r \<Rightarrow> length (sr_name r) \<le> 80
   | Capture c \<Rightarrow> True)"

lemma ledger_clean_length: "0 < lim \<Longrightarrow> length (ledger_clean env s lim) \<le> lim"
  by (simp add: ledger_clean_def)

lemma cleaned_bounded: "body_bounded (cleaned env b)"
  by (auto simp: body_bounded_def cleaned_def clean_identity_def MAX_FIELD_CHARS_def
      MAX_NAME_CHARS_def ledger_clean_length split: action.split option.split)

lemma numbered_nth: "numbered es \<Longrightarrow> i < length es \<Longrightarrow> seq_of (es ! i) = Suc i"
  by (metis numbered_def add.commute length_map nth_map nth_upt plus_1_eq_Suc add_diff_cancel_left'
      diff_Suc_1 length_upt less_diff_conv)

lemma numbered_filter_after:
  assumes "numbered es"
  shows "[e \<leftarrow> es. P e \<and> n < seq_of e] = filter P (drop n es)"
proof -
  have "filter (\<lambda>e. P e \<and> n < seq_of e) (take n es) = []"
    using numbered_nth [OF assms] by (auto simp: filter_empty_conv in_set_conv_nth)
  moreover have "filter (\<lambda>e. P e \<and> n < seq_of e) (drop n es) = filter P (drop n es)"
    using numbered_nth [OF assms] by (auto simp: in_set_conv_nth intro!: filter_cong)
  ultimately show ?thesis
    by (metis append_Nil append_take_drop_id filter_append)
qed

text \<open>A run of the ledger: the inputs with the clock and position read at each.\<close>

definition ledger_run ::
  "text_env \<Rightarrow> (jstext \<times> ledger_location option \<times> ledger_input) list \<Rightarrow> action_ledger" where
  "ledger_run env calls =
     foldl (\<lambda>l (now, loc, i). fst (record_action env now loc i l)) empty_ledger calls"

lemma ledger_run_snoc [simp]:
  "ledger_run env (calls @ [(now, loc, i)]) = fst (record_action env now loc i (ledger_run env calls))"
  by (simp add: ledger_run_def)

lemma ledger_run_Nil [simp]: "ledger_run env [] = empty_ledger"
  by (simp add: ledger_run_def)

lemma ledger_run_length [simp]: "length (al_recorded (ledger_run env calls)) = length calls"
  by (induction calls rule: rev_induct) (auto simp: record_action_def empty_ledger_def Let_def)

lemma ledger_run_numbered: "numbered (al_recorded (ledger_run env calls))"
proof (induction calls rule: rev_induct)
  case Nil
  show ?case by (simp add: numbered_def empty_ledger_def)
next
  case (snoc call calls)
  obtain now loc i where call: "call = (now, loc, i)" by (cases call)
  from snoc show ?case
    by (simp add: call numbered_def record_action_def Let_def seq_of_def)
qed

section \<open>Properties\<close>

text \<open>C5. The ledger is an append-only, densely numbered record: whatever the producers record, the
  entries carry the sequence numbers 1, 2, 3 and so on in order, their ids are pairwise distinct,
  every kept name is within its length bound, each entry was logged as its name-free projection,
  and recording more leaves every earlier entry in place.\<close>

theorem ledger_append_only:
  "(let l = ledger_run env calls in
     map seq_of (al_recorded l) = [1..<Suc (length calls)] \<and>
     distinct (map id_of (al_recorded l)) \<and>
     list_all (\<lambda>e. body_bounded (le_body e)) (al_recorded l) \<and>
     al_logged l = map projection (al_recorded l) \<and>
     prefix (al_recorded l) (al_recorded (ledger_run env (calls @ later))))"
proof -
  let ?l = "ledger_run env calls"
  have seqs: "map seq_of (al_recorded ?l) = [1..<Suc (length calls)]"
    using ledger_run_numbered [of env calls] by (simp add: numbered_def)
  have "map id_of (al_recorded ?l) = map (\<lambda>n. ''A'' @ show_nat n) (map seq_of (al_recorded ?l))"
    by (simp add: id_of_def)
  then have "distinct (map id_of (al_recorded ?l))"
    unfolding seqs by (simp add: distinct_map inj_on_def)
  moreover have "\<forall>e \<in> set (al_recorded ?l). body_bounded (le_body e)"
    by (induction calls rule: rev_induct)
      (auto simp: record_action_def empty_ledger_def Let_def cleaned_bounded)
  moreover have "al_logged ?l = map projection (al_recorded ?l)"
    by (induction calls rule: rev_induct) (auto simp: record_action_def empty_ledger_def Let_def)
  moreover have "prefix (al_recorded ?l) (al_recorded (ledger_run env (calls @ later)))"
  proof (induction later rule: rev_induct)
    case Nil
    show ?case by simp
  next
    case (snoc c later)
    then show ?case
      by (cases c) (simp flip: append_assoc add: record_action_def Let_def prefix_append)
  qed
  ultimately show ?thesis
    using seqs by (simp add: Let_def list_all_iff)
qed

text \<open>"After the last action" means what it says: the latest committed action is the last fill
  or click in record order, and the captures after its sequence number are exactly the captures
  recorded later than it.\<close>

theorem captures_after_last_action:
  "(let l = ledger_run env calls; es = al_recorded l in
     case last_committed_action l of
       None \<Rightarrow> list_all (\<lambda>e. \<not> is_committed e) es
     | Some a \<Rightarrow> (\<exists>before after. es = before @ a # after \<and> is_committed a \<and>
         list_all (\<lambda>e. \<not> is_committed e) after \<and>
         captures_after (seq_of a) l = filter is_capture after))"
proof -
  let ?l = "ledger_run env calls"
  let ?es = "al_recorded ?l"
  show ?thesis
  proof (cases "filter is_committed ?es = []")
    case True
    then have "\<forall>e \<in> set ?es. \<not> is_committed e" by (simp add: filter_empty_conv)
    with True show ?thesis
      by (simp add: last_committed_action_def last_committed_eq last_opt_def Let_def list_all_iff)
  next
    case False
    define a where "a = last (filter is_committed ?es)"
    have "\<exists>e \<in> set ?es. is_committed e" using False by (auto simp: filter_empty_conv)
    then obtain before b after where es: "?es = before @ b # after" and b: "is_committed b"
      and after: "\<forall>e \<in> set after. \<not> is_committed e"
      using split_list_last_prop by metis
    then have "filter is_committed ?es = filter is_committed before @ [b]"
      by (simp add: filter_empty_conv)
    then have ab: "a = b" by (simp add: a_def)
    have "seq_of (?es ! length before) = Suc (length before)"
      by (rule numbered_nth [OF ledger_run_numbered]) (use es in simp)
    with es have seq: "seq_of b = Suc (length before)" by simp
    have "captures_after (seq_of b) ?l = filter is_capture (drop (Suc (length before)) ?es)"
      unfolding captures_after_def seq by (rule numbered_filter_after [OF ledger_run_numbered])
    also have "\<dots> = filter is_capture after" using es by simp
    finally have "captures_after (seq_of b) ?l = filter is_capture after" .
    moreover have "last_committed_action ?l = Some b"
      using False ab by (simp add: last_committed_action_def last_committed_eq last_opt_def a_def)
    ultimately show ?thesis using es b after by (auto simp: Let_def list_all_iff)
  qed
qed

end
