(* ===== verification/TaskContract.thy ===== *)
theory TaskContract
  imports ActionLedger
begin

text \<open>
  The run's declared task contract, \<open>packages/agent/src/runtime/task-contract.ts\<close>, and the schema
  it is validated against, \<open>packages/protocol/src/schemas/task-contract.ts\<close>: cleaning and
  normalization of the model's parameters, the action terms in force across revisions, the phrases
  and the echo shown to the user, and the store that numbers and persists revisions. The platform's
  \<open>URL\<close> parser is the argument \<open>parse_url\<close>; the sanitizer and the mask are the \<open>text_env\<close> of
  \<open>ActionLedger\<close>; the schema's date-time check is the argument \<open>is_datetime\<close>; whether the file
  writes of a declaration succeed is an argument of the declaration.
\<close>

section \<open>Data\<close>

datatype deliverable = Table | Answer | Report | Actions

datatype direction = Asc | Desc

datatype coverage = All_eligible | Listed

datatype submit_effect = Submit_forbidden | Submit_allowed

datatype agentic_command = Research | Do | Ask

record contract_filter =
  cf_name :: jstext
  cf_value :: jstext

record contract_ranking =
  rk_field :: jstext
  rk_direction :: direction

record contract_fill =
  fl_coverage :: coverage
  fl_fields :: "jstext list option"

record contract_params =
  tp_deliverable :: deliverable
  tp_subject :: jstext
  tp_required_fields :: "jstext list option"
  tp_filters :: "contract_filter list option"
  tp_required_sources :: "jstext list option"
  tp_ranking :: "contract_ranking option"
  tp_limit :: "nat option"
  tp_notes :: "jstext option"
  tp_fill :: "contract_fill option"
  tp_artifacts :: "artifact_scope list option"
  tp_submit :: "submit_effect option"

record contract_body =
  tb_deliverable :: deliverable
  tb_subject :: jstext
  tb_required_fields :: "jstext list"
  tb_filters :: "contract_filter list"
  tb_required_sources :: "jstext list"
  tb_ranking :: "contract_ranking option"
  tb_limit :: "nat option"
  tb_notes :: "jstext option"
  tb_fill :: "contract_fill option"
  tb_artifacts :: "artifact_scope list"
  tb_submit :: submit_effect

datatype contract_issue =
    Issue_source_host jstext
  | Issue_duplicate jstext
  | Issue_table_fields
  | Issue_ranking_field jstext
  | Issue_actions_command
  | Issue_fill_fields coverage

text \<open>A declaration ends with an issue, with the schema's exception, or with a body.\<close>

datatype contract_failure = Contract_issue contract_issue | Schema_rejects

record fill_term =
  ft_coverage :: coverage
  ft_fields :: "jstext list"
  ft_declared_in :: nat

record artifact_term =
  at_scope :: artifact_scope
  at_declared_in :: nat

datatype submit_term = Forbidden_since nat | Allowed

record action_terms =
  et_fill :: "fill_term option"
  et_artifacts :: "artifact_term list"
  et_submit :: submit_term

definition NO_ACTION_TERMS :: action_terms where
  "NO_ACTION_TERMS = \<lparr>et_fill = None, et_artifacts = [], et_submit = Allowed\<rparr>"

section \<open>Text\<close>

definition clean_text :: "text_env \<Rightarrow> jstext \<Rightarrow> nat \<Rightarrow> jstext" where
  "clean_text env s lim =
     clip lim (collapse_spaces (replace_runs is_control (te_sanitize env (te_mask env s))))"

definition first_duplicate :: "jstext list \<Rightarrow> jstext option" where
  "first_duplicate vs = first_repeat to_lower [] vs"

definition strip_www :: "jstext \<Rightarrow> jstext" where
  "strip_www host = (if starts_with ''www.'' host then drop 4 host else host)"

definition strip_trailing_dot :: "jstext \<Rightarrow> jstext" where
  "strip_trailing_dot s = (if ends_with ''.'' s then butlast s else s)"

definition scope_name :: "artifact_scope \<Rightarrow> jstext" where
  "scope_name s = (case s of Viewport \<Rightarrow> ''viewport'' | Full_page \<Rightarrow> ''full_page'' | Element \<Rightarrow> ''element'')"

definition artifact_label :: "artifact_scope \<Rightarrow> jstext" where
  "artifact_label s = (case s of Viewport \<Rightarrow> ''viewport screenshot''
     | Full_page \<Rightarrow> ''full-page screenshot'' | Element \<Rightarrow> ''element screenshot'')"

definition artifact_requirement_id :: "artifact_scope \<Rightarrow> jstext" where
  "artifact_requirement_id s = ''artifact:screenshot:'' @ scope_name s"

section \<open>Source hosts\<close>

record source_url =
  su_protocol :: jstext
  su_username :: jstext
  su_password :: jstext
  su_hostname :: jstext

definition has_scheme :: "jstext \<Rightarrow> bool" where
  "has_scheme s \<longleftrightarrow> s \<noteq> [] \<and> (is_upper (hd s) \<or> is_lower (hd s)) \<and>
     starts_with ''://'' (dropWhile (\<lambda>c. is_alnum c \<or> c \<in> set ''+.-'') s)"

definition is_host_char :: "char \<Rightarrow> bool" where
  "is_host_char c \<longleftrightarrow> is_lower_alnum c \<or> c = CHR ''-''"

text \<open>\<open>SOURCE_HOST_PATTERN\<close>: at least two non-empty labels of lower-case letters, digits, hyphens.\<close>

definition is_source_host :: "jstext \<Rightarrow> bool" where
  "is_source_host s \<longleftrightarrow> 2 \<le> length (split_on CHR ''.'' s) \<and>
     list_all (\<lambda>l. l \<noteq> [] \<and> list_all is_host_char l) (split_on CHR ''.'' s)"

definition normalize_source_host :: "(jstext \<Rightarrow> source_url option) \<Rightarrow> jstext \<Rightarrow> jstext option" where
  "normalize_source_host parse_url raw =
     (let trimmed = trim raw in
      if trimmed = [] \<or> list_ex is_space trimmed then None
      else case parse_url (if has_scheme trimmed then trimmed else ''https://'' @ trimmed) of
        None \<Rightarrow> None
      | Some u \<Rightarrow>
          if su_protocol u \<noteq> ''https:'' \<and> su_protocol u \<noteq> ''http:'' then None
          else if su_username u \<noteq> [] \<or> su_password u \<noteq> [] then None
          else let host = strip_www (strip_trailing_dot (to_lower (su_hostname u))) in
            if length host \<le> 253 \<and> is_source_host host then Some host else None)"

definition host_satisfies_required_source ::
  "(jstext \<Rightarrow> source_url option) \<Rightarrow> jstext \<Rightarrow> contract_body \<Rightarrow> bool" where
  "host_satisfies_required_source parse_url url body = (case parse_url url of
     None \<Rightarrow> False
   | Some u \<Rightarrow>
       let host = strip_www (strip_trailing_dot (to_lower (su_hostname u))) in
       list_ex (\<lambda>source. host = source \<or> ends_with (''.'' @ source) host) (tb_required_sources body))"

section \<open>The schema\<close>

definition TASK_CONTRACT_MAX_REVISIONS :: nat where
  "TASK_CONTRACT_MAX_REVISIONS = 3"

definition CONTRACT_FILL_MAX_FIELDS :: nat where
  "CONTRACT_FILL_MAX_FIELDS = 40"

definition CONTRACT_MAX_ARTIFACTS :: nat where
  "CONTRACT_MAX_ARTIFACTS = 3"

definition within :: "nat \<Rightarrow> nat \<Rightarrow> 'a list \<Rightarrow> bool" where
  "within lo hi s \<longleftrightarrow> lo \<le> length s \<and> length s \<le> hi"

definition is_field_name :: "jstext \<Rightarrow> bool" where
  "is_field_name s \<longleftrightarrow> within 1 60 s"

definition has_ci_duplicate :: "jstext list \<Rightarrow> bool" where
  "has_ci_duplicate vs \<longleftrightarrow> first_repeat to_lower [] vs \<noteq> None"

definition valid_fill :: "contract_fill \<Rightarrow> bool" where
  "valid_fill f \<longleftrightarrow>
     (case fl_fields f of None \<Rightarrow> True
      | Some fs \<Rightarrow> length fs \<le> CONTRACT_FILL_MAX_FIELDS \<and> list_all is_field_name fs \<and>
          \<not> has_ci_duplicate fs) \<and>
     (fl_coverage f = Listed \<longrightarrow> fl_fields f \<noteq> None \<and> fl_fields f \<noteq> Some []) \<and>
     (fl_coverage f = All_eligible \<longrightarrow> fl_fields f = None)"

definition valid_body :: "contract_body \<Rightarrow> bool" where
  "valid_body b \<longleftrightarrow>
     within 1 200 (tb_subject b) \<and>
     length (tb_required_fields b) \<le> 12 \<and> list_all is_field_name (tb_required_fields b) \<and>
     length (tb_filters b) \<le> 12 \<and>
     list_all (\<lambda>f. is_field_name (cf_name f) \<and> within 1 120 (cf_value f)) (tb_filters b) \<and>
     length (tb_required_sources b) \<le> 5 \<and>
     list_all (\<lambda>s. is_source_host s \<and> length s \<le> 253) (tb_required_sources b) \<and>
     (case tb_ranking b of None \<Rightarrow> True | Some r \<Rightarrow> is_field_name (rk_field r)) \<and>
     (case tb_limit b of None \<Rightarrow> True | Some n \<Rightarrow> 1 \<le> n \<and> n \<le> 50) \<and>
     (case tb_notes b of None \<Rightarrow> True | Some s \<Rightarrow> length s \<le> 500) \<and>
     length (tb_artifacts b) \<le> CONTRACT_MAX_ARTIFACTS \<and>
     (case tb_fill b of None \<Rightarrow> True | Some f \<Rightarrow> valid_fill f) \<and>
     distinct (tb_artifacts b) \<and>
     \<not> has_ci_duplicate (tb_required_fields b) \<and>
     \<not> has_ci_duplicate (map cf_name (tb_filters b)) \<and>
     distinct (tb_required_sources b) \<and>
     (tb_deliverable b = Table \<longrightarrow> tb_required_fields b \<noteq> []) \<and>
     (tb_deliverable b = Table \<longrightarrow>
        (case tb_ranking b of None \<Rightarrow> True
         | Some r \<Rightarrow> list_ex (\<lambda>f. to_lower f = to_lower (rk_field r)) (tb_required_fields b)))"

section \<open>Normalization\<close>

definition or_list :: "'a list option \<Rightarrow> 'a list" where
  "or_list xs = (case xs of None \<Rightarrow> [] | Some ys \<Rightarrow> ys)"

definition or_else :: "'a option \<Rightarrow> 'a option \<Rightarrow> 'a option" where
  "or_else x y = (case x of None \<Rightarrow> y | Some _ \<Rightarrow> x)"

text \<open>The loop over \<open>required_sources\<close>: the first entry that is not a host, or every host.\<close>

fun source_hosts ::
  "(jstext \<Rightarrow> source_url option) \<Rightarrow> jstext list \<Rightarrow> (jstext, jstext list) result" where
  "source_hosts parse_url [] = Ok []"
| "source_hosts parse_url (raw # raws) = (case normalize_source_host parse_url raw of
     None \<Rightarrow> Err raw
   | Some host \<Rightarrow> (case source_hosts parse_url raws of
       Inl bad \<Rightarrow> Err bad | Inr hosts \<Rightarrow> Ok (host # hosts)))"

definition declares_action :: "contract_params \<Rightarrow> bool" where
  "declares_action p \<longleftrightarrow> tp_deliverable p = Actions \<or> tp_fill p \<noteq> None \<or>
     0 < length (or_list (tp_artifacts p)) \<or> tp_submit p = Some Submit_forbidden"

definition normalize_fill :: "text_env \<Rightarrow> contract_fill \<Rightarrow> (contract_issue, contract_fill) result" where
  "normalize_fill env f =
     (let listed = map (\<lambda>s. clean_text env s 60) (or_list (fl_fields f));
          wants = (fl_coverage f = Listed)
      in if wants \<noteq> (0 < length listed) \<or> CONTRACT_FILL_MAX_FIELDS < length listed
         then Err (Issue_fill_fields (fl_coverage f))
         else case first_duplicate listed of
           Some v \<Rightarrow> Err (Issue_duplicate v)
         | None \<Rightarrow> Ok (if wants then \<lparr>fl_coverage = Listed, fl_fields = Some listed\<rparr>
                     else \<lparr>fl_coverage = All_eligible, fl_fields = None\<rparr>))"

text \<open>The cleaned parts of a declaration, and the object literal given to the schema.\<close>

definition cleaned_fields :: "text_env \<Rightarrow> contract_params \<Rightarrow> jstext list" where
  "cleaned_fields env p = map (\<lambda>f. clean_text env f 60) (or_list (tp_required_fields p))"

definition cleaned_filters :: "text_env \<Rightarrow> contract_params \<Rightarrow> contract_filter list" where
  "cleaned_filters env p = map (\<lambda>f. \<lparr>cf_name = clean_text env (cf_name f) 60,
     cf_value = clean_text env (cf_value f) 120\<rparr>) (or_list (tp_filters p))"

definition cleaned_ranking :: "text_env \<Rightarrow> contract_params \<Rightarrow> contract_ranking option" where
  "cleaned_ranking env p = map_option (\<lambda>r. \<lparr>rk_field = clean_text env (rk_field r) 60,
     rk_direction = rk_direction r\<rparr>) (tp_ranking p)"

definition built_body ::
  "text_env \<Rightarrow> contract_params \<Rightarrow> jstext list \<Rightarrow> contract_fill option \<Rightarrow> contract_body" where
  "built_body env p sources fill =
     (let notes = (case tp_notes p of None \<Rightarrow> [] | Some s \<Rightarrow> clean_text env s 500) in
      \<lparr>tb_deliverable = tp_deliverable p,
       tb_subject = clean_text env (tp_subject p) 200,
       tb_required_fields = cleaned_fields env p,
       tb_filters = cleaned_filters env p,
       tb_required_sources = sources,
       tb_ranking = cleaned_ranking env p,
       tb_limit = tp_limit p,
       tb_notes = (if notes = [] then None else Some notes),
       tb_fill = fill,
       tb_artifacts = or_list (tp_artifacts p),
       tb_submit = (case tp_submit p of None \<Rightarrow> Submit_allowed | Some e \<Rightarrow> e)\<rparr>)"

definition ranks_unknown_field :: "text_env \<Rightarrow> contract_params \<Rightarrow> jstext option" where
  "ranks_unknown_field env p = (case cleaned_ranking env p of
     None \<Rightarrow> None
   | Some r \<Rightarrow>
       if tp_deliverable p = Table \<and>
          \<not> list_ex (\<lambda>f. to_lower f = to_lower (rk_field r)) (cleaned_fields env p)
       then Some (rk_field r) else None)"

definition normalize_contract ::
  "(jstext \<Rightarrow> source_url option) \<Rightarrow> text_env \<Rightarrow> agentic_command option \<Rightarrow> contract_params \<Rightarrow>
     (contract_failure, contract_body) result" where
  "normalize_contract parse_url env command p =
     (case source_hosts parse_url (or_list (tp_required_sources p)) of
        Inl bad \<Rightarrow> Err (Contract_issue (Issue_source_host (clean_text env bad 80)))
      | Inr sources \<Rightarrow>
         (case or_else (first_duplicate (cleaned_fields env p))
                 (or_else (first_duplicate (map cf_name (cleaned_filters env p)))
                    (first_duplicate sources)) of
           Some v \<Rightarrow> Err (Contract_issue (Issue_duplicate v))
         | None \<Rightarrow>
            if tp_deliverable p = Table \<and> cleaned_fields env p = []
            then Err (Contract_issue Issue_table_fields)
            else (case ranks_unknown_field env p of
              Some f \<Rightarrow> Err (Contract_issue (Issue_ranking_field f))
            | None \<Rightarrow>
               if declares_action p \<and> command = Some Research
               then Err (Contract_issue Issue_actions_command)
               else
                 (case (case tp_fill p of None \<Rightarrow> Ok None
                        | Some f \<Rightarrow> (case normalize_fill env f of
                            Inl i \<Rightarrow> Err i | Inr g \<Rightarrow> Ok (Some g))) of
                    Inl i \<Rightarrow> Err (Contract_issue i)
                  | Inr fill \<Rightarrow>
                     (case first_duplicate (map artifact_label (or_list (tp_artifacts p))) of
                        Some v \<Rightarrow> Err (Contract_issue (Issue_duplicate v))
                      | None \<Rightarrow>
                          (let body = built_body env p sources fill in
                           if valid_body body then Ok body else Err Schema_rejects))))))"

section \<open>Action terms across revisions\<close>

record contract_revision =
  cr_revision :: nat
  cr_declared_at :: jstext
  cr_contract :: contract_body

text \<open>\<open>sameFill\<close> and one iteration of each part of the loop of \<open>effectiveActionTermsOf\<close>.\<close>

definition same_fill :: "fill_term option \<Rightarrow> coverage \<Rightarrow> jstext list \<Rightarrow> bool" where
  "same_fill previous c names \<longleftrightarrow> (case previous of None \<Rightarrow> False
     | Some f \<Rightarrow> ft_coverage f = c \<and> length (ft_fields f) = length names \<and>
         list_all (\<lambda>i. ft_fields f ! i = names ! i) [0..<length (ft_fields f)])"

definition next_fill :: "nat \<Rightarrow> contract_fill option \<Rightarrow> fill_term option \<Rightarrow> fill_term option" where
  "next_fill revision declared fill = (case declared of
     None \<Rightarrow> fill
   | Some f \<Rightarrow>
       let fields = or_list (fl_fields f) in
       Some \<lparr>ft_coverage = fl_coverage f, ft_fields = fields,
         ft_declared_in = (if same_fill fill (fl_coverage f) fields
            then ft_declared_in (the fill) else revision)\<rparr>)"

definition artifact_key :: "artifact_scope \<Rightarrow> jstext" where
  "artifact_key s = ''screenshot:'' @ scope_name s"

definition add_artifacts ::
  "nat \<Rightarrow> artifact_scope list \<Rightarrow> (jstext, artifact_term) jsmap \<Rightarrow> (jstext, artifact_term) jsmap" where
  "add_artifacts revision scopes m = foldl (\<lambda>m s.
     set_if_absent (artifact_key s) \<lparr>at_scope = s, at_declared_in = revision\<rparr> m) m scopes"

definition next_submit :: "nat \<Rightarrow> submit_effect \<Rightarrow> submit_term \<Rightarrow> submit_term" where
  "next_submit revision e t =
     (if e = Submit_forbidden \<and> t = Allowed then Forbidden_since revision else t)"

type_synonym terms_state = "fill_term option \<times> (jstext, artifact_term) jsmap \<times> submit_term"

definition terms_step :: "terms_state \<Rightarrow> contract_revision \<Rightarrow> terms_state" where
  "terms_step st r = (case st of (fill, artifacts, submit) \<Rightarrow>
     (next_fill (cr_revision r) (tb_fill (cr_contract r)) fill,
      add_artifacts (cr_revision r) (tb_artifacts (cr_contract r)) artifacts,
      next_submit (cr_revision r) (tb_submit (cr_contract r)) submit))"

definition effective_action_terms_of :: "contract_revision list \<Rightarrow> action_terms" where
  "effective_action_terms_of revisions =
     (case foldl terms_step (None, [], Allowed) revisions of (fill, artifacts, submit) \<Rightarrow>
        \<lparr>et_fill = fill, et_artifacts = map snd artifacts, et_submit = submit\<rparr>)"

record requirement_origin =
  ro_id :: jstext
  ro_declared_in :: nat

definition requirement_origins :: "action_terms \<Rightarrow> requirement_origin list" where
  "requirement_origins t =
     (case et_fill t of None \<Rightarrow> []
      | Some f \<Rightarrow> [\<lparr>ro_id = ''fill'', ro_declared_in = ft_declared_in f\<rparr>]) @
     map (\<lambda>a. \<lparr>ro_id = artifact_requirement_id (at_scope a), ro_declared_in = at_declared_in a\<rparr>)
       (et_artifacts t) @
     (case et_submit t of Allowed \<Rightarrow> []
      | Forbidden_since n \<Rightarrow> [\<lparr>ro_id = ''effects.submit'', ro_declared_in = n\<rparr>])"

section \<open>Phrases and the echo\<close>

definition fill_phrase :: "fill_term \<Rightarrow> jstext" where
  "fill_phrase f = (if ft_coverage f = All_eligible then ''fill all eligible fields''
     else ''fill '' @ show_nat (length (ft_fields f)) @ '' listed field'' @
       (if length (ft_fields f) = 1 then [] else ''s''))"

definition capture_phrase :: "artifact_term list \<Rightarrow> jstext" where
  "capture_phrase as = ''capture '' @ join '' and '' (map (\<lambda>a.
     (if at_scope a = Element then ''an'' else ''a'') @ '' '' @ artifact_label (at_scope a)) as)"

definition render_action_phrase :: "action_terms \<Rightarrow> jstext option" where
  "render_action_phrase t =
     (let phrases =
        (case et_fill t of None \<Rightarrow> [] | Some f \<Rightarrow> [fill_phrase f]) @
        (if et_artifacts t = [] then [] else [capture_phrase (et_artifacts t)]) @
        (case et_submit t of Allowed \<Rightarrow> [] | Forbidden_since _ \<Rightarrow> [''do not submit''])
      in if phrases = [] then None else Some (join ''; '' phrases))"

definition CONTRACT_ECHO_MAX :: nat where
  "CONTRACT_ECHO_MAX = 400"

definition deliverable_name :: "deliverable \<Rightarrow> jstext" where
  "deliverable_name d = (case d of Table \<Rightarrow> ''table'' | Answer \<Rightarrow> ''answer''
     | Report \<Rightarrow> ''report'' | Actions \<Rightarrow> ''actions'')"

definition echo_parts :: "contract_body \<Rightarrow> action_terms \<Rightarrow> jstext list" where
  "echo_parts b t =
     (case render_action_phrase t of None \<Rightarrow> [] | Some s \<Rightarrow> [s]) @
     (if tb_required_fields b = [] then []
      else [''fields: '' @ join '', '' (tb_required_fields b)]) @
     (if tb_filters b = [] then []
      else [''filters: '' @ join '', '' (map (\<lambda>f. cf_name f @ ''='' @ cf_value f) (tb_filters b))]) @
     (if tb_required_sources b = [] then []
      else [''sources: '' @ join '', '' (tb_required_sources b)]) @
     (case tb_ranking b of None \<Rightarrow> []
      | Some r \<Rightarrow> [''ranked by '' @ rk_field r @ '' '' @
          (if rk_direction r = Asc then ''ascending'' else ''descending'')]) @
     (case tb_limit b of None \<Rightarrow> [] | Some n \<Rightarrow> [''top '' @ show_nat n]) @
     (case tb_notes b of None \<Rightarrow> [] | Some s \<Rightarrow> [''note: '' @ s])"

definition render_contract_echo :: "contract_body \<Rightarrow> action_terms \<Rightarrow> jstext" where
  "render_contract_echo b t =
     (let parts = echo_parts b t;
          line = deliverable_name (tb_deliverable b) @ '' of '' @ tb_subject b @
            (if parts = [] then [] else '' '' @ [em_dash] @ '' '' @ join ''; '' parts)
      in clip CONTRACT_ECHO_MAX (collapse_spaces (replace_runs is_control line)))"

section \<open>The store\<close>

record contract_record =
  cx_run_id :: jstext
  cx_command :: agentic_command
  cx_revisions :: "contract_revision list"
  cx_requirements :: "requirement_origin list option"

text \<open>\<open>CONTRACT_REQUIREMENT_ID_PATTERN\<close>.\<close>

definition is_requirement_id :: "jstext \<Rightarrow> bool" where
  "is_requirement_id s \<longleftrightarrow>
     s \<in> set [''deliverable'', ''fill'', ''effects.submit'', ''artifact:screenshot:viewport'',
       ''artifact:screenshot:full_page'', ''artifact:screenshot:element''] \<or>
     (starts_with ''filter:'' s \<and>
      (let r = drop 7 s in within 1 60 r \<and> \<not> is_space (hd r) \<and> \<not> is_space (last r) \<and>
         list_all (\<lambda>c. c \<noteq> CHR 0x0A \<and> c \<noteq> CHR 0x0D) r))"

definition valid_record :: "(jstext \<Rightarrow> bool) \<Rightarrow> contract_record \<Rightarrow> bool" where
  "valid_record is_datetime r \<longleftrightarrow>
     1 \<le> length (cx_run_id r) \<and> cx_command r \<in> {Research, Do} \<and>
     within 1 TASK_CONTRACT_MAX_REVISIONS (cx_revisions r) \<and>
     list_all (\<lambda>v. 1 \<le> cr_revision v \<and> is_datetime (cr_declared_at v) \<and> valid_body (cr_contract v))
       (cx_revisions r) \<and>
     map cr_revision (cx_revisions r) = [1..<Suc (length (cx_revisions r))] \<and>
     (case cx_requirements r of None \<Rightarrow> True
      | Some qs \<Rightarrow>
          length qs \<le> 1 + CONTRACT_MAX_ARTIFACTS + 1 \<and> distinct (map ro_id qs) \<and>
          list_all (\<lambda>q. is_requirement_id (ro_id q) \<and> 1 \<le> ro_declared_in q \<and>
             ro_declared_in q \<le> length (cx_revisions r)) qs)"

record contract_store =
  st_run_id :: jstext
  st_command :: agentic_command
  st_required :: bool
  st_required_to_publish :: bool
  st_revisions :: "contract_revision list"
  st_file :: "contract_record option"

definition new_contract_store :: "jstext \<Rightarrow> agentic_command \<Rightarrow> bool \<Rightarrow> bool \<Rightarrow> contract_store" where
  "new_contract_store run_id command req to_publish = \<lparr>st_run_id = run_id, st_command = command,
     st_required = req, st_required_to_publish = to_publish, st_revisions = [], st_file = None\<rparr>"

datatype declare_error = Revision_limit | Command_cannot_declare | Record_invalid | Write_failed

text \<open>The record a declaration persists: the revisions so far and the new one.\<close>

definition next_record :: "contract_body \<Rightarrow> jstext \<Rightarrow> contract_store \<Rightarrow> contract_record" where
  "next_record body at s =
     (let revisions = st_revisions s @ [\<lparr>cr_revision = length (st_revisions s) + 1,
            cr_declared_at = at, cr_contract = body\<rparr>];
          requirements = requirement_origins (effective_action_terms_of revisions)
      in \<lparr>cx_run_id = st_run_id s, cx_command = st_command s, cx_revisions = revisions,
          cx_requirements = (if requirements = [] then None else Some requirements)\<rparr>)"

definition append_revision ::
  "(jstext \<Rightarrow> bool) \<Rightarrow> contract_body \<Rightarrow> jstext \<Rightarrow> bool \<Rightarrow> contract_store \<Rightarrow>
     contract_store \<times> (declare_error, nat) result" where
  "append_revision is_datetime body at writes_ok s =
     (if TASK_CONTRACT_MAX_REVISIONS \<le> length (st_revisions s) then (s, Err Revision_limit)
      else if st_command s \<noteq> Research \<and> st_command s \<noteq> Do then (s, Err Command_cannot_declare)
      else if \<not> valid_record is_datetime (next_record body at s) then (s, Err Record_invalid)
      else if \<not> writes_ok then (s, Err Write_failed)
      else (s\<lparr>st_revisions := cx_revisions (next_record body at s),
              st_file := Some (next_record body at s)\<rparr>, Ok (length (st_revisions s) + 1)))"

definition effective_action_terms :: "contract_store \<Rightarrow> action_terms" where
  "effective_action_terms s =
     (if st_revisions s = [] then NO_ACTION_TERMS else effective_action_terms_of (st_revisions s))"

definition effective_action_terms_through :: "int \<Rightarrow> contract_store \<Rightarrow> action_terms" where
  "effective_action_terms_through revision s =
     effective_action_terms_of (take (nat (max 0 revision)) (st_revisions s))"

definition current_contract :: "contract_store \<Rightarrow> contract_body option" where
  "current_contract s = map_option cr_contract (last_opt (st_revisions s))"

definition revision_at :: "nat \<Rightarrow> contract_store \<Rightarrow> contract_body option" where
  "revision_at revision s =
     (if revision = 0 then None
      else map_option cr_contract (nth_opt (st_revisions s) (revision - 1)))"

record brief_notice =
  bn_kind :: jstext
  bn_source :: jstext
  bn_reason :: jstext

definition MISSING_CONTRACT_REASON :: jstext where
  "MISSING_CONTRACT_REASON = ''No task contract was declared, so the deliverable, required fields, filters, and required sources were not recorded for this run.''"

definition contract_notices :: "contract_store \<Rightarrow> brief_notice list" where
  "contract_notices s = (if st_required s \<and> current_contract s = None
     then [\<lparr>bn_kind = ''other'', bn_source = ''task-contract'', bn_reason = MISSING_CONTRACT_REASON\<rparr>]
     else [])"

section \<open>Cleaned text\<close>

lemma space_not_control [simp]: "\<not> is_control CHR '' ''"
  by code_simp

lemma ellipsis_not_control [simp]: "\<not> is_control ellipsis"
  by (simp add: is_control_def)

lemma set_collapse_spaces: "set (collapse_spaces s) \<subseteq> insert CHR '' '' (set s)"
  using set_trim [of "replace_runs is_space s"] set_sub_runs [of is_space False s]
  by (auto simp: collapse_spaces_def replace_runs_def)

lemma set_clip: "set (clip lim s) \<subseteq> insert ellipsis (set s)"
  by (auto simp: clip_def dest: in_set_takeD)

definition no_controls :: "jstext \<Rightarrow> bool" where
  "no_controls s \<longleftrightarrow> (\<forall>c \<in> set s. \<not> is_control c)"

lemma no_controls_stripped: "no_controls (clip lim (collapse_spaces (replace_runs is_control s)))"
proof -
  have stripped: "\<forall>c \<in> set (replace_runs is_control s). \<not> is_control c"
    using set_sub_runs [of is_control False s] by (auto simp: replace_runs_def)
  have sub: "set (clip lim (collapse_spaces (replace_runs is_control s)))
      \<subseteq> insert ellipsis (insert CHR '' '' (set (replace_runs is_control s)))"
    using set_clip set_collapse_spaces by (meson insert_mono order_trans)
  have "\<forall>c \<in> set (clip lim (collapse_spaces (replace_runs is_control s))).
      \<not> is_control c"
  proof (intro ballI)
    fix c
    assume "c \<in> set (clip lim (collapse_spaces (replace_runs is_control s)))"
    with sub have "c = ellipsis \<or> c = CHR '' '' \<or> c \<in> set (replace_runs is_control s)"
      by blast
    with stripped show "\<not> is_control c"
      using ellipsis_not_control space_not_control by metis
  qed
  then show ?thesis by (simp add: no_controls_def)
qed

lemma clean_text_no_controls [simp]: "no_controls (clean_text env s lim)"
  by (simp add: clean_text_def no_controls_stripped)

lemma clean_text_length: "0 < lim \<Longrightarrow> length (clean_text env s lim) \<le> lim"
  by (simp add: clean_text_def)

lemma clean_text_empty: "0 < lim \<Longrightarrow> 0 < lim' \<Longrightarrow> clean_text env s lim = [] \<longleftrightarrow> clean_text env s lim' = []"
  by (auto simp: clean_text_def clip_def)

section \<open>Normalized contracts\<close>

lemma first_duplicate_None: "first_duplicate vs = None \<longleftrightarrow> distinct (map to_lower vs)"
  by (simp add: first_duplicate_def first_repeat_None)

lemma has_ci_duplicate_iff: "has_ci_duplicate vs \<longleftrightarrow> \<not> distinct (map to_lower vs)"
  using first_duplicate_None [of vs] by (simp add: has_ci_duplicate_def first_duplicate_def)

lemma distinct_of_map: "distinct (map f xs) \<Longrightarrow> distinct xs"
  by (simp add: distinct_map)

lemma normalize_source_host_valid:
  "normalize_source_host parse_url raw = Some h \<Longrightarrow> is_source_host h \<and> length h \<le> 253"
  by (auto simp: normalize_source_host_def Let_def split: if_splits option.splits)

lemma source_hosts_valid:
  "source_hosts parse_url raws = Ok hs \<Longrightarrow>
   length hs = length raws \<and> list_all (\<lambda>h. is_source_host h \<and> length h \<le> 253) hs"
  by (induction raws arbitrary: hs)
    (auto split: option.splits sum.splits dest: normalize_source_host_valid)

lemma or_else_None [simp]: "or_else x y = None \<longleftrightarrow> x = None \<and> y = None"
  by (cases x) (auto simp: or_else_def)

lemma normalize_Ok_valid: "normalize_contract parse_url env cmd p = Ok b \<Longrightarrow> valid_body b"
  unfolding normalize_contract_def Let_def by (auto split: sum.splits option.splits if_splits)

text \<open>What the tool's input schema (\<open>adapters/pi/tools/task-contract.ts\<close>) guarantees.\<close>

definition visible :: "nat \<Rightarrow> jstext \<Rightarrow> bool" where
  "visible hi s \<longleftrightarrow> within 1 hi s \<and> list_ex (\<lambda>c. \<not> is_space c) s"

definition params_in_schema :: "contract_params \<Rightarrow> bool" where
  "params_in_schema p \<longleftrightarrow>
     visible 200 (tp_subject p) \<and>
     length (or_list (tp_required_fields p)) \<le> 12 \<and>
     list_all (visible 60) (or_list (tp_required_fields p)) \<and>
     length (or_list (tp_filters p)) \<le> 12 \<and>
     list_all (\<lambda>f. visible 60 (cf_name f) \<and> visible 120 (cf_value f)) (or_list (tp_filters p)) \<and>
     length (or_list (tp_required_sources p)) \<le> 5 \<and>
     list_all (within 1 253) (or_list (tp_required_sources p)) \<and>
     (case tp_ranking p of None \<Rightarrow> True | Some r \<Rightarrow> visible 60 (rk_field r)) \<and>
     (case tp_limit p of None \<Rightarrow> True | Some n \<Rightarrow> 1 \<le> n \<and> n \<le> 50) \<and>
     (case tp_fill p of None \<Rightarrow> True
      | Some f \<Rightarrow> length (or_list (fl_fields f)) \<le> 40 \<and> list_all (visible 60) (or_list (fl_fields f))) \<and>
     length (or_list (tp_artifacts p)) \<le> 3 \<and>
     (case tp_notes p of None \<Rightarrow> True | Some s \<Rightarrow> length s \<le> 500)"

text \<open>The texts of the parameters that must not be cleaned away.\<close>

definition kept_texts :: "contract_params \<Rightarrow> jstext list" where
  "kept_texts p = tp_subject p # or_list (tp_required_fields p) @
     concat (map (\<lambda>f. [cf_name f, cf_value f]) (or_list (tp_filters p))) @
     (case tp_ranking p of None \<Rightarrow> [] | Some r \<Rightarrow> [rk_field r]) @
     (case tp_fill p of None \<Rightarrow> [] | Some f \<Rightarrow> or_list (fl_fields f))"

definition survives :: "text_env \<Rightarrow> jstext \<Rightarrow> bool" where
  "survives env s \<longleftrightarrow> clean_text env s 1 \<noteq> []"

lemma cleaned_within: "survives env s \<Longrightarrow> 0 < hi \<Longrightarrow> within (Suc 0) hi (clean_text env s hi)"
  using clean_text_empty [of 1 hi env s] clean_text_length [of hi env s]
  by (cases "clean_text env s hi") (auto simp: survives_def within_def)

lemma normalize_fill_valid:
  assumes "normalize_fill env f = Ok g" "\<forall>s \<in> set (or_list (fl_fields f)). survives env s"
  shows "valid_fill g"
  using assms
  by (auto simp: normalize_fill_def valid_fill_def Let_def first_duplicate_None has_ci_duplicate_iff
      list_all_iff is_field_name_def cleaned_within split: if_splits option.splits)

lemma survives_all: "list_all (survives env) (kept_texts p) \<longleftrightarrow>
   survives env (tp_subject p) \<and>
   (\<forall>s \<in> set (or_list (tp_required_fields p)). survives env s) \<and>
   (\<forall>f \<in> set (or_list (tp_filters p)). survives env (cf_name f) \<and> survives env (cf_value f)) \<and>
   (case tp_ranking p of None \<Rightarrow> True | Some r \<Rightarrow> survives env (rk_field r)) \<and>
   (case tp_fill p of None \<Rightarrow> True | Some f \<Rightarrow> \<forall>s \<in> set (or_list (fl_fields f)). survives env s)"
  by (auto simp: kept_texts_def list_all_iff split: option.splits)

lemma built_body_valid:
  assumes schema: "params_in_schema p"
    and kept: "list_all (survives env) (kept_texts p)"
    and sources: "source_hosts parse_url (or_list (tp_required_sources p)) = Ok sources"
    and nodup: "first_duplicate (cleaned_fields env p) = None"
      "first_duplicate (map cf_name (cleaned_filters env p)) = None"
      "first_duplicate sources = None"
      "first_duplicate (map artifact_label (or_list (tp_artifacts p))) = None"
    and table: "\<not> (tp_deliverable p = Table \<and> cleaned_fields env p = [])"
    and ranking: "ranks_unknown_field env p = None"
    and fill: "fill = None \<and> tp_fill p = None \<or>
      (\<exists>f g. tp_fill p = Some f \<and> normalize_fill env f = Ok g \<and> fill = Some g)"
  shows "valid_body (built_body env p sources fill)"
proof -
  let ?b = "built_body env p sources fill"
  note kept = kept [unfolded survives_all]
  note schema = schema [unfolded params_in_schema_def]
  have b: "tb_deliverable ?b = tp_deliverable p" "tb_subject ?b = clean_text env (tp_subject p) 200"
    "tb_required_fields ?b = cleaned_fields env p" "tb_filters ?b = cleaned_filters env p"
    "tb_required_sources ?b = sources" "tb_ranking ?b = cleaned_ranking env p"
    "tb_limit ?b = tp_limit p" "tb_fill ?b = fill" "tb_artifacts ?b = or_list (tp_artifacts p)"
    by (simp_all add: built_body_def Let_def)
  have "within 1 200 (tb_subject ?b)"
    using kept by (simp add: b cleaned_within)
  moreover have "length (tb_required_fields ?b) \<le> 12 \<and> list_all is_field_name (tb_required_fields ?b)"
    using kept schema by (simp add: b list_all_iff cleaned_fields_def is_field_name_def cleaned_within)
  moreover have "length (tb_filters ?b) \<le> 12 \<and>
      list_all (\<lambda>f. is_field_name (cf_name f) \<and> within 1 120 (cf_value f)) (tb_filters ?b)"
    using kept schema by (simp add: b list_all_iff cleaned_filters_def is_field_name_def cleaned_within)
  moreover have "length (tb_required_sources ?b) \<le> 5 \<and>
      list_all (\<lambda>s. is_source_host s \<and> length s \<le> 253) (tb_required_sources ?b) \<and>
      distinct (tb_required_sources ?b)"
    using source_hosts_valid [OF sources] schema nodup(3)
    by (simp add: b first_duplicate_None distinct_of_map [of to_lower])
  moreover have "case tb_ranking ?b of None \<Rightarrow> True | Some r \<Rightarrow> is_field_name (rk_field r)"
    using kept by (simp add: b cleaned_ranking_def is_field_name_def cleaned_within split: option.splits)
  moreover have "case tb_limit ?b of None \<Rightarrow> True | Some n \<Rightarrow> 1 \<le> n \<and> n \<le> 50"
    using schema by (simp add: b)
  moreover have "case tb_notes ?b of None \<Rightarrow> True | Some s \<Rightarrow> length s \<le> 500"
    using clean_text_length [of 500] by (auto simp: built_body_def Let_def split: option.split)
  moreover have "length (tb_artifacts ?b) \<le> CONTRACT_MAX_ARTIFACTS \<and> distinct (tb_artifacts ?b)"
    using schema nodup(4)
    by (simp add: b CONTRACT_MAX_ARTIFACTS_def first_duplicate_None distinct_of_map [of to_lower]
        distinct_of_map [of "to_lower \<circ> artifact_label"])
  moreover have "case tb_fill ?b of None \<Rightarrow> True | Some f \<Rightarrow> valid_fill f"
    using fill kept normalize_fill_valid [of env] by (auto simp: b)
  moreover have "\<not> has_ci_duplicate (tb_required_fields ?b)"
    "\<not> has_ci_duplicate (map cf_name (tb_filters ?b))"
    using nodup(1,2) by (simp_all only: b first_duplicate_None has_ci_duplicate_iff not_not)
  moreover have "tb_deliverable ?b = Table \<longrightarrow> tb_required_fields ?b \<noteq> []"
    using table by (simp add: b)
  moreover have "tb_deliverable ?b = Table \<longrightarrow> (case tb_ranking ?b of None \<Rightarrow> True
      | Some r \<Rightarrow> list_ex (\<lambda>f. to_lower f = to_lower (rk_field r)) (tb_required_fields ?b))"
    using ranking by (simp add: b ranks_unknown_field_def split: option.splits if_splits)
  ultimately show ?thesis
    unfolding valid_body_def by (intro conjI) (elim conjE; assumption)+
qed

lemma normalize_not_rejected:
  assumes "params_in_schema p" "list_all (survives env) (kept_texts p)"
  shows "normalize_contract parse_url env cmd p \<noteq> Err Schema_rejects"
proof
  assume "normalize_contract parse_url env cmd p = Err Schema_rejects"
  then obtain sources fill where
    "source_hosts parse_url (or_list (tp_required_sources p)) = Ok sources"
    "first_duplicate (cleaned_fields env p) = None"
    "first_duplicate (map cf_name (cleaned_filters env p)) = None"
    "first_duplicate sources = None"
    "first_duplicate (map artifact_label (or_list (tp_artifacts p))) = None"
    "\<not> (tp_deliverable p = Table \<and> cleaned_fields env p = [])"
    "ranks_unknown_field env p = None"
    "fill = None \<and> tp_fill p = None \<or>
      (\<exists>f g. tp_fill p = Some f \<and> normalize_fill env f = Ok g \<and> fill = Some g)"
    and rejected: "\<not> valid_body (built_body env p sources fill)"
    unfolding normalize_contract_def Let_def
    by (auto split: sum.splits option.splits if_splits)
  from rejected built_body_valid [OF assms this(1-8)] show False by blast
qed

section \<open>The terms in force\<close>

lemma artifact_key_inj [simp]: "artifact_key s = artifact_key s' \<longleftrightarrow> s = s'"
  by (cases s; cases s') (simp_all add: artifact_key_def scope_name_def)

lemma map_set_absent: "\<not> map_has m k \<Longrightarrow> map_set k v m = m @ [(k, v)]"
  by (induction m) (auto simp: map_has_def)

lemma set_if_absent_eq: "set_if_absent k v m = (if map_has m k then m else m @ [(k, v)])"
  by (simp add: set_if_absent_def map_set_absent)

text \<open>The artifact map holds each scope under its key, in the order of first request.\<close>

definition artifacts_keyed :: "(jstext, artifact_term) jsmap \<Rightarrow> bool" where
  "artifacts_keyed m \<longleftrightarrow> map fst m = map (\<lambda>a. artifact_key (at_scope (snd a))) m"

lemma artifacts_keyed_has:
  "artifacts_keyed m \<Longrightarrow> map_has m (artifact_key s) \<longleftrightarrow> s \<in> set (map (\<lambda>a. at_scope (snd a)) m)"
  unfolding artifacts_keyed_def map_has_def by (auto simp: image_iff)

lemma add_artifacts_Cons:
  "add_artifacts n (s # ss) m =
     add_artifacts n ss (set_if_absent (artifact_key s) \<lparr>at_scope = s, at_declared_in = n\<rparr> m)"
  by (simp add: add_artifacts_def)

lemma add_artifacts_Nil [simp]: "add_artifacts n [] m = m"
  by (simp add: add_artifacts_def)

lemma add_artifacts_spec:
  assumes "artifacts_keyed m"
  shows "artifacts_keyed (add_artifacts n ss m) \<and>
    map (\<lambda>a. at_scope (snd a)) (add_artifacts n ss m) = set_add_all ss (map (\<lambda>a. at_scope (snd a)) m) \<and>
    (\<exists>new. add_artifacts n ss m = m @ new \<and> (\<forall>a \<in> set new. at_declared_in (snd a) = n))"
  using assms
proof (induction ss arbitrary: m)
  case Nil
  then show ?case by (simp add: set_add_all_def)
next
  case (Cons s ss)
  let ?m = "set_if_absent (artifact_key s) \<lparr>at_scope = s, at_declared_in = n\<rparr> m"
  have keyed: "artifacts_keyed ?m"
    using Cons.prems by (simp add: set_if_absent_eq artifacts_keyed_def)
  have scopes: "map (\<lambda>a. at_scope (snd a)) ?m = set_add s (map (\<lambda>a. at_scope (snd a)) m)"
    using artifacts_keyed_has [OF Cons.prems, of s] by (auto simp: set_if_absent_eq set_add_def)
  have "\<exists>new. ?m = m @ new \<and> (\<forall>a \<in> set new. at_declared_in (snd a) = n)"
    by (simp add: set_if_absent_eq)
  then obtain new where new: "?m = m @ new" "\<forall>a \<in> set new. at_declared_in (snd a) = n" by blast
  from Cons.IH [OF keyed] obtain new' where rest:
    "artifacts_keyed (add_artifacts n ss ?m)"
    "map (\<lambda>a. at_scope (snd a)) (add_artifacts n ss ?m) = set_add_all ss (map (\<lambda>a. at_scope (snd a)) ?m)"
    "add_artifacts n ss ?m = ?m @ new'" "\<forall>a \<in> set new'. at_declared_in (snd a) = n" by blast
  have "add_artifacts n ss ?m = m @ (new @ new')" using rest(3) new(1) by simp
  moreover have "\<forall>a \<in> set (new @ new'). at_declared_in (snd a) = n" using new(2) rest(4) by auto
  moreover have "set_add_all ss (set_add s xs) = set_add_all (s # ss) xs" for xs :: "artifact_scope list"
    by (simp add: set_add_all_def)
  ultimately show ?case
    using rest(1,2) unfolding add_artifacts_Cons scopes by metis
qed

definition terms_state_of :: "contract_revision list \<Rightarrow> terms_state" where
  "terms_state_of rs = foldl terms_step (None, [], Allowed) rs"

lemma terms_state_snoc:
  "terms_state_of (rs @ [r]) = terms_step (terms_state_of rs) r"
  by (simp add: terms_state_of_def)

lemma effective_terms_state:
  "effective_action_terms_of rs = \<lparr>et_fill = fst (terms_state_of rs),
     et_artifacts = map snd (fst (snd (terms_state_of rs))),
     et_submit = snd (snd (terms_state_of rs))\<rparr>"
  by (simp add: effective_action_terms_of_def terms_state_of_def split: prod.split)

lemma set_add_all_append: "set_add_all (xs @ ys) s = set_add_all ys (set_add_all xs s)"
  by (simp add: set_add_all_def)

definition requested_scopes :: "contract_revision list \<Rightarrow> artifact_scope list" where
  "requested_scopes rs = concat (map (\<lambda>r. tb_artifacts (cr_contract r)) rs)"

definition first_requested :: "artifact_scope \<Rightarrow> contract_revision list \<Rightarrow> nat option" where
  "first_requested s rs =
     map_option cr_revision (find (\<lambda>r. s \<in> set (tb_artifacts (cr_contract r))) rs)"

definition first_forbidding :: "contract_revision list \<Rightarrow> nat option" where
  "first_forbidding rs =
     map_option cr_revision (find (\<lambda>r. tb_submit (cr_contract r) = Submit_forbidden) rs)"

definition latest_fill :: "contract_revision list \<Rightarrow> (coverage \<times> jstext list) option" where
  "latest_fill rs = map_option (\<lambda>f. (fl_coverage f, or_list (fl_fields f)))
     (last_opt (List.map_filter (\<lambda>r. tb_fill (cr_contract r)) rs))"

lemma first_requested_snoc:
  "first_requested s (rs @ [r]) = (case first_requested s rs of Some n \<Rightarrow> Some n
     | None \<Rightarrow> if s \<in> set (tb_artifacts (cr_contract r)) then Some (cr_revision r) else None)"
  by (simp add: first_requested_def find_append split: option.split)

lemma artifact_terms_spec:
  "(let m = fst (snd (terms_state_of rs)) in
     artifacts_keyed m \<and> map (\<lambda>a. at_scope (snd a)) m = to_jsset (requested_scopes rs) \<and>
     (\<forall>a \<in> set m. first_requested (at_scope (snd a)) rs = Some (at_declared_in (snd a))))"
proof (induction rs rule: rev_induct)
  case Nil
  show ?case
    by (simp add: terms_state_of_def artifacts_keyed_def to_jsset_def set_add_all_def requested_scopes_def)
next
  case (snoc r rs)
  obtain fill m submit where st: "terms_state_of rs = (fill, m, submit)" by (cases "terms_state_of rs")
  let ?ss = "tb_artifacts (cr_contract r)"
  from snoc st have IH: "artifacts_keyed m" "map (\<lambda>a. at_scope (snd a)) m = to_jsset (requested_scopes rs)"
    "\<forall>a \<in> set m. first_requested (at_scope (snd a)) rs = Some (at_declared_in (snd a))"
    by (simp_all add: Let_def)
  from add_artifacts_spec [OF IH(1), of "cr_revision r" ?ss] obtain new where
    spec: "artifacts_keyed (add_artifacts (cr_revision r) ?ss m)"
    "map (\<lambda>a. at_scope (snd a)) (add_artifacts (cr_revision r) ?ss m) =
       set_add_all ?ss (map (\<lambda>a. at_scope (snd a)) m)"
    and new: "add_artifacts (cr_revision r) ?ss m = m @ new"
      "\<forall>a \<in> set new. at_declared_in (snd a) = cr_revision r" by blast
  have scopes: "map (\<lambda>a. at_scope (snd a)) (add_artifacts (cr_revision r) ?ss m) =
      to_jsset (requested_scopes (rs @ [r]))"
    using spec(2) IH(2) by (simp add: to_jsset_def requested_scopes_def set_add_all_append)
  have "first_requested (at_scope (snd a)) (rs @ [r]) = Some (cr_revision r)" if "a \<in> set new" for a
  proof -
    have d: "distinct (map (\<lambda>a. at_scope (snd a)) (m @ new))"
      using scopes new(1) by simp
    have "at_scope (snd a) \<in> set (to_jsset (requested_scopes (rs @ [r])))"
      using that arg_cong [OF scopes, of set] new(1) by force
    moreover from d that have "at_scope (snd a) \<notin> set (map (\<lambda>a. at_scope (snd a)) m)"
      by auto
    then have "at_scope (snd a) \<notin> set (requested_scopes rs)"
      unfolding IH(2) by simp
    moreover have "at_scope (snd a) \<notin> set (requested_scopes rs)" by fact
    then have "first_requested (at_scope (snd a)) rs = None"
      by (auto simp: first_requested_def requested_scopes_def find_None_iff)
    ultimately show ?thesis
      using \<open>at_scope (snd a) \<notin> set (requested_scopes rs)\<close>
      by (auto simp: first_requested_snoc requested_scopes_def)
  qed
  then have "\<forall>a \<in> set new. first_requested (at_scope (snd a)) (rs @ [r]) = Some (at_declared_in (snd a))"
    using new(2) by simp
  moreover have "\<forall>a \<in> set m. first_requested (at_scope (snd a)) (rs @ [r]) = Some (at_declared_in (snd a))"
    using IH(3) by (simp add: first_requested_snoc)
  moreover have "fst (snd (terms_state_of (rs @ [r]))) = m @ new"
    by (simp add: terms_state_snoc st terms_step_def new(1))
  ultimately show ?case
    using spec(1) scopes new(1) by (simp add: Let_def ball_Un)
qed

lemma submit_term_spec:
  "snd (snd (terms_state_of rs)) =
     (case first_forbidding rs of None \<Rightarrow> Allowed | Some n \<Rightarrow> Forbidden_since n)"
proof (induction rs rule: rev_induct)
  case Nil
  show ?case by (simp add: terms_state_of_def first_forbidding_def)
next
  case (snoc r rs)
  then show ?case
    by (cases "terms_state_of rs")
      (auto simp: terms_state_snoc terms_step_def next_submit_def first_forbidding_def find_append
        split: option.splits)
qed

lemma map_filter_snoc:
  "List.map_filter f (xs @ [x]) = List.map_filter f xs @ (case f x of None \<Rightarrow> [] | Some y \<Rightarrow> [y])"
  by (simp add: List.map_filter_def split: option.split)

lemma fill_term_spec:
  "map_option (\<lambda>f. (ft_coverage f, ft_fields f)) (fst (terms_state_of rs)) = latest_fill rs"
proof (induction rs rule: rev_induct)
  case Nil
  show ?case by (simp add: terms_state_of_def latest_fill_def List.map_filter_def last_opt_def)
next
  case (snoc r rs)
  then show ?case
    by (cases "terms_state_of rs")
      (auto simp: terms_state_snoc terms_step_def next_fill_def latest_fill_def map_filter_snoc Let_def
        split: option.splits)
qed

section \<open>Carrying forward\<close>

text \<open>What a later list of revisions keeps of the terms of an earlier one.\<close>

definition terms_kept :: "action_terms \<Rightarrow> action_terms \<Rightarrow> bool" where
  "terms_kept t t' \<longleftrightarrow> prefix (et_artifacts t) (et_artifacts t') \<and>
     (case et_submit t of Allowed \<Rightarrow> True | Forbidden_since n \<Rightarrow> et_submit t' = Forbidden_since n) \<and>
     (case et_fill t of None \<Rightarrow> True | Some _ \<Rightarrow> et_fill t' \<noteq> None)"

lemma terms_kept_refl [simp]: "terms_kept t t"
  by (simp add: terms_kept_def split: submit_term.split option.split)

lemma terms_kept_trans: "terms_kept t t' \<Longrightarrow> terms_kept t' t'' \<Longrightarrow> terms_kept t t''"
  by (auto simp: terms_kept_def split: submit_term.splits option.splits intro: prefix_order.trans)

lemma terms_kept_step: "terms_kept (effective_action_terms_of rs) (effective_action_terms_of (rs @ [r]))"
proof -
  obtain fill m submit where st: "terms_state_of rs = (fill, m, submit)" by (cases "terms_state_of rs")
  have "artifacts_keyed m" using artifact_terms_spec [of rs] by (simp add: st Let_def)
  from add_artifacts_spec [OF this, of "cr_revision r" "tb_artifacts (cr_contract r)"] obtain new
    where "add_artifacts (cr_revision r) (tb_artifacts (cr_contract r)) m = m @ new" by blast
  then show ?thesis
    by (simp add: terms_kept_def effective_terms_state terms_state_snoc st terms_step_def
        next_submit_def next_fill_def Let_def split: option.split submit_term.split)
qed

lemma terms_kept_append:
  "terms_kept (effective_action_terms_of rs) (effective_action_terms_of (rs @ rs'))"
proof (induction rs' rule: rev_induct)
  case Nil
  show ?case by simp
next
  case (snoc r rs')
  from terms_kept_trans [OF snoc.IH terms_kept_step [of "rs @ rs'" r]] show ?case by simp
qed

lemma effective_terms_empty [simp]: "effective_action_terms_of [] = NO_ACTION_TERMS"
  by (simp add: effective_action_terms_of_def NO_ACTION_TERMS_def)

lemma effective_action_terms_eq: "effective_action_terms s = effective_action_terms_of (st_revisions s)"
  by (simp add: effective_action_terms_def)

section \<open>The record of a declaration is always accepted\<close>

lemma artifact_requirement_id_inj [simp]: "artifact_requirement_id s = artifact_requirement_id s' \<longleftrightarrow> s = s'"
  by (cases s; cases s') (simp_all add: artifact_requirement_id_def scope_name_def)

lemma artifact_requirement_id_neq [simp]:
  "artifact_requirement_id s \<noteq> ''fill''" "''fill'' \<noteq> artifact_requirement_id s"
  "artifact_requirement_id s \<noteq> ''effects.submit''" "''effects.submit'' \<noteq> artifact_requirement_id s"
  by (simp_all add: artifact_requirement_id_def)

lemma is_requirement_id_known [simp]:
  "is_requirement_id (artifact_requirement_id s)"
  "is_requirement_id ''fill''" "is_requirement_id ''effects.submit''"
  by (cases s; simp add: is_requirement_id_def artifact_requirement_id_def scope_name_def)+

lemma card_scopes: "distinct (xs :: artifact_scope list) \<Longrightarrow> length xs \<le> 3"
proof -
  assume d: "distinct xs"
  have "set xs \<subseteq> {Viewport, Full_page, Element}"
    using artifact_scope.exhaust by blast
  then have "card (set xs) \<le> card {Viewport, Full_page, Element}"
    by (intro card_mono) auto
  then show ?thesis using d by (simp add: distinct_card)
qed

lemma first_revision_range:
  assumes "map cr_revision rs = [1..<Suc (length rs)]" "map_option cr_revision (find P rs) = Some n"
  shows "1 \<le> n \<and> n \<le> length rs"
proof -
  from assms(2) obtain r where "r \<in> set rs" "cr_revision r = n"
    by (auto dest: find_SomeD)
  then have "n \<in> set (map cr_revision rs)" by auto
  then show ?thesis unfolding assms(1) by auto
qed

lemma fill_term_declared:
  "case fst (terms_state_of rs) of None \<Rightarrow> True | Some f \<Rightarrow> ft_declared_in f \<in> cr_revision ` set rs"
proof (induction rs rule: rev_induct)
  case Nil
  show ?case by (simp add: terms_state_of_def)
next
  case (snoc r rs)
  then show ?case
    by (cases "terms_state_of rs")
      (auto simp: terms_state_snoc terms_step_def next_fill_def Let_def same_fill_def split: option.splits)
qed

lemma requirement_origins_accepted:
  assumes numbered: "map cr_revision rs = [1..<Suc (length rs)]"
  shows "length (requirement_origins (effective_action_terms_of rs)) \<le> 1 + CONTRACT_MAX_ARTIFACTS + 1 \<and>
    distinct (map ro_id (requirement_origins (effective_action_terms_of rs))) \<and>
    list_all (\<lambda>q. is_requirement_id (ro_id q) \<and> 1 \<le> ro_declared_in q \<and> ro_declared_in q \<le> length rs)
      (requirement_origins (effective_action_terms_of rs))"
proof -
  let ?t = "effective_action_terms_of rs"
  have revs: "n \<in> cr_revision ` set rs \<Longrightarrow> 1 \<le> n \<and> n \<le> length rs" for n
    using arg_cong [OF numbered, of set] by auto
  have scopes: "distinct (map at_scope (et_artifacts ?t))"
    and arts: "\<forall>a \<in> set (et_artifacts ?t). first_requested (at_scope a) rs = Some (at_declared_in a)"
    using artifact_terms_spec [of rs]
    by (auto simp: effective_terms_state Let_def comp_def)
  have "length (et_artifacts ?t) \<le> 3" using card_scopes [OF scopes] by simp
  moreover have "distinct (map artifact_requirement_id (map at_scope (et_artifacts ?t)))"
    using scopes by (simp add: distinct_map inj_on_def)
  then have "distinct (map (\<lambda>a. artifact_requirement_id (at_scope a)) (et_artifacts ?t))"
    by (simp add: comp_def)
  moreover have "\<forall>a \<in> set (et_artifacts ?t). 1 \<le> at_declared_in a \<and> at_declared_in a \<le> length rs"
    using arts first_revision_range [OF numbered] by (auto simp: first_requested_def)
  moreover have "case et_submit ?t of Allowed \<Rightarrow> True | Forbidden_since n \<Rightarrow> 1 \<le> n \<and> n \<le> length rs"
    using first_revision_range [OF numbered]
    by (auto simp: effective_terms_state submit_term_spec first_forbidding_def split: option.split)
  moreover have "case et_fill ?t of None \<Rightarrow> True
      | Some f \<Rightarrow> 1 \<le> ft_declared_in f \<and> ft_declared_in f \<le> length rs"
    using fill_term_declared [of rs] revs
    by (cases "fst (terms_state_of rs)") (auto simp: effective_terms_state)
  ultimately show ?thesis
    by (auto simp: requirement_origins_def CONTRACT_MAX_ARTIFACTS_def list_all_iff comp_def image_iff
        split: option.splits submit_term.splits)
qed

section \<open>Runs of the store\<close>

definition store_run ::
  "(jstext \<Rightarrow> bool) \<Rightarrow> (contract_body \<times> jstext \<times> bool) list \<Rightarrow> contract_store \<Rightarrow> contract_store" where
  "store_run is_datetime calls s =
     foldl (\<lambda>s (body, at, writes_ok). fst (append_revision is_datetime body at writes_ok s)) s calls"

definition store_inv :: "(jstext \<Rightarrow> bool) \<Rightarrow> contract_store \<Rightarrow> bool" where
  "store_inv is_datetime s \<longleftrightarrow>
     map cr_revision (st_revisions s) = [1..<Suc (length (st_revisions s))] \<and>
     length (st_revisions s) \<le> TASK_CONTRACT_MAX_REVISIONS \<and>
     list_all (\<lambda>r. is_datetime (cr_declared_at r) \<and> valid_body (cr_contract r)) (st_revisions s) \<and>
     (case st_file s of None \<Rightarrow> st_revisions s = []
      | Some r \<Rightarrow> cx_revisions r = st_revisions s \<and> valid_record is_datetime r)"

lemma append_revision_cases:
  obtains (kept) e where "append_revision is_datetime body at ok s = (s, Inl e)"
  | (added) rec where
      "append_revision is_datetime body at ok s =
         (s\<lparr>st_revisions := cx_revisions rec, st_file := Some rec\<rparr>, Inr (Suc (length (st_revisions s))))"
      "cx_revisions rec = st_revisions s @ [\<lparr>cr_revision = Suc (length (st_revisions s)),
         cr_declared_at = at, cr_contract = body\<rparr>]"
      "valid_record is_datetime rec" "length (st_revisions s) < TASK_CONTRACT_MAX_REVISIONS"
proof -
  have revs: "cx_revisions (next_record body at s) = st_revisions s @
      [\<lparr>cr_revision = Suc (length (st_revisions s)), cr_declared_at = at, cr_contract = body\<rparr>]"
    by (simp add: next_record_def Let_def)
  have "(\<exists>e. append_revision is_datetime body at ok s = (s, Inl e)) \<or>
      append_revision is_datetime body at ok s =
        (s\<lparr>st_revisions := cx_revisions (next_record body at s), st_file := Some (next_record body at s)\<rparr>,
         Inr (Suc (length (st_revisions s)))) \<and>
      valid_record is_datetime (next_record body at s) \<and>
      length (st_revisions s) < TASK_CONTRACT_MAX_REVISIONS"
    by (simp add: append_revision_def)
  then show thesis
  proof (elim disjE exE conjE)
    fix e
    assume "append_revision is_datetime body at ok s = (s, Inl e)"
    then show thesis by (rule kept)
  qed (rule added [OF _ revs])
qed

lemma store_inv_step:
  assumes "store_inv is_datetime s"
  shows "store_inv is_datetime (fst (append_revision is_datetime body at ok s))"
proof (cases rule: append_revision_cases [where is_datetime = is_datetime and body = body and at = at
      and ok = ok and s = s])
  case (kept e)
  with assms show ?thesis by simp
next
  case (added rec)
  then show ?thesis
    using assms by (auto simp: store_inv_def valid_record_def list_all_iff)
qed

lemma store_run_snoc [simp]:
  "store_run is_datetime (calls @ [(body, at, ok)]) s =
     fst (append_revision is_datetime body at ok (store_run is_datetime calls s))"
  by (simp add: store_run_def)

lemma store_run_Nil [simp]: "store_run is_datetime [] s = s"
  by (simp add: store_run_def)

lemma store_inv_run: "store_inv is_datetime s \<Longrightarrow> store_inv is_datetime (store_run is_datetime calls s)"
proof (induction calls rule: rev_induct)
  case Nil
  then show ?case by simp
next
  case (snoc c calls)
  then show ?case by (cases c) (simp add: store_inv_step)
qed

lemma store_inv_new: "store_inv is_datetime (new_contract_store run_id cmd req pub)"
  by (simp add: store_inv_def new_contract_store_def)

lemma store_run_prefix: "prefix (st_revisions s) (st_revisions (store_run is_datetime calls s))"
proof (induction calls rule: rev_induct)
  case Nil
  show ?case by simp
next
  case (snoc c calls)
  obtain body at ok where c: "c = (body, at, ok)" by (cases c)
  show ?case
    by (cases rule: append_revision_cases [where is_datetime = is_datetime and body = body and at = at
          and ok = ok and s = "store_run is_datetime calls s"])
      (use snoc in \<open>simp_all add: c prefix_append\<close>)
qed

lemma store_run_same [simp]:
  "st_command (store_run is_datetime calls s) = st_command s"
  "st_run_id (store_run is_datetime calls s) = st_run_id s"
proof (induction calls rule: rev_induct)
  case (snoc c calls)
  obtain body at ok where c: "c = (body, at, ok)" by (cases c)
  {
    case 1
    show ?case
      by (cases rule: append_revision_cases [where is_datetime = is_datetime and body = body and at = at
            and ok = ok and s = "store_run is_datetime calls s"])
        (use snoc in \<open>simp_all add: c\<close>)
  next
    case 2
    show ?case
      by (cases rule: append_revision_cases [where is_datetime = is_datetime and body = body and at = at
            and ok = ok and s = "store_run is_datetime calls s"])
        (use snoc in \<open>simp_all add: c\<close>)
  }
qed simp_all

lemma next_record_valid:
  assumes inv: "store_inv is_datetime s" and few: "length (st_revisions s) < 3"
    and body: "valid_body body" "is_datetime at" "st_run_id s \<noteq> []" "st_command s \<noteq> Ask"
  shows "valid_record is_datetime (next_record body at s)"
proof -
  let ?rs = "cx_revisions (next_record body at s)"
  have rs: "?rs = st_revisions s @ [\<lparr>cr_revision = Suc (length (st_revisions s)),
      cr_declared_at = at, cr_contract = body\<rparr>]"
    by (simp add: next_record_def Let_def)
  have numbered: "map cr_revision ?rs = [1..<Suc (length ?rs)]"
    using inv by (simp add: store_inv_def rs)
  have "\<forall>r \<in> set (st_revisions s). 1 \<le> cr_revision r"
    using inv unfolding store_inv_def by (metis atLeastLessThan_iff image_eqI set_map set_upt)
  then have bodies: "list_all (\<lambda>v. 1 \<le> cr_revision v \<and> is_datetime (cr_declared_at v) \<and>
      valid_body (cr_contract v)) ?rs"
    using inv body by (simp add: store_inv_def list_all_iff rs)
  have "within 1 TASK_CONTRACT_MAX_REVISIONS ?rs"
    using few by (simp add: rs within_def TASK_CONTRACT_MAX_REVISIONS_def)
  moreover have "1 \<le> length (cx_run_id (next_record body at s))"
    using body(3) by (simp add: next_record_def Let_def Suc_le_eq)
  moreover have "cx_command (next_record body at s) \<in> {Research, Do}"
    using body(4) by (cases "st_command s") (simp_all add: next_record_def Let_def)
  moreover have "cx_requirements (next_record body at s) =
      (if requirement_origins (effective_action_terms_of ?rs) = [] then None
       else Some (requirement_origins (effective_action_terms_of ?rs)))"
    by (simp add: next_record_def Let_def)
  ultimately show ?thesis
    unfolding valid_record_def
    using requirement_origins_accepted [OF numbered] numbered bodies
    by (cases "requirement_origins (effective_action_terms_of ?rs) = []") simp_all
qed

lemma append_revision_outcome:
  assumes inv: "store_inv is_datetime s"
    and "valid_body body" "is_datetime at" "st_run_id s \<noteq> []"
  shows "snd (append_revision is_datetime body at ok s) =
    (if 3 \<le> length (st_revisions s) then Err Revision_limit
     else if st_command s = Ask then Err Command_cannot_declare
     else if ok then Ok (Suc (length (st_revisions s))) else Err Write_failed)"
  using next_record_valid [OF inv _ assms(2-4)]
  by (cases "st_command s") (simp_all add: append_revision_def TASK_CONTRACT_MAX_REVISIONS_def)

lemma store_terms_kept:
  "terms_kept (effective_action_terms s) (effective_action_terms (store_run is_datetime calls s))"
  using store_run_prefix [of s is_datetime calls] terms_kept_append
  by (auto simp: effective_action_terms_eq prefix_def)

section \<open>Properties\<close>


text \<open>C7. The schema check at the end of normalization is only ever a safety net: for parameters
  the tool's input schema admits, whose texts the cleaning does not empty, a declaration is accepted
  or answered with a typed issue, and never ends in the schema's exception.\<close>

theorem normalize_never_throws:
  assumes "params_in_schema p" "list_all (survives env) (kept_texts p)"
  shows "normalize_contract parse_url env cmd p \<noteq> Err Schema_rejects"
  using assms by (rule normalize_not_rejected)

definition plain_env :: text_env where
  "plain_env = \<lparr>te_sanitize = (\<lambda>s. s), te_mask = (\<lambda>s. s)\<rparr>"

definition sample_params :: "jstext \<Rightarrow> contract_params" where
  "sample_params field = \<lparr>tp_deliverable = Table, tp_subject = ''laptops'',
     tp_required_fields = Some [field], tp_filters = None, tp_required_sources = None,
     tp_ranking = None, tp_limit = Some 5, tp_notes = None, tp_fill = None, tp_artifacts = None,
     tp_submit = None\<rparr>"

lemma normalize_never_throws_witness:
  "normalize_contract (\<lambda>_. None) plain_env None (sample_params ''price'') \<noteq> Err Schema_rejects"
  by (rule normalize_never_throws) code_simp+

text \<open>The hypothesis on the cleaning is needed. A name of one control character passes the tool's
  input schema, whose pattern asks for a non-space character, is cleaned to the empty string, and
  the declaration ends in the schema's exception instead of an issue.\<close>

lemma control_only_field_throws:
  "params_in_schema (sample_params [CHR 0x01]) \<and>
   normalize_contract (\<lambda>_. None) plain_env None (sample_params [CHR 0x01]) = Err Schema_rejects"
  by code_simp

text \<open>The action terms in force are what the revisions say: the fill is the latest declared
  one, the artifacts are the union of all requested scopes in order of first request, each with the
  revision that first requested it, and submission is forbidden from the first revision that forbade
  it, whatever later revisions say.\<close>

theorem action_terms_spec:
  "(let t = effective_action_terms_of rs in
     map_option (\<lambda>f. (ft_coverage f, ft_fields f)) (et_fill t) = latest_fill rs \<and>
     map at_scope (et_artifacts t) = to_jsset (requested_scopes rs) \<and>
     list_all (\<lambda>a. first_requested (at_scope a) rs = Some (at_declared_in a)) (et_artifacts t) \<and>
     et_submit t = (case first_forbidding rs of None \<Rightarrow> Allowed | Some n \<Rightarrow> Forbidden_since n))"
  using artifact_terms_spec [of rs] fill_term_spec [of rs] submit_term_spec [of rs]
  by (simp add: effective_terms_state Let_def comp_def list_all_iff)

text \<open>Declarations accumulate and persist: after any sequence of declaration attempts, failed
  writes included, the revisions are numbered 1, 2, 3 with at most three of them, the file on disk
  holds exactly the revisions in memory in a record the schema accepts, earlier revisions are never
  altered, and no further attempt drops an artifact, loosens a forbidden submission or drops the
  fill term.\<close>

theorem contract_store_persistent:
  "(let s = store_run is_datetime calls (new_contract_store run_id cmd req pub);
        s' = store_run is_datetime later s in
     map cr_revision (st_revisions s) = [1..<Suc (length (st_revisions s))] \<and>
     length (st_revisions s) \<le> 3 \<and>
     (case st_file s of None \<Rightarrow> st_revisions s = []
      | Some r \<Rightarrow> cx_revisions r = st_revisions s \<and> valid_record is_datetime r) \<and>
     prefix (st_revisions s) (st_revisions s') \<and>
     terms_kept (effective_action_terms s) (effective_action_terms s'))"
  using store_inv_run [OF store_inv_new, of is_datetime calls run_id cmd req pub]
  by (simp add: Let_def store_inv_def TASK_CONTRACT_MAX_REVISIONS_def store_run_prefix store_terms_kept)

text \<open>A valid contract is refused only for the documented reasons: declaring a valid body in a
  run with an id, at a valid time, succeeds with the next revision number unless the revision limit
  is reached, the command may not declare, or the write fails; the store's own record of it is
  always accepted by the schema.\<close>

theorem declaration_outcome:
  assumes "valid_body body" "is_datetime at" "run_id \<noteq> []"
  shows "(let s = store_run is_datetime calls (new_contract_store run_id cmd req pub);
              n = length (st_revisions s) in
     snd (append_revision is_datetime body at ok s) =
       (if 3 \<le> n then Err Revision_limit
        else if cmd = Ask then Err Command_cannot_declare
        else if ok then Ok (Suc n) else Err Write_failed))"
  using append_revision_outcome [of is_datetime
      "store_run is_datetime calls (new_contract_store run_id cmd req pub)" body at ok]
    store_inv_run [OF store_inv_new, of is_datetime calls run_id cmd req pub] assms
  by (simp add: Let_def new_contract_store_def)

lemma declaration_outcome_witness:
  "snd (append_revision (\<lambda>_. True) (built_body plain_env (sample_params ''price'') [] None) ''t'' True
     (store_run (\<lambda>_. True) [(built_body plain_env (sample_params ''price'') [] None, ''t'', True)]
       (new_contract_store ''r'' Do True True))) = Ok 2"
proof -
  have "valid_body (built_body plain_env (sample_params ''price'') [] None)" by code_simp
  moreover have "length (st_revisions (store_run (\<lambda>_. True)
      [(built_body plain_env (sample_params ''price'') [] None, ''t'', True)]
      (new_contract_store ''r'' Do True True))) = 1" by code_simp
  ultimately show ?thesis
    using declaration_outcome [of "built_body plain_env (sample_params ''price'') [] None" "\<lambda>_. True"
        "''t''" "''r''" "[(built_body plain_env (sample_params ''price'') [] None, ''t'', True)]"
        Do True True True]
    by (simp add: Let_def)
qed

end
