(* ===== verification/SubmitPolicy.thy ===== *)
theory SubmitPolicy
  imports TaskContract
begin

text \<open>
  The engine-enforced no-submit rule, \<open>packages/agent/src/runtime/submit-policy.ts\<close>: whether the
  contract forbids submitting, the refusal recorded for a submit-class action (with its three
  messages of \<open>messages.ts\<close>), and the structural search that decides whether a saved workflow, or
  any workflow it calls, could submit a form. Loading a workflow's steps is the argument \<open>load\<close>,
  None where the plan cannot be loaded; a run without a loader passes None.
\<close>

section \<open>Data\<close>

record workflow_step =
  ws_verb :: jstext
  ws_workflow_name :: "jstext option"
  ws_submit :: "bool option"

type_synonym step_loader = "jstext \<Rightarrow> workflow_step list option"

definition MAX_WORKFLOWS_CHECKED :: nat where
  "MAX_WORKFLOWS_CHECKED = 16"

datatype submit_signal = Structural | By_name | Nested_workflow

definition signal_name :: "submit_signal \<Rightarrow> jstext" where
  "signal_name s = (case s of Structural \<Rightarrow> ''structural'' | By_name \<Rightarrow> ''name''
     | Nested_workflow \<Rightarrow> ''nested-workflow'')"

record submit_log_line =
  sl_event :: jstext
  sl_signal :: jstext
  sl_host :: jstext

record domain_failure =
  df_error_code :: jstext
  df_message :: jstext
  df_retryable :: bool
  df_action :: jstext
  df_cause :: jstext

text \<open>The parts of the run's services the rule reads and writes.\<close>

record submit_services =
  sv_contract :: contract_store
  sv_ledger :: action_ledger
  sv_host :: "jstext option"
  sv_log :: "submit_log_line list"

section \<open>The rule\<close>

definition submit_forbidden :: "submit_services \<Rightarrow> bool" where
  "submit_forbidden sv = (case et_submit (effective_action_terms (sv_contract sv)) of
     Forbidden_since _ \<Rightarrow> True | Allowed \<Rightarrow> False)"

definition dq :: jstext where
  "dq = [CHR 0x22]"

definition submit_message :: "submit_signal \<Rightarrow> jstext \<Rightarrow> jstext" where
  "submit_message s name = (case s of
     Structural \<Rightarrow> ''Not clicked: '' @ dq @ take 80 name @ dq @ '' would submit the form, and the task contract says effects.submit is forbidden. Leave the form unsubmitted; continue with the remaining items or finish with result_publish.''
   | By_name \<Rightarrow> ''Not clicked: '' @ dq @ take 80 name @ dq @ '' reads as a submit action, and the task contract says effects.submit is forbidden. Leave the form unsubmitted; continue with the remaining items or finish with result_publish.''
   | Nested_workflow \<Rightarrow> ''Not run: the saved workflow '' @ dq @ take 64 name @ dq @ '' clicks or submits a field, and the task contract says effects.submit is forbidden, so it could submit a form. Do the remaining items with the browser tools or finish with result_publish.'')"

definition submit_refusal ::
  "text_env \<Rightarrow> jstext \<Rightarrow> ledger_location option \<Rightarrow> submit_signal \<Rightarrow> jstext \<Rightarrow> jstext option \<Rightarrow>
     jstext option \<Rightarrow> submit_services \<Rightarrow> submit_services \<times> domain_failure" where
  "submit_refusal env now location signal name ref call_id sv =
     (let (l, entry) = record_action env now location
            \<lparr>li_call_id = call_id, li_action = Submit_refused
               \<lparr>sr_ref = ref, sr_name = name, sr_signal = signal_name signal\<rparr>\<rparr> (sv_ledger sv);
          host = (case sv_host sv of None \<Rightarrow> [] | Some h \<Rightarrow> h)
      in (sv\<lparr>sv_ledger := l, sv_log := sv_log sv @
             [\<lparr>sl_event = ''submit_refused'', sl_signal = signal_name signal, sl_host = host\<rparr>]\<rparr>,
          \<lparr>df_error_code = ''SUBMIT_FORBIDDEN'', df_message = submit_message signal name,
           df_retryable = False, df_action = id_of entry, df_cause = signal_name signal\<rparr>))"

text \<open>The loop over one workflow's steps: None when a step may submit, else the grown queue.\<close>

fun scan_steps :: "workflow_step list \<Rightarrow> jstext list \<Rightarrow> jstext list option" where
  "scan_steps [] queue = Some queue"
| "scan_steps (s # ss) queue =
     (if ws_verb s = ''click'' then None
      else if ws_verb s = ''fill'' \<and> ws_submit s = Some True then None
      else if ws_verb s = ''call_workflow'' then
        (case ws_workflow_name s of
           None \<Rightarrow> None
         | Some w \<Rightarrow> if w = [] then None else scan_steps ss (queue @ [w]))
      else scan_steps ss queue)"

function may_submit_loop :: "step_loader \<Rightarrow> jstext jsset \<Rightarrow> jstext list \<Rightarrow> bool" where
  "may_submit_loop load seen [] = False"
| "may_submit_loop load seen (w # queue) =
     (if w \<in> set seen then may_submit_loop load seen queue
      else if MAX_WORKFLOWS_CHECKED < length (seen @ [w]) then True
      else case load w of
        None \<Rightarrow> True
      | Some steps \<Rightarrow> (case scan_steps steps queue of
          None \<Rightarrow> True | Some queue' \<Rightarrow> may_submit_loop load (seen @ [w]) queue'))"
  by pat_completeness auto
termination
  by (relation "measures [\<lambda>(_, seen, _). MAX_WORKFLOWS_CHECKED - length seen, \<lambda>(_, _, q). length q]")
    auto

definition workflow_may_submit :: "jstext \<Rightarrow> step_loader option \<Rightarrow> bool" where
  "workflow_may_submit name loader = (case loader of
     None \<Rightarrow> True | Some load \<Rightarrow> may_submit_loop load [] [name])"

section \<open>Reachable workflows\<close>

inductive calls_reach :: "step_loader \<Rightarrow> jstext \<Rightarrow> jstext \<Rightarrow> bool" for load name where
  reach_self: "calls_reach load name name"
| reach_call: "calls_reach load name w \<Longrightarrow> load w = Some steps \<Longrightarrow> s \<in> set steps \<Longrightarrow>
    ws_verb s = ''call_workflow'' \<Longrightarrow> ws_workflow_name s = Some w' \<Longrightarrow> calls_reach load name w'"

text \<open>A step that replays without submitting, and whose callee, if it is a call, is named.\<close>

definition step_safe :: "workflow_step \<Rightarrow> bool" where
  "step_safe s \<longleftrightarrow> ws_verb s \<noteq> ''click'' \<and> \<not> (ws_verb s = ''fill'' \<and> ws_submit s = Some True) \<and>
     (ws_verb s = ''call_workflow'' \<longrightarrow> ws_workflow_name s \<noteq> None \<and> ws_workflow_name s \<noteq> Some [])"

definition workflow_safe :: "step_loader \<Rightarrow> jstext \<Rightarrow> bool" where
  "workflow_safe load w \<longleftrightarrow> (case load w of None \<Rightarrow> False | Some steps \<Rightarrow> list_all step_safe steps)"

definition callees :: "workflow_step list \<Rightarrow> jstext list" where
  "callees steps = List.map_filter (\<lambda>s. if ws_verb s = ''call_workflow'' then ws_workflow_name s else None) steps"

definition calls_of :: "step_loader \<Rightarrow> jstext \<Rightarrow> jstext set" where
  "calls_of load w = (case load w of None \<Rightarrow> {} | Some steps \<Rightarrow> set (callees steps))"

lemma scan_steps_eq:
  "scan_steps steps queue = (if list_all step_safe steps then Some (queue @ callees steps) else None)"
  by (induction steps queue rule: scan_steps.induct)
    (auto simp: step_safe_def callees_def List.map_filter_def split: option.splits)

lemma calls_of_iff:
  "w' \<in> calls_of load w \<longleftrightarrow> (\<exists>steps s. load w = Some steps \<and> s \<in> set steps \<and>
     ws_verb s = ''call_workflow'' \<and> ws_workflow_name s = Some w')"
  by (cases "load w") (force simp: calls_of_def callees_def List.map_filter_def image_iff split: if_splits)+

lemma reach_closed: "calls_reach load name w \<Longrightarrow> w' \<in> calls_of load w \<Longrightarrow> calls_reach load name w'"
  by (auto simp: calls_of_iff intro: reach_call)

lemma reach_least:
  assumes "calls_reach load name w" "name \<in> S" "\<And>v. v \<in> S \<Longrightarrow> calls_of load v \<subseteq> S"
  shows "w \<in> S"
  using assms by (induction rule: calls_reach.induct) (auto simp: calls_of_iff subset_iff)

lemma loop_step:
  "may_submit_loop load seen (w # queue) =
     (if w \<in> set seen then may_submit_loop load seen queue
      else if 16 \<le> length seen \<or> \<not> workflow_safe load w then True
      else may_submit_loop load (seen @ [w]) (queue @ callees (the (load w))))"
  by (auto simp: scan_steps_eq workflow_safe_def MAX_WORKFLOWS_CHECKED_def split: option.split)

lemma loop_sound:
  assumes "\<not> may_submit_loop load seen queue" "distinct seen" "length seen \<le> 16"
    "\<And>v. v \<in> set seen \<Longrightarrow> workflow_safe load v \<and> calls_of load v \<subseteq> set seen \<union> set queue"
  shows "\<exists>S. set seen \<union> set queue \<subseteq> S \<and> finite S \<and> card S \<le> 16 \<and>
    (\<forall>v \<in> S. workflow_safe load v \<and> calls_of load v \<subseteq> S)"
  using assms
proof (induction load seen queue rule: may_submit_loop.induct)
  case (1 load seen)
  then show ?case
    by (intro exI [of _ "set seen"]) (simp add: distinct_card)
next
  case (2 load seen w queue)
  show ?case
  proof (cases "w \<in> set seen")
    case True
    then have "\<not> may_submit_loop load seen queue" using "2.prems"(1) by simp
    moreover have "set seen \<union> set (w # queue) = set seen \<union> set queue" using True by auto
    ultimately show ?thesis
      using "2.IH"(1) [OF True] "2.prems"(2-4) by simp
  next
    case False
    with "2.prems"(1) have few: "length seen < 16" and safe: "workflow_safe load w"
      and rest: "\<not> may_submit_loop load (seen @ [w]) (queue @ callees (the (load w)))"
      by (simp_all add: loop_step del: may_submit_loop.simps split: if_splits)
    from safe obtain steps where steps: "load w = Some steps" "list_all step_safe steps"
      by (auto simp: workflow_safe_def split: option.splits)
    have "\<exists>S. set (seen @ [w]) \<union> set (queue @ callees steps) \<subseteq> S \<and> finite S \<and> card S \<le> 16 \<and>
        (\<forall>v \<in> S. workflow_safe load v \<and> calls_of load v \<subseteq> S)"
    proof (rule "2.IH"(2) [OF False _ steps(1)])
      show "\<not> MAX_WORKFLOWS_CHECKED < length (seen @ [w])"
        using few by (simp add: MAX_WORKFLOWS_CHECKED_def)
      show "scan_steps steps queue = Some (queue @ callees steps)"
        using steps(2) by (simp add: scan_steps_eq)
      show "\<not> may_submit_loop load (seen @ [w]) (queue @ callees steps)"
        using rest steps(1) by simp
      show "distinct (seen @ [w])" using False "2.prems"(2) by simp
      show "length (seen @ [w]) \<le> 16" using few by simp
      show "workflow_safe load v \<and> calls_of load v \<subseteq> set (seen @ [w]) \<union> set (queue @ callees steps)"
        if "v \<in> set (seen @ [w])" for v
        using that safe steps "2.prems"(4) [of v] by (auto simp: calls_of_def)
    qed
    then show ?thesis by auto
  qed
qed

lemma loop_complete:
  assumes "set seen \<union> set queue \<subseteq> R" "finite R" "card R \<le> 16" "distinct seen"
    "\<And>v. v \<in> R \<Longrightarrow> workflow_safe load v \<and> calls_of load v \<subseteq> R"
  shows "\<not> may_submit_loop load seen queue"
  using assms
proof (induction load seen queue rule: may_submit_loop.induct)
  case (1 load seen)
  then show ?case by simp
next
  case (2 load seen w queue)
  show ?case
  proof (cases "w \<in> set seen")
    case True
    then show ?thesis using "2.IH"(1) [OF True] "2.prems" by simp
  next
    case False
    have "insert w (set seen) \<subseteq> R" using "2.prems"(1) by simp
    then have "card (insert w (set seen)) \<le> card R" using "2.prems"(2) by (rule card_mono [rotated])
    then have few: "length seen < 16"
      using False "2.prems"(3,4) by (simp add: distinct_card)
    have wR: "w \<in> R" using "2.prems"(1) by simp
    then obtain steps where steps: "load w = Some steps" "list_all step_safe steps"
      using "2.prems"(5) [of w] by (auto simp: workflow_safe_def split: option.splits)
    have sub: "set (callees steps) \<subseteq> R"
      using "2.prems"(5) [OF wR] steps(1) by (simp add: calls_of_def)
    have "\<not> may_submit_loop load (seen @ [w]) (queue @ callees steps)"
    proof (rule "2.IH"(2) [OF False _ steps(1)])
      show "\<not> MAX_WORKFLOWS_CHECKED < length (seen @ [w])"
        using few by (simp add: MAX_WORKFLOWS_CHECKED_def)
      show "scan_steps steps queue = Some (queue @ callees steps)"
        using steps(2) by (simp add: scan_steps_eq)
      show "set (seen @ [w]) \<union> set (queue @ callees steps) \<subseteq> R"
        using "2.prems"(1) sub by auto
    qed (use "2.prems" False in auto)
    then show ?thesis
      using False few steps by (simp add: loop_step workflow_safe_def del: may_submit_loop.simps)
  qed
qed

section \<open>Properties\<close>

text \<open>C4. The no-submit check of a saved workflow is exact up to its bound: it clears a workflow
  precisely when a loader exists, at most sixteen workflows are reachable through
  call_workflow, and every reachable one loads and holds no click, no submitting fill and no
  call without a callee. In particular nothing reachable from a cleared workflow can submit.\<close>

theorem workflow_may_submit_iff:
  "\<not> workflow_may_submit name loader \<longleftrightarrow>
   (case loader of None \<Rightarrow> False
    | Some load \<Rightarrow>
        finite {w. calls_reach load name w} \<and> card {w. calls_reach load name w} \<le> 16 \<and>
        {w. calls_reach load name w} \<subseteq> {w. workflow_safe load w})"
proof (cases loader)
  case None
  then show ?thesis by (simp add: workflow_may_submit_def)
next
  case (Some load)
  let ?R = "{w. calls_reach load name w}"
  show ?thesis
  proof
    assume "\<not> workflow_may_submit name loader"
    then obtain S where S: "name \<in> S" "finite S" "card S \<le> 16"
      "\<forall>v \<in> S. workflow_safe load v \<and> calls_of load v \<subseteq> S"
      using loop_sound [of load "[]" "[name]"] Some by (auto simp: workflow_may_submit_def)
    have sub: "?R \<subseteq> S"
      using reach_least [of load name _ S] S(1,4) by blast
    then have "finite ?R" "card ?R \<le> 16"
      using S(2,3) finite_subset card_mono [OF S(2) sub] by auto
    then show "case loader of None \<Rightarrow> False | Some load \<Rightarrow> finite {w. calls_reach load name w} \<and>
        card {w. calls_reach load name w} \<le> 16 \<and>
        {w. calls_reach load name w} \<subseteq> {w. workflow_safe load w}"
      using Some S(4) sub by auto
  next
    assume "case loader of None \<Rightarrow> False | Some load \<Rightarrow> finite {w. calls_reach load name w} \<and>
        card {w. calls_reach load name w} \<le> 16 \<and>
        {w. calls_reach load name w} \<subseteq> {w. workflow_safe load w}"
    with Some have R: "finite ?R" "card ?R \<le> 16" "?R \<subseteq> {w. workflow_safe load w}" by simp_all
    have "\<not> may_submit_loop load [] [name]"
      using R by (intro loop_complete [of _ _ ?R]) (auto intro: reach_self reach_closed)
    then show "\<not> workflow_may_submit name loader"
      using Some by (simp add: workflow_may_submit_def)
  qed
qed

text \<open>A forbidden submission stays forbidden: once any revision of the contract forbade
  submitting, the rule holds after any further declarations, and refusing an action only appends
  one refusal to the ledger, so the recorded actions that count as committed never change.\<close>

theorem submit_stays_forbidden:
  assumes "submit_forbidden sv"
  shows "submit_forbidden (sv\<lparr>sv_contract := store_run is_datetime calls (sv_contract sv)\<rparr>) \<and>
    submit_forbidden (fst (submit_refusal env now location signal name ref call_id sv)) \<and>
    filter is_committed (al_recorded (sv_ledger (fst (submit_refusal env now location signal name ref call_id sv)))) =
      filter is_committed (al_recorded (sv_ledger sv))"
proof -
  have "submit_forbidden (sv\<lparr>sv_contract := store_run is_datetime calls (sv_contract sv)\<rparr>)"
    using assms store_terms_kept [of "sv_contract sv" is_datetime calls]
    by (auto simp: submit_forbidden_def terms_kept_def split: submit_term.splits)
  then show ?thesis
    using assms
    by (simp add: submit_refusal_def record_action_def Let_def submit_forbidden_def is_committed_def
        cleaned_def with_defaults_def)
qed

definition forbidding_services :: submit_services where
  "forbidding_services =
     (let body = (built_body plain_env (sample_params ''price'') [] None)\<lparr>tb_submit := Submit_forbidden\<rparr>
      in \<lparr>sv_contract = fst (append_revision (\<lambda>_. True) body ''t'' True
            (new_contract_store ''r'' Do True True)),
          sv_ledger = empty_ledger, sv_host = None, sv_log = []\<rparr>)"

lemma submit_stays_forbidden_witness:
  "submit_forbidden (fst (submit_refusal plain_env ''t'' None By_name ''Send'' None None forbidding_services))"
proof -
  have "submit_forbidden forbidding_services" by code_simp
  from submit_stays_forbidden [OF this] show ?thesis by blast
qed

end
