(* ===== verification/ContractDelivery.thy ===== *)
theory ContractDelivery
  imports TaskContract
begin

text \<open>
  Pure checking of the published content against the declared contract,
  \<open>packages/agent/src/runtime/contract-delivery.ts\<close>: the reconciliation of reported conditions with
  the contract's filters, the table, column and cell checks, the partition of rows and findings by
  the required sources, the bounded notices, and the Markdown section of alternatives. Whether a
  condition is supported by its references and whether references are on a required source are the
  callbacks the code takes. A published number is kept as the text it prints as.
\<close>

section \<open>Data\<close>

datatype constraint_status = Verified | Unverified | Violated

record delivery_constraint =
  dc_name :: jstext
  dc_value :: jstext
  dc_status :: constraint_status
  dc_refs :: "jstext list"
  dc_cause :: "jstext option"

datatype publish_cell = Cell_null | Cell_text jstext | Cell_number jstext | Cell_bool bool

record delivery_row =
  dr_cells :: "publish_cell list"
  dr_refs :: "jstext list"
  dr_pointer :: jstext

record delivery_finding =
  dn_text :: jstext
  dn_refs :: "jstext list"
  dn_pointer :: jstext

record unmet_item =
  ui_item :: jstext
  ui_reason :: jstext

datatype compose_issue = Table_missing | Field_missing jstext

record delivery_result =
  de_rows :: "delivery_row list"
  de_findings :: "delivery_finding list"
  de_alternatives_rows :: "delivery_row list"
  de_alternatives_findings :: "delivery_finding list"
  de_gaps :: "jstext list"
  de_deliverable_gaps :: "jstext list"
  de_issues :: "compose_issue list"
  de_notices :: "brief_notice list"

definition NOT_SHOWN_ON_SOURCE :: jstext where
  "NOT_SHOWN_ON_SOURCE = ''not shown on source''"

section \<open>Names and notices\<close>

definition normalize_delivery_name :: "jstext \<Rightarrow> jstext" where
  "normalize_delivery_name s = trim (replace_runs (\<lambda>c. \<not> is_lower_alnum c) (to_lower s))"

definition column_matches_field :: "jstext \<Rightarrow> jstext \<Rightarrow> bool" where
  "column_matches_field column field =
     list_all (\<lambda>token. token \<in> set (split_on CHR '' '' (normalize_delivery_name column)))
       (split_on CHR '' '' (normalize_delivery_name field))"

text \<open>The loop of \<open>boundedNotice\<close>: items are shown until one would exceed the cap.\<close>

fun visible_items :: "jstext \<Rightarrow> jstext list \<Rightarrow> jstext list \<Rightarrow> jstext list" where
  "visible_items pre vis [] = vis"
| "visible_items pre vis (item # items) =
     (if 600 < length (pre @ join ''; '' (vis @ [item])) + 24 then vis
      else visible_items pre (vis @ [item]) items)"

definition more_suffix :: "nat \<Rightarrow> jstext" where
  "more_suffix n = '' (+'' @ show_nat n @ '' more)''"

definition bounded_notice :: "jstext \<Rightarrow> jstext list \<Rightarrow> nat \<Rightarrow> jstext" where
  "bounded_notice pre items max_items =
     (let vis = visible_items pre [] (take max_items items);
          dropped = length items - length vis
      in pre @ join ''; '' vis @ (if 0 < dropped then more_suffix dropped else []))"

definition contract_gap_notice :: "jstext \<Rightarrow> jstext list \<Rightarrow> brief_notice" where
  "contract_gap_notice pre items = \<lparr>bn_kind = ''contract_gap'', bn_source = ''task-contract'',
     bn_reason = bounded_notice pre items (length items)\<rparr>"

section \<open>Conditions\<close>

definition without_evidence :: jstext where
  "without_evidence = ''marked verified without evidence''"

definition not_reported :: jstext where
  "not_reported = ''not reported by the agent''"

definition mismatch_cause :: "bool \<Rightarrow> jstext \<Rightarrow> jstext" where
  "mismatch_cause confirmed v =
     (if confirmed then ''source reports'' else ''agent reported an unconfirmed'') @ '' '' @ v"

definition normalize_condition :: "delivery_constraint \<Rightarrow> delivery_constraint" where
  "normalize_condition c = (if dc_status c = Verified \<and> dc_refs c = []
     then c\<lparr>dc_status := Unverified, dc_cause := Some without_evidence\<rparr> else c)"

definition same_name :: "jstext \<Rightarrow> jstext \<Rightarrow> bool" where
  "same_name a b \<longleftrightarrow> normalize_delivery_name a = normalize_delivery_name b"

definition reconcile_filter ::
  "(delivery_constraint \<Rightarrow> bool) \<Rightarrow> delivery_constraint list \<Rightarrow> contract_filter \<Rightarrow> delivery_constraint" where
  "reconcile_filter supported normalized f =
     (case find (\<lambda>e. same_name (dc_name e) (cf_name f)) normalized of
        None \<Rightarrow> \<lparr>dc_name = cf_name f, dc_value = cf_value f, dc_status = Unverified, dc_refs = [],
                 dc_cause = Some not_reported\<rparr>
      | Some c \<Rightarrow>
          if same_name (dc_value c) (cf_value f)
          then c\<lparr>dc_name := cf_name f, dc_value := cf_value f\<rparr>
          else let confirmed = (0 < length (dc_refs c) \<and> supported c) in
            c\<lparr>dc_name := cf_name f, dc_value := cf_value f,
              dc_status := (if confirmed then Violated else Unverified),
              dc_cause := Some (mismatch_cause confirmed (dc_value c))\<rparr>)"

definition condition_phrase :: "delivery_constraint \<Rightarrow> jstext" where
  "condition_phrase c = dc_name c @ '' = '' @ dc_value c @
     (case dc_cause c of None \<Rightarrow> []
      | Some cause \<Rightarrow> if cause = [] then [] else '' ('' @ cause @ '')'')"

definition status_notice :: "jstext \<Rightarrow> constraint_status \<Rightarrow> delivery_constraint list \<Rightarrow> brief_notice list" where
  "status_notice pre st cs =
     (let items = map condition_phrase (filter (\<lambda>c. dc_status c = st) cs) in
      if items = [] then [] else [contract_gap_notice pre items])"

definition contract_filters :: "contract_body option \<Rightarrow> contract_filter list" where
  "contract_filters b = (case b of None \<Rightarrow> [] | Some c \<Rightarrow> tb_filters c)"

definition reconcile_constraints ::
  "delivery_constraint list \<Rightarrow> contract_body option \<Rightarrow> (delivery_constraint \<Rightarrow> bool) \<Rightarrow>
     delivery_constraint list \<times> brief_notice list" where
  "reconcile_constraints input body supported =
     (let normalized = map normalize_condition input;
          filters = contract_filters body;
          names = map (\<lambda>f. normalize_delivery_name (cf_name f)) filters;
          constraints = map (reconcile_filter supported normalized) filters @
            filter (\<lambda>c. normalize_delivery_name (dc_name c) \<notin> set names) normalized
      in (constraints, status_notice ''Not confirmed: '' Unverified constraints @
                       status_notice ''Not met: '' Violated constraints))"

section \<open>Delivery\<close>

datatype delivery_mode = Tool_mode | Assembled_mode

record delivery_input =
  di_rows :: "delivery_row list"
  di_findings :: "delivery_finding list"
  di_columns :: "jstext list"
  di_table_present :: bool
  di_unmet :: "unmet_item list"
  di_contract :: "contract_body option"
  di_mode :: delivery_mode
  di_on_contract :: "jstext list \<Rightarrow> bool"

record delivery_state =
  ds_rows :: "delivery_row list"
  ds_runtime_gaps :: "jstext list"
  ds_deliverable_gaps :: "jstext list"
  ds_issues :: "compose_issue list"

definition exempt :: "unmet_item list \<Rightarrow> jstext \<Rightarrow> bool" where
  "exempt unmet name = list_ex (\<lambda>i.
     str_includes (normalize_delivery_name name) (normalize_delivery_name (ui_item i))) unmet"

definition no_table_gap :: jstext where
  "no_table_gap = ''table: no table was published''"

definition no_column_gap :: "jstext \<Rightarrow> jstext" where
  "no_column_gap field = field @ '': no column was published''"

definition missing_cells_gap :: "jstext \<Rightarrow> nat \<Rightarrow> nat \<Rightarrow> jstext" where
  "missing_cells_gap field missing rows =
     field @ '': not shown for '' @ show_nat missing @ '' of '' @ show_nat rows @ '' rows''"

definition not_cited_gap :: "jstext \<Rightarrow> jstext" where
  "not_cited_gap hosts = ''nothing in the answer is cited from '' @ hosts"

definition no_row_gap :: "jstext \<Rightarrow> jstext" where
  "no_row_gap hosts = ''no row came from '' @ hosts"

text \<open>A cell the code treats as missing, at an index that may lie beyond the row.\<close>

definition is_missing :: "publish_cell option \<Rightarrow> bool" where
  "is_missing c \<longleftrightarrow> c = Some Cell_null \<or> c = Some (Cell_text []) \<or>
     c = Some (Cell_text NOT_SHOWN_ON_SOURCE)"

definition fill_cell :: "nat \<Rightarrow> delivery_row \<Rightarrow> delivery_row" where
  "fill_cell column r = (if is_missing (nth_opt (dr_cells r) column)
     then r\<lparr>dr_cells := (dr_cells r)[column := Cell_text NOT_SHOWN_ON_SOURCE]\<rparr> else r)"

definition check_field :: "delivery_input \<Rightarrow> delivery_state \<Rightarrow> jstext \<Rightarrow> delivery_state" where
  "check_field input s field =
     (case find_index (\<lambda>name. column_matches_field name field) (di_columns input) of
        None \<Rightarrow>
          let s = s\<lparr>ds_deliverable_gaps := ds_deliverable_gaps s @ [no_column_gap field]\<rparr> in
          if exempt (di_unmet input) field then s
          else (case di_mode input of
            Assembled_mode \<Rightarrow> s\<lparr>ds_runtime_gaps := ds_runtime_gaps s @ [no_column_gap field]\<rparr>
          | Tool_mode \<Rightarrow> s\<lparr>ds_issues := ds_issues s @ [Field_missing field]\<rparr>)
      | Some column \<Rightarrow>
          let missing = length (filter (\<lambda>r. is_missing (nth_opt (dr_cells r) column)) (ds_rows s));
              gap = missing_cells_gap field missing (length (ds_rows s));
              s = s\<lparr>ds_rows := map (fill_cell column) (ds_rows s)\<rparr>
          in if 0 < missing
             then s\<lparr>ds_runtime_gaps := ds_runtime_gaps s @ [gap],
                    ds_deliverable_gaps := ds_deliverable_gaps s @ [gap]\<rparr>
             else s)"

definition check_table :: "delivery_input \<Rightarrow> delivery_state" where
  "check_table input =
     (let s = \<lparr>ds_rows = di_rows input, ds_runtime_gaps = [], ds_deliverable_gaps = [],
               ds_issues = []\<rparr>
      in case di_contract input of
        None \<Rightarrow> s
      | Some c \<Rightarrow>
          if tb_deliverable c \<noteq> Table then s
          else if di_table_present input then foldl (check_field input) s (tb_required_fields c)
          else
            let s = s\<lparr>ds_deliverable_gaps := [no_table_gap]\<rparr> in
            if exempt (di_unmet input) ''table'' then s
            else (case di_mode input of
              Assembled_mode \<Rightarrow> s\<lparr>ds_runtime_gaps := [no_table_gap]\<rparr>
            | Tool_mode \<Rightarrow> s\<lparr>ds_issues := [Table_missing]\<rparr>))"

definition required_sources :: "delivery_input \<Rightarrow> jstext list" where
  "required_sources input = (case di_contract input of None \<Rightarrow> [] | Some c \<Rightarrow> tb_required_sources c)"

definition partitioned :: "delivery_input \<Rightarrow> bool" where
  "partitioned input \<longleftrightarrow> di_contract input \<noteq> None \<and> 0 < length (required_sources input)"

definition main_row :: "delivery_input \<Rightarrow> delivery_row \<Rightarrow> bool" where
  "main_row input r \<longleftrightarrow> \<not> partitioned input \<or> di_on_contract input (dr_refs r)"

definition alternative_row :: "delivery_input \<Rightarrow> delivery_row \<Rightarrow> bool" where
  "alternative_row input r \<longleftrightarrow> partitioned input \<and> \<not> di_on_contract input (dr_refs r)"

definition main_finding :: "delivery_input \<Rightarrow> delivery_finding \<Rightarrow> bool" where
  "main_finding input f \<longleftrightarrow> \<not> partitioned input \<or> length (dn_refs f) = 0 \<or> di_on_contract input (dn_refs f)"

definition alternative_finding :: "delivery_input \<Rightarrow> delivery_finding \<Rightarrow> bool" where
  "alternative_finding input f \<longleftrightarrow>
     partitioned input \<and> 0 < length (dn_refs f) \<and> \<not> di_on_contract input (dn_refs f)"

text \<open>The gaps about the required sources, from the rows and the partitioned content.\<close>

definition source_gaps ::
  "delivery_input \<Rightarrow> delivery_row list \<Rightarrow> delivery_row list \<Rightarrow> delivery_finding list \<Rightarrow> jstext list" where
  "source_gaps input rows main_rows findings =
     (let hosts = join '', '' (required_sources input);
          on = di_on_contract input
      in (if partitioned input \<and> \<not> list_ex (\<lambda>r. on (dr_refs r)) main_rows \<and>
             \<not> list_ex (\<lambda>f. 0 < length (dn_refs f) \<and> on (dn_refs f)) findings
          then [not_cited_gap hosts] else []) @
         (if 0 < length rows \<and> length main_rows = 0 \<and> partitioned input
          then [no_row_gap hosts] else []))"

definition delivery_gaps :: "delivery_input \<Rightarrow> jstext list \<Rightarrow> jstext list" where
  "delivery_gaps input runtime_gaps =
     map (\<lambda>i. ui_item i @ '' ('' @ ui_reason i @ '')'') (di_unmet input) @
     filter (\<lambda>gap. \<not> list_ex (\<lambda>i. str_includes (normalize_delivery_name (ui_item i))
        (normalize_delivery_name gap)) (di_unmet input)) runtime_gaps"

definition check_contract_delivery :: "delivery_input \<Rightarrow> delivery_result" where
  "check_contract_delivery input =
     (let s = check_table input;
          rows = ds_rows s;
          main_rows = filter (main_row input) rows;
          findings = filter (main_finding input) (di_findings input);
          more = source_gaps input rows main_rows findings;
          gaps = delivery_gaps input (ds_runtime_gaps s @ more)
      in \<lparr>de_rows = main_rows, de_findings = findings,
          de_alternatives_rows = filter (alternative_row input) rows,
          de_alternatives_findings = filter (alternative_finding input) (di_findings input),
          de_gaps = gaps,
          de_deliverable_gaps = ds_deliverable_gaps s @ more,
          de_issues = ds_issues s,
          de_notices = (if gaps = [] then [] else [contract_gap_notice ''Not delivered: '' gaps])\<rparr>)"

section \<open>The alternatives section\<close>

definition cell_text :: "publish_cell \<Rightarrow> jstext" where
  "cell_text c = (case c of Cell_null \<Rightarrow> [] | Cell_text s \<Rightarrow> s | Cell_number s \<Rightarrow> s
     | Cell_bool b \<Rightarrow> [if b then check_mark else cross_mark])"

text \<open>\<open>/\r?\n/\<close> becomes a space; a bar is escaped.\<close>

fun unbreak :: "jstext \<Rightarrow> jstext" where
  "unbreak [] = []"
| "unbreak (c # s) =
     (if c = CHR 0x0A then CHR '' '' # unbreak s
      else if c = CHR 0x0D \<and> starts_with [CHR 0x0A] s then unbreak s
      else c # unbreak s)"

definition escape_cell :: "publish_cell \<Rightarrow> jstext" where
  "escape_cell c =
     unbreak (concat (map (\<lambda>x. if x = CHR ''|'' then [CHR 0x5C, x] else [x]) (cell_text c)))"

definition table_line :: "jstext list \<Rightarrow> jstext" where
  "table_line cells = ''| '' @ join '' | '' cells @ '' |''"

definition alternatives_body ::
  "jstext list \<Rightarrow> delivery_row list \<Rightarrow> delivery_finding list \<Rightarrow> (jstext list \<Rightarrow> jstext) \<Rightarrow>
     (jstext \<Rightarrow> jstext) \<Rightarrow> jstext" where
  "alternatives_body columns rows findings markers rewrite =
     (let heads = map Cell_text (columns @ [''Sources'']);
          table = (if rows = [] then []
            else join [CHR 0x0A] (
              [table_line (map escape_cell heads), table_line (map (\<lambda>_. ''---'') heads)] @
              map (\<lambda>r. table_line (map escape_cell (dr_cells r) @ [markers (dr_refs r)])) rows));
          bullets = join [CHR 0x0A]
            (map (\<lambda>f. ''- '' @ rewrite (dn_text f) @ '' '' @ markers (dn_refs f)) findings)
      in join [CHR 0x0A, CHR 0x0A] (filter (\<lambda>b. 0 < length b) [table, bullets]))"

section \<open>Lemmas\<close>

lemma visible_items_prefix: "\<exists>shown rest. items = shown @ rest \<and> visible_items pre vis items = vis @ shown"
proof (induction pre vis items rule: visible_items.induct)
  case (1 pre vis)
  then show ?case by simp
next
  case (2 pre vis item items)
  show ?case
  proof (cases "600 < length (pre @ join ''; '' (vis @ [item])) + 24")
    case True
    then have "visible_items pre vis (item # items) = vis @ []" by simp
    then show ?thesis by blast
  next
    case False
    from "2.IH" [OF False] obtain shown rest where
      "items = shown @ rest" "visible_items pre (vis @ [item]) items = (vis @ [item]) @ shown" by blast
    moreover from False have "visible_items pre vis (item # items) = visible_items pre (vis @ [item]) items"
      by simp
    ultimately have "item # items = (item # shown) @ rest \<and>
        visible_items pre vis (item # items) = vis @ (item # shown)" by simp
    then show ?thesis by blast
  qed
qed

lemma visible_items_bound:
  "length (pre @ join ''; '' vis) + 24 \<le> 600 \<Longrightarrow>
   length (pre @ join ''; '' (visible_items pre vis items)) + 24 \<le> 600"
  by (induction pre vis items rule: visible_items.induct) auto

lemma more_suffix_length: "n < 10 ^ 15 \<Longrightarrow> length (more_suffix n) \<le> 24"
  using length_show_nat [of n 14] by (simp add: more_suffix_def)

lemma bounded_notice_length:
  assumes "length pre \<le> 576" "length items < 10 ^ 15"
  shows "length (bounded_notice pre items m) \<le> 600"
proof -
  let ?vis = "visible_items pre [] (take m items)"
  have "length (pre @ join ''; '' ?vis) + 24 \<le> 600"
    using assms(1) by (intro visible_items_bound) simp
  moreover have "length (more_suffix (length items - length ?vis)) \<le> 24"
    using assms(2) by (intro more_suffix_length) simp
  ultimately show ?thesis by (auto simp: bounded_notice_def Let_def)
qed

lemma normalize_condition_verified:
  "dc_status (normalize_condition c) = Verified \<Longrightarrow>
   normalize_condition c = c \<and> dc_status c = Verified \<and> dc_refs c \<noteq> []"
  by (auto simp: normalize_condition_def split: if_splits)

lemma normalize_condition_same [simp]:
  "dc_name (normalize_condition c) = dc_name c" "dc_value (normalize_condition c) = dc_value c"
  "dc_refs (normalize_condition c) = dc_refs c"
  by (simp_all add: normalize_condition_def)

lemma reconcile_filter_names:
  "dc_name (reconcile_filter ok cs f) = cf_name f" "dc_value (reconcile_filter ok cs f) = cf_value f"
  by (simp_all add: reconcile_filter_def Let_def split: option.split)

text \<open>The agent reported the filter's very name and value as verified, with the given references.\<close>

definition evidenced :: "delivery_constraint list \<Rightarrow> contract_filter \<Rightarrow> delivery_constraint \<Rightarrow> bool" where
  "evidenced input f c \<longleftrightarrow> (\<exists>e \<in> set input. same_name (dc_name e) (cf_name f) \<and>
     same_name (dc_value e) (cf_value f) \<and> dc_status e = Verified \<and> dc_refs e \<noteq> [] \<and>
     dc_refs c = dc_refs e)"

lemma reconcile_filter_verified:
  assumes "dc_status (reconcile_filter ok (map normalize_condition input) f) = Verified"
  shows "evidenced input f (reconcile_filter ok (map normalize_condition input) f)"
proof (cases "find (\<lambda>e. same_name (dc_name e) (cf_name f)) (map normalize_condition input)")
  case None
  with assms show ?thesis by (simp add: reconcile_filter_def)
next
  case (Some c)
  then obtain e where e: "e \<in> set input" "c = normalize_condition e" "same_name (dc_name c) (cf_name f)"
    by (auto dest!: find_SomeD)
  from assms Some have agree: "same_name (dc_value c) (cf_value f)" and st: "dc_status c = Verified"
    by (auto simp: reconcile_filter_def Let_def split: if_splits)
  from st e(2) have "c = e" "dc_status e = Verified" "dc_refs e \<noteq> []"
    using normalize_condition_verified by auto
  with e agree Some show ?thesis
    by (auto simp: evidenced_def reconcile_filter_def intro!: bexI [of _ e])
qed

subsection \<open>Rows\<close>

definition cell_blank :: "nat \<Rightarrow> delivery_row \<Rightarrow> bool" where
  "cell_blank column r \<longleftrightarrow>
     nth_opt (dr_cells r) column = Some Cell_null \<or> nth_opt (dr_cells r) column = Some (Cell_text [])"

lemma fill_cell_same [simp]:
  "dr_refs (fill_cell c r) = dr_refs r" "dr_pointer (fill_cell c r) = dr_pointer r"
  "length (dr_cells (fill_cell c r)) = length (dr_cells r)"
  by (simp_all add: fill_cell_def)

lemma not_shown_nonempty [simp]: "NOT_SHOWN_ON_SOURCE \<noteq> []"
  by (simp add: NOT_SHOWN_ON_SOURCE_def)

lemma fill_cell_fills: "\<not> cell_blank c (fill_cell c r)"
  by (auto simp: cell_blank_def fill_cell_def is_missing_def nth_opt_def split: if_splits)

lemma fill_cell_keeps: "\<not> cell_blank c r \<Longrightarrow> \<not> cell_blank c (fill_cell d r)"
  by (cases "c = d") (auto simp: cell_blank_def fill_cell_def nth_opt_def split: if_splits)

text \<open>Filling only ever turns missing cells into the marker.\<close>

definition row_filled :: "delivery_row \<Rightarrow> delivery_row \<Rightarrow> bool" where
  "row_filled r r' \<longleftrightarrow> dr_refs r' = dr_refs r \<and> dr_pointer r' = dr_pointer r \<and>
     length (dr_cells r') = length (dr_cells r) \<and>
     (\<forall>c < length (dr_cells r). dr_cells r' ! c = dr_cells r ! c \<or>
        is_missing (Some (dr_cells r ! c)) \<and> dr_cells r' ! c = Cell_text NOT_SHOWN_ON_SOURCE)"

lemma row_filled_refl [simp]: "row_filled r r"
  by (simp add: row_filled_def)

lemma row_filled_step: "row_filled r r' \<Longrightarrow> row_filled r (fill_cell c r')"
  by (auto simp: row_filled_def fill_cell_def nth_list_update nth_opt_def is_missing_def)

lemma check_field_rows:
  "ds_rows (check_field input s field) =
     (case find_index (\<lambda>name. column_matches_field name field) (di_columns input) of
        None \<Rightarrow> ds_rows s | Some c \<Rightarrow> map (fill_cell c) (ds_rows s))"
  by (simp add: check_field_def Let_def split: option.split delivery_mode.split)

lemma check_fields_filled:
  "list_all2 row_filled rows0 (ds_rows s) \<Longrightarrow>
   list_all2 row_filled rows0 (ds_rows (foldl (check_field input) s fs))"
proof (induction fs arbitrary: s)
  case Nil
  then show ?case by simp
next
  case (Cons f fs)
  have "list_all2 row_filled rows0 (ds_rows (check_field input s f))"
    using Cons.prems
    by (auto simp: check_field_rows list_all2_map2 row_filled_step elim: list_all2_mono split: option.split)
  from Cons.IH [OF this] show ?case by simp
qed

lemma check_fields_keep:
  "\<forall>r \<in> set (ds_rows s). \<not> cell_blank c r \<Longrightarrow>
   \<forall>r \<in> set (ds_rows (foldl (check_field input) s fs)). \<not> cell_blank c r"
proof (induction fs arbitrary: s)
  case Nil
  then show ?case by simp
next
  case (Cons f fs)
  have "\<forall>r \<in> set (ds_rows (check_field input s f)). \<not> cell_blank c r"
    using Cons.prems by (auto simp: check_field_rows fill_cell_keeps split: option.split)
  from Cons.IH [OF this] show ?case by simp
qed

lemma check_fields_fill:
  assumes "f \<in> set fs" "find_index (\<lambda>name. column_matches_field name f) (di_columns input) = Some c"
  shows "\<forall>r \<in> set (ds_rows (foldl (check_field input) s fs)). \<not> cell_blank c r"
proof -
  from assms(1) obtain fs1 fs2 where fs: "fs = fs1 @ f # fs2" by (meson split_list)
  have "\<forall>r \<in> set (ds_rows (check_field input (foldl (check_field input) s fs1) f)). \<not> cell_blank c r"
    using assms(2) by (auto simp: check_field_rows fill_cell_fills)
  from check_fields_keep [OF this] show ?thesis by (simp add: fs)
qed

lemma check_table_filled: "list_all2 row_filled (di_rows input) (ds_rows (check_table input))"
proof -
  have refl: "list_all2 row_filled rows rows" for rows by (simp add: list_all2_refl)
  show ?thesis
    by (auto simp: check_table_def Let_def refl check_fields_filled split: option.split delivery_mode.split)
qed

lemma alternatives_complement:
  "alternative_row input = (\<lambda>r. \<not> main_row input r)"
  "alternative_finding input = (\<lambda>f. \<not> main_finding input f)"
  by (auto simp: alternative_row_def main_row_def alternative_finding_def main_finding_def fun_eq_iff)

lemma delivery_split:
  "de_rows (check_contract_delivery input) = filter (main_row input) (ds_rows (check_table input))"
  "de_alternatives_rows (check_contract_delivery input) =
     filter (\<lambda>r. \<not> main_row input r) (ds_rows (check_table input))"
  "de_findings (check_contract_delivery input) = filter (main_finding input) (di_findings input)"
  "de_alternatives_findings (check_contract_delivery input) =
     filter (\<lambda>f. \<not> main_finding input f) (di_findings input)"
  by (simp_all add: check_contract_delivery_def Let_def alternatives_complement)

section \<open>Properties\<close>


text \<open>Delivery checking loses and invents nothing: main and alternative rows together are all the
  published rows, with only missing cells replaced by the marker, split by whether they come from a
  required source; and likewise every finding is kept in exactly one of the two lists.\<close>

theorem delivery_partitions:
  "(let d = check_contract_delivery input in
     (\<exists>rows. list_all2 row_filled (di_rows input) rows \<and>
        de_rows d = filter (main_row input) rows \<and>
        de_alternatives_rows d = filter (\<lambda>r. \<not> main_row input r) rows) \<and>
     length (de_rows d) + length (de_alternatives_rows d) = length (di_rows input) \<and>
     de_findings d = filter (main_finding input) (di_findings input) \<and>
     de_alternatives_findings d = filter (\<lambda>f. \<not> main_finding input f) (di_findings input))"
proof -
  have filled: "list_all2 row_filled (di_rows input) (ds_rows (check_table input))"
    by (rule check_table_filled)
  then have "length (ds_rows (check_table input)) = length (di_rows input)" by (simp add: list_all2_lengthD)
  with filled show ?thesis
    by (auto simp: delivery_split partition_lengths)
qed

text \<open>C9. A delivered table has no blank required cell: for a published table of a table contract,
  every required field with a matching column has, in every delivered and every alternative row,
  a value or the not-shown marker in that column, never null and never the empty string.\<close>

theorem required_cells_not_blank:
  assumes "di_contract input = Some c" "tb_deliverable c = Table" "di_table_present input"
    and "field \<in> set (tb_required_fields c)"
    and "find_index (\<lambda>name. column_matches_field name field) (di_columns input) = Some column"
    and "r \<in> set (de_rows (check_contract_delivery input)) \<union>
      set (de_alternatives_rows (check_contract_delivery input))"
  shows "\<not> cell_blank column r"
proof -
  have "set (de_rows (check_contract_delivery input)) \<union>
      set (de_alternatives_rows (check_contract_delivery input)) \<subseteq> set (ds_rows (check_table input))"
    by (auto simp: delivery_split)
  with assms(6) have "r \<in> set (ds_rows (check_table input))" by blast
  moreover have "\<forall>r \<in> set (ds_rows (check_table input)). \<not> cell_blank column r"
    using check_fields_fill [OF assms(4,5)] assms(1-3) by (simp add: check_table_def Let_def)
  ultimately show ?thesis by blast
qed

definition sample_delivery :: delivery_input where
  "sample_delivery = \<lparr>
     di_rows = [\<lparr>dr_cells = [Cell_text ''A'', Cell_null], dr_refs = [''S1''], dr_pointer = ''r0''\<rparr>],
     di_findings = [], di_columns = [''Name'', ''Price (USD)''], di_table_present = True,
     di_unmet = [], di_contract = Some (built_body plain_env (sample_params ''price'') [] None),
     di_mode = Tool_mode, di_on_contract = (\<lambda>_. True)\<rparr>"

lemma required_cells_not_blank_witness:
  "\<not> cell_blank 1 \<lparr>dr_cells = [Cell_text ''A'', Cell_text NOT_SHOWN_ON_SOURCE], dr_refs = [''S1''],
     dr_pointer = ''r0''\<rparr>"
  by (rule required_cells_not_blank [of sample_delivery
        "built_body plain_env (sample_params ''price'') [] None" "''price''"]) code_simp+

text \<open>Notices stay bounded with a truthful overflow count: with a prefix of at most 576
  characters a notice never exceeds 600, the suffix included, and it lists an initial part of the
  items and counts exactly the ones it leaves out.\<close>

theorem bounded_notice_bounds:
  assumes "length pre \<le> 576" "length items < 10 ^ 15"
  shows "length (bounded_notice pre items m) \<le> 600 \<and>
    (\<exists>shown rest. items = shown @ rest \<and>
       bounded_notice pre items m = pre @ join ''; '' shown @
         (if rest = [] then [] else more_suffix (length rest)))"
proof -
  obtain shown rest where split: "take m items = shown @ rest" "visible_items pre [] (take m items) = shown"
    using visible_items_prefix [of "take m items" pre "[]"] by auto
  define hidden where "hidden = rest @ drop m items"
  have items: "items = shown @ hidden"
    using split(1) by (metis append_assoc append_take_drop_id hidden_def)
  then have "length items - length shown = length hidden" by simp
  then have "bounded_notice pre items m = pre @ join ''; '' shown @
      (if hidden = [] then [] else more_suffix (length hidden))"
    unfolding bounded_notice_def Let_def split(2) by (simp add: items)
  with items have "\<exists>shown rest. items = shown @ rest \<and>
      bounded_notice pre items m = pre @ join ''; '' shown @
        (if rest = [] then [] else more_suffix (length rest))" by blast
  then show ?thesis using bounded_notice_length [OF assms] by blast
qed

lemma bounded_notice_bounds_witness:
  "length (bounded_notice ''Not met: '' [''a'', ''b''] 1) \<le> 600"
  using bounded_notice_bounds [of "''Not met: ''" "[''a'', ''b'']" 1] by simp

text \<open>The name grammar keeps only ASCII letters and digits, so two names without any are the same
  name to it: a column named with one accented letter matches a field named with another.\<close>

lemma non_ascii_names_collide:
  "same_name [CHR 0xE9] [CHR 0xFC] \<and> column_matches_field [CHR 0xE9] [CHR 0xFC]"
  by code_simp

end
