(* ===== verification/Fulfillment.thy ===== *)
theory Fulfillment
  imports ContractDelivery
begin

text \<open>
  Per-item fulfillment judged from evidence, \<open>packages/agent/src/runtime/fulfillment.ts\<close>: the fill
  evaluator over the engine's form census, the deliverable, filter, artifact and submit items, the
  whole evaluation with its distinct ids, bounds and disagreement notice, and its projections. The
  URL parser used to test a host against the required sources is the argument \<open>parse_url\<close>.
\<close>

section \<open>Data\<close>

datatype item_status = Met | Unmet | Not_applicable

datatype fill_exemption = Ex_disabled | Ex_read_only | Ex_hidden | Ex_file_input | Ex_human_verification

datatype capture_gap_reason = Suppressed_by_flag | No_browser | No_interaction_tools

record exemption_entry =
  ee_label :: jstext
  ee_reason :: fill_exemption

text \<open>What an evaluator decides of an item; the exemption fields are absent as None.\<close>

record item_verdict =
  iv_status :: item_status
  iv_reason :: "jstext option"
  iv_exemptions :: "exemption_entry list option"
  iv_exempt_overflow :: "nat option"

record requirement_status =
  rs_id :: jstext
  rs_label :: jstext
  rs_verdict :: item_verdict
  rs_declared_in :: "nat option"

record fulfillment_evaluation =
  fe_items :: "requirement_status list"
  fe_met :: nat
  fe_total :: nat
  fe_contract_declared :: bool
  fe_disagreement :: "brief_notice option"

record census_control =
  cc_ref :: jstext
  cc_group_key :: "jstext option"
  cc_label :: jstext
  cc_exemption :: "fill_exemption option"

record fill_census =
  ce_epoch :: "int option"
  ce_host :: jstext
  ce_complete :: bool
  ce_controls :: "census_control list"

type_synonym fill_evaluator = "fill_term \<Rightarrow> ledger_entry list \<Rightarrow> item_verdict"

record fulfillment_input =
  fn_contract :: "contract_body option"
  fn_terms :: action_terms
  fn_deliverable_gaps :: "jstext list"
  fn_constraints :: "delivery_constraint list"
  fn_ledger :: "ledger_entry list"
  fn_claimed_met :: "bool option"
  fn_capture_gap :: "artifact_scope \<Rightarrow> capture_gap_reason option"
  fn_evaluate_fill :: fill_evaluator

definition verdict :: "item_status \<Rightarrow> jstext option \<Rightarrow> item_verdict" where
  "verdict st reason = \<lparr>iv_status = st, iv_reason = reason, iv_exemptions = None,
     iv_exempt_overflow = None\<rparr>"

definition MAX_LABEL :: nat where "MAX_LABEL = 120"
definition MAX_REASON :: nat where "MAX_REASON = 200"
definition MAX_EXEMPTIONS :: nat where "MAX_EXEMPTIONS = 20"
definition BRIEF_MAX_REQUIREMENTS :: nat where "BRIEF_MAX_REQUIREMENTS = 16"

definition bound :: "jstext \<Rightarrow> nat \<Rightarrow> jstext" where
  "bound s lim = clip lim (collapse_spaces s)"

section \<open>Messages\<close>

definition inventory_unavailable :: jstext where
  "inventory_unavailable = ''fields not counted (inventory_unavailable)''"

definition inventory_incomplete :: jstext where
  "inventory_incomplete = ''fields not counted (inventory_incomplete)''"

definition form_document_left :: jstext where
  "form_document_left = ''fields not counted (form_document_left)''"

definition no_eligible_fields :: jstext where
  "no_eligible_fields = ''no eligible fields were found''"

definition fields_filled :: "nat \<Rightarrow> nat \<Rightarrow> jstext" where
  "fields_filled filled eligible =
     ''fields '' @ show_nat filled @ '' of '' @ show_nat eligible @ '' filled''"

definition not_filled :: "jstext list \<Rightarrow> jstext" where
  "not_filled missing = ''; not filled: '' @ join '', '' missing"

definition capture_gap_phrase :: "capture_gap_reason \<Rightarrow> jstext" where
  "capture_gap_phrase r = (case r of
     Suppressed_by_flag \<Rightarrow> ''screenshots are off for this run (--no-screenshots)''
   | No_browser \<Rightarrow> ''no browser was available''
   | No_interaction_tools \<Rightarrow> ''this command cannot act on pages'')"

definition not_captured :: "capture_gap_reason option \<Rightarrow> jstext" where
  "not_captured gap = (case gap of None \<Rightarrow> ''not captured''
     | Some g \<Rightarrow> ''not captured ('' @ capture_gap_phrase g @ '')'')"

definition captured_before :: jstext where
  "captured_before = ''captured before the last page action''"

definition captured_elsewhere :: jstext where
  "captured_elsewhere = ''captured on a different page than the last action''"

definition capture_incomplete :: jstext where
  "capture_incomplete = ''capture_incomplete''"

definition clicks_executed :: "nat \<Rightarrow> jstext" where
  "clicks_executed n = show_nat n @ '' submit-class click'' @
     (if n = 1 then '' was'' else ''s were'') @ '' executed''"

definition attempts_refused :: "nat \<Rightarrow> jstext" where
  "attempts_refused n = show_nat n @ '' submit attempt'' @ (if n = 1 then [] else ''s'') @ '' refused''"

definition no_page_action :: jstext where
  "no_page_action = ''no page action was recorded''"

definition unknown_page :: jstext where
  "unknown_page = ''an unknown page''"

definition actions_happened :: "jstext list \<Rightarrow> jstext list \<Rightarrow> jstext" where
  "actions_happened off sources =
     ''actions happened on '' @ join '', '' off @ '', not '' @ join '', '' sources"

definition not_met_reason :: "jstext \<Rightarrow> jstext" where
  "not_met_reason v = ''not met: '' @ v"

definition not_confirmed_reason :: "jstext option \<Rightarrow> jstext" where
  "not_confirmed_reason cause = ''not confirmed'' @
     (case cause of None \<Rightarrow> [] | Some c \<Rightarrow> '' ('' @ c @ '')'')"

definition uncited_prefix :: jstext where
  "uncited_prefix = ''nothing in the answer is cited from''"

section \<open>The fill item\<close>

definition fill_of :: "ledger_entry \<Rightarrow> fill_verification fill_committed option" where
  "fill_of e = (case le_body e of Fill_committed f \<Rightarrow> Some f | _ \<Rightarrow> None)"

definition epoch_of :: "ledger_entry \<Rightarrow> int option" where
  "epoch_of e = ls_epoch (le_stamp e)"

text \<open>The committed fills, with the entry they come from.\<close>

definition fills :: "ledger_entry list \<Rightarrow> (ledger_entry \<times> fill_verification fill_committed) list" where
  "fills ledger = List.map_filter (\<lambda>e. map_option (\<lambda>f. (e, f)) (fill_of e)) ledger"

record census_unit =
  cu_ref :: jstext
  cu_label :: jstext
  cu_group_key :: "jstext option"
  cu_refs :: "jstext jsset"

definition unit_key :: "census_control \<Rightarrow> jstext" where
  "unit_key c = (case cc_group_key c of None \<Rightarrow> ''ref:'' @ cc_ref c | Some g \<Rightarrow> ''group:'' @ g)"

definition add_unit :: "(jstext, census_unit) jsmap \<Rightarrow> census_control \<Rightarrow> (jstext, census_unit) jsmap" where
  "add_unit m c =
     (if cc_exemption c \<noteq> None then m
      else let u = (case map_get m (unit_key c) of
             Some u \<Rightarrow> u
           | None \<Rightarrow> \<lparr>cu_ref = cc_ref c, cu_label = cc_label c, cu_group_key = cc_group_key c, cu_refs = []\<rparr>)
        in map_set (unit_key c) (u\<lparr>cu_refs := set_add (cc_ref c) (cu_refs u)\<rparr>) m)"

definition census_units :: "fill_census \<Rightarrow> (jstext, census_unit) jsmap" where
  "census_units census = foldl add_unit [] (ce_controls census)"

definition commit_fills_unit :: "census_unit \<Rightarrow> fill_verification fill_committed \<Rightarrow> bool" where
  "commit_fills_unit u f \<longleftrightarrow>
     fc_ref f \<in> set (cu_refs u) \<or>
     (case fc_covered_refs f of None \<Rightarrow> False | Some rs \<Rightarrow> list_ex (\<lambda>r. r \<in> set (cu_refs u)) rs) \<or>
     (cu_group_key u \<noteq> None \<and> fc_group_key f = cu_group_key u)"

record fill_coverage =
  fo_eligible :: nat
  fo_filled :: nat
  fo_remaining :: "(jstext \<times> jstext \<times> jstext option) list"
  fo_complete :: bool

definition fill_coverage_of :: "fill_census \<Rightarrow> ledger_entry list \<Rightarrow> fill_coverage" where
  "fill_coverage_of census ledger =
     (let units = census_units census;
          commits = map snd (filter (\<lambda>(e, f). epoch_of e = ce_epoch census) (fills ledger));
          remaining = map (\<lambda>u. (cu_ref u, cu_label u, cu_group_key u))
            (filter (\<lambda>u. \<not> list_ex (commit_fills_unit u) commits) (map snd units))
      in \<lparr>fo_eligible = length units, fo_filled = length units - length remaining,
          fo_remaining = remaining, fo_complete = ce_complete census\<rparr>)"

record listed_coverage =
  lc_filled :: nat
  lc_eligible :: nat
  lc_missing :: "jstext list"

definition listed_fill_coverage :: "jstext list \<Rightarrow> ledger_entry list \<Rightarrow> listed_coverage" where
  "listed_fill_coverage names ledger =
     (let filled = map (\<lambda>(e, f). normalize_delivery_name (fc_field f)) (fills ledger);
          missing = filter (\<lambda>n. normalize_delivery_name n \<notin> set filled) names
      in \<lparr>lc_filled = length names - length missing, lc_eligible = length names, lc_missing = missing\<rparr>)"

definition listed_fill :: "jstext list \<Rightarrow> ledger_entry list \<Rightarrow> item_verdict" where
  "listed_fill names commits =
     (let missing = lc_missing (listed_fill_coverage names commits) in
      if length missing = 0 then verdict Met (Some (fields_filled (length names) (length names)))
      else verdict Unmet (Some (fields_filled (length names - length missing) (length names) @
             not_filled missing)))"

text \<open>The loop of \<open>exemptionsOf\<close>: one entry per group or ungrouped control, in census order.\<close>

fun exempt_entries :: "jstext jsset \<Rightarrow> census_control list \<Rightarrow> exemption_entry list" where
  "exempt_entries seen [] = []"
| "exempt_entries seen (c # cs) = (case cc_exemption c of
     None \<Rightarrow> exempt_entries seen cs
   | Some r \<Rightarrow>
       let key = (case cc_group_key c of None \<Rightarrow> ''ref:'' @ cc_ref c | Some g \<Rightarrow> g) in
       if key \<in> set seen then exempt_entries seen cs
       else \<lparr>ee_label = bound (if 0 < length (cc_label c) then cc_label c else cc_ref c) MAX_LABEL,
              ee_reason = r\<rparr> # exempt_entries (set_add key seen) cs)"

definition with_exemptions :: "fill_census \<Rightarrow> item_verdict \<Rightarrow> item_verdict" where
  "with_exemptions census v =
     (let ex = exempt_entries [] (ce_controls census) in
      if length ex = 0 then v
      else v\<lparr>iv_exemptions := Some (take MAX_EXEMPTIONS ex),
             iv_exempt_overflow := (if MAX_EXEMPTIONS < length ex
               then Some (length ex - MAX_EXEMPTIONS) else None)\<rparr>)"

definition UNAVAILABLE_FILL :: fill_evaluator where
  "UNAVAILABLE_FILL fill ledger = verdict Unmet (Some inventory_unavailable)"

definition census_fill_evaluator :: "fill_census option \<Rightarrow> fill_evaluator" where
  "census_fill_evaluator cen fill ledger =
     (let commits = filter (\<lambda>e. fill_of e \<noteq> None) ledger in
      if ft_coverage fill = Listed then listed_fill (ft_fields fill) commits
      else case cen of
        None \<Rightarrow> UNAVAILABLE_FILL fill ledger
      | Some census \<Rightarrow>
          if \<not> ce_complete census
          then with_exemptions census (verdict Unmet (Some inventory_incomplete))
          else if (case last_opt commits of None \<Rightarrow> False | Some e \<Rightarrow> epoch_of e \<noteq> ce_epoch census)
          then with_exemptions census (verdict Unmet (Some form_document_left))
          else let c = fill_coverage_of census ledger in
            if fo_eligible c = 0
            then with_exemptions census (verdict Unmet (Some no_eligible_fields))
            else with_exemptions census (verdict (if fo_filled c = fo_eligible c then Met else Unmet)
                   (Some (fields_filled (fo_filled c) (fo_eligible c)))))"

section \<open>The other items\<close>

definition host_url :: "jstext \<Rightarrow> jstext" where
  "host_url host = ''https://'' @ host @ ''/''"

definition actions_status ::
  "(jstext \<Rightarrow> source_url option) \<Rightarrow> ledger_entry list \<Rightarrow> contract_body \<Rightarrow> item_verdict" where
  "actions_status parse_url ledger body =
     (let committed = filter is_committed ledger;
          off = to_jsset (map (\<lambda>e. if ls_host (le_stamp e) = [] then unknown_page else ls_host (le_stamp e))
            (filter (\<lambda>e. \<not> host_satisfies_required_source parse_url (host_url (ls_host (le_stamp e))) body)
               committed))
      in if length committed = 0 then verdict Unmet (Some no_page_action)
         else if length (tb_required_sources body) = 0 then verdict Met None
         else if length off = 0 then verdict Met None
         else verdict Unmet (Some (actions_happened off (tb_required_sources body))))"

definition item :: "jstext \<Rightarrow> jstext \<Rightarrow> nat option \<Rightarrow> item_verdict \<Rightarrow> requirement_status" where
  "item ident label declared v = \<lparr>rs_id = ident, rs_label = label, rs_verdict = v, rs_declared_in = declared\<rparr>"

definition gap_verdict :: "jstext list \<Rightarrow> item_verdict" where
  "gap_verdict gaps = (if length gaps = 0 then verdict Met None
     else verdict Unmet (Some (join ''; '' gaps)))"

definition deliverable_item ::
  "(jstext \<Rightarrow> source_url option) \<Rightarrow> fulfillment_input \<Rightarrow> contract_body \<Rightarrow> requirement_status" where
  "deliverable_item parse_url input body =
     item ''deliverable'' (deliverable_name (tb_deliverable body) @ '' of '' @ tb_subject body) None
       (case tb_deliverable body of
          Table \<Rightarrow> gap_verdict (fn_deliverable_gaps input)
        | Answer \<Rightarrow> gap_verdict (filter (starts_with uncited_prefix) (fn_deliverable_gaps input))
        | Report \<Rightarrow> gap_verdict (filter (starts_with uncited_prefix) (fn_deliverable_gaps input))
        | Actions \<Rightarrow> actions_status parse_url (fn_ledger input) body)"

definition filter_id :: "contract_filter \<Rightarrow> jstext" where
  "filter_id f = take 67 (''filter:'' @
     (if normalize_delivery_name (cf_name f) = [] then trim (cf_name f)
      else normalize_delivery_name (cf_name f)))"

definition filter_item :: "contract_filter \<Rightarrow> delivery_constraint list \<Rightarrow> requirement_status" where
  "filter_item f constraints =
     item (filter_id f) (cf_name f @ '' = '' @ cf_value f) None
       (case find (\<lambda>e. same_name (dc_name e) (cf_name f)) constraints of
          None \<Rightarrow> verdict Unmet (Some (not_confirmed_reason None))
        | Some c \<Rightarrow> (case dc_status c of
            Verified \<Rightarrow> verdict Met None
          | Violated \<Rightarrow> verdict Unmet (Some (not_met_reason
              (case dc_cause c of None \<Rightarrow> dc_value c | Some cause \<Rightarrow> cause)))
          | Unverified \<Rightarrow> verdict Unmet (Some (not_confirmed_reason (dc_cause c)))))"

definition satisfies :: "artifact_scope \<Rightarrow> artifact_scope \<Rightarrow> bool" where
  "satisfies requested captured =
     (if requested = Viewport then captured = Viewport \<or> captured = Full_page
      else captured = requested)"

definition DELIVERABLE_PRODUCER :: jstext where
  "DELIVERABLE_PRODUCER = ''browser_capture''"

definition is_artifact_capture :: "artifact_scope \<Rightarrow> ledger_entry \<Rightarrow> bool" where
  "is_artifact_capture scope e = (case le_body e of
     Capture c \<Rightarrow> ca_producer c = DELIVERABLE_PRODUCER \<and> satisfies scope (ca_scope c)
   | _ \<Rightarrow> False)"

definition artifact_captures :: "artifact_scope \<Rightarrow> ledger_entry list \<Rightarrow> ledger_entry list" where
  "artifact_captures scope ledger = filter (is_artifact_capture scope) ledger"

definition is_incomplete :: "ledger_entry \<Rightarrow> bool" where
  "is_incomplete e = (case le_body e of Capture c \<Rightarrow> ca_complete c = Some False | _ \<Rightarrow> False)"

definition completeness_verdict :: "artifact_scope \<Rightarrow> ledger_entry list \<Rightarrow> item_verdict" where
  "completeness_verdict scope timely =
     (if scope = Full_page \<and> list_all is_incomplete timely
      then verdict Unmet (Some capture_incomplete) else verdict Met None)"

definition artifact_status ::
  "artifact_scope \<Rightarrow> ledger_entry list \<Rightarrow> (artifact_scope \<Rightarrow> capture_gap_reason option) \<Rightarrow> item_verdict" where
  "artifact_status scope ledger capture_gap =
     (let captures = artifact_captures scope ledger in
      if length captures = 0 then verdict Unmet (Some (not_captured (capture_gap scope)))
      else case last_committed ledger of
        None \<Rightarrow> completeness_verdict scope captures
      | Some a \<Rightarrow>
          let after = filter (\<lambda>e. seq_of a < seq_of e) captures;
              timely = filter (\<lambda>e. epoch_of e = epoch_of a) after
          in if length after = 0 then verdict Unmet (Some captured_before)
             else if length timely = 0 then verdict Unmet (Some captured_elsewhere)
             else completeness_verdict scope timely)"

definition is_submit_click :: "ledger_entry \<Rightarrow> bool" where
  "is_submit_click e = (case le_body e of Click_executed c \<Rightarrow> ce_submit_class c \<noteq> None | _ \<Rightarrow> False)"

definition is_submit_refused :: "ledger_entry \<Rightarrow> bool" where
  "is_submit_refused e = (case le_body e of Submit_refused _ \<Rightarrow> True | _ \<Rightarrow> False)"

definition submit_status :: "ledger_entry list \<Rightarrow> item_verdict" where
  "submit_status ledger =
     (let executed = length (filter is_submit_click ledger);
          refused = length (filter is_submit_refused ledger)
      in if 0 < executed then verdict Unmet (Some (clicks_executed executed))
         else verdict Met (if refused = 0 then None else Some (attempts_refused refused)))"

section \<open>The evaluation\<close>

definition fill_label :: "action_terms \<Rightarrow> jstext" where
  "fill_label t = (case render_action_phrase (t\<lparr>et_artifacts := [], et_submit := Allowed\<rparr>) of
     None \<Rightarrow> ''fill'' | Some s \<Rightarrow> s)"

definition raw_items ::
  "(jstext \<Rightarrow> source_url option) \<Rightarrow> fulfillment_input \<Rightarrow> contract_body \<Rightarrow> requirement_status list" where
  "raw_items parse_url input body =
     (let t = fn_terms input in
      [deliverable_item parse_url input body] @
      map (\<lambda>f. filter_item f (fn_constraints input)) (tb_filters body) @
      (case et_fill t of None \<Rightarrow> []
       | Some f \<Rightarrow> [item ''fill'' (fill_label t) (Some (ft_declared_in f))
                       (fn_evaluate_fill input f (fn_ledger input))]) @
      map (\<lambda>a. item (artifact_requirement_id (at_scope a)) (artifact_label (at_scope a))
             (Some (at_declared_in a))
             (artifact_status (at_scope a) (fn_ledger input) (fn_capture_gap input))) (et_artifacts t) @
      (case et_submit t of Allowed \<Rightarrow> []
       | Forbidden_since n \<Rightarrow> [item ''effects.submit'' ''do not submit'' (Some n)
                                 (submit_status (fn_ledger input))]))"

definition candidate_id :: "jstext \<Rightarrow> nat \<Rightarrow> jstext" where
  "candidate_id base n = take 64 base @ '' '' @ show_nat n"

lemma candidate_id_inject [simp]: "candidate_id base m = candidate_id base n \<longleftrightarrow> m = n"
  by (simp add: candidate_id_def)

lemma finite_candidates: "finite {m. candidate_id base m \<in> set seen}"
proof -
  have "{m. candidate_id base m \<in> set seen} = candidate_id base -` set seen" by auto
  moreover have "finite (candidate_id base -` set seen)"
    by (rule finite_vimageI) (auto simp: inj_on_def)
  ultimately show ?thesis by simp
qed

text \<open>The suffix loop \<open>for (n = 2; seen.has(id); n += 1)\<close>; it ends because only finitely many
  suffixed ids can be taken.\<close>

function suffix_search :: "jstext \<Rightarrow> jstext list \<Rightarrow> nat \<Rightarrow> jstext" where
  "suffix_search base seen n =
     (if candidate_id base n \<in> set seen then suffix_search base seen (Suc n) else candidate_id base n)"
  by pat_completeness auto
termination
proof (relation "measure (\<lambda>(base, seen, n). card {m. n \<le> m \<and> candidate_id base m \<in> set seen})")
  fix base :: jstext and seen :: "jstext list" and n :: nat
  assume "candidate_id base n \<in> set seen"
  then have "{m. Suc n \<le> m \<and> candidate_id base m \<in> set seen} \<subset> {m. n \<le> m \<and> candidate_id base m \<in> set seen}"
    by (auto simp: Suc_le_eq)
  moreover have "finite {m. n \<le> m \<and> candidate_id base m \<in> set seen}"
    by (rule finite_subset [OF _ finite_candidates [of base seen]]) auto
  ultimately show "((base, seen, Suc n), (base, seen, n))
      \<in> measure (\<lambda>(base, seen, n). card {m. n \<le> m \<and> candidate_id base m \<in> set seen})"
    by (simp add: psubset_card_mono)
qed simp

declare suffix_search.simps [simp del]

definition fresh_id :: "jstext \<Rightarrow> jstext list \<Rightarrow> jstext" where
  "fresh_id base seen = (if base \<in> set seen then suffix_search base seen 2 else base)"

fun unique_ids_from :: "jstext list \<Rightarrow> requirement_status list \<Rightarrow> requirement_status list" where
  "unique_ids_from seen [] = []"
| "unique_ids_from seen (i # items) =
     (let fresh = fresh_id (rs_id i) seen in i\<lparr>rs_id := fresh\<rparr> # unique_ids_from (seen @ [fresh]) items)"

definition unique_ids :: "requirement_status list \<Rightarrow> requirement_status list" where
  "unique_ids items = unique_ids_from [] items"

definition bound_item :: "requirement_status \<Rightarrow> requirement_status" where
  "bound_item i = i\<lparr>rs_label := bound (rs_label i) MAX_LABEL,
     rs_verdict := (rs_verdict i)\<lparr>iv_reason := map_option (\<lambda>r. bound r MAX_REASON)
       (iv_reason (rs_verdict i))\<rparr>\<rparr>"

definition status_of :: "requirement_status \<Rightarrow> item_status" where
  "status_of i = iv_status (rs_verdict i)"

definition unmet_phrase :: "jstext \<Rightarrow> jstext \<Rightarrow> jstext option \<Rightarrow> jstext" where
  "unmet_phrase ident label reason =
     (let r = (case reason of None \<Rightarrow> ''not met'' | Some x \<Rightarrow> x) in
      if ident = ''fill'' then r
      else if starts_with ''artifact:'' ident then label @ '' '' @ r
      else label @ '': '' @ r)"

definition item_phrase :: "requirement_status \<Rightarrow> jstext" where
  "item_phrase i = unmet_phrase (rs_id i) (rs_label i) (iv_reason (rs_verdict i))"

definition disagreement_prefix :: jstext where
  "disagreement_prefix = ''The agent reported every requirement met; evidence shows: ''"

definition disagreement_notice :: "bool option \<Rightarrow> requirement_status list \<Rightarrow> brief_notice option" where
  "disagreement_notice claimed items =
     (let unmet = filter (\<lambda>i. status_of i = Unmet) items in
      if claimed \<noteq> Some True then None
      else if length unmet = 0 then None
      else Some \<lparr>bn_kind = ''contract_gap'', bn_source = ''fulfillment'',
        bn_reason = bounded_notice disagreement_prefix (map item_phrase unmet) 5\<rparr>)"

definition evaluate_fulfillment ::
  "(jstext \<Rightarrow> source_url option) \<Rightarrow> fulfillment_input \<Rightarrow> fulfillment_evaluation" where
  "evaluate_fulfillment parse_url input = (case fn_contract input of
     None \<Rightarrow> \<lparr>fe_items = [], fe_met = 0, fe_total = 0, fe_contract_declared = False,
              fe_disagreement = None\<rparr>
   | Some body \<Rightarrow>
       let bounded = map bound_item
             (take BRIEF_MAX_REQUIREMENTS (unique_ids (raw_items parse_url input body)));
           judged = filter (\<lambda>i. status_of i \<noteq> Not_applicable) bounded
       in \<lparr>fe_items = bounded, fe_met = length (filter (\<lambda>i. status_of i = Met) judged),
           fe_total = length judged, fe_contract_declared = True,
           fe_disagreement = disagreement_notice (fn_claimed_met input) bounded\<rparr>)"

definition fulfillment_summary :: "fulfillment_evaluation \<Rightarrow> jstext" where
  "fulfillment_summary e =
     (if \<not> fe_contract_declared e then ''no task contract was declared''
      else take 400 (join ''; '' ((show_nat (fe_met e) @ '' of '' @ show_nat (fe_total e) @ '' met'') #
             map item_phrase (filter (\<lambda>i. status_of i = Unmet) (fe_items e)))))"

section \<open>Lemmas\<close>

lemma verdict_simps [simp]:
  "iv_status (verdict st r) = st" "iv_reason (verdict st r) = r"
  by (simp_all add: verdict_def)

lemma with_exemptions_status [simp]: "iv_status (with_exemptions c v) = iv_status v"
  by (simp add: with_exemptions_def Let_def)

subsection \<open>Distinct ids\<close>

lemma suffix_search_fresh: "suffix_search base seen n \<notin> set seen"
proof (induction base seen n rule: suffix_search.induct)
  case (1 base seen n)
  then show ?case by (subst suffix_search.simps) simp
qed

lemma fresh_id_fresh: "fresh_id base seen \<notin> set seen"
  by (simp add: fresh_id_def suffix_search_fresh)

lemma unique_ids_from_distinct:
  "distinct (map rs_id (unique_ids_from seen items)) \<and>
   set (map rs_id (unique_ids_from seen items)) \<inter> set seen = {}"
proof (induction seen items rule: unique_ids_from.induct)
  case (1 seen)
  then show ?case by simp
next
  case (2 seen i items)
  then show ?case using fresh_id_fresh [of "rs_id i" seen] by (auto simp: Let_def)
qed

lemma unique_ids_from_nth:
  "length (unique_ids_from seen items) = length items \<and>
   (\<forall>k < length items. rs_verdict (unique_ids_from seen items ! k) = rs_verdict (items ! k) \<and>
      rs_label (unique_ids_from seen items ! k) = rs_label (items ! k))"
proof (induction seen items rule: unique_ids_from.induct)
  case (1 seen)
  then show ?case by simp
next
  case (2 seen i items)
  then show ?case by (auto simp: Let_def nth_Cons split: nat.split)
qed

lemma map_status_unique: "map status_of (unique_ids items) = map status_of items"
  using unique_ids_from_nth [of "[]" items]
  by (intro nth_equalityI) (auto simp: unique_ids_def status_of_def)

lemma bound_item_simps [simp]:
  "rs_id (bound_item i) = rs_id i" "status_of (bound_item i) = status_of i"
  by (simp_all add: bound_item_def status_of_def)

lemma bound_length: "0 < lim \<Longrightarrow> length (bound s lim) \<le> lim"
  by (simp add: bound_def)

lemma statuses_bounded: "map status_of (map bound_item (take n items)) = take n (map status_of items)"
  by (simp add: take_map comp_def)

lemma evaluation_statuses:
  assumes "fn_contract input = Some body"
  shows "map status_of (fe_items (evaluate_fulfillment parse_url input)) =
     take 16 (map status_of (raw_items parse_url input body))"
proof -
  have "fe_items (evaluate_fulfillment parse_url input) =
      map bound_item (take 16 (unique_ids (raw_items parse_url input body)))"
    by (simp only: evaluate_fulfillment_def assms option.case Let_def fulfillment_evaluation.simps
        BRIEF_MAX_REQUIREMENTS_def)
  then show ?thesis by (simp only: statuses_bounded map_status_unique)
qed

lemma length_filter_map: "length (filter P (map f xs)) = length (filter (\<lambda>x. P (f x)) xs)"
  by (induction xs) auto

lemma filter_met_judged:
  "filter (\<lambda>i. status_of i = Met) (filter (\<lambda>i. status_of i \<noteq> Not_applicable) items) =
   filter (\<lambda>i. status_of i = Met) items"
  by (induction items) auto

lemma evaluation_counts:
  "fe_met (evaluate_fulfillment parse_url input) =
     length (filter (\<lambda>i. status_of i = Met) (fe_items (evaluate_fulfillment parse_url input)))"
  "fe_total (evaluate_fulfillment parse_url input) =
     length (filter (\<lambda>i. status_of i \<noteq> Not_applicable) (fe_items (evaluate_fulfillment parse_url input)))"
  unfolding evaluate_fulfillment_def Let_def
  by (cases "fn_contract input"; simp only: option.case fulfillment_evaluation.simps filter_met_judged
      filter.simps list.size)+

lemma met_less_total:
  assumes "Unmet \<in> set sts"
  shows "length (filter (\<lambda>st. st = Met) sts) < length (filter (\<lambda>st. st \<noteq> Not_applicable) sts)"
proof -
  have le: "length (filter (\<lambda>st. st = Met) xs) \<le> length (filter (\<lambda>st. st \<noteq> Not_applicable) xs)" for xs
    by (induction xs) auto
  from assms obtain xs ys where "sts = xs @ Unmet # ys" by (meson split_list)
  then show ?thesis using le [of xs] le [of ys] by simp
qed

subsection \<open>Census units\<close>

definition eligible_controls :: "fill_census \<Rightarrow> census_control list" where
  "eligible_controls census = filter (\<lambda>c. cc_exemption c = None) (ce_controls census)"

lemma unit_key_group: "unit_key c = unit_key c' \<Longrightarrow> cc_group_key c = cc_group_key c'"
  by (auto simp: unit_key_def split: option.splits)

definition units_of :: "census_control list \<Rightarrow> (jstext, census_unit) jsmap \<Rightarrow> bool" where
  "units_of cs m \<longleftrightarrow> map fst m = to_jsset (map unit_key cs) \<and>
     (\<forall>(k, u) \<in> set m.
        (\<exists>c \<in> set cs. unit_key c = k \<and> cu_group_key u = cc_group_key c) \<and>
        (\<forall>r \<in> set (cu_refs u). \<exists>c \<in> set cs. unit_key c = k \<and> cc_ref c = r))"

lemma set_map_set: "(k', v') \<in> set (map_set k v m) \<Longrightarrow> (k' = k \<and> v' = v) \<or> (k', v') \<in> set m"
  by (induction m) (auto split: if_splits)

lemma map_of_mem: "map_get m k = Some v \<Longrightarrow> (k, v) \<in> set m"
  by (rule map_of_SomeD)

lemma to_jsset_snoc: "to_jsset (xs @ [x]) = set_add x (to_jsset xs)"
  by (simp add: to_jsset_def set_add_all_def)

lemma units_of_add:
  assumes inv: "units_of cs m" and elig: "cc_exemption c = None"
  shows "units_of (cs @ [c]) (add_unit m c)"
proof -
  obtain u where m': "add_unit m c = map_set (unit_key c) u m"
    and group: "cu_group_key u = cc_group_key c"
    and refs: "\<forall>r \<in> set (cu_refs u). \<exists>c' \<in> set (cs @ [c]). unit_key c' = unit_key c \<and> cc_ref c' = r"
  proof (cases "map_get m (unit_key c)")
    case None
    with elig show thesis
      by (intro that [of "\<lparr>cu_ref = cc_ref c, cu_label = cc_label c, cu_group_key = cc_group_key c,
            cu_refs = set_add (cc_ref c) []\<rparr>"]) (simp_all add: add_unit_def Let_def)
  next
    case (Some u0)
    then have u0: "(unit_key c, u0) \<in> set m" by (rule map_of_mem)
    with inv obtain c0 where "unit_key c0 = unit_key c" "cu_group_key u0 = cc_group_key c0"
      by (fastforce simp: units_of_def)
    then have "cu_group_key u0 = cc_group_key c" using unit_key_group by metis
    moreover have "\<forall>r \<in> set (cu_refs u0). \<exists>c' \<in> set cs. unit_key c' = unit_key c \<and> cc_ref c' = r"
      using inv u0 by (fastforce simp: units_of_def)
    ultimately show thesis
      using elig Some by (intro that [of "u0\<lparr>cu_refs := set_add (cc_ref c) (cu_refs u0)\<rparr>"])
        (auto simp: add_unit_def Let_def)
  qed
  have "map fst (add_unit m c) = to_jsset (map unit_key (cs @ [c]))"
    using inv by (simp add: m' units_of_def update_keys to_jsset_snoc set_add_def flip: set_map)
  moreover have "\<forall>(k, v) \<in> set (add_unit m c).
      (\<exists>c' \<in> set (cs @ [c]). unit_key c' = k \<and> cu_group_key v = cc_group_key c') \<and>
      (\<forall>r \<in> set (cu_refs v). \<exists>c' \<in> set (cs @ [c]). unit_key c' = k \<and> cc_ref c' = r)"
  proof (clarify, intro conjI ballI)
    fix k v
    assume "(k, v) \<in> set (add_unit m c)"
    then have kv: "k = unit_key c \<and> v = u \<or> (k, v) \<in> set m" unfolding m' by (rule set_map_set)
    show "\<exists>c' \<in> set (cs @ [c]). unit_key c' = k \<and> cu_group_key v = cc_group_key c'"
      using kv group inv by (fastforce simp: units_of_def)
    fix r
    assume "r \<in> set (cu_refs v)"
    then show "\<exists>c' \<in> set (cs @ [c]). unit_key c' = k \<and> cc_ref c' = r"
      using kv refs inv by (fastforce simp: units_of_def)
  qed
  ultimately show ?thesis by (simp add: units_of_def)
qed

lemma units_of_foldl:
  "units_of cs m \<Longrightarrow> units_of (cs @ filter (\<lambda>c. cc_exemption c = None) ds) (foldl add_unit m ds)"
proof (induction ds arbitrary: cs m)
  case Nil
  then show ?case by simp
next
  case (Cons d ds)
  show ?case
  proof (cases "cc_exemption d = None")
    case True
    from Cons.IH [OF units_of_add [OF Cons.prems True]] True show ?thesis by simp
  next
    case False
    then have "add_unit m d = m" by (simp add: add_unit_def)
    with Cons.IH [OF Cons.prems] False show ?thesis by auto
  qed
qed

lemma census_units_of: "units_of (eligible_controls census) (census_units census)"
  using units_of_foldl [of "[]" "[]" "ce_controls census"]
  by (simp add: census_units_def eligible_controls_def units_of_def to_jsset_def set_add_all_def)

subsection \<open>Coverage\<close>

definition commits_on :: "fill_census \<Rightarrow> ledger_entry list \<Rightarrow> fill_verification fill_committed list" where
  "commits_on census ledger = map snd (filter (\<lambda>(e, f). epoch_of e = ce_epoch census) (fills ledger))"

lemma commits_on_append: "commits_on census (l @ l') = commits_on census l @ commits_on census l'"
  by (simp add: commits_on_def fills_def List.map_filter_def)

lemma commits_on_mem:
  "f \<in> set (commits_on census ledger) \<longleftrightarrow>
   (\<exists>e \<in> set ledger. fill_of e = Some f \<and> epoch_of e = ce_epoch census)"
  by (force simp: commits_on_def fills_def List.map_filter_def image_iff)

definition unfilled :: "fill_census \<Rightarrow> ledger_entry list \<Rightarrow> census_unit list" where
  "unfilled census ledger =
     filter (\<lambda>u. \<not> list_ex (commit_fills_unit u) (commits_on census ledger)) (map snd (census_units census))"

lemma fill_coverage_eq:
  "fill_coverage_of census ledger =
     \<lparr>fo_eligible = length (census_units census),
      fo_filled = length (census_units census) - length (unfilled census ledger),
      fo_remaining = map (\<lambda>u. (cu_ref u, cu_label u, cu_group_key u)) (unfilled census ledger),
      fo_complete = ce_complete census\<rparr>"
  by (simp add: fill_coverage_of_def unfilled_def commits_on_def Let_def)

lemma unfilled_length: "length (unfilled census ledger) \<le> length (census_units census)"
  unfolding unfilled_def by (metis length_filter_le length_map)

lemma unfilled_mono: "length (unfilled census (l @ l')) \<le> length (unfilled census l)"
proof -
  have "unfilled census (l @ l') =
      filter (\<lambda>u. \<not> list_ex (commit_fills_unit u) (commits_on census l')) (unfilled census l)"
    by (simp add: unfilled_def commits_on_append filter_filter conj_commute)
  then show ?thesis by simp
qed

lemma census_units_length:
  "length (census_units census) = length (to_jsset (map unit_key (eligible_controls census)))"
  using census_units_of [of census] by (metis length_map units_of_def)

text \<open>A control is reached by a commit on its own ref, on a covered ref, or through its group.\<close>

definition reaches :: "fill_verification fill_committed \<Rightarrow> census_control \<Rightarrow> bool" where
  "reaches f c \<longleftrightarrow> fc_ref f = cc_ref c \<or>
     (case fc_covered_refs f of None \<Rightarrow> False | Some rs \<Rightarrow> cc_ref c \<in> set rs) \<or>
     (cc_group_key c \<noteq> None \<and> fc_group_key f = cc_group_key c)"

lemma all_filled_reaches:
  assumes "unfilled census ledger = []" "c \<in> set (eligible_controls census)"
  shows "\<exists>f \<in> set (commits_on census ledger). \<exists>c' \<in> set (eligible_controls census).
    unit_key c' = unit_key c \<and> reaches f c'"
proof -
  have units: "units_of (eligible_controls census) (census_units census)" by (rule census_units_of)
  have "unit_key c \<in> set (map fst (census_units census))"
    using units assms(2) by (simp add: units_of_def)
  then obtain u where u: "(unit_key c, u) \<in> set (census_units census)" by auto
  then have "u \<in> set (map snd (census_units census))" by force
  with assms(1) obtain f where f: "f \<in> set (commits_on census ledger)" "commit_fills_unit u f"
    by (auto simp: unfilled_def filter_empty_conv list_ex_iff)
  from units u have group: "\<exists>c' \<in> set (eligible_controls census). unit_key c' = unit_key c \<and>
      cu_group_key u = cc_group_key c'"
    and refs: "\<forall>r \<in> set (cu_refs u). \<exists>c' \<in> set (eligible_controls census).
      unit_key c' = unit_key c \<and> cc_ref c' = r"
    by (fastforce simp: units_of_def)+
  from f(2) consider "fc_ref f \<in> set (cu_refs u)"
    | rs r where "fc_covered_refs f = Some rs" "r \<in> set rs" "r \<in> set (cu_refs u)"
    | "cu_group_key u \<noteq> None" "fc_group_key f = cu_group_key u"
    by (auto simp: commit_fills_unit_def list_ex_iff split: option.splits)
  then show ?thesis
  proof cases
    case 1
    with refs obtain c' where "c' \<in> set (eligible_controls census)" "unit_key c' = unit_key c"
      "reaches f c'" by (fastforce simp: reaches_def)
    with f(1) show ?thesis by blast
  next
    case 2
    with refs obtain c' where "c' \<in> set (eligible_controls census)" "unit_key c' = unit_key c"
      "cc_ref c' = r" by blast
    moreover from this 2 have "reaches f c'" by (simp add: reaches_def)
    ultimately show ?thesis using f(1) by blast
  next
    case 3
    with group obtain c' where "c' \<in> set (eligible_controls census)" "unit_key c' = unit_key c"
      "cu_group_key u = cc_group_key c'" by blast
    moreover from this 3 have "reaches f c'" by (simp add: reaches_def)
    ultimately show ?thesis using f(1) by blast
  qed
qed

lemma all_eligible_met:
  assumes "iv_status (census_fill_evaluator cen fill ledger) = Met" "ft_coverage fill = All_eligible"
  obtains census where "cen = Some census" "ce_complete census" "unfilled census ledger = []"
    "census_units census \<noteq> []"
proof (cases cen)
  case None
  with assms show thesis by (simp add: census_fill_evaluator_def UNAVAILABLE_FILL_def Let_def)
next
  case (Some census)
  let ?c = "fill_coverage_of census ledger"
  have "ce_complete census \<and> fo_eligible ?c \<noteq> 0 \<and> fo_filled ?c = fo_eligible ?c"
    using assms Some by (auto simp: census_fill_evaluator_def Let_def split: if_splits)
  then have c: "ce_complete census" "length (census_units census) \<noteq> 0"
    "length (census_units census) - length (unfilled census ledger) = length (census_units census)"
    by (simp_all add: fill_coverage_eq)
  then have "length (unfilled census ledger) = 0"
    using unfilled_length [of census ledger] by linarith
  with c have "ce_complete census" "census_units census \<noteq> []" "unfilled census ledger = []"
    by simp_all
  with Some show thesis by (intro that)
qed

subsection \<open>Artifacts and submission\<close>

lemma completeness_met:
  "iv_status (completeness_verdict scope es) = Met \<longleftrightarrow>
     (if scope = Full_page then \<not> list_all is_incomplete es else True)"
  by (simp add: completeness_verdict_def)

definition timely_capture :: "artifact_scope \<Rightarrow> ledger_entry list \<Rightarrow> ledger_entry \<Rightarrow> bool" where
  "timely_capture scope ledger e \<longleftrightarrow> is_artifact_capture scope e \<and>
     (case last_committed ledger of None \<Rightarrow> True
      | Some a \<Rightarrow> seq_of a < seq_of e \<and> epoch_of e = epoch_of a) \<and>
     (if scope = Full_page then \<not> is_incomplete e else True)"

lemma raw_items_submit:
  "et_submit (fn_terms input) = Forbidden_since n \<Longrightarrow>
   \<exists>pre. raw_items parse_url input body =
     pre @ [item ''effects.submit'' ''do not submit'' (Some n) (submit_status (fn_ledger input))] \<and>
     length pre \<le> 2 + length (tb_filters body) + length (et_artifacts (fn_terms input))"
  by (simp add: raw_items_def Let_def split: option.split)

section \<open>Properties\<close>

text \<open>C10. An evaluation is well-formed and the model's claim never changes it: at most sixteen items
  with distinct ids, labels and reasons within their bounds, met items among the judged ones; a
  different claim yields the same items and counts, and a disagreement notice appears exactly when
  the model claimed everything met and some listed item is unmet.\<close>

theorem evaluation_wellformed:
  "(let e = evaluate_fulfillment parse_url input in
     length (fe_items e) \<le> 16 \<and> distinct (map rs_id (fe_items e)) \<and>
     list_all (\<lambda>i. length (rs_label i) \<le> 120 \<and>
        (case iv_reason (rs_verdict i) of None \<Rightarrow> True | Some r \<Rightarrow> length r \<le> 200)) (fe_items e) \<and>
     fe_met e \<le> fe_total e \<and> fe_total e \<le> length (fe_items e) \<and>
     (let e' = evaluate_fulfillment parse_url (input\<lparr>fn_claimed_met := claim\<rparr>) in
        fe_items e' = fe_items e \<and> fe_met e' = fe_met e \<and> fe_total e' = fe_total e) \<and>
     (fe_disagreement e \<noteq> None \<longleftrightarrow>
        fn_claimed_met input = Some True \<and> filter (\<lambda>i. status_of i = Unmet) (fe_items e) \<noteq> []))"
proof (cases "fn_contract input")
  case None
  then show ?thesis by (simp add: evaluate_fulfillment_def Let_def)
next
  case (Some body)
  let ?e = "evaluate_fulfillment parse_url input"
  let ?raw = "raw_items parse_url input body"
  have items: "fe_items ?e = map bound_item (take 16 (unique_ids ?raw))"
    by (simp add: evaluate_fulfillment_def Some Let_def BRIEF_MAX_REQUIREMENTS_def)
  have "distinct (map rs_id (unique_ids ?raw))"
    using unique_ids_from_distinct [of "[]" ?raw] by (simp add: unique_ids_def)
  then have ids: "distinct (map rs_id (fe_items ?e))"
    unfolding items by (simp add: comp_def take_map [symmetric])
  have counts: "fe_met ?e \<le> fe_total ?e" "fe_total ?e \<le> length (fe_items ?e)"
  proof -
    have "length (filter (\<lambda>i. status_of i = Met) is) \<le> length (filter (\<lambda>i. status_of i \<noteq> Not_applicable) is)"
      for "is" by (induction "is") auto
    then show "fe_met ?e \<le> fe_total ?e" by (simp add: evaluation_counts)
    show "fe_total ?e \<le> length (fe_items ?e)" by (simp add: evaluation_counts)
  qed
  have same: "raw_items parse_url (input\<lparr>fn_claimed_met := claim\<rparr>) body = ?raw"
    by (cases input) (simp only: raw_items_def deliverable_item_def fulfillment_input.simps)
  have notice: "fe_disagreement ?e = disagreement_notice (fn_claimed_met input) (fe_items ?e)"
    by (simp add: evaluate_fulfillment_def Some Let_def)
  have claims: "fe_items (evaluate_fulfillment parse_url (input\<lparr>fn_claimed_met := claim\<rparr>)) = fe_items ?e"
    by (simp add: evaluate_fulfillment_def Some Let_def same)
  have "\<forall>i \<in> set (fe_items ?e). length (rs_label i) \<le> 120 \<and>
      (case iv_reason (rs_verdict i) of None \<Rightarrow> True | Some r \<Rightarrow> length r \<le> 200)"
    unfolding items by (auto simp: bound_item_def bound_length MAX_LABEL_def MAX_REASON_def split: option.split)
  moreover have "length (fe_items ?e) \<le> 16" unfolding items by simp
  moreover have "fe_disagreement ?e \<noteq> None \<longleftrightarrow>
      fn_claimed_met input = Some True \<and> filter (\<lambda>i. status_of i = Unmet) (fe_items ?e) \<noteq> []"
    unfolding notice by (simp add: disagreement_notice_def Let_def)
  ultimately show ?thesis
    using ids counts claims by (simp add: Let_def evaluation_counts list_all_iff)
qed

text \<open>A screenshot item is met exactly by evidence: some clean browser_capture of a
  satisfying scope is in the ledger, recorded after the last committed action and on the document
  that action left behind when there is one, and, for a full page, not reported incomplete.\<close>

theorem artifact_met_iff:
  "iv_status (artifact_status scope ledger gap) = Met \<longleftrightarrow>
     (\<exists>e \<in> set ledger. timely_capture scope ledger e)"
  by (cases "last_committed ledger")
    (auto simp: artifact_status_def Let_def artifact_captures_def completeness_met timely_capture_def
      filter_empty_conv list_all_iff)

text \<open>C11. "Fill every eligible field" is only ever met by commits: when the census evaluator says met,
  the census was complete and non-empty and every eligible control's unit was reached by a fill
  verified on the census document.\<close>

theorem all_eligible_met_sound:
  assumes "iv_status (census_fill_evaluator cen fill ledger) = Met" "ft_coverage fill = All_eligible"
  shows "\<exists>census. cen = Some census \<and> ce_complete census \<and> eligible_controls census \<noteq> [] \<and>
    (\<forall>c \<in> set (eligible_controls census).
       \<exists>e \<in> set ledger. \<exists>f. fill_of e = Some f \<and> epoch_of e = ce_epoch census \<and>
         (\<exists>c' \<in> set (eligible_controls census). unit_key c' = unit_key c \<and> reaches f c'))"
proof -
  from all_eligible_met [OF assms] obtain census where
    census: "cen = Some census" "ce_complete census" "unfilled census ledger = []"
      "census_units census \<noteq> []" by blast
  have "eligible_controls census \<noteq> []"
    using census(4) census_units_length [of census] by (auto simp: to_jsset_def set_add_all_def)
  moreover have "\<forall>c \<in> set (eligible_controls census).
       \<exists>e \<in> set ledger. \<exists>f. fill_of e = Some f \<and> epoch_of e = ce_epoch census \<and>
         (\<exists>c' \<in> set (eligible_controls census). unit_key c' = unit_key c \<and> reaches f c')"
    using all_filled_reaches [OF census(3)] by (meson commits_on_mem)
  ultimately show ?thesis using census(1,2) by blast
qed

definition sample_fill_entry :: ledger_entry where
  "sample_fill_entry = \<lparr>le_stamp = \<lparr>ls_call_id = None, ls_seq = 1, ls_at = [], ls_epoch = Some 3, ls_host = ''a.b''\<rparr>,
     le_body = Fill_committed \<lparr>fc_identity = None,
       fc_verification = \<lparr>fv_resolution = None, fv_withheld = None\<rparr>, fc_tool = ''browser_fill_form'',
       fc_ref = ''e1'', fc_field = ''Email'', fc_group_key = None, fc_covers = 1, fc_covered_refs = None\<rparr>\<rparr>"

definition sample_census :: fill_census where
  "sample_census = \<lparr>ce_epoch = Some 3, ce_host = ''a.b'', ce_complete = True,
     ce_controls = [\<lparr>cc_ref = ''e1'', cc_group_key = None, cc_label = ''Email'', cc_exemption = None\<rparr>]\<rparr>"

lemma all_eligible_met_sound_witness:
  "\<exists>e \<in> set [sample_fill_entry]. \<exists>f. fill_of e = Some f \<and> epoch_of e = Some 3"
proof -
  have "iv_status (census_fill_evaluator (Some sample_census)
      \<lparr>ft_coverage = All_eligible, ft_fields = [], ft_declared_in = 1\<rparr> [sample_fill_entry]) = Met"
    by code_simp
  from all_eligible_met_sound [OF this] show ?thesis
    by (fastforce simp: sample_census_def neq_Nil_conv)
qed

text \<open>The coverage arithmetic is exact and never goes backwards: filled plus remaining is the
  number of eligible units, grouped controls counting once, and recording more actions never
  lowers the filled count.\<close>

theorem fill_coverage_arithmetic:
  "(let c = fill_coverage_of census ledger; c' = fill_coverage_of census (ledger @ later) in
     fo_filled c + length (fo_remaining c) = fo_eligible c \<and>
     fo_eligible c = length (to_jsset (map unit_key (eligible_controls census))) \<and>
     fo_eligible c' = fo_eligible c \<and> fo_filled c \<le> fo_filled c')"
  using unfilled_length [of census ledger] unfilled_mono [of census ledger later]
  by (simp add: fill_coverage_eq Let_def census_units_length [symmetric])

text \<open>C12. An executed submission is never fulfilled: with submission forbidden, a submit-class click
  in the ledger leaves at least one judged item unmet, provided the contract has so few filters and
  artifacts that no item is cut off by the sixteen-item bound.\<close>

theorem executed_submit_unfulfilled:
  assumes contract: "fn_contract input = Some body"
    and forbidden: "et_submit (fn_terms input) = Forbidden_since n"
    and executed: "e \<in> set (fn_ledger input)" "is_submit_click e"
    and few: "length (tb_filters body) + length (et_artifacts (fn_terms input)) \<le> 13"
  shows "fe_met (evaluate_fulfillment parse_url input) < fe_total (evaluate_fulfillment parse_url input)"
proof -
  from raw_items_submit [OF forbidden, of parse_url body] obtain pre where
    raw: "raw_items parse_url input body =
      pre @ [item ''effects.submit'' ''do not submit'' (Some n) (submit_status (fn_ledger input))]"
    and len: "length pre \<le> 2 + length (tb_filters body) + length (et_artifacts (fn_terms input))" by blast
  have "filter is_submit_click (fn_ledger input) \<noteq> []"
    using executed by (auto simp: filter_empty_conv)
  then have "iv_status (submit_status (fn_ledger input)) = Unmet"
    by (simp add: submit_status_def Let_def)
  then have "Unmet \<in> set (take 16 (map status_of (raw_items parse_url input body)))"
    using len few by (simp add: raw status_of_def item_def)
  then have "Unmet \<in> set (map status_of (fe_items (evaluate_fulfillment parse_url input)))"
    by (simp only: evaluation_statuses [OF contract])
  from met_less_total [OF this] show ?thesis
    by (simp only: evaluation_counts length_filter_map)
qed

definition sample_click :: "jstext option \<Rightarrow> ledger_entry" where
  "sample_click signal = \<lparr>le_stamp = \<lparr>ls_call_id = None, ls_seq = 1, ls_at = [], ls_epoch = Some 3, ls_host = ''a.b''\<rparr>,
     le_body = Click_executed \<lparr>ce_ref = ''e9'', ce_name = ''Send'', ce_submit_class = signal\<rparr>\<rparr>"

definition sample_capture :: ledger_entry where
  "sample_capture = \<lparr>le_stamp = \<lparr>ls_call_id = None, ls_seq = 2, ls_at = [], ls_epoch = Some 3, ls_host = ''a.b''\<rparr>,
     le_body = Capture \<lparr>ca_artifacts = [], ca_scope = Full_page, ca_path = ''p'', ca_sha256 = ''h'',
       ca_bytes = 1, ca_producer = ''browser_capture'', ca_parts = None, ca_complete = None,
       ca_capture_set = None\<rparr>\<rparr>"

definition sample_fulfillment :: "jstext list \<Rightarrow> fulfillment_input" where
  "sample_fulfillment names = \<lparr>
     fn_contract = Some ((built_body plain_env (sample_params ''price'') [] None)
       \<lparr>tb_deliverable := Answer, tb_filters := map (\<lambda>n. \<lparr>cf_name = n, cf_value = ''v''\<rparr>) names\<rparr>),
     fn_terms = \<lparr>et_fill = Some \<lparr>ft_coverage = All_eligible, ft_fields = [], ft_declared_in = 1\<rparr>,
       et_artifacts = map (\<lambda>s. \<lparr>at_scope = s, at_declared_in = 1\<rparr>) [Viewport, Full_page, Element],
       et_submit = Forbidden_since 1\<rparr>,
     fn_deliverable_gaps = [],
     fn_constraints = map (\<lambda>n. \<lparr>dc_name = n, dc_value = ''v'', dc_status = Verified,
       dc_refs = [''S1''], dc_cause = None\<rparr>) names,
     fn_ledger = [sample_click (Some ''structural''), sample_capture],
     fn_claimed_met = Some True, fn_capture_gap = (\<lambda>_. None),
     fn_evaluate_fill = (\<lambda>_ _. verdict Met None)\<rparr>"

lemma executed_submit_unfulfilled_witness:
  "fe_met (evaluate_fulfillment (\<lambda>_. None) (sample_fulfillment [''a''])) <
   fe_total (evaluate_fulfillment (\<lambda>_. None) (sample_fulfillment [''a'']))"
  by (rule executed_submit_unfulfilled [where n = 1 and e = "sample_click (Some ''structural'')" and
        body = "(built_body plain_env (sample_params ''price'') [] None)\<lparr>tb_deliverable := Answer,
          tb_filters := [\<lparr>cf_name = ''a'', cf_value = ''v''\<rparr>]\<rparr>"])
    (simp_all add: sample_fulfillment_def is_submit_click_def sample_click_def)

text \<open>The bound of C27 is needed. A contract may declare twelve filters, a fill, three artifacts and
  a forbidden submission, eighteen items, of which the evaluation keeps the first sixteen before it
  counts: with an executed submit-class click and the element screenshot missing, the run is still
  judged fully met, with no disagreement notice.\<close>

lemma dropped_items_judged_met:
  "(let names = map (\<lambda>c. [c]) ''abcdefghijkl''; input = sample_fulfillment names;
        e = evaluate_fulfillment (\<lambda>_. None) input in
     list_ex is_submit_click (fn_ledger input) \<and>
     (case fn_contract input of None \<Rightarrow> False | Some b \<Rightarrow> valid_body b) \<and>
     fe_met e = fe_total e \<and> fe_disagreement e = None)"
  by code_simp

end
