(* ===== verification/UrlIdentity.thy ===== *)
theory UrlIdentity
  imports Prelude
begin

text \<open>
  The identity of a page, function \<open>canonicalUrl\<close> of \<open>packages/core/src/extraction/url-identity.ts\<close>:
  the run's document store and its progress checkpoints both compare pages by this text. The WHATWG
  parser and the serializer of query parameters belong to the platform, so they are the arguments
  \<open>parse\<close> and \<open>encode\<close>; the setter of a hierarchical URL's path turns the empty path into the root.
\<close>

section \<open>Definitions\<close>

record url_view =
  uv_protocol :: jstext
  uv_host :: jstext
  uv_pathname :: jstext
  uv_params :: "(jstext \<times> jstext) list"

record url_platform =
  up_parse :: "jstext \<Rightarrow> url_view option"
  up_encode :: "(jstext \<times> jstext) list \<Rightarrow> jstext"

definition TRACKING_PARAMS :: "jstext list" where
  "TRACKING_PARAMS = [''utm_source'', ''utm_medium'', ''utm_campaign'', ''utm_term'', ''utm_content'',
     ''utm_id'', ''gclid'', ''fbclid'', ''msclkid'', ''mc_cid'', ''mc_eid'', ''igshid'', ''ref'',
     ''ref_src'', ''ref_url'', ''source'', ''spm'', ''_ga'']"

definition is_tracking :: "jstext \<Rightarrow> bool" where
  "is_tracking name \<longleftrightarrow> to_lower name \<in> set TRACKING_PARAMS"

definition strip_slashes :: "jstext \<Rightarrow> jstext" where
  "strip_slashes s = rev (dropWhile (\<lambda>c. c = CHR ''/'') (rev s))"

definition set_pathname :: "jstext \<Rightarrow> jstext" where
  "set_pathname p = (if p = [] then ''/'' else p)"

definition canonical_path :: "jstext \<Rightarrow> jstext" where
  "canonical_path p =
     (if 1 < length p \<and> ends_with ''/'' p then set_pathname (strip_slashes p) else p)"

definition canonical_url :: "url_platform \<Rightarrow> jstext \<Rightarrow> jstext" where
  "canonical_url p raw = (case up_parse p raw of
     None \<Rightarrow> to_lower (trim raw)
   | Some u \<Rightarrow>
       let query = up_encode p (filter (\<lambda>(k, v). \<not> is_tracking k) (uv_params u)) in
       uv_protocol u @ ''//'' @ to_lower (uv_host u) @ canonical_path (uv_pathname u) @
         (if query = [] then [] else ''?'' @ query))"

section \<open>Lemmas\<close>

lemma strip_slashes_snoc [simp]: "strip_slashes (s @ ''/'') = strip_slashes s"
  by (simp add: strip_slashes_def)

lemma strip_slashes_id: "\<not> suffix ''/'' s \<Longrightarrow> strip_slashes s = s"
  by (cases s rule: rev_cases) (auto simp: strip_slashes_def suffix_def)

lemma strip_slashes_no_suffix: "\<not> suffix ''/'' (strip_slashes s)"
  by (induction s rule: rev_induct) (auto simp: strip_slashes_def suffix_def)

text \<open>Canonical paths are fixed points, and a trailing slash never distinguishes two pages.\<close>

lemma canonical_path_idem: "canonical_path (canonical_path p) = canonical_path p"
  using strip_slashes_no_suffix [of p]
  by (auto simp: canonical_path_def set_pathname_def ends_with_iff_suffix)

lemma canonical_path_trailing_slash:
  assumes "p \<noteq> []"
  shows "canonical_path (p @ ''/'') = canonical_path p"
proof (cases "1 < length p \<and> ends_with ''/'' p")
  case True
  with assms show ?thesis by (simp add: canonical_path_def ends_with_iff_suffix)
next
  case False
  show ?thesis
  proof (cases "suffix ''/'' p")
    case True
    with False have "length p = 1"
      using assms by (cases p) (auto simp: ends_with_iff_suffix)
    then obtain c where "p = [c]" by (cases p) auto
    with True have "p = ''/''" by (cases c) (auto simp: suffix_def Cons_eq_append_conv)
    then show ?thesis
      by (simp add: canonical_path_def set_pathname_def strip_slashes_def ends_with_def)
  next
    case no: False
    with assms show ?thesis
      by (simp add: canonical_path_def ends_with_iff_suffix strip_slashes_id set_pathname_def)
  qed
qed

text \<open>Campaign parameters never distinguish two pages.\<close>

lemma canonical_ignores_tracking:
  assumes "up_parse p a = Some u" and "up_parse p b = Some (u\<lparr>uv_params := uv_params u @ extra\<rparr>)"
    and "list_all (\<lambda>(k, v). is_tracking k) extra"
  shows "canonical_url p a = canonical_url p b"
proof -
  have "filter (\<lambda>(k, v). \<not> is_tracking k) extra = []"
    using assms(3) by (auto simp: filter_empty_conv list_all_iff)
  with assms(1, 2) show ?thesis by (simp add: canonical_url_def)
qed

end
