(* ===== verification/ProgressLedger.thy ===== *)
theory ProgressLedger
  imports Fulfillment UrlIdentity
begin

text \<open>
  A run's semantic progress, class \<open>ProgressLedger\<close> of
  \<open>packages/agent/src/runtime/progress-ledger.ts\<close>: the live requirement items derived by the
  evaluators publication uses, the checkpoint after each tool call with its five signals and its
  no-progress window, the coverage set that makes a repeated action a no-op, and the late-capture
  exemptions. The callbacks the class reads (documents, page, ledger, census, terms, contract) are
  the record \<open>sources\<close> given to each operation, and the clock is an argument.
\<close>

section \<open>Data\<close>

datatype progress_signal = New_document | New_page | Action_verified | Artifact_saved | Item_advanced

datatype live_kind = Kind_fill | Kind_artifact | Kind_effects | Kind_deliverable

datatype live_state = Pending | Advancing | Reached

record live_item =
  li_id :: jstext
  li_kind :: live_kind
  li_label :: jstext
  li_state :: live_state
  li_done :: "nat option"
  li_total :: "nat option"

record progress_page =
  pp_epoch :: "int option"
  pp_url :: jstext

record progress_sources =
  so_platform :: url_platform
  so_parse_url :: "jstext \<Rightarrow> source_url option"
  so_document_count :: nat
  so_page :: "progress_page option"
  so_ledger :: action_ledger
  so_census :: "fill_census option"
  so_terms :: action_terms
  so_contract :: "contract_body option"

record progress_checkpoint =
  pc_advanced :: bool
  pc_signals :: "progress_signal list"
  pc_changed_items :: "live_item list"
  pc_no_progress_calls :: nat
  pc_ms_since_progress :: int

datatype progress_mode = Enforce | Observe

datatype call_role = Counted | Bookkeeping

record progress =
  pg_mode :: progress_mode
  pg_documents :: nat
  pg_urls :: "jstext jsset"
  pg_verified_seq :: nat
  pg_items :: "live_item list"
  pg_last_progress_at :: int
  pg_counted_calls :: nat
  pg_no_progress_calls :: nat
  pg_longest_ms :: int
  pg_capture_exemptions :: "jstext jsset"
  pg_coverage :: "jstext jsset"
  pg_progress_error :: bool
  pg_signals :: "progress_signal \<Rightarrow> nat"

definition new_progress :: "int \<Rightarrow> progress_mode \<Rightarrow> progress" where
  "new_progress now mode = \<lparr>pg_mode = mode, pg_documents = 0, pg_urls = [], pg_verified_seq = 0,
     pg_items = [], pg_last_progress_at = now, pg_counted_calls = 0, pg_no_progress_calls = 0,
     pg_longest_ms = 0, pg_capture_exemptions = [], pg_coverage = [], pg_progress_error = False,
     pg_signals = (\<lambda>_. 0)\<rparr>"

fun rank :: "live_state \<Rightarrow> nat" where
  "rank Pending = 0"
| "rank Advancing = 1"
| "rank Reached = 2"

section \<open>Live items\<close>

definition live_item_of ::
  "jstext \<Rightarrow> live_kind \<Rightarrow> jstext \<Rightarrow> item_status \<Rightarrow> bool \<Rightarrow> nat option \<Rightarrow> nat option \<Rightarrow> live_item" where
  "live_item_of ident kind label status related filled eligible =
     \<lparr>li_id = ident, li_kind = kind, li_label = take 60 label,
      li_state = (if status = Met then Reached else if related then Advancing else Pending),
      li_done = filled, li_total = eligible\<rparr>"

text \<open>The coverage shown for the fill item: by listed name, or over the census when there is one.\<close>

definition live_coverage :: "fill_term \<Rightarrow> fill_census option \<Rightarrow> ledger_entry list \<Rightarrow> (nat \<times> nat) option" where
  "live_coverage fill cen entries =
     (if ft_coverage fill = Listed
      then Some (lc_filled (listed_fill_coverage (ft_fields fill) entries),
                 lc_eligible (listed_fill_coverage (ft_fields fill) entries))
      else map_option (\<lambda>c. (fo_filled (fill_coverage_of c entries), fo_eligible (fill_coverage_of c entries))) cen)"

definition live_fill :: "fill_term \<Rightarrow> fill_census option \<Rightarrow> ledger_entry list \<Rightarrow> live_item" where
  "live_fill fill cen entries =
     (let coverage = live_coverage fill cen entries in
      live_item_of ''fill'' Kind_fill ''fields'' (iv_status (census_fill_evaluator cen fill entries))
        (case coverage of None \<Rightarrow> False | Some (filled, _) \<Rightarrow> 0 < filled)
        (map_option fst coverage) (map_option snd coverage))"

definition live_artifact :: "ledger_entry list \<Rightarrow> artifact_term \<Rightarrow> live_item" where
  "live_artifact entries a =
     live_item_of (artifact_requirement_id (at_scope a)) Kind_artifact (artifact_label (at_scope a))
       (iv_status (artifact_status (at_scope a) entries (\<lambda>_. None)))
       (0 < length (artifact_captures (at_scope a) entries)) None None"

definition live_submit :: "ledger_entry list \<Rightarrow> live_item" where
  "live_submit entries =
     live_item_of ''effects.submit'' Kind_effects ''do not submit'' (iv_status (submit_status entries))
       (list_ex (\<lambda>e. is_submit_refused e \<or> is_submit_click e) entries) None None"

definition live_deliverable ::
  "(jstext \<Rightarrow> source_url option) \<Rightarrow> ledger_entry list \<Rightarrow> contract_body \<Rightarrow> live_item" where
  "live_deliverable parse_url entries body =
     live_item_of ''deliverable'' Kind_deliverable ''actions''
       (iv_status (actions_status parse_url entries body)) (list_ex is_committed entries) None None"

definition live_items :: "progress_sources \<Rightarrow> live_item list" where
  "live_items s =
     (let t = so_terms s; entries = al_recorded (so_ledger s) in
      (case et_fill t of None \<Rightarrow> [] | Some f \<Rightarrow> [live_fill f (so_census s) entries]) @
      map (live_artifact entries) (et_artifacts t) @
      (case et_submit t of Allowed \<Rightarrow> [] | Forbidden_since _ \<Rightarrow> [live_submit entries]) @
      (case so_contract s of None \<Rightarrow> []
       | Some body \<Rightarrow> if tb_deliverable body = Actions
           then [live_deliverable (so_parse_url s) entries body] else []))"

section \<open>Coverage of verified actions\<close>

definition show_epoch :: "int option \<Rightarrow> jstext" where
  "show_epoch e = (case e of None \<Rightarrow> ''null''
     | Some n \<Rightarrow> if n < 0 then ''-'' @ show_nat (nat (- n)) else show_nat (nat n))"

definition fill_key :: "int option \<Rightarrow> jstext \<Rightarrow> jstext" where
  "fill_key epoch what = ''fill|'' @ show_epoch epoch @ ''|'' @ what"

definition coverage_keys :: "ledger_entry \<Rightarrow> jstext list" where
  "coverage_keys e = (case le_body e of
     Submit_refused _ \<Rightarrow> []
   | Fill_committed f \<Rightarrow>
       fill_key (epoch_of e) (case fc_group_key f of None \<Rightarrow> ''ref:'' @ fc_ref f | Some g \<Rightarrow> g) #
       map (\<lambda>r. fill_key (epoch_of e) (''ref:'' @ r))
         (case fc_covered_refs f of None \<Rightarrow> [] | Some rs \<Rightarrow> rs)
   | Click_executed c \<Rightarrow> [''click|'' @ show_epoch (epoch_of e) @ ''|'' @ ce_ref c]
   | Capture c \<Rightarrow> [''capture|'' @ scope_name (ca_scope c) @ ''|'' @ ca_sha256 c])"

definition claim_coverage :: "ledger_entry \<Rightarrow> jstext jsset \<Rightarrow> jstext jsset \<times> bool" where
  "claim_coverage e coverage =
     (let fresh = filter (\<lambda>k. k \<notin> set coverage) (coverage_keys e)
      in (set_add_all fresh coverage, 0 < length fresh))"

text \<open>\<open>entries.filter((e) => this.claimCoverage(e))\<close>: the filter's predicate updates the set.\<close>

fun claim_all :: "jstext jsset \<Rightarrow> ledger_entry list \<Rightarrow> jstext jsset \<times> ledger_entry list" where
  "claim_all coverage [] = (coverage, [])"
| "claim_all coverage (e # es) =
     (let (c1, new) = claim_coverage e coverage; (c2, fresh) = claim_all c1 es
      in (c2, if new then e # fresh else fresh))"

section \<open>The checkpoint\<close>

definition item_with_id :: "live_item list \<Rightarrow> live_item \<Rightarrow> live_item option" where
  "item_with_id items i = find (\<lambda>p. li_id p = li_id i) items"

definition changed_items :: "live_item list \<Rightarrow> live_item list \<Rightarrow> live_item list" where
  "changed_items old items = filter (\<lambda>i. case item_with_id old i of
       None \<Rightarrow> True
     | Some p \<Rightarrow> li_state p \<noteq> li_state i \<or> li_done p \<noteq> li_done i \<or> li_total p \<noteq> li_total i) items"

definition done_of :: "live_item \<Rightarrow> nat" where
  "done_of i = (case li_done i of None \<Rightarrow> 0 | Some n \<Rightarrow> n)"

definition item_advances :: "live_item list \<Rightarrow> live_item \<Rightarrow> bool" where
  "item_advances old i = (case item_with_id old i of
     Some p \<Rightarrow> rank (li_state p) < rank (li_state i) \<or> done_of p < done_of i
   | None \<Rightarrow> 0 < done_of i \<or> (li_state i = Reached \<and> li_kind i \<noteq> Kind_effects))"

definition new_entries :: "nat \<Rightarrow> progress_sources \<Rightarrow> ledger_entry list" where
  "new_entries since s =
     filter (\<lambda>e. \<not> is_submit_refused e \<and> since < seq_of e) (al_recorded (so_ledger s))"

definition page_key :: "progress_sources \<Rightarrow> jstext option" where
  "page_key s = (case so_page s of None \<Rightarrow> None
     | Some p \<Rightarrow> if 0 < length (pp_url p) then Some (canonical_url (so_platform s) (pp_url p)) else None)"

definition when_signal :: "bool \<Rightarrow> progress_signal \<Rightarrow> progress_signal list" where
  "when_signal b x = (if b then [x] else [])"

text \<open>The signals of a counted call, in the order the code pushes them.\<close>

definition signals_of :: "progress_sources \<Rightarrow> progress \<Rightarrow> progress_signal list" where
  "signals_of s p =
     (let fresh = snd (claim_all (pg_coverage p) (new_entries (pg_verified_seq p) s)) in
      when_signal (pg_documents p < so_document_count s) New_document @
      when_signal (case page_key s of None \<Rightarrow> False | Some u \<Rightarrow> u \<notin> set (pg_urls p)) New_page @
      when_signal (0 < length fresh) Action_verified @
      when_signal (list_ex is_capture fresh) Artifact_saved @
      when_signal (list_ex (item_advances (pg_items p)) (live_items s)) Item_advanced)"

definition count_signals :: "progress_signal list \<Rightarrow> (progress_signal \<Rightarrow> nat) \<Rightarrow> progress_signal \<Rightarrow> nat" where
  "count_signals sigs c = foldl (\<lambda>c x. c(x := Suc (c x))) c sigs"

definition checkpoint_bookkeeping ::
  "progress_sources \<Rightarrow> int \<Rightarrow> progress \<Rightarrow> progress \<times> progress_checkpoint" where
  "checkpoint_bookkeeping s now p =
     (p\<lparr>pg_items := live_items s\<rparr>,
      \<lparr>pc_advanced = False, pc_signals = [], pc_changed_items = changed_items (pg_items p) (live_items s),
       pc_no_progress_calls = pg_no_progress_calls p,
       pc_ms_since_progress = max 0 (now - pg_last_progress_at p)\<rparr>)"

definition checkpoint_counted ::
  "progress_sources \<Rightarrow> int \<Rightarrow> progress \<Rightarrow> progress \<times> progress_checkpoint" where
  "checkpoint_counted s now p =
     (let sigs = signals_of s p;
          entries = new_entries (pg_verified_seq p) s;
          advanced = 0 < length sigs;
          calls = (if advanced then 0 else pg_no_progress_calls p + 1);
          at = (if advanced then now else pg_last_progress_at p)
      in (p\<lparr>pg_documents := so_document_count s,
            pg_urls := (case page_key s of None \<Rightarrow> pg_urls p | Some u \<Rightarrow> set_add u (pg_urls p)),
            pg_coverage := fst (claim_all (pg_coverage p) entries),
            pg_longest_ms := max (pg_longest_ms p) (now - pg_last_progress_at p),
            pg_counted_calls := pg_counted_calls p + 1,
            pg_verified_seq := foldl max (pg_verified_seq p) (map seq_of entries),
            pg_items := live_items s,
            pg_signals := count_signals sigs (pg_signals p),
            pg_no_progress_calls := calls,
            pg_last_progress_at := at\<rparr>,
          \<lparr>pc_advanced = advanced, pc_signals = sigs,
           pc_changed_items = changed_items (pg_items p) (live_items s),
           pc_no_progress_calls = calls, pc_ms_since_progress = max 0 (now - at)\<rparr>))"

definition checkpoint ::
  "call_role \<Rightarrow> progress_sources \<Rightarrow> int \<Rightarrow> progress \<Rightarrow> progress \<times> progress_checkpoint" where
  "checkpoint role s now p = (case role of
     Bookkeeping \<Rightarrow> checkpoint_bookkeeping s now p
   | Counted \<Rightarrow> checkpoint_counted s now p)"

definition rebase_progress :: "int \<Rightarrow> progress \<Rightarrow> progress" where
  "rebase_progress now p = p\<lparr>pg_no_progress_calls := 0, pg_last_progress_at := now\<rparr>"

definition fail_open :: "progress \<Rightarrow> progress" where
  "fail_open p = p\<lparr>pg_mode := Observe, pg_progress_error := True\<rparr>"

definition enforcing :: "progress \<Rightarrow> bool" where
  "enforcing p \<longleftrightarrow> pg_mode p = Enforce"

section \<open>Late captures\<close>

definition unmet_artifact_count :: "progress_sources \<Rightarrow> nat" where
  "unmet_artifact_count s =
     length (filter (\<lambda>i. li_kind i = Kind_artifact \<and> li_state i \<noteq> Reached) (live_items s))"

text \<open>The scope of a tool call is untyped input: its text, as \<open>String(scope)\<close> renders it.\<close>

definition capture_exemption_items :: "progress_sources \<Rightarrow> progress \<Rightarrow> jstext \<Rightarrow> live_item list" where
  "capture_exemption_items s p scope =
     filter (\<lambda>i. li_kind i = Kind_artifact \<and> li_state i \<noteq> Reached \<and>
         li_id i \<notin> set (pg_capture_exemptions p) \<and>
         (li_id i = ''artifact:screenshot:'' @ scope \<or>
          (scope = ''full_page'' \<and> li_id i = ''artifact:screenshot:viewport'')))
       (live_items s)"

definition capture_exemption_available :: "progress_sources \<Rightarrow> progress \<Rightarrow> jstext \<Rightarrow> bool" where
  "capture_exemption_available s p scope \<longleftrightarrow> 0 < length (capture_exemption_items s p scope)"

definition reserve_exempt_capture :: "progress_sources \<Rightarrow> jstext \<Rightarrow> progress \<Rightarrow> progress" where
  "reserve_exempt_capture s scope p =
     p\<lparr>pg_capture_exemptions :=
        set_add_all (map li_id (capture_exemption_items s p scope)) (pg_capture_exemptions p)\<rparr>"

definition exempt_captures_used :: "progress \<Rightarrow> nat" where
  "exempt_captures_used p = length (pg_capture_exemptions p)"

section \<open>Projections\<close>

record progress_summary =
  su_mode :: progress_mode
  su_progress_error :: bool
  su_items :: "(live_kind \<times> live_state) list"
  su_fill :: "(nat \<times> nat) option"
  su_signals :: "progress_signal \<Rightarrow> nat"
  su_counted_calls :: nat
  su_no_progress_calls :: nat
  su_longest_no_progress_ms :: int

definition progress_summary_of :: "progress \<Rightarrow> progress_summary" where
  "progress_summary_of p =
     \<lparr>su_mode = pg_mode p, su_progress_error = pg_progress_error p,
      su_items = map (\<lambda>i. (li_kind i, li_state i)) (take 6 (pg_items p)),
      su_fill = (case find (\<lambda>i. li_kind i = Kind_fill) (pg_items p) of
         None \<Rightarrow> None
       | Some i \<Rightarrow> (case (li_done i, li_total i) of (Some d, Some t) \<Rightarrow> Some (d, t) | _ \<Rightarrow> None)),
      su_signals = pg_signals p, su_counted_calls = pg_counted_calls p,
      su_no_progress_calls = pg_no_progress_calls p,
      su_longest_no_progress_ms = max 0 (pg_longest_ms p)\<rparr>"

definition show_total :: "nat option \<Rightarrow> jstext" where
  "show_total t = (case t of None \<Rightarrow> ''null'' | Some n \<Rightarrow> show_nat n)"

definition item_line :: "live_item \<Rightarrow> jstext" where
  "item_line i = (if li_kind i = Kind_fill
     then (case li_done i of None \<Rightarrow> ''fields pending''
           | Some d \<Rightarrow> ''fields '' @ show_nat d @ ''/'' @ show_total (li_total i))
     else li_label i @ '' '' @
       (if li_kind i = Kind_effects \<and> li_state i = Reached then ''held''
        else if li_state i = Reached then ''met'' else ''pending''))"

definition render_progress_line :: "live_item list \<Rightarrow> jstext" where
  "render_progress_line items = take 160 (join ''; '' (map item_line (take 3 items) @
     (if 3 < length items then [''+'' @ show_nat (length items - 3) @ '' more''] else [])))"

section \<open>Lemmas\<close>

subsection \<open>Coverage\<close>

definition keys_of :: "ledger_entry list \<Rightarrow> jstext set" where
  "keys_of es = (\<Union>e \<in> set es. set (coverage_keys e))"

lemma keys_of_simps [simp]:
  "keys_of [] = {}"
  "keys_of (e # es) = set (coverage_keys e) \<union> keys_of es"
  "keys_of (es @ es') = keys_of es \<union> keys_of es'"
  by (auto simp: keys_of_def)

lemma coverage_keys_refused: "is_submit_refused e \<Longrightarrow> coverage_keys e = []"
  by (auto simp: is_submit_refused_def coverage_keys_def split: action.splits)

lemma claim_coverage_simps [simp]:
  "set (fst (claim_coverage e c)) = set c \<union> set (coverage_keys e)"
  "snd (claim_coverage e c) \<longleftrightarrow> \<not> set (coverage_keys e) \<subseteq> set c"
  by (auto simp: claim_coverage_def Let_def length_filter_conv_card filter_empty_conv)

lemma claim_coverage_distinct: "distinct c \<Longrightarrow> distinct (fst (claim_coverage e c))"
  by (simp add: claim_coverage_def Let_def)

lemma claim_all_Cons:
  "claim_all c (e # es) =
     (fst (claim_all (fst (claim_coverage e c)) es),
      (if snd (claim_coverage e c) then [e] else []) @ snd (claim_all (fst (claim_coverage e c)) es))"
  by (simp add: split_def Let_def)

lemma claim_all_coverage: "set (fst (claim_all c es)) = set c \<union> keys_of es"
  by (induction es arbitrary: c) (auto simp: claim_all_Cons simp del: claim_all.simps(2))

lemma claim_all_distinct: "distinct c \<Longrightarrow> distinct (fst (claim_all c es))"
  by (induction es arbitrary: c)
    (auto simp: claim_all_Cons claim_coverage_distinct simp del: claim_all.simps(2))

lemma claim_all_fresh: "snd (claim_all c es) = [] \<longleftrightarrow> keys_of es \<subseteq> set c"
  by (induction es arbitrary: c) (auto simp: claim_all_Cons simp del: claim_all.simps(2))

lemma finite_keys_of [simp]: "finite (keys_of es)"
  by (simp add: keys_of_def)

lemma capture_keys:
  "is_capture e \<Longrightarrow> \<exists>k. coverage_keys e = [''capture|'' @ k]"
  by (auto simp: is_capture_def coverage_keys_def split: action.splits)

lemma other_keys: "\<not> is_capture e \<Longrightarrow> ''capture|'' @ k \<notin> set (coverage_keys e)"
  by (auto simp: is_capture_def coverage_keys_def fill_key_def split: action.splits)

lemma claim_all_capture:
  "list_ex is_capture (snd (claim_all c es)) \<longleftrightarrow>
     (\<exists>e \<in> set es. is_capture e \<and> \<not> set (coverage_keys e) \<subseteq> set c)"
proof (induction es arbitrary: c)
  case Nil
  then show ?case by simp
next
  case (Cons e es)
  show ?case
  proof (cases "is_capture e")
    case True
    then obtain k where "coverage_keys e = [''capture|'' @ k]" by (auto dest: capture_keys)
    with True show ?thesis
      by (auto simp: claim_all_Cons Cons.IH simp del: claim_all.simps(2))
  next
    case False
    have "set (coverage_keys e') \<subseteq> set c \<union> set (coverage_keys e) \<longleftrightarrow> set (coverage_keys e') \<subseteq> set c"
      if "is_capture e'" for e'
      using capture_keys [OF that] other_keys [OF False] by auto
    with False show ?thesis
      by (auto simp: claim_all_Cons Cons.IH simp del: claim_all.simps(2))
  qed
qed

lemma claim_all_grows:
  assumes "distinct c" and "snd (claim_all c es) \<noteq> []"
  shows "length c < length (fst (claim_all c es))"
proof -
  have "set c \<subset> set (fst (claim_all c es))"
    using assms(2) by (auto simp: claim_all_coverage claim_all_fresh)
  then have "card (set c) < card (set (fst (claim_all c es)))"
    by (simp add: psubset_card_mono)
  then show ?thesis
    by (simp add: distinct_card assms(1) claim_all_distinct)
qed

lemma claim_all_length:
  assumes "distinct c"
  shows "length c \<le> length (fst (claim_all c es))"
proof -
  have "card (set c) \<le> card (set (fst (claim_all c es)))"
    by (rule card_mono) (auto simp: claim_all_coverage)
  then show ?thesis
    by (simp add: distinct_card assms claim_all_distinct)
qed

subsection \<open>Signals\<close>

lemma set_when_signal [simp]: "set (when_signal b x) = (if b then {x} else {})"
  by (cases b) (simp_all add: when_signal_def)

lemma count_signals_append: "count_signals (xs @ ys) c = count_signals ys (count_signals xs c)"
  by (simp add: count_signals_def)

lemma count_signals_when: "count_signals (when_signal b x) c = (if b then c(x := Suc (c x)) else c)"
  by (simp add: count_signals_def when_signal_def)

lemma signals_iff:
  "New_document \<in> set (signals_of s p) \<longleftrightarrow> pg_documents p < so_document_count s"
  "New_page \<in> set (signals_of s p) \<longleftrightarrow>
     (case page_key s of None \<Rightarrow> False | Some u \<Rightarrow> u \<notin> set (pg_urls p))"
  "Action_verified \<in> set (signals_of s p) \<longleftrightarrow>
     snd (claim_all (pg_coverage p) (new_entries (pg_verified_seq p) s)) \<noteq> []"
  "Artifact_saved \<in> set (signals_of s p) \<longleftrightarrow>
     list_ex is_capture (snd (claim_all (pg_coverage p) (new_entries (pg_verified_seq p) s)))"
  by (auto simp: signals_of_def Let_def split: if_splits)

lemma count_signals_of:
  "count_signals (signals_of s p) c x = c x + (if x \<in> set (signals_of s p) then 1 else 0)"
  by (cases x) (auto simp: signals_of_def Let_def count_signals_append count_signals_when)

lemma checkpoint_fields [simp]:
  "pg_coverage (fst (checkpoint Counted s now p)) =
     fst (claim_all (pg_coverage p) (new_entries (pg_verified_seq p) s))"
  "pg_urls (fst (checkpoint Counted s now p)) =
     (case page_key s of None \<Rightarrow> pg_urls p | Some u \<Rightarrow> set_add u (pg_urls p))"
  "pg_verified_seq (fst (checkpoint Counted s now p)) =
     foldl max (pg_verified_seq p) (map seq_of (new_entries (pg_verified_seq p) s))"
  "pg_signals (fst (checkpoint Counted s now p)) = count_signals (signals_of s p) (pg_signals p)"
  "pg_counted_calls (fst (checkpoint Counted s now p)) = pg_counted_calls p + 1"
  "pg_no_progress_calls (fst (checkpoint Counted s now p)) =
     (if signals_of s p = [] then pg_no_progress_calls p + 1 else 0)"
  "pg_capture_exemptions (fst (checkpoint Counted s now p)) = pg_capture_exemptions p"
  "pc_signals (snd (checkpoint Counted s now p)) = signals_of s p"
  by (simp_all add: checkpoint_def checkpoint_counted_def Let_def)

lemma bookkeeping_fields [simp]:
  "fst (checkpoint Bookkeeping s now p) = p\<lparr>pg_items := live_items s\<rparr>"
  by (simp add: checkpoint_def checkpoint_bookkeeping_def)

section \<open>Reachable states\<close>

text \<open>
  The states a run's ledger of progress can reach, with the entries of the action ledger its last
  counted checkpoint read. The action ledger only grows, which is what \<open>ActionLedger\<close> proves.
\<close>

inductive progressed :: "progress \<Rightarrow> ledger_entry list \<Rightarrow> bool" where
  start: "progressed (new_progress now mode) []"
| counted: "progressed p es \<Longrightarrow> al_recorded (so_ledger s) = es' \<Longrightarrow> numbered es' \<Longrightarrow> prefix es es' \<Longrightarrow>
     progressed (fst (checkpoint Counted s now p)) es'"
| bookkeeping: "progressed p es \<Longrightarrow> progressed (fst (checkpoint Bookkeeping s now p)) es"
| rebase: "progressed p es \<Longrightarrow> progressed (rebase_progress now p) es"
| failed: "progressed p es \<Longrightarrow> progressed (fail_open p) es"
| reserved: "progressed p es \<Longrightarrow> progressed (reserve_exempt_capture s scope p) es"

lemma foldl_max: "foldl max (n :: nat) xs = (if xs = [] then n else max n (Max (set xs)))"
  by (induction xs arbitrary: n) (auto simp: max.assoc)

lemma foldl_max_le: "(n :: nat) \<le> m \<Longrightarrow> (\<And>x. x \<in> set xs \<Longrightarrow> x \<le> m) \<Longrightarrow> foldl max n xs \<le> m"
  by (simp add: foldl_max)

lemma foldl_max_ge: "(x :: nat) \<in> set xs \<Longrightarrow> x \<le> foldl max n xs"
  by (auto simp: foldl_max intro: max.coboundedI2 Max_ge)

lemma new_entries_eq:
  assumes "al_recorded (so_ledger s) = es" and "numbered es"
  shows "new_entries n s = filter (\<lambda>e. \<not> is_submit_refused e) (drop n es)"
  using numbered_filter_after [OF assms(2)] by (simp add: new_entries_def assms(1))

lemma keys_of_unrefused: "keys_of (filter (\<lambda>e. \<not> is_submit_refused e) es) = keys_of es"
  by (induction es) (auto simp: coverage_keys_refused)

definition coverage_inv :: "progress \<Rightarrow> ledger_entry list \<Rightarrow> bool" where
  "coverage_inv p es \<longleftrightarrow> set (pg_coverage p) = keys_of es \<and> pg_verified_seq p \<le> length es \<and>
     list_all is_submit_refused (drop (pg_verified_seq p) es)"

lemma keys_of_refused: "list_all is_submit_refused es \<Longrightarrow> keys_of es = {}"
  by (induction es) (auto simp: coverage_keys_refused)

lemma keys_of_new_entries:
  assumes "coverage_inv p es" and "prefix es es'" and "al_recorded (so_ledger s) = es'" and "numbered es'"
  shows "keys_of es \<union> keys_of (new_entries (pg_verified_seq p) s) = keys_of es'"
proof -
  from assms(2) obtain rest where rest: "es' = es @ rest" by (auto simp: prefix_def)
  have "keys_of (new_entries (pg_verified_seq p) s) = keys_of (drop (pg_verified_seq p) es')"
    using assms(3, 4) by (simp add: new_entries_eq keys_of_unrefused)
  also have "\<dots> = keys_of (drop (pg_verified_seq p) es) \<union> keys_of rest"
    using assms(1) by (simp add: rest coverage_inv_def)
  also have "keys_of (drop (pg_verified_seq p) es) = {}"
    using assms(1) by (simp add: coverage_inv_def keys_of_refused)
  finally show ?thesis by (simp add: rest)
qed

lemma max_seq_refused:
  assumes "numbered es" and "n \<le> length es"
  defines "m \<equiv> foldl max n (map seq_of (filter (\<lambda>e. \<not> is_submit_refused e) (drop n es)))"
  shows "m \<le> length es \<and> list_all is_submit_refused (drop m es)"
proof -
  let ?new = "filter (\<lambda>e. \<not> is_submit_refused e) (drop n es)"
  have bound: "seq_of e \<le> length es" if "e \<in> set es" for e
    using numbered_nth [OF assms(1)] that by (auto simp: in_set_conv_nth)
  have le: "m \<le> length es"
    unfolding m_def by (rule foldl_max_le [OF assms(2)]) (auto intro: bound dest: in_set_dropD)
  have upper: "seq_of e \<le> m" if "e \<in> set ?new" for e
    unfolding m_def by (rule foldl_max_ge) (use that in simp)
  have nm: "n \<le> m" by (simp add: m_def foldl_max)
  have "is_submit_refused (es ! i)" if "m \<le> i" "i < length es" for i
  proof (rule ccontr)
    assume "\<not> is_submit_refused (es ! i)"
    moreover have "es ! i \<in> set (drop n es)"
      using that nm by (auto simp: in_set_conv_nth intro!: exI [of _ "i - n"])
    ultimately have "seq_of (es ! i) \<le> m" by (intro upper) auto
    with numbered_nth [OF assms(1) that(2)] that(1) show False by simp
  qed
  then have "list_all is_submit_refused (drop m es)"
    using le by (auto simp: list_all_length)
  with le show ?thesis by simp
qed

lemma progressed_coverage: "progressed p es \<Longrightarrow> coverage_inv p es"
proof (induction rule: progressed.induct)
  case (start now mode)
  then show ?case by (simp add: coverage_inv_def new_progress_def)
next
  case (counted p es s es' now)
  have "pg_verified_seq p \<le> length es'"
    using counted.IH counted.hyps(4) by (auto simp: coverage_inv_def dest: prefix_length_le)
  from max_seq_refused [OF counted.hyps(3) this] counted.hyps keys_of_new_entries [OF counted.IH]
    counted.IH
  show ?case
    by (auto simp: coverage_inv_def claim_all_coverage new_entries_eq)
qed (simp_all add: coverage_inv_def rebase_progress_def fail_open_def reserve_exempt_capture_def)

definition evidence_inv :: "progress \<Rightarrow> bool" where
  "evidence_inv p \<longleftrightarrow> distinct (pg_urls p) \<and> distinct (pg_coverage p) \<and>
     pg_signals p New_page = length (pg_urls p) \<and>
     pg_signals p Action_verified \<le> length (pg_coverage p) \<and>
     pg_signals p Artifact_saved \<le> pg_signals p Action_verified \<and>
     pg_no_progress_calls p \<le> pg_counted_calls p"

lemma evidence_inv_counted:
  assumes "evidence_inv p"
  shows "evidence_inv (fst (checkpoint Counted s now p))"
proof -
  let ?fresh = "snd (claim_all (pg_coverage p) (new_entries (pg_verified_seq p) s))"
  have dist: "distinct (pg_coverage p)" using assms by (simp add: evidence_inv_def)
  have "list_ex is_capture ?fresh \<longrightarrow> ?fresh \<noteq> []" by auto
  then have artifact: "Artifact_saved \<in> set (signals_of s p) \<longrightarrow> Action_verified \<in> set (signals_of s p)"
    by (simp add: signals_iff)
  have verified: "Action_verified \<in> set (signals_of s p) \<longrightarrow>
      length (pg_coverage p) < length (fst (claim_all (pg_coverage p) (new_entries (pg_verified_seq p) s)))"
    using claim_all_grows [OF dist] by (simp add: signals_iff)
  from assms artifact verified claim_all_length [OF dist, of "new_entries (pg_verified_seq p) s"]
  show ?thesis
    by (auto simp: evidence_inv_def count_signals_of claim_all_distinct signals_iff length_set_add
        split: option.splits if_splits)
qed

lemma progressed_evidence: "progressed p es \<Longrightarrow> evidence_inv p"
proof (induction rule: progressed.induct)
  case (start now mode)
  then show ?case by (simp add: evidence_inv_def new_progress_def)
next
  case (counted p es s es' now)
  then show ?case by (simp add: evidence_inv_counted)
qed (simp_all add: evidence_inv_def rebase_progress_def fail_open_def reserve_exempt_capture_def)

subsection \<open>Late captures\<close>

lemma live_item_of_simps [simp]:
  "li_id (live_item_of i k l st r d t) = i" "li_kind (live_item_of i k l st r d t) = k"
  "li_state (live_item_of i k l st r d t) = Reached \<longleftrightarrow> st = Met"
  by (simp_all add: live_item_of_def)

lemma live_item_kinds [simp]:
  "li_kind (live_fill f c es) = Kind_fill" "li_id (live_fill f c es) = ''fill''"
  "li_kind (live_artifact es a) = Kind_artifact"
  "li_id (live_artifact es a) = artifact_requirement_id (at_scope a)"
  "li_kind (live_submit es) = Kind_effects" "li_id (live_submit es) = ''effects.submit''"
  "li_kind (live_deliverable u es b) = Kind_deliverable"
  by (simp_all add: live_fill_def live_artifact_def live_submit_def live_deliverable_def Let_def)

lemma live_artifact_items:
  "i \<in> set (live_items s) \<and> li_kind i = Kind_artifact \<longleftrightarrow>
     (\<exists>a \<in> set (et_artifacts (so_terms s)). i = live_artifact (al_recorded (so_ledger s)) a)"
  by (auto simp: live_items_def Let_def split: option.splits submit_term.splits if_splits)

lemma live_artifact_reached:
  "li_state (live_artifact es a) = Reached \<longleftrightarrow> iv_status (artifact_status (at_scope a) es (\<lambda>_. None)) = Met"
  by (simp add: live_artifact_def)

definition artifact_ids :: "jstext list" where
  "artifact_ids = map artifact_requirement_id [Viewport, Full_page, Element]"

lemma artifact_id_mem: "artifact_requirement_id a \<in> set artifact_ids"
  by (cases a) (simp_all add: artifact_ids_def)

lemma artifact_requirement_id_iff:
  "artifact_requirement_id a = ''artifact:screenshot:'' @ scope \<longleftrightarrow> scope_name a = scope"
  by (simp add: artifact_requirement_id_def)

lemma viewport_id_iff: "artifact_requirement_id a = ''artifact:screenshot:viewport'' \<longleftrightarrow> a = Viewport"
  by (cases a) (simp_all add: artifact_requirement_id_def scope_name_def)

lemma capture_exemption_item:
  assumes "i \<in> set (capture_exemption_items s p scope)"
  shows "\<exists>a \<in> set (et_artifacts (so_terms s)). li_id i = artifact_requirement_id (at_scope a) \<and>
     (scope_name (at_scope a) = scope \<or> (scope = ''full_page'' \<and> at_scope a = Viewport)) \<and>
     iv_status (artifact_status (at_scope a) (al_recorded (so_ledger s)) (\<lambda>_. None)) \<noteq> Met"
proof -
  from assms live_artifact_items [of i s] obtain a where
    a: "a \<in> set (et_artifacts (so_terms s))" "i = live_artifact (al_recorded (so_ledger s)) a"
    by (auto simp only: capture_exemption_items_def set_filter mem_Collect_eq)
  note c = assms [unfolded capture_exemption_items_def set_filter mem_Collect_eq a(2) live_item_kinds]
  have "li_state (live_artifact (al_recorded (so_ledger s)) a) \<noteq> Reached" using c by blast
  moreover have "artifact_requirement_id (at_scope a) = ''artifact:screenshot:'' @ scope \<or>
     scope = ''full_page'' \<and> artifact_requirement_id (at_scope a) = ''artifact:screenshot:viewport''"
    using c by blast
  ultimately show ?thesis using a(1)
    by (intro bexI [of _ a])
      (simp_all only: artifact_requirement_id_iff viewport_id_iff live_artifact_reached live_item_kinds a(2),
       blast)
qed

lemma reserved_not_available: "capture_exemption_items s (reserve_exempt_capture s scope p) scope = []"
proof -
  have "pg_capture_exemptions (reserve_exempt_capture s scope p) =
      set_add_all (map li_id (capture_exemption_items s p scope)) (pg_capture_exemptions p)"
    by (simp add: reserve_exempt_capture_def)
  then have "li_id i \<in> set (pg_capture_exemptions (reserve_exempt_capture s scope p))"
    if "i \<in> set (capture_exemption_items s p scope) \<or> li_id i \<in> set (pg_capture_exemptions p)" for i
    using that by auto
  then show ?thesis
    unfolding capture_exemption_items_def filter_empty_conv set_filter mem_Collect_eq by blast
qed

lemma progressed_exemptions:
  "progressed p es \<Longrightarrow> distinct (pg_capture_exemptions p) \<and> set (pg_capture_exemptions p) \<subseteq> set artifact_ids"
proof (induction rule: progressed.induct)
  case (start now mode)
  then show ?case by (simp add: new_progress_def)
next
  case (counted p es s es' now)
  then show ?case by simp
next
  case (reserved p es s scope)
  have "li_id i \<in> set artifact_ids" if "i \<in> set (capture_exemption_items s p scope)" for i
    using capture_exemption_item [OF that] artifact_id_mem by auto
  with reserved.IH show ?case by (auto simp: reserve_exempt_capture_def)
qed (simp_all add: rebase_progress_def fail_open_def)

lemma artifact_status_gap:
  "iv_status (artifact_status scope es g) = iv_status (artifact_status scope es g')"
  by (simp add: artifact_status_def Let_def split: option.split)

section \<open>Properties\<close>

text \<open>C13. A verified action counts as progress exactly when it reaches something new: in every
  reachable state, a counted checkpoint over a ledger that extends the one last read signals a
  verified action if and only if some entry has a coverage key no earlier entry had, and a saved
  artifact if and only if a capture has new content; re-filling a field, repeating a click or
  storing an identical capture never resets the stall window.\<close>

theorem verified_action_iff_new_reach:
  assumes reach: "progressed p es"
    and ledger: "numbered (al_recorded (so_ledger s))" "prefix es (al_recorded (so_ledger s))"
  shows "(let sigs = set (pc_signals (snd (checkpoint Counted s now p)));
              ledger = al_recorded (so_ledger s) in
     (Action_verified \<in> sigs \<longleftrightarrow> \<not> keys_of ledger \<subseteq> keys_of es) \<and>
     (Artifact_saved \<in> sigs \<longleftrightarrow> \<not> keys_of (filter is_capture ledger) \<subseteq> keys_of es))"
proof -
  let ?new = "new_entries (pg_verified_seq p) s"
  have inv: "coverage_inv p es" by (rule progressed_coverage [OF reach])
  have keys: "keys_of es \<union> keys_of ?new = keys_of (al_recorded (so_ledger s))"
    by (rule keys_of_new_entries [OF inv ledger(2) refl ledger(1)])
  have cov: "set (pg_coverage p) = keys_of es" using inv by (simp add: coverage_inv_def)
  have old: "k \<in> keys_of es \<or> (\<exists>e \<in> set ?new. is_capture e \<and> k \<in> set (coverage_keys e))"
    if e: "e \<in> set (al_recorded (so_ledger s))" "is_capture e" "k \<in> set (coverage_keys e)" for e k
  proof (cases "k \<in> keys_of es")
    case False
    from e(3) False keys e(1) obtain e' where e': "e' \<in> set ?new" "k \<in> set (coverage_keys e')"
      by (auto simp: keys_of_def)
    from capture_keys [OF e(2)] obtain c where "coverage_keys e = [''capture|'' @ c]" ..
    with e(3) e'(2) have "''capture|'' @ c \<in> set (coverage_keys e')"
      by (simp only: list.set singleton_iff)
    with other_keys have "is_capture e'" by blast
    with e' show ?thesis by blast
  qed simp
  have sub: "set ?new \<subseteq> set (al_recorded (so_ledger s))" by (auto simp: new_entries_def)
  have "(\<exists>e \<in> set ?new. is_capture e \<and> \<not> set (coverage_keys e) \<subseteq> keys_of es) \<longleftrightarrow>
      \<not> keys_of (filter is_capture (al_recorded (so_ledger s))) \<subseteq> keys_of es" (is "?A \<longleftrightarrow> ?B")
  proof
    assume ?A
    with sub show ?B by (auto simp: keys_of_def)
  next
    assume ?B
    then obtain e k where "e \<in> set (al_recorded (so_ledger s))" "is_capture e"
      "k \<in> set (coverage_keys e)" "k \<notin> keys_of es" by (auto simp: keys_of_def)
    with old show ?A by blast
  qed
  with keys show ?thesis
    by (auto simp: Let_def signals_iff claim_all_fresh claim_all_capture cov)
qed

definition sample_sources :: "ledger_entry list \<Rightarrow> progress_sources" where
  "sample_sources es = \<lparr>so_platform = \<lparr>up_parse = (\<lambda>_. None), up_encode = (\<lambda>_. [])\<rparr>,
     so_parse_url = (\<lambda>_. None), so_document_count = 0, so_page = None,
     so_ledger = \<lparr>al_recorded = es, al_logged = []\<rparr>, so_census = None, so_terms = NO_ACTION_TERMS,
     so_contract = None\<rparr>"

definition again :: "ledger_entry \<Rightarrow> ledger_entry" where
  "again e = e\<lparr>le_stamp := (le_stamp e)\<lparr>ls_seq := Suc (seq_of e)\<rparr>\<rparr>"

lemma verified_action_iff_new_reach_witness:
  "Action_verified \<notin> set (pc_signals (snd (checkpoint Counted
       (sample_sources [sample_fill_entry, again sample_fill_entry]) 9
       (fst (checkpoint Counted (sample_sources [sample_fill_entry]) 5 (new_progress 0 Enforce))))))"
proof -
  let ?e = sample_fill_entry
  have n1: "numbered [?e]" by code_simp
  have n2: "numbered [?e, again ?e]" by code_simp
  have "progressed (fst (checkpoint Counted (sample_sources [?e]) 5 (new_progress 0 Enforce))) [?e]"
    by (rule progressed.counted [OF progressed.start]) (simp_all add: sample_sources_def n1)
  moreover have "al_recorded (so_ledger (sample_sources es)) = es" for es
    by (simp add: sample_sources_def)
  moreover have "coverage_keys (again ?e) = coverage_keys ?e" by code_simp
  ultimately show ?thesis
    using verified_action_iff_new_reach [of _ "[?e]" "sample_sources [?e, again ?e]" 9] n2
    by (simp add: Let_def)
qed

text \<open>The progress counters are backed by distinct evidence: in every reachable state the number
  of new-page signals is the number of distinct page identities seen, there were no more
  verified-action signals than distinct coverage keys and no more saved-artifact signals than
  verified-action ones, and the no-progress count never exceeds the calls counted.\<close>

theorem progress_backed_by_evidence:
  assumes "progressed p es"
  shows "pg_signals p New_page = card (set (pg_urls p)) \<and>
     pg_signals p Action_verified \<le> card (keys_of es) \<and>
     pg_signals p Artifact_saved \<le> pg_signals p Action_verified \<and>
     pg_no_progress_calls p \<le> pg_counted_calls p"
  using progressed_evidence [OF assms] progressed_coverage [OF assms]
  by (auto simp: evidence_inv_def coverage_inv_def distinct_card
      dest!: distinct_card [of "pg_coverage p"])

lemma progress_backed_by_evidence_witness:
  "pg_signals (fst (checkpoint Counted (sample_sources [sample_fill_entry]) 5 (new_progress 0 Enforce)))
     Action_verified \<le> card (keys_of [sample_fill_entry])"
proof -
  have "numbered [sample_fill_entry]" by code_simp
  then have "progressed (fst (checkpoint Counted (sample_sources [sample_fill_entry]) 5
      (new_progress 0 Enforce))) [sample_fill_entry]"
    by (intro progressed.counted [OF progressed.start]) (simp_all add: sample_sources_def)
  from progress_backed_by_evidence [OF this] show ?thesis by blast
qed

text \<open>The live view agrees with publication: for the same terms, ledger, census and contract,
  the fill, artifact and submit items of the live view are the ones publication evaluates, in the
  same order, with the same ids, reached exactly when publication judges them met; and when the
  deliverable is actions the live view also has publication's deliverable item.\<close>

theorem live_items_agree_with_publication:
  assumes "so_contract s = Some body"
  defines "input gaps constraints claimed capture_gap \<equiv>
     \<lparr>fn_contract = Some body, fn_terms = so_terms s, fn_deliverable_gaps = gaps,
      fn_constraints = constraints, fn_ledger = al_recorded (so_ledger s), fn_claimed_met = claimed,
      fn_capture_gap = capture_gap, fn_evaluate_fill = census_fill_evaluator (so_census s)\<rparr>"
  shows "map (\<lambda>i. (li_id i, li_state i = Reached))
       (filter (\<lambda>i. li_kind i \<noteq> Kind_deliverable) (live_items s)) =
     map (\<lambda>i. (rs_id i, status_of i = Met))
       (drop (Suc (length (tb_filters body)))
          (raw_items (so_parse_url s) (input gaps constraints claimed capture_gap) body)) \<and>
     map (\<lambda>i. li_state i = Reached) (filter (\<lambda>i. li_kind i = Kind_deliverable) (live_items s)) =
     (if tb_deliverable body = Actions
      then [status_of (hd (raw_items (so_parse_url s) (input gaps constraints claimed capture_gap) body)) = Met]
      else [])"
  by (simp add: live_items_def raw_items_def Let_def assms(1) input_def comp_def item_def status_of_def
      live_fill_def live_artifact_def live_submit_def live_deliverable_def deliverable_item_def
      artifact_status_gap [of _ _ capture_gap "\<lambda>_. None"]
      split: option.split submit_term.split)

lemma live_items_agree_with_publication_witness:
  "map (\<lambda>i. li_state i = Reached) (filter (\<lambda>i. li_kind i = Kind_deliverable)
     (live_items ((sample_sources [sample_fill_entry])\<lparr>so_contract :=
        Some ((built_body plain_env (sample_params ''price'') [] None)\<lparr>tb_deliverable := Actions\<rparr>)\<rparr>))) = [True]"
proof -
  let ?body = "(built_body plain_env (sample_params ''price'') [] None)\<lparr>tb_deliverable := Actions\<rparr>"
  let ?s = "(sample_sources [sample_fill_entry])\<lparr>so_contract := Some ?body\<rparr>"
  have "so_contract ?s = Some ?body" by simp
  note agree = live_items_agree_with_publication [OF this, where gaps = "[]" and constraints = "[]" and
      claimed = None and capture_gap = "\<lambda>_. None"]
  have "status_of (hd (raw_items (so_parse_url ?s) \<lparr>fn_contract = Some ?body, fn_terms = so_terms ?s,
      fn_deliverable_gaps = [], fn_constraints = [], fn_ledger = al_recorded (so_ledger ?s),
      fn_claimed_met = None, fn_capture_gap = (\<lambda>_. None),
      fn_evaluate_fill = census_fill_evaluator (so_census ?s)\<rparr> ?body)) = Met"
    by code_simp
  with agree show ?thesis by simp
qed

text \<open>Late captures are rationed: in every reachable state at most three exemptions were used, an
  exemption is only available for a declared artifact that the ledger does not yet satisfy, and once
  reserved the same scope is not available again.\<close>

theorem capture_exemptions_rationed:
  assumes "progressed p es"
  shows "exempt_captures_used p \<le> 3 \<and>
     (capture_exemption_available s p scope \<longrightarrow>
        (\<exists>a \<in> set (et_artifacts (so_terms s)).
           (scope_name (at_scope a) = scope \<or> (scope = ''full_page'' \<and> at_scope a = Viewport)) \<and>
           iv_status (artifact_status (at_scope a) (al_recorded (so_ledger s)) (\<lambda>_. None)) \<noteq> Met)) \<and>
     \<not> capture_exemption_available s (reserve_exempt_capture s scope p) scope"
proof -
  from progressed_exemptions [OF assms]
  have "card (set (pg_capture_exemptions p)) \<le> card (set artifact_ids)"
    by (intro card_mono) auto
  moreover have "card (set artifact_ids) \<le> 3"
    by (rule order_trans [OF card_length]) (simp add: artifact_ids_def)
  moreover note reserved_not_available [of s scope p]
  moreover have "capture_exemption_available s p scope \<Longrightarrow> \<exists>i. i \<in> set (capture_exemption_items s p scope)"
    by (cases "capture_exemption_items s p scope") (auto simp: capture_exemption_available_def)
  ultimately show ?thesis
    using progressed_exemptions [OF assms] capture_exemption_item [of _ s p scope]
    by (simp add: exempt_captures_used_def distinct_card) (auto simp: capture_exemption_available_def)
qed

lemma capture_exemptions_rationed_witness:
  "\<not> capture_exemption_available (sample_sources [])
     (reserve_exempt_capture (sample_sources []) ''viewport'' (new_progress 0 Enforce)) ''viewport''"
  using capture_exemptions_rationed [OF progressed.start] by blast

end
