(* ===== verification/Recovery.thy ===== *)
theory Recovery
  imports ProgressLedger AgentBudget
begin

text \<open>
  Bounded recovery of a run that stopped making progress,
  \<open>packages/agent/src/runtime/recovery.ts\<close>: the stall policy, the three-rung ladder with its
  history, the closed vocabulary of advised moves and the message sent to the model. Durations are
  milliseconds; the exploration time left is a fraction of the wall clock and so a rational. The
  rebase callback of the runner is the progress ledger's, so a rung returns the rebased progress.
\<close>

section \<open>Stalling\<close>

definition STALL_CALLS :: nat where "STALL_CALLS = 6"
definition STALL_MIN_CALLS_FOR_TIME :: nat where "STALL_MIN_CALLS_FOR_TIME = 2"
definition STALL_MS :: int where "STALL_MS = 120000"

definition is_stalled :: "progress_checkpoint \<Rightarrow> bool \<Rightarrow> bool" where
  "is_stalled c soft_reached \<longleftrightarrow> \<not> soft_reached \<and>
     (STALL_CALLS \<le> pc_no_progress_calls c \<or>
      (STALL_MIN_CALLS_FOR_TIME \<le> pc_no_progress_calls c \<and> STALL_MS \<le> pc_ms_since_progress c))"

section \<open>The ladder\<close>

datatype rung = Steer | Freeze | Stop

datatype trigger_kind = Trigger_stalled | Trigger_turn_timeout

datatype recovery_trigger = Stalled_for nat int | Thinking_for int

fun kind_of_trigger :: "recovery_trigger \<Rightarrow> trigger_kind" where
  "kind_of_trigger (Stalled_for _ _) = Trigger_stalled"
| "kind_of_trigger (Thinking_for _) = Trigger_turn_timeout"

definition RECOVERY_LADDER :: "rung list" where
  "RECOVERY_LADDER = [Steer, Freeze, Stop]"

definition refusals_after_freeze :: "rung \<Rightarrow> nat option" where
  "refusals_after_freeze r = (if r = Stop then Some 2 else None)"

record recovery =
  rc_index :: nat
  rc_rungs :: "rung list"
  rc_triggers :: "trigger_kind list"
  rc_refused_after_freeze :: nat

definition new_recovery :: recovery where
  "new_recovery = \<lparr>rc_index = 0, rc_rungs = [], rc_triggers = [], rc_refused_after_freeze = 0\<rparr>"

definition on_trigger ::
  "recovery_trigger \<Rightarrow> int \<Rightarrow> recovery \<times> progress \<Rightarrow> (recovery \<times> progress) \<times> rung option" where
  "on_trigger t now s = (case s of (r, p) \<Rightarrow>
     (case nth_opt RECOVERY_LADDER (rc_index r) of
        None \<Rightarrow> ((r, p), None)
      | Some x \<Rightarrow>
          ((r\<lparr>rc_index := rc_index r + 1, rc_rungs := rc_rungs r @ [x],
              rc_triggers := rc_triggers r @ [kind_of_trigger t]\<rparr>,
            rebase_progress now p), Some x)))"

definition on_refusal_after_freeze ::
  "nat \<Rightarrow> int \<Rightarrow> recovery \<times> progress \<Rightarrow> (recovery \<times> progress) \<times> rung option" where
  "on_refusal_after_freeze n now s = (case s of (r, p) \<Rightarrow>
     let r = r\<lparr>rc_refused_after_freeze := n\<rparr> in
     (case nth_opt RECOVERY_LADDER (rc_index r) of
        None \<Rightarrow> ((r, p), None)
      | Some x \<Rightarrow> (case refusals_after_freeze x of
          None \<Rightarrow> ((r, p), None)
        | Some least \<Rightarrow> if n < least then ((r, p), None)
            else on_trigger (Stalled_for n 0) now (r, p))))"

section \<open>The next move\<close>

datatype next_move = Fill_remaining | List_fields | Take_capture | Publish_now

definition NEXT_MOVES :: "next_move list" where
  "NEXT_MOVES = [Fill_remaining, List_fields, Take_capture, Publish_now]"

fun move_tool :: "next_move \<Rightarrow> jstext" where
  "move_tool Fill_remaining = ''browser_fill_form''"
| "move_tool List_fields = ''browser_observe''"
| "move_tool Take_capture = ''browser_capture''"
| "move_tool Publish_now = ''result_publish''"

fun move_detail_keys :: "next_move \<Rightarrow> jstext list" where
  "move_detail_keys Fill_remaining = [''refs'']"
| "move_detail_keys List_fields = [''kinds'']"
| "move_detail_keys Take_capture = [''scope'']"
| "move_detail_keys Publish_now = []"

record next_move_state =
  nm_exploration_open :: "bool option"
  nm_items :: "live_item list"
  nm_coverage :: "fill_coverage option"
  nm_tools :: "jstext jsset"
  nm_field_kinds :: bool
  nm_capture_scopes :: "artifact_scope list"
  nm_clean :: "jstext \<Rightarrow> jstext"

definition needs_fill :: "next_move_state \<Rightarrow> bool" where
  "needs_fill s \<longleftrightarrow> list_ex (\<lambda>i. li_kind i = Kind_fill \<and> li_state i \<noteq> Reached) (nm_items s)"

definition capture_scope :: "next_move_state \<Rightarrow> artifact_scope option" where
  "capture_scope s = find (\<lambda>scope. list_ex (\<lambda>i. li_id i = artifact_requirement_id scope \<and>
       li_state i \<noteq> Reached) (nm_items s)) (nm_capture_scopes s)"

definition remaining_of :: "next_move_state \<Rightarrow> (jstext \<times> jstext \<times> jstext option) list" where
  "remaining_of s = (case nm_coverage s of None \<Rightarrow> [] | Some c \<Rightarrow> fo_remaining c)"

definition inventory_complete :: "next_move_state \<Rightarrow> bool" where
  "inventory_complete s \<longleftrightarrow> (case nm_coverage s of None \<Rightarrow> False | Some c \<Rightarrow> fo_complete c)"

fun move_applies :: "next_move \<Rightarrow> next_move_state \<Rightarrow> bool" where
  "move_applies Fill_remaining s \<longleftrightarrow>
     nm_exploration_open s \<noteq> Some False \<and> needs_fill s \<and> 0 < length (remaining_of s)"
| "move_applies List_fields s \<longleftrightarrow>
     nm_exploration_open s \<noteq> Some False \<and> needs_fill s \<and> \<not> inventory_complete s \<and> nm_field_kinds s"
| "move_applies Take_capture s \<longleftrightarrow> \<not> needs_fill s \<and> capture_scope s \<noteq> None"
| "move_applies Publish_now s \<longleftrightarrow> True"

definition fill_advice :: jstext where
  "fill_advice = ''call browser_fill_form for these remaining controls (refs): ''"

definition list_advice :: jstext where
  "list_advice = ''call browser_observe with kinds: [\"field\"] to list the remaining fields''"

definition capture_advice :: "jstext \<Rightarrow> jstext" where
  "capture_advice scope =
     ''call browser_capture with scope: \"'' @ scope @ ''\" to save the requested screenshot''"

definition publish_advice :: jstext where
  "publish_advice = ''call result_publish now and list each unmet requirement with its reason''"

definition control_advice :: "next_move_state \<Rightarrow> jstext \<times> jstext \<times> jstext option \<Rightarrow> jstext" where
  "control_advice s c = (case c of (ref, label, _) \<Rightarrow>
     ref @ '' ('' @ take 40 (collapse_spaces (nm_clean s label)) @ '')'')"

fun render_move :: "next_move \<Rightarrow> next_move_state \<Rightarrow> jstext" where
  "render_move Fill_remaining s =
     fill_advice @ join '', '' (map (control_advice s) (take 10 (remaining_of s)))"
| "render_move List_fields s = list_advice"
| "render_move Take_capture s =
     capture_advice (case capture_scope s of None \<Rightarrow> ''undefined'' | Some c \<Rightarrow> scope_name c)"
| "render_move Publish_now s = publish_advice"

text \<open>\<open>selectNextMove\<close> throws when no move is registered and applicable: None.\<close>

definition select_next_move :: "next_move_state \<Rightarrow> next_move option" where
  "select_next_move s = find (\<lambda>m. move_tool m \<in> set (nm_tools s) \<and> move_applies m s) NEXT_MOVES"

section \<open>The message\<close>

definition show_time :: "rat option \<Rightarrow> jstext" where
  "show_time ms = (case ms of
     None \<Rightarrow> ''unbounded''
   | Some t \<Rightarrow>
       let seconds = nat (max 0 \<lfloor>t / 1000\<rfloor>) in
       if 60 \<le> seconds then show_nat (seconds div 60) @ ''m '' @ show_nat (seconds mod 60) @ ''s''
       else show_nat seconds @ ''s'')"

record recovery_message_input =
  rm_rung :: rung
  rm_trigger :: recovery_trigger
  rm_state :: next_move_state
  rm_exploration_ms :: "rat option"
  rm_publication_ms :: "rat option"

definition trigger_phrase :: "recovery_trigger \<Rightarrow> jstext" where
  "trigger_phrase t = (case t of
     Stalled_for calls ms \<Rightarrow> ''no task progress in the last '' @ show_nat calls @ '' calls ('' @
       show_time (Some (of_int ms)) @ '')''
   | Thinking_for ms \<Rightarrow> ''thinking exceeded '' @ show_time (Some (of_int ms)))"

definition no_live_requirements :: jstext where
  "no_live_requirements = ''no live action requirements''"

definition requirements_phrase :: "live_item list \<Rightarrow> jstext" where
  "requirements_phrase items =
     (let line = render_progress_line items in if line = [] then no_live_requirements else line)"

definition next_line :: "recovery_message_input \<Rightarrow> next_move \<Rightarrow> jstext" where
  "next_line i m = (if rm_rung i = Steer then ''Next: '' @ render_move m (rm_state i) @ ''.''
     else ''Next: exploration is closed; '' @ publish_advice @ ''.'')"

definition message_lines :: "recovery_message_input \<Rightarrow> next_move \<Rightarrow> jstext list" where
  "message_lines i m =
     [''Progress check: '' @ trigger_phrase (rm_trigger i) @ ''.'',
      ''Requirements: '' @ requirements_phrase (nm_items (rm_state i)) @ ''.'',
      ''Time: '' @ show_time (rm_exploration_ms i) @ '' of exploration left, then '' @
        show_time (rm_publication_ms i) @ '' reserved for publishing.'',
      next_line i m,
      ''If that cannot work, '' @ publish_advice @ ''.'']"

definition build_recovery_message :: "recovery_message_input \<Rightarrow> (jstext \<times> next_move) option" where
  "build_recovery_message i =
     map_option (\<lambda>m. (take 1200 (nm_clean (rm_state i) (join [CHR 0x0A] (message_lines i m))), m))
       (if rm_rung i = Steer then select_next_move (rm_state i) else last_opt NEXT_MOVES)"

section \<open>Lemmas\<close>

definition recovery_inv :: "recovery \<Rightarrow> bool" where
  "recovery_inv r \<longleftrightarrow> rc_index r \<le> 3 \<and> rc_rungs r = take (rc_index r) RECOVERY_LADDER \<and>
     length (rc_triggers r) = rc_index r"

lemma length_ladder [simp]: "length RECOVERY_LADDER = 3"
  by (simp add: RECOVERY_LADDER_def)

lemma on_trigger_cases:
  "on_trigger t now (r, p) =
     (if rc_index r < 3
      then ((r\<lparr>rc_index := rc_index r + 1, rc_rungs := rc_rungs r @ [RECOVERY_LADDER ! rc_index r],
               rc_triggers := rc_triggers r @ [kind_of_trigger t]\<rparr>, rebase_progress now p),
            Some (RECOVERY_LADDER ! rc_index r))
      else ((r, p), None))"
  by (simp add: on_trigger_def nth_opt_def)

lemma ladder_stop: "i < 3 \<Longrightarrow> RECOVERY_LADDER ! i = Stop \<longleftrightarrow> i = 2"
  by (auto simp: RECOVERY_LADDER_def less_Suc_eq numeral_3_eq_3 numeral_2_eq_2)

lemma on_refusal_cases:
  "on_refusal_after_freeze n now (r, p) =
     (if rc_index r = 2 \<and> 2 \<le> n
      then on_trigger (Stalled_for n 0) now (r\<lparr>rc_refused_after_freeze := n\<rparr>, p)
      else ((r\<lparr>rc_refused_after_freeze := n\<rparr>, p), None))"
proof (cases "rc_index r < 3")
  case True
  with ladder_stop [OF True] show ?thesis
    by (auto simp: on_refusal_after_freeze_def refusals_after_freeze_def nth_opt_def Let_def)
next
  case False
  then show ?thesis by (simp add: on_refusal_after_freeze_def nth_opt_def Let_def)
qed

lemma on_trigger_inv: "recovery_inv r \<Longrightarrow> recovery_inv (fst (fst (on_trigger t now (r, p))))"
  by (auto simp: on_trigger_cases recovery_inv_def take_Suc_conv_app_nth)

lemma on_refusal_inv: "recovery_inv r \<Longrightarrow> recovery_inv (fst (fst (on_refusal_after_freeze n now (r, p))))"
proof -
  assume "recovery_inv r"
  then have "recovery_inv (r\<lparr>rc_refused_after_freeze := n\<rparr>)" by (simp add: recovery_inv_def)
  then show ?thesis by (simp add: on_refusal_cases on_trigger_inv)
qed

text \<open>A run of the runner: triggers and refusal counts, with the clock of each.\<close>

datatype recovery_event = Fires recovery_trigger int | Refused nat int

fun recovery_step :: "recovery \<times> progress \<Rightarrow> recovery_event \<Rightarrow> recovery \<times> progress" where
  "recovery_step s (Fires t now) = fst (on_trigger t now s)"
| "recovery_step s (Refused n now) = fst (on_refusal_after_freeze n now s)"

definition recovery_run :: "progress \<Rightarrow> recovery_event list \<Rightarrow> recovery \<times> progress" where
  "recovery_run p es = foldl recovery_step (new_recovery, p) es"

lemma recovery_run_inv: "recovery_inv (fst (recovery_run p es))"
proof (induction es rule: rev_induct)
  case Nil
  show ?case by (simp add: recovery_run_def recovery_inv_def new_recovery_def)
next
  case (snoc e es)
  obtain r q where run: "recovery_run p es = (r, q)" by (cases "recovery_run p es")
  with snoc have "recovery_inv r" by simp
  then show ?case
    using run by (cases e) (simp_all add: recovery_run_def on_trigger_inv on_refusal_inv)
qed

lemma select_publishes:
  "''result_publish'' \<in> set (nm_tools s) \<Longrightarrow> select_next_move s \<noteq> None"
  by (simp add: select_next_move_def find_None_iff NEXT_MOVES_def)

lemma select_sound:
  "select_next_move s = Some m \<Longrightarrow> move_tool m \<in> set (nm_tools s) \<and> move_applies m s"
  by (auto simp: select_next_move_def dest: find_SomeD)

section \<open>Properties\<close>

text \<open>C14. Recovery is bounded and ordered: whatever triggers and refusals a run sees, the rungs fired
  are a prefix of steer, freeze, stop with one recorded trigger each, so at most three; another
  trigger fires the next rung of the ladder, or nothing once all three fired; a refusal after the
  freeze fires the stop exactly when steer and freeze have fired and at least two calls were
  refused; and firing a rung restarts the no-progress window.\<close>

theorem recovery_ladder_bounded:
  "(let (r, q) = recovery_run p events;
        ((r1, q1), fired) = on_trigger t now (r, q);
        ((r2, q2), stopped) = on_refusal_after_freeze n now (r, q) in
     prefix (rc_rungs r) [Steer, Freeze, Stop] \<and>
     length (rc_triggers r) = length (rc_rungs r) \<and>
     fired = nth_opt [Steer, Freeze, Stop] (length (rc_rungs r)) \<and>
     rc_rungs r1 = rc_rungs r @ (case fired of None \<Rightarrow> [] | Some x \<Rightarrow> [x]) \<and>
     (stopped = Some Stop \<longleftrightarrow> rc_rungs r = [Steer, Freeze] \<and> 2 \<le> n) \<and>
     (stopped \<noteq> None \<longleftrightarrow> stopped = Some Stop) \<and>
     (fired \<noteq> None \<longleftrightarrow> pg_no_progress_calls q1 = 0 \<and> pg_last_progress_at q1 = now \<and> r1 \<noteq> r))"
proof -
  obtain r q where run: "recovery_run p events = (r, q)" by (cases "recovery_run p events")
  have inv: "recovery_inv r" using recovery_run_inv [of p events] run by simp
  then have index: "rc_index r \<le> 3" "rc_rungs r = take (rc_index r) [Steer, Freeze, Stop]"
    "length (rc_triggers r) = rc_index r" by (auto simp: recovery_inv_def RECOVERY_LADDER_def)
  have changed: "r\<lparr>rc_index := Suc (rc_index r), rc_rungs := xs, rc_triggers := ys\<rparr> \<noteq> r" for xs ys
    by (metis n_not_Suc_n recovery.select_convs(1) recovery.surjective recovery.update_convs(1)
        recovery.update_convs(2) recovery.update_convs(3))
  consider "rc_index r = 0" | "rc_index r = 1" | "rc_index r = 2" | "rc_index r = 3"
    using index(1) by linarith
  then show ?thesis
    by cases (use index changed in \<open>auto simp: run on_refusal_cases on_trigger_cases nth_opt_def
        RECOVERY_LADDER_def rebase_progress_def numeral_2_eq_2 numeral_3_eq_3\<close>)
qed

text \<open>The advice is always usable: when publishing is registered a move is always found, the
  chosen tool is registered, filling is only advised while exploration is open, the fill item is
  unmet and a control remains, a capture is only advised once no fill is pending and then for an
  offered scope whose artifact is unmet, publishing is only advised when nothing else applies, and
  the message keeps its length bound.\<close>

theorem recovery_advice_usable:
  assumes "''result_publish'' \<in> set (nm_tools (rm_state i))"
  shows "case build_recovery_message i of
     None \<Rightarrow> False
   | Some (msg, m) \<Rightarrow> length msg \<le> 1200 \<and> move_tool m \<in> set (nm_tools (rm_state i)) \<and>
       (rm_rung i \<noteq> Steer \<longrightarrow> m = Publish_now) \<and>
       (m = Fill_remaining \<longrightarrow> nm_exploration_open (rm_state i) \<noteq> Some False \<and>
          needs_fill (rm_state i) \<and> remaining_of (rm_state i) \<noteq> []) \<and>
       (m = Take_capture \<longrightarrow> \<not> needs_fill (rm_state i) \<and>
          (\<exists>scope \<in> set (nm_capture_scopes (rm_state i)). capture_scope (rm_state i) = Some scope \<and>
             (\<exists>it \<in> set (nm_items (rm_state i)).
                li_id it = artifact_requirement_id scope \<and> li_state it \<noteq> Reached))) \<and>
       (rm_rung i = Steer \<and> m = Publish_now \<longrightarrow>
          (\<forall>m' \<in> {Fill_remaining, List_fields, Take_capture}.
             move_tool m' \<in> set (nm_tools (rm_state i)) \<longrightarrow> \<not> move_applies m' (rm_state i)))"
proof (cases "rm_rung i = Steer")
  case False
  with assms show ?thesis by (simp add: build_recovery_message_def last_opt_def NEXT_MOVES_def)
next
  case True
  let ?s = "rm_state i"
  from select_publishes [OF assms] obtain m where m: "select_next_move ?s = Some m" by blast
  from select_sound [OF m] have sound: "move_tool m \<in> set (nm_tools ?s)" "move_applies m ?s" by auto
  have scope: "scope \<in> set (nm_capture_scopes ?s) \<and>
      (\<exists>it \<in> set (nm_items ?s). li_id it = artifact_requirement_id scope \<and> li_state it \<noteq> Reached)"
    if "capture_scope ?s = Some scope" for scope
    using find_SomeD [OF that [unfolded capture_scope_def]] by (auto simp: list_ex_iff)
  have publish: "\<forall>m' \<in> {Fill_remaining, List_fields, Take_capture}.
      move_tool m' \<in> set (nm_tools ?s) \<longrightarrow> \<not> move_applies m' ?s" if "m = Publish_now"
    using m that unfolding select_next_move_def NEXT_MOVES_def by (auto split: if_splits)
  have "build_recovery_message i =
      Some (take 1200 (nm_clean ?s (join [CHR 0x0A] (message_lines i m))), m)"
    by (simp add: build_recovery_message_def True m)
  then show ?thesis
    using sound scope publish True by (cases m) auto
qed

definition sample_move_state :: next_move_state where
  "sample_move_state = \<lparr>nm_exploration_open = Some True, nm_items = [], nm_coverage = None,
     nm_tools = [''result_publish''], nm_field_kinds = False, nm_capture_scopes = [],
     nm_clean = (\<lambda>s. s)\<rparr>"

lemma recovery_advice_usable_witness:
  "build_recovery_message \<lparr>rm_rung = Steer, rm_trigger = Stalled_for 6 90000,
     rm_state = sample_move_state, rm_exploration_ms = None, rm_publication_ms = None\<rparr> \<noteq> None"
proof -
  have "''result_publish'' \<in> set (nm_tools (rm_state \<lparr>rm_rung = Steer, rm_trigger = Stalled_for 6 90000,
     rm_state = sample_move_state, rm_exploration_ms = None, rm_publication_ms = None\<rparr>))"
    by (simp add: sample_move_state_def)
  from recovery_advice_usable [OF this] show ?thesis by (auto split: option.splits)
qed

end
