(* ===== verification/Outcome.thy ===== *)
theory Outcome
  imports Fulfillment AgentBudget
begin

text \<open>
  The terminal outcome of an agentic run: \<open>packages/agent/src/runtime/outcome.ts\<close>, the outcome table
  of \<open>packages/protocol/src/schemas/task-outcome.ts\<close>, the settling, promotion and finalization of an
  outcome in \<open>orchestrator.ts\<close> (\<open>settleOutcome\<close>, \<open>maybePromoteTrace\<close>, \<open>finalizeRun\<close>), and the
  pre-flight location gate of \<open>location-gate.ts\<close>. What the run store, the event bus and the report
  builder are handed is the value of \<open>finalize_run\<close>; the promotion of a trace is an argument.
\<close>

section \<open>Data\<close>

datatype task_outcome = Fulfilled | Partial | Handoff | Failed | Aborted

datatype termination_reason =
    Model_finished | Wall_clock_soft | Wall_clock_hard | Provider_tokens | Tool_budget
  | Repeated_tool_failure | Handoff_raised | User_abort | Provider_failed | Run_stalled | Turn_timeout

datatype manifest_status = Status_completed | Status_failed | Status_aborted

datatype terminal_event = Task_completed | Task_failed

datatype failure_class =
    Locator_not_found | Navigation_timeout | Rate_limited | Captcha_detected | Mfa_required | Network_error
  | Scope_violated | Validation_error | Ethics_refused | Budget_exhausted | User_aborted | Unexpected
  | Resume_drift | Locator_miss_in_unrecorded_frame | Requirements_unmet

record outcome_mapping =
  om_exit_code :: nat
  om_manifest_status :: manifest_status
  om_event :: terminal_event

fun TASK_OUTCOME_TABLE :: "task_outcome \<Rightarrow> outcome_mapping" where
  "TASK_OUTCOME_TABLE Fulfilled = \<lparr>om_exit_code = 0, om_manifest_status = Status_completed, om_event = Task_completed\<rparr>"
| "TASK_OUTCOME_TABLE Partial = \<lparr>om_exit_code = 2, om_manifest_status = Status_failed, om_event = Task_failed\<rparr>"
| "TASK_OUTCOME_TABLE Handoff = \<lparr>om_exit_code = 4, om_manifest_status = Status_failed, om_event = Task_failed\<rparr>"
| "TASK_OUTCOME_TABLE Failed = \<lparr>om_exit_code = 2, om_manifest_status = Status_failed, om_event = Task_failed\<rparr>"
| "TASK_OUTCOME_TABLE Aborted = \<lparr>om_exit_code = 130, om_manifest_status = Status_aborted, om_event = Task_failed\<rparr>"

record agent_error =
  er_code :: jstext
  er_message :: jstext

datatype brief_kind = Plain_brief | Templated_report

record brief_ref =
  br_kind :: brief_kind
  br_brief_id :: jstext
  br_json_path :: jstext
  br_markdown_path :: jstext
  br_html_path :: jstext

datatype promotion =
    Saved_as jstext "jstext list" "jstext list option"
  | Not_saved jstext jstext

record unmet_requirement =
  ur_id :: jstext
  ur_label :: jstext
  ur_reason :: "jstext option"

record requirements_summary =
  rq_met :: nat
  rq_total :: nat
  rq_unmet :: "unmet_requirement list"
  rq_satisfied :: "(jstext \<times> jstext) list"
  rq_contract_declared :: bool

record published_outcome =
  po_brief :: brief_ref
  po_fulfilled :: bool
  po_requirements :: "requirements_summary option"
  po_artifacts :: "artifact_ref list"
  po_capture_sets :: "capture_set list"
  po_promotion :: "promotion option"

datatype outcome_body =
    Published published_outcome
  | Handed_off jstext jstext
  | Run_failed agent_error
  | Budget_ended agent_error
  | Run_aborted agent_error

record agentic_outcome =
  ao_run_id :: jstext
  ao_run_dir :: jstext
  ao_body :: outcome_body
  ao_reason :: termination_reason

section \<open>Classification\<close>

definition BUDGET_TERMINATIONS :: "termination_reason set" where
  "BUDGET_TERMINATIONS = {Wall_clock_soft, Wall_clock_hard, Provider_tokens, Tool_budget, Turn_timeout}"

definition task_outcome_of :: "agentic_outcome \<Rightarrow> task_outcome" where
  "task_outcome_of o1 = (case ao_body o1 of
     Published p \<Rightarrow> if po_fulfilled p then Fulfilled else Partial
   | Handed_off _ _ \<Rightarrow> Handoff
   | Run_failed _ \<Rightarrow> Failed
   | Budget_ended _ \<Rightarrow> Failed
   | Run_aborted _ \<Rightarrow> Aborted)"

text \<open>\<open>\bword\b\<close> for a word of word characters: one of the text's maximal words is that word.\<close>

definition has_word :: "jstext \<Rightarrow> jstext \<Rightarrow> bool" where
  "has_word w s \<longleftrightarrow> w \<in> set (split_on CHR '' '' (replace_runs (\<lambda>c. \<not> is_word_char c) s))"

definition mentions_captcha :: "jstext \<Rightarrow> bool" where
  "mentions_captcha s \<longleftrightarrow> (let t = to_lower s in
     str_includes ''captcha'' t \<or> str_includes ''human verification'' t \<or>
     str_includes ''verify you are human'' t)"

definition mentions_mfa :: "jstext \<Rightarrow> bool" where
  "mentions_mfa s \<longleftrightarrow> (let t = to_lower s in
     has_word ''mfa'' t \<or> str_includes ''multi-factor'' t \<or> str_includes ''two-factor'' t \<or>
     has_word ''2fa'' t \<or> str_includes ''one-time code'' t \<or> str_includes ''one-time password'' t)"

definition handoff_class :: "jstext \<Rightarrow> failure_class" where
  "handoff_class blocker =
     (if mentions_captcha blocker then Captcha_detected
      else if mentions_mfa blocker then Mfa_required else Unexpected)"

definition completion_missing :: jstext where
  "completion_missing = ''AGENT_COMPLETION_MISSING''"

definition failure_class_for :: "agentic_outcome \<Rightarrow> failure_class option" where
  "failure_class_for o1 = (case ao_body o1 of
     Published p \<Rightarrow>
       if po_fulfilled p then None
       else if ao_reason o1 \<in> BUDGET_TERMINATIONS then Some Budget_exhausted
       else Some Requirements_unmet
   | Handed_off blocker _ \<Rightarrow> Some (handoff_class blocker)
   | Budget_ended _ \<Rightarrow> Some Budget_exhausted
   | Run_aborted _ \<Rightarrow> Some User_aborted
   | Run_failed e \<Rightarrow>
       if ao_reason o1 = Run_stalled then Some Requirements_unmet
       else if ao_reason o1 = Turn_timeout then Some Budget_exhausted
       else Some (if er_code e = completion_missing then Validation_error else Unexpected))"

definition exit_code_for :: "agentic_outcome \<Rightarrow> nat" where
  "exit_code_for o1 = om_exit_code (TASK_OUTCOME_TABLE (task_outcome_of o1))"

section \<open>The first line\<close>

definition FIRST_LINE_MAX :: nat where "FIRST_LINE_MAX = 240"
definition FIRST_LINE_ITEMS :: nat where "FIRST_LINE_ITEMS = 2"

definition outcome_word :: "published_outcome \<Rightarrow> jstext" where
  "outcome_word p = (if po_fulfilled p then ''Fulfilled'' else ''Partial'')"

definition unmet_requirement_phrase :: "unmet_requirement \<Rightarrow> jstext" where
  "unmet_requirement_phrase u = unmet_phrase (ur_id u) (ur_label u) (ur_reason u)"

definition no_contract_phrase :: jstext where
  "no_contract_phrase = ''no task contract was declared''"

definition met_phrase :: "requirements_summary \<Rightarrow> jstext" where
  "met_phrase r = show_nat (rq_met r) @ '' of '' @ show_nat (rq_total r) @ '' requirements met''"

definition outcome_line_body :: "published_outcome \<Rightarrow> jstext" where
  "outcome_line_body p = (case po_requirements p of
     None \<Rightarrow> outcome_word p
   | Some r \<Rightarrow>
       if \<not> rq_contract_declared r then outcome_word p @ '': '' @ no_contract_phrase
       else
         let named = map unmet_requirement_phrase (take FIRST_LINE_ITEMS (rq_unmet r));
             rest = length (rq_unmet r) - length named
         in join ''; '' ((outcome_word p @ '': '' @ met_phrase r) # named @
              (if 0 < rest then [''+'' @ show_nat rest @ '' more''] else [])))"

definition stalled_suffix :: jstext where
  "stalled_suffix = '' (stopped: no progress after recovery)''"

definition thinking_suffix :: jstext where
  "thinking_suffix = '' (stopped: thinking limit)''"

definition outcome_suffix :: "published_outcome \<Rightarrow> termination_reason \<Rightarrow> jstext" where
  "outcome_suffix p reason =
     (if po_fulfilled p then []
      else if reason = Run_stalled then stalled_suffix
      else if reason = Turn_timeout then thinking_suffix else [])"

definition outcome_summary :: "published_outcome \<Rightarrow> termination_reason \<Rightarrow> jstext" where
  "outcome_summary p reason =
     (let suffix = outcome_suffix p reason
      in clip (FIRST_LINE_MAX - length suffix) (outcome_line_body p) @ suffix)"

definition outcome_first_line :: "published_outcome \<Rightarrow> termination_reason \<Rightarrow> jstext \<Rightarrow> jstext" where
  "outcome_first_line p reason path = outcome_summary p reason @ ''. '' @
     (case br_kind (po_brief p) of Templated_report \<Rightarrow> ''report'' | Plain_brief \<Rightarrow> ''Brief'') @ '': '' @ path"

section \<open>Settling\<close>

datatype outcome_draft = Draft_published brief_ref | Draft_other outcome_body

record settle_services =
  sv_run_id :: jstext
  sv_run_dir :: jstext
  sv_command :: agentic_command
  sv_fulfillment :: "fulfillment_evaluation option"
  sv_ledger :: "ledger_entry list"

definition requirements_summary_of :: "fulfillment_evaluation option \<Rightarrow> requirements_summary" where
  "requirements_summary_of e = (case e of
     Some ev \<Rightarrow>
       if fe_contract_declared ev
       then \<lparr>rq_met = fe_met ev, rq_total = fe_total ev,
             rq_unmet = map (\<lambda>i. \<lparr>ur_id = rs_id i, ur_label = rs_label i,
                                   ur_reason = iv_reason (rs_verdict i)\<rparr>)
               (filter (\<lambda>i. status_of i = Unmet) (fe_items ev)),
             rq_satisfied = map (\<lambda>i. (rs_id i, rs_label i))
               (filter (\<lambda>i. status_of i = Met) (fe_items ev)),
             rq_contract_declared = True\<rparr>
       else \<lparr>rq_met = 0, rq_total = 0, rq_unmet = [], rq_satisfied = [], rq_contract_declared = False\<rparr>
   | None \<Rightarrow> \<lparr>rq_met = 0, rq_total = 0, rq_unmet = [], rq_satisfied = [], rq_contract_declared = False\<rparr>)"

definition deliverable_capture_sets :: "ledger_entry list \<Rightarrow> capture_set list" where
  "deliverable_capture_sets ledger = List.map_filter (\<lambda>e. case le_body e of
       Capture c \<Rightarrow> if ca_producer c = ''browser_capture'' then ca_capture_set c else None
     | _ \<Rightarrow> None) ledger"

definition settle_published :: "settle_services \<Rightarrow> brief_ref \<Rightarrow> published_outcome" where
  "settle_published s brief =
     (if sv_command s \<noteq> Do
      then \<lparr>po_brief = brief, po_fulfilled = True, po_requirements = None, po_artifacts = [],
            po_capture_sets = [], po_promotion = None\<rparr>
      else
        let r = requirements_summary_of (sv_fulfillment s);
            sets = deliverable_capture_sets (sv_ledger s)
        in \<lparr>po_brief = brief, po_fulfilled = (rq_contract_declared r \<and> rq_met r = rq_total r),
            po_requirements = Some r, po_artifacts = concat (map artifact_refs_of_set sets),
            po_capture_sets = sets, po_promotion = None\<rparr>)"

definition settle_outcome ::
  "outcome_draft \<Rightarrow> termination_reason \<Rightarrow> settle_services \<Rightarrow> agentic_outcome" where
  "settle_outcome d reason s =
     \<lparr>ao_run_id = sv_run_id s, ao_run_dir = sv_run_dir s,
      ao_body = (case d of Draft_published b \<Rightarrow> Published (settle_published s b) | Draft_other b \<Rightarrow> b),
      ao_reason = reason\<rparr>"

section \<open>Promotion\<close>

datatype promote_call = Promote_ok "jstext list option" | Promote_refused jstext | Promote_threw "jstext option"

definition partial_promotion_error :: "published_outcome \<Rightarrow> jstext" where
  "partial_promotion_error p = ''Not saved: the run was partial ('' @
     (case po_requirements p of
        None \<Rightarrow> no_contract_phrase
      | Some r \<Rightarrow> if rq_contract_declared r then met_phrase r else no_contract_phrase) @
     ''). Only a fulfilled run is saved as a workflow.''"

definition unreplayable_items :: "published_outcome \<Rightarrow> jstext list" where
  "unreplayable_items p = map snd (filter (\<lambda>(i, l). starts_with ''artifact:'' i)
     (case po_requirements p of None \<Rightarrow> [] | Some r \<Rightarrow> rq_satisfied r))"

definition promotion_unavailable :: jstext where
  "promotion_unavailable = ''Workflow promotion is not available in this environment.''"

definition promotion_failed :: jstext where
  "promotion_failed = ''Unexpected promotion failure.''"

text \<open>The promotion of a published outcome; \<open>store\<close> is None where no workflow store exists, and the
  result of the promotion call where one does.\<close>

definition promotion_of :: "promote_call option \<Rightarrow> jstext \<Rightarrow> published_outcome \<Rightarrow> promotion" where
  "promotion_of store name p =
     (if \<not> po_fulfilled p then Not_saved name (partial_promotion_error p)
      else case store of
        None \<Rightarrow> Not_saved name promotion_unavailable
      | Some (Promote_ok notes) \<Rightarrow> Saved_as name (unreplayable_items p) notes
      | Some (Promote_refused msg) \<Rightarrow> Not_saved name msg
      | Some (Promote_threw msg) \<Rightarrow>
          Not_saved name (case msg of None \<Rightarrow> promotion_failed | Some m \<Rightarrow> m))"

definition maybe_promote_trace ::
  "jstext option \<Rightarrow> promote_call option \<Rightarrow> agentic_outcome option \<Rightarrow> agentic_outcome option" where
  "maybe_promote_trace save_as store out =
     (case map_option trim save_as of
        None \<Rightarrow> out
      | Some name \<Rightarrow>
          if length name = 0 then out
          else case out of
            None \<Rightarrow> None
          | Some o1 \<Rightarrow> (case ao_body o1 of
              Published p \<Rightarrow>
                Some (o1\<lparr>ao_body := Published (p\<lparr>po_promotion := Some (promotion_of store name p)\<rparr>)\<rparr>)
            | _ \<Rightarrow> out))"

section \<open>Finalization\<close>

record run_finale =
  fz_event :: terminal_event
  fz_event_class :: "failure_class option"
  fz_status :: manifest_status
  fz_failure_class :: "failure_class option"
  fz_task_outcome :: task_outcome
  fz_reason :: termination_reason
  fz_report_status :: manifest_status
  fz_report_failure :: "(jstext \<times> jstext) option"

definition failure_class_name :: "failure_class \<Rightarrow> jstext" where
  "failure_class_name c = (case c of
     Locator_not_found \<Rightarrow> ''locator_not_found'' | Navigation_timeout \<Rightarrow> ''navigation_timeout''
   | Rate_limited \<Rightarrow> ''rate_limited'' | Network_error \<Rightarrow> ''network_error''
   | Scope_violated \<Rightarrow> ''scope_violation'' | Ethics_refused \<Rightarrow> ''ethics_refused''
   | Resume_drift \<Rightarrow> ''resume_drift''
   | Locator_miss_in_unrecorded_frame \<Rightarrow> ''locator_miss_in_unrecorded_frame''
   | Captcha_detected \<Rightarrow> ''captcha_detected'' | Mfa_required \<Rightarrow> ''mfa_required''
   | Validation_error \<Rightarrow> ''validation_error'' | Budget_exhausted \<Rightarrow> ''budget_exhausted''
   | User_aborted \<Rightarrow> ''user_aborted'' | Unexpected \<Rightarrow> ''unexpected''
   | Requirements_unmet \<Rightarrow> ''requirements_unmet'')"

definition report_failure :: "agentic_outcome \<Rightarrow> failure_class option \<Rightarrow> (jstext \<times> jstext) option" where
  "report_failure o1 c = (case ao_body o1 of
     Published p \<Rightarrow>
       if po_fulfilled p then None
       else Some (failure_class_name (case c of None \<Rightarrow> Requirements_unmet | Some x \<Rightarrow> x),
              outcome_first_line p (ao_reason o1)
                (case br_kind (po_brief p) of Templated_report \<Rightarrow> ''document.html'' | Plain_brief \<Rightarrow> ''brief.html''))
   | Handed_off blocker _ \<Rightarrow> Some (''AGENT_TOOL_FAILED'', blocker)
   | Run_failed e \<Rightarrow> Some (er_code e, er_message e)
   | Budget_ended e \<Rightarrow> Some (er_code e, er_message e)
   | Run_aborted e \<Rightarrow> Some (er_code e, er_message e))"

definition finalize_run :: "agentic_outcome \<Rightarrow> run_finale" where
  "finalize_run o1 =
     (let mapping = TASK_OUTCOME_TABLE (task_outcome_of o1);
          c = failure_class_for o1
      in \<lparr>fz_event = om_event mapping,
          fz_event_class = (if om_event mapping = Task_completed then None
            else Some (case c of None \<Rightarrow> Unexpected | Some x \<Rightarrow> x)),
          fz_status = om_manifest_status mapping, fz_failure_class = c,
          fz_task_outcome = task_outcome_of o1, fz_reason = ao_reason o1,
          fz_report_status = (if om_manifest_status mapping = Status_completed
            then Status_completed else Status_failed),
          fz_report_failure = report_failure o1 c\<rparr>)"

section \<open>The location gate\<close>

definition LOCATION_PHRASES :: "jstext list" where
  "LOCATION_PHRASES = [''near me'', ''nearby'', ''close to me'', ''closest to me'', ''nearest to me'',
     ''around me'', ''next to me'', ''around here'', ''near here'', ''close to here'', ''in my area'',
     ''my area'', ''my neighborhood'', ''my city'', ''my town'', ''my region'', ''my zip'',
     ''my location'', ''where i am'', ''where i live'', ''local to me'']"

definition normalized_goal :: "jstext \<Rightarrow> jstext" where
  "normalized_goal goal =
     '' '' @ trim (replace_runs (\<lambda>c. \<not> is_lower_alnum c) (to_lower goal)) @ '' ''"

definition requires_user_location :: "jstext \<Rightarrow> bool" where
  "requires_user_location goal \<longleftrightarrow>
     list_ex (\<lambda>phrase. str_includes ('' '' @ phrase @ '' '') (normalized_goal goal)) LOCATION_PHRASES"

record ambient_view =
  av_location_granted :: bool
  av_user_location :: "jstext option"

definition location_blocker :: jstext where
  "location_blocker = ''This goal needs your location, but none is available and Yantra will not infer one.''"

definition set_location_remedy :: jstext where
  "set_location_remedy = ''Set one with `yantra prefs set locale.city \"<city, state>\"`, or name the location in the query.''"

definition reenable_location_remedy :: jstext where
  "reenable_location_remedy = ''Location sharing is off. Re-enable it with `yantra prefs set context.location true`, or name the location in the query.''"

definition location_handoff_for :: "jstext \<Rightarrow> ambient_view option \<Rightarrow> (jstext \<times> jstext) option" where
  "location_handoff_for goal ambient =
     (if (case ambient of None \<Rightarrow> False
          | Some a \<Rightarrow> (case av_user_location a of None \<Rightarrow> False | Some l \<Rightarrow> 0 < length l))
      then None
      else if \<not> requires_user_location goal then None
      else Some (location_blocker,
        if (case ambient of None \<Rightarrow> True | Some a \<Rightarrow> av_location_granted a)
        then set_location_remedy else reenable_location_remedy))"

section \<open>Lemmas\<close>

lemma outcome_suffix_short: "length (outcome_suffix p reason) < FIRST_LINE_MAX"
  by (simp add: outcome_suffix_def stalled_suffix_def thinking_suffix_def FIRST_LINE_MAX_def)

lemma outcome_summary_length: "length (outcome_summary p reason) \<le> FIRST_LINE_MAX"
proof -
  have "length (clip (FIRST_LINE_MAX - length (outcome_suffix p reason)) (outcome_line_body p)) \<le>
      FIRST_LINE_MAX - length (outcome_suffix p reason)"
    using outcome_suffix_short [of p reason] by simp
  moreover have "FIRST_LINE_MAX - length (outcome_suffix p reason) + length (outcome_suffix p reason) =
      FIRST_LINE_MAX"
    using outcome_suffix_short [of p reason] by simp
  ultimately show ?thesis
    by (simp add: outcome_summary_def Let_def)
qed

lemma judged_split:
  "length (filter (\<lambda>i. status_of i \<noteq> Not_applicable) xs) =
   length (filter (\<lambda>i. status_of i = Met) xs) + length (filter (\<lambda>i. status_of i = Unmet) xs)"
proof (induction xs)
  case Nil
  then show ?case by simp
next
  case (Cons x xs)
  then show ?case by (cases "status_of x") auto
qed

definition settled_fulfilled :: "agentic_outcome \<Rightarrow> bool" where
  "settled_fulfilled o1 \<longleftrightarrow> (case ao_body o1 of Published p \<Rightarrow> po_fulfilled p | _ \<Rightarrow> False)"

lemma task_outcome_fulfilled: "task_outcome_of o1 = Fulfilled \<longleftrightarrow> settled_fulfilled o1"
  by (simp add: task_outcome_of_def settled_fulfilled_def split: outcome_body.split)

lemma table_fulfilled:
  "om_exit_code (TASK_OUTCOME_TABLE t) = 0 \<longleftrightarrow> t = Fulfilled"
  "om_event (TASK_OUTCOME_TABLE t) = Task_completed \<longleftrightarrow> t = Fulfilled"
  "om_manifest_status (TASK_OUTCOME_TABLE t) = Status_completed \<longleftrightarrow> t = Fulfilled"
  by (cases t; simp)+

lemma no_failure_iff:
  "failure_class_for o1 = None \<longleftrightarrow> settled_fulfilled o1"
  "report_failure o1 c = None \<longleftrightarrow> settled_fulfilled o1"
  by (auto simp: failure_class_for_def report_failure_def settled_fulfilled_def split: outcome_body.split)

lemma maybe_promote_Some:
  "\<exists>o2. maybe_promote_trace save_as store (Some o1) = Some o2 \<and>
     ao_reason o2 = ao_reason o1 \<and> settled_fulfilled o2 = settled_fulfilled o1 \<and>
     task_outcome_of o2 = task_outcome_of o1"
  by (simp add: maybe_promote_trace_def settled_fulfilled_def task_outcome_of_def Let_def
      split: option.split outcome_body.split)

section \<open>Properties\<close>

text \<open>C15. The records of a finished run agree with each other: the exit code is 0 exactly when the
  event says completed, the manifest status is completed, the report is completed, no failure class
  is recorded and the report has no failure block, and all of that exactly when a result was
  published and judged fulfilled; otherwise the event carries the recorded class.\<close>

theorem terminal_records_agree:
  "(let z = finalize_run o1 in
     (exit_code_for o1 = 0 \<longleftrightarrow> settled_fulfilled o1) \<and>
     (fz_event z = Task_completed \<longleftrightarrow> settled_fulfilled o1) \<and>
     (fz_status z = Status_completed \<longleftrightarrow> settled_fulfilled o1) \<and>
     (fz_report_status z = Status_completed \<longleftrightarrow> settled_fulfilled o1) \<and>
     (fz_failure_class z = None \<longleftrightarrow> settled_fulfilled o1) \<and>
     (fz_report_failure z = None \<longleftrightarrow> settled_fulfilled o1) \<and>
     fz_event_class z = fz_failure_class z)"
proof (cases "settled_fulfilled o1")
  case True
  then show ?thesis
    using no_failure_iff [of o1] task_outcome_fulfilled [of o1]
    by (simp add: finalize_run_def Let_def exit_code_for_def)
next
  case False
  then obtain c where "failure_class_for o1 = Some c" using no_failure_iff(1) [of o1] by blast
  with False show ?thesis
    using no_failure_iff [of o1] task_outcome_fulfilled [of o1] table_fulfilled [of "task_outcome_of o1"]
    by (simp add: finalize_run_def Let_def exit_code_for_def)
qed


definition sample_brief :: brief_ref where
  "sample_brief = \<lparr>br_kind = Plain_brief, br_brief_id = ''b'', br_json_path = ''j'',
     br_markdown_path = ''m'', br_html_path = ''h''\<rparr>"

definition sample_settle :: "jstext list \<Rightarrow> settle_services" where
  "sample_settle names = \<lparr>sv_run_id = ''r'', sv_run_dir = ''d'', sv_command = Do,
     sv_fulfillment = Some (evaluate_fulfillment (\<lambda>_. None) (sample_fulfillment names)),
     sv_ledger = fn_ledger (sample_fulfillment names)\<rparr>"


end
