(* ===== verification/Supervisor.thy ===== *)
theory Supervisor
  imports Recovery Outcome
begin

text \<open>
  The supervisor of one agentic run, \<open>createExecutionState\<close> of
  \<open>packages/agent/src/runtime/orchestrator.ts\<close>: what each session event, timer and abort does to the
  budget tracker, the progress ledger, the recovery runner, the stuck-loop breaker and the run's
  flags, and how the final state is resolved into an outcome and a termination reason
  (\<open>resolveTerminalOutcome\<close>, \<open>terminationReasonFor\<close>). A timer is a flag that says it is armed and an
  event that fires it; a steering request answers later, so its outstanding messages are a queue.
  Events only rendered to the connector (contract echo, progress lines, tool lines) are left out.
\<close>

section \<open>Data\<close>

datatype interrupt_reason =
    By_wall_clock | By_provider_tokens | By_tool_budget | By_stalled | By_turn_timeout | By_repeated_failure

datatype tool_status = Tool_ok | Tool_denied | Tool_aborted | Tool_error

text \<open>A field of a tool's output: missing or null, a string, or anything else.\<close>

datatype output_field = Absent | Text_field jstext | Other_field

record tool_output =
  to_status :: output_field
  to_error_code :: output_field
  to_error_code_camel :: output_field
  to_budget_limit :: output_field
  to_handoff :: bool

record tool_metadata =
  tm_status :: tool_status
  tm_error_code :: "jstext option"
  tm_summary :: jstext
  tm_handoff :: bool
  tm_budget_limit :: "jstext option"

record registered_tool =
  rt_name :: jstext
  rt_bookkeeping :: bool
  rt_has_kinds :: bool

record run_env =
  en_turn_timeout_ms :: nat
  en_tool_retries :: nat
  en_max_provider_tokens :: "nat option"
  en_tools :: "registered_tool list"
  en_deliverable_available :: bool
  en_clean :: "jstext \<Rightarrow> jstext"

record run_state =
  ex_tracker :: tracker
  ex_progress :: progress
  ex_recovery :: recovery
  ex_streaks :: "(jstext, jstext \<times> nat) jsmap"
  ex_repeated :: "(jstext \<times> jstext) option"
  ex_provider_tokens :: nat
  ex_published :: bool
  ex_budget_reason :: "interrupt_reason option"
  ex_user_aborted :: bool
  ex_aborted :: bool
  ex_last_error :: "agent_error option"
  ex_handoff :: "(jstext \<times> jstext) option"
  ex_last_response :: jstext
  ex_stalled :: "(nat \<times> int) option"
  ex_turn_timeout :: "int option"
  ex_recovery_reason :: "trigger_kind option"
  ex_pending :: "jstext option"
  ex_steers :: "jstext list"
  ex_steer_idle :: nat
  ex_turn_timer :: bool
  ex_turn_abort_pending :: bool
  ex_turn_limit_aborts :: nat

definition new_run :: "tracker \<Rightarrow> progress \<Rightarrow> run_state" where
  "new_run t p = \<lparr>ex_tracker = t, ex_progress = p, ex_recovery = new_recovery, ex_streaks = [],
     ex_repeated = None, ex_provider_tokens = 0, ex_published = False, ex_budget_reason = None,
     ex_user_aborted = False, ex_aborted = False, ex_last_error = None, ex_handoff = None,
     ex_last_response = [], ex_stalled = None, ex_turn_timeout = None, ex_recovery_reason = None,
     ex_pending = None, ex_steers = [], ex_steer_idle = 0, ex_turn_timer = False,
     ex_turn_abort_pending = False, ex_turn_limit_aborts = 0\<rparr>"

section \<open>Tool results\<close>

definition string_value :: "output_field \<Rightarrow> jstext option" where
  "string_value f = (case f of Text_field s \<Rightarrow> if 0 < length s then Some s else None | _ \<Rightarrow> None)"

definition status_name :: "tool_status \<Rightarrow> jstext" where
  "status_name st = (case st of Tool_ok \<Rightarrow> ''ok'' | Tool_denied \<Rightarrow> ''denied''
     | Tool_aborted \<Rightarrow> ''aborted'' | Tool_error \<Rightarrow> ''error'')"

definition status_of_output :: "tool_output option \<Rightarrow> bool \<Rightarrow> tool_status" where
  "status_of_output out is_error =
     (let named = (case out of None \<Rightarrow> Absent | Some r \<Rightarrow> to_status r) in
      if named = Text_field ''denied'' then Tool_denied
      else if named = Text_field ''aborted'' then Tool_aborted
      else if named = Text_field ''error'' then Tool_error
      else if is_error then Tool_error else Tool_ok)"

definition error_code_of :: "tool_output option \<Rightarrow> jstext option" where
  "error_code_of out = (case out of None \<Rightarrow> None | Some r \<Rightarrow>
     string_value (if to_error_code r = Absent then to_error_code_camel r else to_error_code r))"

definition CONFIRMATION_CODES :: "jstext list" where
  "CONFIRMATION_CODES = [''CONFIRMATION_DENIED'', ''CONFIRMATION_TIMEOUT'', ''CONFIRMATION_UNAVAILABLE'']"

definition tool_metadata_of :: "tool_output option \<Rightarrow> bool \<Rightarrow> tool_metadata" where
  "tool_metadata_of out is_error =
     (let st = status_of_output out is_error; code = error_code_of out in
      \<lparr>tm_status = st, tm_error_code = code,
       tm_summary = (case code of None \<Rightarrow> status_name st | Some c \<Rightarrow> status_name st @ '': '' @ c),
       tm_handoff = (case out of None \<Rightarrow> False
         | Some r \<Rightarrow> to_handoff r \<or> (case code of None \<Rightarrow> False | Some c \<Rightarrow> c \<in> set CONFIRMATION_CODES)),
       tm_budget_limit = (case out of None \<Rightarrow> None | Some r \<Rightarrow> string_value (to_budget_limit r))\<rparr>)"

definition RUN_FATAL_BUDGET_LIMITS :: "jstext list" where
  "RUN_FATAL_BUDGET_LIMITS = [''wall-clock'']"

definition is_run_fatal_budget :: "jstext option \<Rightarrow> bool" where
  "is_run_fatal_budget limit \<longleftrightarrow>
     (case limit of None \<Rightarrow> True | Some l \<Rightarrow> l \<in> set RUN_FATAL_BUDGET_LIMITS)"

section \<open>Interrupts and the breaker\<close>

definition interrupt :: "interrupt_reason \<Rightarrow> run_state \<Rightarrow> run_state" where
  "interrupt reason s = s\<lparr>ex_budget_reason :=
       (case ex_budget_reason s of None \<Rightarrow> Some reason | Some r \<Rightarrow> Some r), ex_aborted := True\<rparr>"

definition user_abort :: "run_state \<Rightarrow> run_state" where
  "user_abort s = s\<lparr>ex_user_aborted := True, ex_aborted := True\<rparr>"

definition failure_key :: "jstext \<Rightarrow> tool_metadata \<Rightarrow> jstext" where
  "failure_key tool m = tool @ '':'' @
     (case tm_error_code m of None \<Rightarrow> tm_summary m | Some c \<Rightarrow> c)"

definition next_streak :: "jstext \<Rightarrow> (jstext \<times> nat) option \<Rightarrow> jstext \<times> nat" where
  "next_streak key previous = (key, case previous of None \<Rightarrow> 1
     | Some (k, n) \<Rightarrow> if k = key then n + 1 else 1)"

definition track_failure_streak ::
  "run_env \<Rightarrow> int \<Rightarrow> jstext \<Rightarrow> tool_metadata \<Rightarrow> run_state \<Rightarrow> run_state" where
  "track_failure_streak env now tool m s =
     (if tm_status m = Tool_ok then s\<lparr>ex_streaks := AList.delete tool (ex_streaks s)\<rparr>
      else if tm_status m \<noteq> Tool_error then s
      else
        let streak = next_streak (failure_key tool m) (map_get (ex_streaks s) tool);
            s = s\<lparr>ex_streaks := map_set tool streak (ex_streaks s)\<rparr>
        in if snd streak < en_tool_retries env + 1 \<or> ex_repeated s \<noteq> None then s
           else if tm_error_code m = Some ''TOOL_TIMEOUT'' \<and>
                is_soft_wall_clock_exhausted now (ex_tracker s) then s
           else interrupt By_repeated_failure
             (s\<lparr>ex_repeated := Some (tool, case tm_error_code m of
                None \<Rightarrow> ''TOOL_FAILED'' | Some c \<Rightarrow> c)\<rparr>))"

section \<open>Recovery\<close>

definition disable_progress :: "run_state \<Rightarrow> run_state" where
  "disable_progress s = s\<lparr>ex_progress := fail_open (ex_progress s),
     ex_tracker := clear_progress_freeze (ex_tracker s), ex_turn_timer := False\<rparr>"

definition exploration_open :: "int \<Rightarrow> run_state \<Rightarrow> bool" where
  "exploration_open now s \<longleftrightarrow>
     \<not> bt_frozen (ex_tracker s) \<and> \<not> is_soft_wall_clock_exhausted now (ex_tracker s)"

definition recovery_coverage :: "progress_sources \<Rightarrow> fill_coverage option" where
  "recovery_coverage src = (case so_census src of
     None \<Rightarrow> None
   | Some census \<Rightarrow>
       let c = fill_coverage_of census (al_recorded (so_ledger src)) in
       Some (case et_fill (so_terms src) of
         None \<Rightarrow> c
       | Some f \<Rightarrow>
           if ft_coverage f = Listed
           then c\<lparr>fo_remaining := filter (\<lambda>(ref, label, g).
               normalize_delivery_name label \<in> set (map normalize_delivery_name (ft_fields f)))
             (fo_remaining c)\<rparr>
           else c))"

definition offered_scopes :: "run_env \<Rightarrow> progress_sources \<Rightarrow> int \<Rightarrow> run_state \<Rightarrow> artifact_scope list" where
  "offered_scopes env src now s =
     (if en_deliverable_available env \<and> 0 < remaining_deliverable_captures (ex_tracker s)
      then filter (\<lambda>scope. exploration_open now s \<or>
             capture_exemption_available src (ex_progress s) (scope_name scope)) [Viewport, Full_page]
      else [])"

definition recovery_input ::
  "run_env \<Rightarrow> progress_sources \<Rightarrow> int \<Rightarrow> rung \<Rightarrow> recovery_trigger \<Rightarrow> run_state \<Rightarrow> recovery_message_input" where
  "recovery_input env src now r t s =
     \<lparr>rm_rung = r, rm_trigger = t,
      rm_state = \<lparr>nm_exploration_open = Some (exploration_open now s), nm_items = live_items src,
        nm_coverage = recovery_coverage src, nm_tools = to_jsset (map rt_name (en_tools env)),
        nm_field_kinds = list_ex (\<lambda>x. rt_name x = ''browser_observe'' \<and> rt_has_kinds x) (en_tools env),
        nm_capture_scopes = offered_scopes env src now s, nm_clean = en_clean env\<rparr>,
      rm_exploration_ms = exploration_remaining_ms now (ex_tracker s),
      rm_publication_ms = map_option of_int (publication_headroom_ms (ex_tracker s))\<rparr>"

text \<open>What firing a rung does to the run: the freeze closes exploration, the stop interrupts.\<close>

definition freeze_effect :: "rung \<Rightarrow> recovery_trigger \<Rightarrow> run_state \<Rightarrow> run_state" where
  "freeze_effect r t s = (if r = Freeze
     then s\<lparr>ex_recovery_reason := Some (kind_of_trigger t),
            ex_tracker := freeze_exploration (ex_tracker s)\<rparr>
     else s)"

definition stop_effect :: "rung \<Rightarrow> recovery_trigger \<Rightarrow> run_state \<Rightarrow> run_state" where
  "stop_effect r t s = (if r = Stop
     then (case t of
         Stalled_for calls ms \<Rightarrow> interrupt By_stalled (s\<lparr>ex_stalled := Some (calls, ms)\<rparr>)
       | Thinking_for ms \<Rightarrow> interrupt By_turn_timeout (s\<lparr>ex_turn_timeout := Some ms\<rparr>))
     else s)"

text \<open>\<open>fireRecovery\<close>: None where building the message throws.\<close>

definition fire_recovery ::
  "run_env \<Rightarrow> progress_sources \<Rightarrow> int \<Rightarrow> rung \<Rightarrow> recovery_trigger \<Rightarrow> run_state \<Rightarrow> (run_state \<times> jstext) option" where
  "fire_recovery env src now r t s =
     map_option (\<lambda>(msg, _). (stop_effect r t (freeze_effect r t s), msg))
       (build_recovery_message (recovery_input env src now r t s))"

definition trigger_recovery :: "recovery_trigger \<Rightarrow> int \<Rightarrow> run_state \<Rightarrow> run_state \<times> rung option" where
  "trigger_recovery t now s =
     (case on_trigger t now (ex_recovery s, ex_progress s) of
        ((r, p), fired) \<Rightarrow> (s\<lparr>ex_recovery := r, ex_progress := p\<rparr>, fired))"

definition refuse_recovery :: "int \<Rightarrow> run_state \<Rightarrow> run_state \<times> rung option" where
  "refuse_recovery now s =
     (case on_refusal_after_freeze (bt_frozen_refusals (ex_tracker s)) now (ex_recovery s, ex_progress s) of
        ((r, p), fired) \<Rightarrow> (s\<lparr>ex_recovery := r, ex_progress := p\<rparr>, fired))"

text \<open>\<open>session.steer\<close> throws, or its answer is awaited in the steering queue.\<close>

definition steer :: "bool \<Rightarrow> jstext \<Rightarrow> run_state \<Rightarrow> run_state" where
  "steer throws msg s =
     (if throws
      then (disable_progress s)\<lparr>ex_steer_idle := ex_steer_idle s + 1, ex_pending := Some msg\<rparr>
      else s\<lparr>ex_steers := ex_steers s @ [msg]\<rparr>)"

datatype steer_answer = Queued | Idle | Rejected

definition steer_settles :: "steer_answer \<Rightarrow> run_state \<Rightarrow> run_state" where
  "steer_settles a s = (case ex_steers s of
     [] \<Rightarrow> s
   | msg # rest \<Rightarrow>
       let s = s\<lparr>ex_steers := rest\<rparr> in
       if a = Queued then s
       else (if a = Rejected then disable_progress s else s)
              \<lparr>ex_steer_idle := ex_steer_idle s + 1, ex_pending := Some msg\<rparr>)"

section \<open>Session events\<close>

definition turn_started :: "run_state \<Rightarrow> run_state" where
  "turn_started s = s\<lparr>ex_turn_timer := (enforcing (ex_progress s) \<and> \<not> ex_aborted s)\<rparr>"

text \<open>Milliseconds as the text of a number of seconds.\<close>

fun pad_thousandths :: "nat \<Rightarrow> jstext" where
  "pad_thousandths n = (if n mod 10 = 0 then (if n mod 100 = 0 then show_nat (n div 100)
       else (if n < 100 then ''0'' else []) @ show_nat (n div 10))
     else (if n < 10 then ''00'' else if n < 100 then ''0'' else []) @ show_nat n)"

definition show_seconds :: "nat \<Rightarrow> jstext" where
  "show_seconds ms = show_nat (ms div 1000) @
     (if ms mod 1000 = 0 then [] else ''.'' @ pad_thousandths (ms mod 1000))"

definition turn_limit_message :: "run_env \<Rightarrow> jstext \<Rightarrow> jstext" where
  "turn_limit_message env msg = ''Your last turn exceeded the '' @ show_seconds (en_turn_timeout_ms env) @
     ''s thinking limit and was stopped.'' @ [CHR 0x0A] @ msg"

definition turn_timer_fires :: "run_env \<Rightarrow> progress_sources \<Rightarrow> int \<Rightarrow> run_state \<Rightarrow> run_state" where
  "turn_timer_fires env src now s =
     (if \<not> ex_turn_timer s then s
      else
        let t = Thinking_for (int (en_turn_timeout_ms env)) in
        (case trigger_recovery t now (s\<lparr>ex_turn_timer := False\<rparr>) of
           (s1, None) \<Rightarrow> s1
         | (s1, Some r) \<Rightarrow> (case fire_recovery env src now r t s1 of
             None \<Rightarrow> disable_progress s1
           | Some (s2, msg) \<Rightarrow>
               if r = Stop then s2
               else s2\<lparr>ex_turn_limit_aborts := ex_turn_limit_aborts s2 + 1,
                       ex_pending := Some (turn_limit_message env msg),
                       ex_turn_abort_pending := True\<rparr>)))"

text \<open>A pattern with word boundaries on both sides occurs in the text.\<close>

fun bounded_occurrence :: "jstext \<Rightarrow> bool \<Rightarrow> jstext \<Rightarrow> bool" where
  "bounded_occurrence pat after_word [] = False"
| "bounded_occurrence pat after_word (c # s) =
     ((\<not> after_word \<and> starts_with pat (c # s) \<and>
        (case drop (length pat) (c # s) of [] \<Rightarrow> True | d # _ \<Rightarrow> \<not> is_word_char d)) \<or>
      bounded_occurrence pat (is_word_char c) s)"

definition VERIFICATION_WORDS :: "jstext list" where
  "VERIFICATION_WORDS = [''captcha'', ''bot-wall'', ''bot wall'', ''mfa'']"

definition reports_verification :: "jstext \<Rightarrow> bool" where
  "reports_verification s \<longleftrightarrow>
     list_ex (\<lambda>w. bounded_occurrence w False (to_lower s)) VERIFICATION_WORDS"

definition verification_handoff :: "jstext \<times> jstext" where
  "verification_handoff = (''The site requires human verification or authentication.'',
     ''Complete the verification manually, then start a fresh run.'')"

definition assistant_text :: "jstext \<Rightarrow> run_state \<Rightarrow> run_state" where
  "assistant_text txt s =
     (let s = s\<lparr>ex_last_response := ex_last_response s @ txt\<rparr> in
      if reports_verification txt
      then s\<lparr>ex_handoff := (case ex_handoff s of None \<Rightarrow> Some verification_handoff | Some h \<Rightarrow> Some h)\<rparr>
      else s)"

definition restriction_action :: jstext where
  "restriction_action = ''Resolve the site restriction manually, then retry only if policy permits.''"

definition role_of_tool :: "run_env \<Rightarrow> jstext \<Rightarrow> call_role" where
  "role_of_tool env tool = (case find (\<lambda>x. rt_name x = tool) (en_tools env) of
     None \<Rightarrow> Counted | Some x \<Rightarrow> if rt_bookkeeping x then Bookkeeping else Counted)"

text \<open>What the checkpoint after a tool call sets off: a refusal counted against the freeze may stop
  the run, and otherwise a stalled counted call fires the next rung.\<close>

definition fire_stall ::
  "run_env \<Rightarrow> progress_sources \<Rightarrow> int \<Rightarrow> bool \<Rightarrow> recovery_trigger \<Rightarrow> run_state \<Rightarrow> run_state" where
  "fire_stall env src now steer_throws t s =
     (case trigger_recovery t now s of
        (s1, None) \<Rightarrow> s1
      | (s1, Some r) \<Rightarrow> (case fire_recovery env src now r t s1 of
          None \<Rightarrow> disable_progress s1
        | Some (s2, msg) \<Rightarrow> if r = Stop then s2 else steer steer_throws msg s2))"

definition after_checkpoint ::
  "run_env \<Rightarrow> progress_sources \<Rightarrow> int \<Rightarrow> bool \<Rightarrow> tool_metadata \<Rightarrow> call_role \<Rightarrow> progress_checkpoint \<Rightarrow> run_state \<Rightarrow> run_state" where
  "after_checkpoint env src now steer_throws m role c s =
     (let t = Stalled_for (pc_no_progress_calls c) (pc_ms_since_progress c);
          (s1, refused) = (if tm_budget_limit m = Some ''stalled'' then refuse_recovery now s else (s, None))
      in case refused of
        Some r \<Rightarrow> (case fire_recovery env src now r t s1 of
            None \<Rightarrow> disable_progress s1 | Some (s2, _) \<Rightarrow> s2)
      | None \<Rightarrow>
          if role = Counted \<and> is_stalled c (is_soft_wall_clock_exhausted now (ex_tracker s1))
          then fire_stall env src now steer_throws t s1
          else s1)"

record finished_call =
  fc_name :: jstext
  fc_output :: "tool_output option"
  fc_is_error :: bool
  fc_sources :: progress_sources
  fc_now :: int
  fc_steer_throws :: bool

definition note_result :: "run_env \<Rightarrow> finished_call \<Rightarrow> run_state \<Rightarrow> run_state" where
  "note_result env f s =
     (let m = tool_metadata_of (fc_output f) (fc_is_error f);
          s = (if fc_name f = ''result_publish'' \<and> tm_status m = Tool_ok then s\<lparr>ex_published := True\<rparr> else s);
          s = (if tm_error_code m = Some ''BUDGET_EXHAUSTED'' \<and> is_run_fatal_budget (tm_budget_limit m)
               then interrupt By_tool_budget s else s);
          s = (if tm_handoff m then s\<lparr>ex_handoff := Some (tm_summary m, restriction_action)\<rparr> else s)
      in track_failure_streak env (fc_now f) (fc_name f) m s)"

definition tool_finished :: "run_env \<Rightarrow> finished_call \<Rightarrow> run_state \<Rightarrow> run_state" where
  "tool_finished env f s =
     (let m = tool_metadata_of (fc_output f) (fc_is_error f);
          s = note_result env f s;
          role = role_of_tool env (fc_name f);
          (p, c) = checkpoint role (fc_sources f) (fc_now f) (ex_progress s);
          s = s\<lparr>ex_progress := p\<rparr>
      in if enforcing p \<and> ex_repeated s = None \<and> \<not> ex_aborted s
         then after_checkpoint env (fc_sources f) (fc_now f) (fc_steer_throws f) m role c s
         else s)"

definition turn_finished :: "run_env \<Rightarrow> nat option \<Rightarrow> nat option \<Rightarrow> run_state \<Rightarrow> run_state" where
  "turn_finished env inp outp s =
     (let tokens = ex_provider_tokens s + (case inp of None \<Rightarrow> 0 | Some n \<Rightarrow> n) +
            (case outp of None \<Rightarrow> 0 | Some n \<Rightarrow> n);
          s = s\<lparr>ex_turn_timer := False, ex_provider_tokens := tokens\<rparr>
      in case en_max_provider_tokens env of
        None \<Rightarrow> s
      | Some most \<Rightarrow> if most \<le> tokens then interrupt By_provider_tokens s else s)"

text \<open>The end of a prompt run, once the steering answers are in: the message of the next prompt, or
  None when the run's promise resolves.\<close>

definition prompt_ended :: "run_state \<Rightarrow> run_state \<times> jstext option" where
  "prompt_ended s =
     (let s = s\<lparr>ex_turn_timer := False, ex_turn_abort_pending := False\<rparr> in
      case ex_pending s of
        None \<Rightarrow> (s, None)
      | Some msg \<Rightarrow>
          if ex_aborted s \<or> ex_published s then (s, None)
          else (s\<lparr>ex_pending := None, ex_last_response := []\<rparr>, Some msg))"

datatype run_event =
    Turn_started
  | Output_started
  | Turn_timer progress_sources int
  | Assistant_text jstext
  | Tool_finished finished_call
  | Turn_finished "nat option" "nat option"
  | Session_failed agent_error
  | Steer_settles steer_answer
  | Prompt_ended
  | Wall_timer
  | User_aborts
  | Middleware_budget budget_op
  | Middleware_reserves progress_sources jstext
  | Progress_fails

fun run_step :: "run_env \<Rightarrow> run_state \<Rightarrow> run_event \<Rightarrow> run_state" where
  "run_step env s Turn_started = turn_started s"
| "run_step env s Output_started = s\<lparr>ex_turn_timer := False\<rparr>"
| "run_step env s (Turn_timer src now) = turn_timer_fires env src now s"
| "run_step env s (Assistant_text txt) = assistant_text txt s"
| "run_step env s (Tool_finished f) = tool_finished env f s"
| "run_step env s (Turn_finished i u) = turn_finished env i u s"
| "run_step env s (Session_failed e) = s\<lparr>ex_last_error := Some e\<rparr>"
| "run_step env s (Steer_settles a) = steer_settles a s"
| "run_step env s Prompt_ended = (if ex_steers s = [] then fst (prompt_ended s) else s)"
| "run_step env s Wall_timer = interrupt By_wall_clock s"
| "run_step env s User_aborts = user_abort s"
| "run_step env s (Middleware_budget b) =
     (if b \<in> {Op_freeze, Op_clear} then s else s\<lparr>ex_tracker := budget_step (ex_tracker s) b\<rparr>)"
| "run_step env s (Middleware_reserves src scope) =
     s\<lparr>ex_progress := reserve_exempt_capture src scope (ex_progress s)\<rparr>"
| "run_step env s Progress_fails = disable_progress s"

definition run_events :: "run_env \<Rightarrow> run_state \<Rightarrow> run_event list \<Rightarrow> run_state" where
  "run_events env s es = foldl (run_step env) s es"

section \<open>The terminal outcome\<close>

datatype session_result = Session_completed | Session_failed_result | Session_aborted

definition aborted_error :: agent_error where
  "aborted_error = \<lparr>er_code = ''AGENT_ABORTED'', er_message = ''The agentic run was interrupted.''\<rparr>"

definition repeated_error :: "jstext \<times> jstext \<Rightarrow> agent_error" where
  "repeated_error r = \<lparr>er_code = ''AGENT_TOOL_FAILED'', er_message =
     ''The run was stopped after the agent repeatedly failed the same action ('' @ fst r @ '': '' @
     snd r @ '') without making progress. Re-run once the underlying cause is resolved.''\<rparr>"

definition stalled_error :: "live_item list \<Rightarrow> agent_error" where
  "stalled_error items = \<lparr>er_code = ''AGENT_STALLED'', er_message =
     ''Stopped: no task progress after one recovery message ('' @
     (if render_progress_line items = [] then ''requirements unmet'' else render_progress_line items) @
     ''). Nothing was published.''\<rparr>"

definition turn_timeout_error :: "int \<Rightarrow> agent_error" where
  "turn_timeout_error ms = \<lparr>er_code = ''AGENT_TURN_TIMEOUT'', er_message =
     ''Stopped: provider turns kept exceeding the '' @ show_seconds (nat ms) @
     ''s thinking limit. Raise --turn-timeout or lower --thinking.''\<rparr>"

definition interrupt_name :: "interrupt_reason \<Rightarrow> jstext" where
  "interrupt_name r = (case r of By_wall_clock \<Rightarrow> ''wall-clock'' | By_provider_tokens \<Rightarrow> ''provider-tokens''
     | By_tool_budget \<Rightarrow> ''tool-budget'' | By_stalled \<Rightarrow> ''stalled''
     | By_turn_timeout \<Rightarrow> ''turn-timeout'' | By_repeated_failure \<Rightarrow> ''repeated-tool-failure'')"

definition budget_error :: "interrupt_reason \<Rightarrow> agent_error" where
  "budget_error r = \<lparr>er_code = ''AGENT_BUDGET_EXHAUSTED'',
     er_message = ''Agent budget exhausted ('' @ interrupt_name r @ '').''\<rparr>"

definition provider_error :: agent_error where
  "provider_error = \<lparr>er_code = ''AGENT_TOOL_FAILED'', er_message = ''The provider run failed.''\<rparr>"

definition excerpt_text :: "jstext \<Rightarrow> nat \<Rightarrow> jstext option" where
  "excerpt_text s most = (let c = collapse_spaces s in
     if length c = 0 then None
     else if length c \<le> most then Some c else Some (take most c @ ''...''))"

definition unpublished_note :: "jstext \<Rightarrow> bool \<Rightarrow> jstext" where
  "unpublished_note response written =
     (if length (trim response) = 0 \<or> \<not> written then []
      else '' The full unvalidated response was saved to result.md.'')"

definition completion_error :: "jstext \<Rightarrow> bool \<Rightarrow> agent_error" where
  "completion_error response written = \<lparr>er_code = completion_missing, er_message =
     ''The session ended without a successful result publication after one completion nudge.'' @
     unpublished_note response written @
     (case excerpt_text response 400 of None \<Rightarrow> [] | Some e \<Rightarrow> '' Final agent message: '' @ e)\<rparr>"

text \<open>\<open>brief\<close> is what reading the published Brief back yields, \<open>written\<close> whether saving the
  response as \<open>result.md\<close> worked.\<close>

definition resolve_terminal_outcome ::
  "brief_ref option \<Rightarrow> bool \<Rightarrow> live_item list \<Rightarrow> session_result option \<Rightarrow> run_state \<Rightarrow> outcome_draft" where
  "resolve_terminal_outcome brief written items result s =
     (if ex_user_aborted s then Draft_other (Run_aborted aborted_error)
      else case (if ex_published s then brief else None) of
        Some b \<Rightarrow> Draft_published b
      | None \<Rightarrow> Draft_other
        (case ex_repeated s of Some r \<Rightarrow> Run_failed (repeated_error r)
         | None \<Rightarrow> (case ex_stalled s of Some _ \<Rightarrow> Run_failed (stalled_error items)
         | None \<Rightarrow> (case ex_turn_timeout s of Some ms \<Rightarrow> Run_failed (turn_timeout_error ms)
         | None \<Rightarrow> (case ex_budget_reason s of Some r \<Rightarrow> Budget_ended (budget_error r)
         | None \<Rightarrow>
             if result = Some Session_aborted then Run_aborted aborted_error
             else if result = Some Session_failed_result \<or> ex_last_error s \<noteq> None
             then Run_failed (case ex_last_error s of None \<Rightarrow> provider_error | Some e \<Rightarrow> e)
             else (case ex_handoff s of Some (blocker, act) \<Rightarrow> Handed_off blocker act
               | None \<Rightarrow> Run_failed (completion_error (ex_last_response s) written)))))))"

fun INTERRUPT_TERMINATIONS :: "interrupt_reason \<Rightarrow> termination_reason" where
  "INTERRUPT_TERMINATIONS By_wall_clock = Wall_clock_hard"
| "INTERRUPT_TERMINATIONS By_provider_tokens = Provider_tokens"
| "INTERRUPT_TERMINATIONS By_tool_budget = Tool_budget"
| "INTERRUPT_TERMINATIONS By_stalled = Run_stalled"
| "INTERRUPT_TERMINATIONS By_turn_timeout = Turn_timeout"
| "INTERRUPT_TERMINATIONS By_repeated_failure = Repeated_tool_failure"

definition late_reason :: "run_state \<Rightarrow> termination_reason" where
  "late_reason s = (case ex_recovery_reason s of
     Some Trigger_stalled \<Rightarrow> Run_stalled
   | Some Trigger_turn_timeout \<Rightarrow> Turn_timeout
   | None \<Rightarrow> if bt_soft_wind_down (ex_tracker s) then Wall_clock_soft else Model_finished)"

definition termination_reason_for :: "session_result option \<Rightarrow> run_state \<Rightarrow> termination_reason" where
  "termination_reason_for result s =
     (if ex_user_aborted s then User_abort
      else case ex_budget_reason s of
        Some r \<Rightarrow> INTERRUPT_TERMINATIONS r
      | None \<Rightarrow>
          if \<not> ex_published s \<and> ex_handoff s \<noteq> None then Handoff_raised
          else if \<not> ex_published s \<and> (result = Some Session_failed_result \<or> ex_last_error s \<noteq> None)
          then Provider_failed
          else late_reason s)"

section \<open>Lemmas\<close>

text \<open>\<open>x \<noteq> None\<close> is left as it is: the flags below are compared, never taken apart.\<close>

declare not_None_eq [simp del]

subsection \<open>What the parts leave alone\<close>

lemma interrupt_fields [simp]:
  "ex_recovery (interrupt r s) = ex_recovery s" "ex_pending (interrupt r s) = ex_pending s"
  "ex_steers (interrupt r s) = ex_steers s" "ex_tracker (interrupt r s) = ex_tracker s"
  "ex_progress (interrupt r s) = ex_progress s" "ex_aborted (interrupt r s)"
  "ex_user_aborted (interrupt r s) = ex_user_aborted s" "ex_stalled (interrupt r s) = ex_stalled s"
  "ex_turn_timeout (interrupt r s) = ex_turn_timeout s" "ex_repeated (interrupt r s) = ex_repeated s"
  "ex_recovery_reason (interrupt r s) = ex_recovery_reason s"
  "ex_budget_reason (interrupt r s) = (case ex_budget_reason s of None \<Rightarrow> Some r | Some x \<Rightarrow> Some x)"
  by (simp_all add: interrupt_def)

lemma disable_fields [simp]:
  "ex_recovery (disable_progress s) = ex_recovery s" "ex_pending (disable_progress s) = ex_pending s"
  "ex_steers (disable_progress s) = ex_steers s" "ex_aborted (disable_progress s) = ex_aborted s"
  "ex_user_aborted (disable_progress s) = ex_user_aborted s" "ex_stalled (disable_progress s) = ex_stalled s"
  "ex_turn_timeout (disable_progress s) = ex_turn_timeout s" "ex_repeated (disable_progress s) = ex_repeated s"
  "ex_recovery_reason (disable_progress s) = ex_recovery_reason s"
  "ex_budget_reason (disable_progress s) = ex_budget_reason s"
  "\<not> bt_frozen (ex_tracker (disable_progress s))"
  by (simp_all add: disable_progress_def clear_progress_freeze_def)

text \<open>The flags that decide how a run ends; everything else may change freely under the invariant.\<close>

definition same_flags :: "run_state \<Rightarrow> run_state \<Rightarrow> bool" where
  "same_flags s s' \<longleftrightarrow> ex_recovery s' = ex_recovery s \<and> ex_aborted s' = ex_aborted s \<and>
     ex_user_aborted s' = ex_user_aborted s \<and> ex_stalled s' = ex_stalled s \<and>
     ex_turn_timeout s' = ex_turn_timeout s \<and> ex_repeated s' = ex_repeated s \<and>
     ex_recovery_reason s' = ex_recovery_reason s \<and> ex_budget_reason s' = ex_budget_reason s \<and>
     bt_frozen (ex_tracker s') = bt_frozen (ex_tracker s)"

text \<open>The rungs that must have fired for the run to be marked the way it is.\<close>

definition rungs_needed :: "run_state \<Rightarrow> nat" where
  "rungs_needed s =
     (if ex_stalled s \<noteq> None \<or> ex_turn_timeout s \<noteq> None then 3
      else if bt_frozen (ex_tracker s) \<or> ex_recovery_reason s \<noteq> None then 2 else 0)"

definition flag_inv :: "run_state \<Rightarrow> bool" where
  "flag_inv s \<longleftrightarrow>
     (ex_aborted s \<longleftrightarrow> ex_budget_reason s \<noteq> None \<or> ex_user_aborted s) \<and>
     (ex_stalled s \<noteq> None \<longleftrightarrow> ex_budget_reason s = Some By_stalled) \<and>
     (ex_turn_timeout s \<noteq> None \<longrightarrow> ex_budget_reason s \<noteq> None) \<and>
     (ex_budget_reason s = Some By_turn_timeout \<longrightarrow> ex_turn_timeout s \<noteq> None) \<and>
     (ex_budget_reason s = Some By_repeated_failure \<longrightarrow> ex_repeated s \<noteq> None) \<and>
     (ex_repeated s \<noteq> None \<longrightarrow> ex_budget_reason s \<noteq> None)"

definition run_inv :: "run_state \<Rightarrow> bool" where
  "run_inv s \<longleftrightarrow> recovery_inv (ex_recovery s) \<and> rungs_needed s \<le> rc_index (ex_recovery s) \<and> flag_inv s"

lemma marks_frame [simp]:
  "rungs_needed (s\<lparr>ex_recovery := r\<rparr>) = rungs_needed s" "flag_inv (s\<lparr>ex_recovery := r\<rparr>) = flag_inv s"
  "rungs_needed (s\<lparr>ex_progress := p\<rparr>) = rungs_needed s" "flag_inv (s\<lparr>ex_progress := p\<rparr>) = flag_inv s"
  "rungs_needed (s\<lparr>ex_streaks := x\<rparr>) = rungs_needed s" "flag_inv (s\<lparr>ex_streaks := x\<rparr>) = flag_inv s"
  "rungs_needed (s\<lparr>ex_repeated := y\<rparr>) = rungs_needed s"
  "rungs_needed (s\<lparr>ex_user_aborted := b, ex_aborted := b'\<rparr>) = rungs_needed s"
  "flag_inv (s\<lparr>ex_recovery_reason := k, ex_tracker := tr\<rparr>) = flag_inv s"
  by (simp_all add: rungs_needed_def flag_inv_def)

lemma run_inv_reasons:
  assumes "run_inv s" and "ex_budget_reason s = None"
  shows "ex_repeated s = None" "ex_stalled s = None" "ex_turn_timeout s = None"
proof -
  show "ex_repeated s = None" using assms by (cases "ex_repeated s") (simp_all add: run_inv_def flag_inv_def)
  show "ex_stalled s = None" using assms by (cases "ex_stalled s") (simp_all add: run_inv_def flag_inv_def)
  show "ex_turn_timeout s = None" using assms by (cases "ex_turn_timeout s") (simp_all add: run_inv_def flag_inv_def)
qed

lemma run_inv_same: "run_inv s \<Longrightarrow> same_flags s s' \<Longrightarrow> run_inv s'"
proof -
  assume inv: "run_inv s" and same: "same_flags s s'"
  have "rungs_needed s' = rungs_needed s" "flag_inv s' = flag_inv s"
    using same by (simp_all add: same_flags_def rungs_needed_def flag_inv_def)
  with inv same show ?thesis by (simp add: run_inv_def same_flags_def)
qed

lemma run_inv_disable: "run_inv s \<Longrightarrow> run_inv (disable_progress s)"
  by (auto simp: run_inv_def flag_inv_def rungs_needed_def split: if_splits)

lemma rungs_needed_interrupt [simp]: "rungs_needed (interrupt r s) = rungs_needed s"
  by (simp add: rungs_needed_def)

lemma flag_inv_interrupt:
  assumes "flag_inv s" and "r = By_stalled \<longrightarrow> ex_budget_reason s \<noteq> None"
    and "r = By_turn_timeout \<longrightarrow> ex_turn_timeout s \<noteq> None"
    and "r = By_repeated_failure \<longrightarrow> ex_repeated s \<noteq> None"
  shows "flag_inv (interrupt r s)"
  using assms by (cases "ex_budget_reason s") (auto simp: flag_inv_def)

lemma run_inv_interrupt:
  "run_inv s \<Longrightarrow> r \<in> {By_wall_clock, By_provider_tokens, By_tool_budget} \<Longrightarrow> run_inv (interrupt r s)"
  by (auto simp: run_inv_def flag_inv_interrupt)

lemma run_inv_advance:
  "run_inv s \<Longrightarrow> recovery_inv r \<Longrightarrow> rc_index (ex_recovery s) \<le> rc_index r \<Longrightarrow>
     run_inv (s\<lparr>ex_recovery := r, ex_progress := p\<rparr>)"
  by (simp add: run_inv_def)

text \<open>The interrupts that come with their own record of the cause.\<close>

lemma flag_inv_marked:
  assumes "flag_inv s"
  shows "flag_inv (interrupt By_repeated_failure (s\<lparr>ex_repeated := Some y\<rparr>))"
    and "flag_inv (interrupt By_turn_timeout (s\<lparr>ex_turn_timeout := Some ms\<rparr>))"
    and "\<not> ex_aborted s \<Longrightarrow> flag_inv (interrupt By_stalled (s\<lparr>ex_stalled := Some x\<rparr>))"
  using assms by (cases "ex_budget_reason s"; auto simp: flag_inv_def)+

lemma run_inv_streak: "run_inv s \<Longrightarrow> run_inv (track_failure_streak env now tool m s)"
proof -
  assume inv: "run_inv s"
  have plain: "run_inv (s\<lparr>ex_streaks := x\<rparr>)" for x
    by (rule run_inv_same [OF inv]) (simp add: same_flags_def)
  have trip: "run_inv (interrupt By_repeated_failure (s\<lparr>ex_streaks := x, ex_repeated := Some y\<rparr>))" for x y
    using inv flag_inv_marked(1) [of "s\<lparr>ex_streaks := x\<rparr>" y] by (simp add: run_inv_def)
  show ?thesis
    using inv plain trip by (simp add: track_failure_streak_def Let_def)
qed

lemma run_inv_note: "run_inv s \<Longrightarrow> run_inv (note_result env f s)"
proof -
  assume inv: "run_inv s"
  have p: "run_inv (s\<lparr>ex_published := b\<rparr>)" if "run_inv s" for s b
    by (rule run_inv_same [OF that]) (simp add: same_flags_def)
  have h: "run_inv (s\<lparr>ex_handoff := b\<rparr>)" if "run_inv s" for s b
    by (rule run_inv_same [OF that]) (simp add: same_flags_def)
  show ?thesis
    unfolding note_result_def Let_def
    by (intro run_inv_streak) (use inv in \<open>simp add: p h run_inv_interrupt\<close>)
qed

subsection \<open>Recovery steps\<close>

lemma trigger_recovery_eq:
  "trigger_recovery t now s =
     (if rc_index (ex_recovery s) < 3
      then (s\<lparr>ex_recovery := (ex_recovery s)\<lparr>rc_index := rc_index (ex_recovery s) + 1,
                rc_rungs := rc_rungs (ex_recovery s) @ [RECOVERY_LADDER ! rc_index (ex_recovery s)],
                rc_triggers := rc_triggers (ex_recovery s) @ [kind_of_trigger t]\<rparr>,
              ex_progress := rebase_progress now (ex_progress s)\<rparr>,
            Some (RECOVERY_LADDER ! rc_index (ex_recovery s)))
      else (s, None))"
  by (simp add: trigger_recovery_def on_trigger_cases)

lemma trigger_recovery_inv:
  assumes "run_inv s" and "trigger_recovery t now s = (s', fired)"
  shows "run_inv s' \<and> ex_aborted s' = ex_aborted s \<and> ex_pending s' = ex_pending s \<and>
     ex_steers s' = ex_steers s \<and> rc_index (ex_recovery s) \<le> rc_index (ex_recovery s') \<and>
     (case fired of None \<Rightarrow> True
      | Some r \<Rightarrow> rc_index (ex_recovery s') = Suc (rc_index (ex_recovery s)) \<and>
          rc_index (ex_recovery s) < 3 \<and> r = RECOVERY_LADDER ! rc_index (ex_recovery s))"
proof (cases "rc_index (ex_recovery s) < 3")
  case False
  with assms show ?thesis by (auto simp: trigger_recovery_eq)
next
  case True
  let ?r = "(ex_recovery s)\<lparr>rc_index := rc_index (ex_recovery s) + 1,
      rc_rungs := rc_rungs (ex_recovery s) @ [RECOVERY_LADDER ! rc_index (ex_recovery s)],
      rc_triggers := rc_triggers (ex_recovery s) @ [kind_of_trigger t]\<rparr>"
  have s': "s' = s\<lparr>ex_recovery := ?r, ex_progress := rebase_progress now (ex_progress s)\<rparr>"
    and fired: "fired = Some (RECOVERY_LADDER ! rc_index (ex_recovery s))"
    using assms(2) True by (auto simp: trigger_recovery_eq)
  have "recovery_inv ?r"
    using on_trigger_inv [of "ex_recovery s" t now "ex_progress s"] assms(1) True
    by (simp add: on_trigger_cases run_inv_def)
  then have "run_inv s'" unfolding s' by (intro run_inv_advance [OF assms(1)]) simp_all
  with True show ?thesis by (simp add: s' fired)
qed

lemma refuse_recovery_inv:
  assumes "run_inv s" and "refuse_recovery now s = (s', fired)"
  shows "run_inv s' \<and> ex_aborted s' = ex_aborted s \<and> ex_pending s' = ex_pending s \<and>
     ex_steers s' = ex_steers s \<and> rc_index (ex_recovery s) \<le> rc_index (ex_recovery s') \<and>
     (fired \<noteq> None \<longrightarrow> fired = Some Stop \<and> rc_index (ex_recovery s') = 3)"
proof -
  let ?s = "s\<lparr>ex_recovery := (ex_recovery s)\<lparr>rc_refused_after_freeze := bt_frozen_refusals (ex_tracker s)\<rparr>\<rparr>"
  have inv: "run_inv ?s"
    using assms(1) by (simp add: run_inv_def recovery_inv_def)
  have eq: "refuse_recovery now s =
      (if rc_index (ex_recovery s) = 2 \<and> 2 \<le> bt_frozen_refusals (ex_tracker s)
       then trigger_recovery (Stalled_for (bt_frozen_refusals (ex_tracker s)) 0) now ?s
       else (?s, None))"
    by (simp add: refuse_recovery_def on_refusal_cases trigger_recovery_def split: prod.split)
  show ?thesis
  proof (cases "rc_index (ex_recovery s) = 2 \<and> 2 \<le> bt_frozen_refusals (ex_tracker s)")
    case False
    with eq assms(2) have "s' = ?s" "fired = None" by (simp_all only: if_False prod.inject)
    with inv show ?thesis by simp
  next
    case True
    with eq assms(2) have
      t: "trigger_recovery (Stalled_for (bt_frozen_refusals (ex_tracker s)) 0) now ?s = (s', fired)"
      by simp
    from trigger_recovery_inv [OF inv t] True show ?thesis
      by (auto simp: RECOVERY_LADDER_def split: option.splits)
  qed
qed

lemma rungs_needed_le: "rungs_needed s \<le> 3"
  by (simp add: rungs_needed_def)

lemma freeze_effect_inv:
  assumes "run_inv s" and "r = Freeze \<Longrightarrow> 2 \<le> rc_index (ex_recovery s)"
  shows "run_inv (freeze_effect r t s)"
proof (cases "r = Freeze")
  case False
  with assms show ?thesis by (simp add: freeze_effect_def)
next
  case True
  have "rungs_needed (s\<lparr>ex_recovery_reason := k, ex_tracker := tr\<rparr>) \<le> max 2 (rungs_needed s)" for k tr
    by (simp add: rungs_needed_def)
  from order_trans [OF this] True assms show ?thesis by (simp add: freeze_effect_def run_inv_def)
qed

lemma fire_recovery_inv:
  assumes inv: "run_inv s" and fire: "fire_recovery env src now r t s = Some (s', msg)"
    and freeze: "r = Freeze \<Longrightarrow> 2 \<le> rc_index (ex_recovery s)"
    and stop: "r = Stop \<Longrightarrow> 3 \<le> rc_index (ex_recovery s)"
    and open_run: "\<And>n ms. r = Stop \<Longrightarrow> t = Stalled_for n ms \<Longrightarrow> \<not> ex_aborted s"
  shows "run_inv s' \<and> ex_pending s' = ex_pending s \<and> ex_steers s' = ex_steers s \<and>
     ex_recovery s' = ex_recovery s"
proof -
  let ?s1 = "freeze_effect r t s"
  have s': "s' = stop_effect r t ?s1"
    using fire by (auto simp: fire_recovery_def)
  have inv1: "run_inv ?s1" by (rule freeze_effect_inv [OF inv freeze])
  have same1: "ex_pending ?s1 = ex_pending s" "ex_steers ?s1 = ex_steers s"
    "ex_recovery ?s1 = ex_recovery s" "ex_aborted ?s1 = ex_aborted s"
    by (simp_all add: freeze_effect_def)
  show ?thesis
  proof (cases "r = Stop")
    case False
    with inv1 same1 show ?thesis by (simp add: s' stop_effect_def)
  next
    case True
    with stop same1 have idx: "3 \<le> rc_index (ex_recovery ?s1)" by simp
    have base: "recovery_inv (ex_recovery ?s1)" "flag_inv ?s1" using inv1 by (simp_all add: run_inv_def)
    show ?thesis
    proof (cases t)
      case (Stalled_for n ms)
      with open_run True same1 have "\<not> ex_aborted ?s1" by simp
      with base idx True Stalled_for same1 flag_inv_marked(3) [of ?s1] show ?thesis
        by (simp add: s' stop_effect_def run_inv_def order_trans [OF rungs_needed_le])
    next
      case (Thinking_for ms)
      with base idx True same1 flag_inv_marked(2) [of ?s1] show ?thesis
        by (simp add: s' stop_effect_def run_inv_def order_trans [OF rungs_needed_le])
    qed
  qed
qed

subsection \<open>Every event keeps the invariant and the prompt budget\<close>

text \<open>A prompt slot is a recovery prompt that was asked for and not yet started; the ladder grants
  one slot for each of its first two rungs.\<close>

definition slots :: "run_state \<Rightarrow> nat" where
  "slots s = length (ex_steers s) + (if ex_pending s = None then 0 else 1)"

definition granted :: "run_state \<Rightarrow> nat" where
  "granted s = min 2 (rc_index (ex_recovery s))"

definition step_ok :: "run_state \<Rightarrow> run_state \<Rightarrow> nat \<Rightarrow> bool" where
  "step_ok s s' started \<longleftrightarrow> run_inv s' \<and> started + slots s' + granted s \<le> slots s + granted s'"

lemma step_ok_refl: "run_inv s \<Longrightarrow> step_ok s s 0"
  by (simp add: step_ok_def)

lemma step_ok_same:
  "run_inv s' \<Longrightarrow> ex_recovery s' = ex_recovery s \<Longrightarrow> ex_pending s' = ex_pending s \<Longrightarrow>
     ex_steers s' = ex_steers s \<Longrightarrow> step_ok s s' 0"
  by (simp add: step_ok_def slots_def granted_def)

lemma ladder_nth:
  "RECOVERY_LADDER ! 0 = Steer" "RECOVERY_LADDER ! Suc 0 = Freeze" "RECOVERY_LADDER ! 2 = Stop"
  by (simp_all add: RECOVERY_LADDER_def)

text \<open>One rung fired from index \<open>i\<close>, and its message queued or pending when it is not the stop.\<close>

lemma fired_step_ok:
  assumes inv: "run_inv s" and trig: "trigger_recovery t now s = (s1, Some r)"
    and abort: "\<And>n ms. t = Stalled_for n ms \<Longrightarrow> \<not> ex_aborted s"
  shows "run_inv s1 \<and> step_ok s s1 0 \<and> (\<forall>s2 msg. fire_recovery env src now r t s1 = Some (s2, msg) \<longrightarrow>
     run_inv s2 \<and> ex_pending s2 = ex_pending s \<and> ex_steers s2 = ex_steers s \<and>
     granted s \<le> granted s2 \<and> (r \<noteq> Stop \<longrightarrow> granted s2 = Suc (granted s)))"
proof -
  from trigger_recovery_inv [OF inv trig] have
    inv1: "run_inv s1" and idx: "rc_index (ex_recovery s1) = Suc (rc_index (ex_recovery s))"
    "rc_index (ex_recovery s) < 3" "r = RECOVERY_LADDER ! rc_index (ex_recovery s)"
    and same: "ex_aborted s1 = ex_aborted s" "ex_pending s1 = ex_pending s" "ex_steers s1 = ex_steers s"
    by auto
  have case_r: "(rc_index (ex_recovery s) = 0 \<and> r = Steer) \<or> (rc_index (ex_recovery s) = 1 \<and> r = Freeze) \<or>
      (rc_index (ex_recovery s) = 2 \<and> r = Stop)"
    using idx(2, 3) ladder_nth by (auto simp: less_Suc_eq numeral_3_eq_3 numeral_2_eq_2)
  have "run_inv s2 \<and> ex_pending s2 = ex_pending s1 \<and> ex_steers s2 = ex_steers s1 \<and>
      ex_recovery s2 = ex_recovery s1" if "fire_recovery env src now r t s1 = Some (s2, msg)" for s2 msg
    by (rule fire_recovery_inv [OF inv1 that]) (use case_r idx(1) abort same in auto)
  moreover have "step_ok s s1 0"
    using inv1 idx(1) same by (simp add: step_ok_def slots_def granted_def)
  ultimately show ?thesis
    using inv1 case_r idx(1) same by (auto simp: granted_def)
qed

lemma step_ok_disable: "step_ok s s1 0 \<Longrightarrow> step_ok s (disable_progress s1) 0"
  by (simp add: step_ok_def slots_def granted_def run_inv_disable)

lemma turn_timer_ok:
  assumes inv: "run_inv s"
  shows "step_ok s (turn_timer_fires env src now s) 0"
proof (cases "ex_turn_timer s")
  case False
  with inv show ?thesis by (simp add: turn_timer_fires_def step_ok_refl)
next
  case armed: True
  let ?t = "Thinking_for (int (en_turn_timeout_ms env))"
  let ?s = "s\<lparr>ex_turn_timer := False\<rparr>"
  have inv0: "run_inv ?s" by (rule run_inv_same [OF inv]) (simp add: same_flags_def)
  have slots0: "slots ?s = slots s" "granted ?s = granted s" by (simp_all add: slots_def granted_def)
  obtain s1 fired where trig: "trigger_recovery ?t now ?s = (s1, fired)"
    by (cases "trigger_recovery ?t now ?s")
  show ?thesis
  proof (cases fired)
    case None
    with trigger_recovery_inv [OF inv0 trig] have "step_ok s s1 0"
      by (auto simp: step_ok_def slots_def granted_def)
    with armed trig None show ?thesis by (simp add: turn_timer_fires_def Let_def)
  next
    case (Some r)
    from fired_step_ok [OF inv0 trig [unfolded Some], of env src] have ok: "step_ok s s1 0"
      and fire: "\<And>s2 msg. fire_recovery env src now r ?t s1 = Some (s2, msg) \<Longrightarrow>
        run_inv s2 \<and> ex_pending s2 = ex_pending s \<and> ex_steers s2 = ex_steers s \<and>
        granted s \<le> granted s2 \<and> (r \<noteq> Stop \<longrightarrow> granted s2 = Suc (granted s))"
      by (simp_all add: step_ok_def slots0)
    show ?thesis
    proof (cases "fire_recovery env src now r ?t s1")
      case None
      with armed trig Some step_ok_disable [OF ok] show ?thesis
        by (simp add: turn_timer_fires_def Let_def)
    next
      case fired2: (Some x)
      obtain s2 msg where x: "x = (s2, msg)" by (cases x)
      from fire [OF fired2 [unfolded x]] have s2: "run_inv s2" "ex_pending s2 = ex_pending s"
        "ex_steers s2 = ex_steers s" "granted s \<le> granted s2" "r \<noteq> Stop \<Longrightarrow> granted s2 = Suc (granted s)"
        by auto
      have keep: "run_inv (s2\<lparr>ex_turn_limit_aborts := a, ex_pending := b, ex_turn_abort_pending := c\<rparr>)" for a b c
        by (rule run_inv_same [OF s2(1)]) (simp add: same_flags_def)
      have grant: "granted (s2\<lparr>ex_turn_limit_aborts := a, ex_pending := b, ex_turn_abort_pending := c\<rparr>) =
          granted s2" for a b c by (simp add: granted_def)
      have eq: "turn_timer_fires env src now s = (if r = Stop then s2
          else s2\<lparr>ex_turn_limit_aborts := ex_turn_limit_aborts s2 + 1,
                  ex_pending := Some (turn_limit_message env msg), ex_turn_abort_pending := True\<rparr>)"
        by (simp add: turn_timer_fires_def Let_def armed trig Some fired2 x)
      from s2 keep grant show ?thesis
        unfolding eq by (cases "r = Stop") (simp_all add: step_ok_def slots_def)
    qed
  qed
qed

lemma steer_ok:
  assumes "run_inv s2" "ex_pending s2 = ex_pending s" "ex_steers s2 = ex_steers s"
    "granted s2 = Suc (granted s)"
  shows "step_ok s (steer throws msg s2) 0"
proof -
  have "run_inv (s'\<lparr>ex_steer_idle := a, ex_pending := b\<rparr>)" if "run_inv s'" for s' a b
    by (rule run_inv_same [OF that]) (simp add: same_flags_def)
  moreover have "run_inv (s2\<lparr>ex_steers := x\<rparr>)" for x
    by (rule run_inv_same [OF assms(1)]) (simp add: same_flags_def)
  ultimately show ?thesis
    using assms by (simp add: steer_def step_ok_def slots_def granted_def run_inv_disable)
qed

lemma fire_stall_ok:
  assumes inv: "run_inv s" and abort: "\<not> ex_aborted s"
  shows "step_ok s (fire_stall env src now throws t s) 0"
proof -
  obtain s1 fired where trig: "trigger_recovery t now s = (s1, fired)"
    by (cases "trigger_recovery t now s")
  show ?thesis
  proof (cases fired)
    case None
    with trigger_recovery_inv [OF inv trig] have "step_ok s s1 0"
      by (auto simp: step_ok_def slots_def granted_def)
    with trig None show ?thesis by (simp add: fire_stall_def)
  next
    case (Some r)
    note fired = fired_step_ok [OF inv trig [unfolded Some] abort, of env src]
    then have ok: "step_ok s s1 0" by blast
    show ?thesis
    proof (cases "fire_recovery env src now r t s1")
      case None
      with trig Some step_ok_disable [OF ok] show ?thesis by (simp add: fire_stall_def)
    next
      case built: (Some x)
      obtain s2 msg where x: "x = (s2, msg)" by (cases x)
      from fired built x have s2: "run_inv s2" "ex_pending s2 = ex_pending s" "ex_steers s2 = ex_steers s"
        "granted s \<le> granted s2" "r \<noteq> Stop \<Longrightarrow> granted s2 = Suc (granted s)" by auto
      then have "r = Stop \<Longrightarrow> step_ok s s2 0" by (simp add: step_ok_def slots_def)
      with steer_ok [OF s2(1, 2, 3)] s2(5) trig Some built x show ?thesis
        by (cases "r = Stop") (simp_all add: fire_stall_def)
    qed
  qed
qed

lemma step_ok_trans:
  "step_ok s s1 m \<Longrightarrow> step_ok s1 s2 n \<Longrightarrow> step_ok s s2 (m + n)"
  by (simp add: step_ok_def)

lemma after_checkpoint_ok:
  assumes inv: "run_inv s" and running: "\<not> ex_aborted s"
  shows "step_ok s (after_checkpoint env src now throws m role c s) 0"
proof -
  let ?t = "Stalled_for (pc_no_progress_calls c) (pc_ms_since_progress c)"
  obtain s1 refused where ref: "(if tm_budget_limit m = Some ''stalled'' then refuse_recovery now s
      else (s, None)) = (s1, refused)" by fastforce
  have s1: "run_inv s1" "ex_aborted s1 = ex_aborted s" "ex_pending s1 = ex_pending s"
    "ex_steers s1 = ex_steers s" "rc_index (ex_recovery s) \<le> rc_index (ex_recovery s1)"
    "refused \<noteq> None \<Longrightarrow> refused = Some Stop \<and> rc_index (ex_recovery s1) = 3"
    using refuse_recovery_inv [OF inv, of now] ref inv by (auto split: if_splits)
  have ok1: "step_ok s s1 0" using s1 by (auto simp: step_ok_def slots_def granted_def)
  show ?thesis
  proof (cases refused)
    case None
    have "step_ok s (fire_stall env src now throws ?t s1) 0"
      using step_ok_trans [OF ok1 fire_stall_ok [OF s1(1)]] s1(2) running by simp
    with ref None ok1 show ?thesis by (auto simp: after_checkpoint_def Let_def)
  next
    case (Some r)
    with s1(6) have r: "r = Stop" "rc_index (ex_recovery s1) = 3" by auto
    show ?thesis
    proof (cases "fire_recovery env src now r ?t s1")
      case None
      with ref Some step_ok_disable [OF ok1] show ?thesis by (simp add: after_checkpoint_def Let_def)
    next
      case fired: (Some x)
      obtain s2 msg where x: "x = (s2, msg)" by (cases x)
      have "run_inv s2 \<and> ex_pending s2 = ex_pending s1 \<and> ex_steers s2 = ex_steers s1 \<and>
          ex_recovery s2 = ex_recovery s1"
        by (rule fire_recovery_inv [OF s1(1) fired [unfolded x]]) (use r s1(2) running in auto)
      with ok1 have "step_ok s s2 0" by (simp add: step_ok_def slots_def granted_def)
      with ref Some fired x show ?thesis by (simp add: after_checkpoint_def Let_def)
    qed
  qed
qed

lemma note_result_ok: "run_inv s \<Longrightarrow> step_ok s (note_result env f s) 0"
proof -
  assume "run_inv s"
  then have "run_inv (note_result env f s)" by (rule run_inv_note)
  moreover have "ex_recovery (track_failure_streak env now tool m s') = ex_recovery s' \<and>
      ex_pending (track_failure_streak env now tool m s') = ex_pending s' \<and>
      ex_steers (track_failure_streak env now tool m s') = ex_steers s'" for now tool m s'
    by (simp add: track_failure_streak_def Let_def)
  ultimately show ?thesis
    by (intro step_ok_same) (simp_all add: note_result_def Let_def)
qed

lemma tool_finished_ok: "run_inv s \<Longrightarrow> step_ok s (tool_finished env f s) 0"
proof -
  assume inv: "run_inv s"
  let ?s = "note_result env f s"
  obtain p c where cp: "checkpoint (role_of_tool env (fc_name f)) (fc_sources f) (fc_now f)
      (ex_progress ?s) = (p, c)" by (cases "checkpoint (role_of_tool env (fc_name f)) (fc_sources f)
        (fc_now f) (ex_progress ?s)")
  let ?s1 = "?s\<lparr>ex_progress := p\<rparr>"
  have ok: "step_ok s ?s 0" by (rule note_result_ok [OF inv])
  have inv1: "run_inv ?s1"
    by (rule run_inv_same [OF run_inv_note [OF inv]]) (simp add: same_flags_def)
  have ok1: "step_ok s ?s1 0" using ok inv1 by (simp add: step_ok_def slots_def granted_def)
  show ?thesis
    using ok1 step_ok_trans [OF ok1 after_checkpoint_ok [OF inv1]] cp
    by (simp add: tool_finished_def Let_def)
qed

lemma steer_settles_ok: "run_inv s \<Longrightarrow> step_ok s (steer_settles a s) 0"
proof (cases "ex_steers s")
  case Nil
  assume "run_inv s"
  with Nil show ?thesis by (simp add: steer_settles_def step_ok_refl)
next
  case (Cons msg rest)
  assume inv: "run_inv s"
  have keep: "run_inv (s'\<lparr>ex_steer_idle := i, ex_pending := m\<rparr>)" if "run_inv s'" for s' i m
    by (rule run_inv_same [OF that]) (simp add: same_flags_def)
  have popped: "run_inv (s\<lparr>ex_steers := rest\<rparr>)"
    by (rule run_inv_same [OF inv]) (simp add: same_flags_def)
  show ?thesis
    using Cons keep [OF popped] keep [OF run_inv_disable [OF popped]] popped
    by (cases a) (simp_all add: steer_settles_def Let_def step_ok_def slots_def granted_def)
qed

lemma prompt_ended_ok:
  "run_inv s \<Longrightarrow> step_ok s (fst (prompt_ended s)) (if snd (prompt_ended s) = None then 0 else 1)"
proof -
  assume inv: "run_inv s"
  have "run_inv (fst (prompt_ended s))"
    by (rule run_inv_same [OF inv]) (simp add: same_flags_def prompt_ended_def Let_def split: option.split)
  then show ?thesis
    by (simp add: step_ok_def prompt_ended_def Let_def slots_def granted_def split: option.split)
qed

text \<open>Whether an event starts another prompt.\<close>

fun prompts_started :: "run_state \<Rightarrow> run_event \<Rightarrow> nat" where
  "prompts_started s Prompt_ended = (if ex_steers s = [] \<and> snd (prompt_ended s) \<noteq> None then 1 else 0)"
| "prompts_started s _ = 0"

lemma budget_step_frozen: "b \<notin> {Op_freeze, Op_clear} \<Longrightarrow> bt_frozen (budget_step t b) = bt_frozen t"
  by (cases b) (auto simp: reserve_call_def account_result_bytes_def reserve_navigation_def
      reserve_capture_def account_capture_bytes_def reserve_deliverable_capture_def
      account_deliverable_bytes_def Let_def split: sum.splits prod.splits)

lemma run_step_ok: "run_inv s \<Longrightarrow> step_ok s (run_step env s e) (prompts_started s e)"
proof -
  assume inv: "run_inv s"
  have same: "step_ok s s' 0"
    if "same_flags s s'" "ex_pending s' = ex_pending s" "ex_steers s' = ex_steers s" for s'
    using run_inv_same [OF inv that(1)] that by (simp add: step_ok_def slots_def granted_def same_flags_def)
  have interrupted: "step_ok s (interrupt r s') 0"
    if "r \<in> {By_wall_clock, By_provider_tokens, By_tool_budget}" "same_flags s s'"
      "ex_pending s' = ex_pending s" "ex_steers s' = ex_steers s" for r s'
    using run_inv_interrupt [OF run_inv_same [OF inv that(2)] that(1)] that
    by (simp add: step_ok_def slots_def granted_def same_flags_def)
  show ?thesis
  proof (cases e)
    case (Turn_finished i u)
    let ?n = "ex_provider_tokens s + (case i of None \<Rightarrow> 0 | Some n \<Rightarrow> n) + (case u of None \<Rightarrow> 0 | Some n \<Rightarrow> n)"
    let ?s = "s\<lparr>ex_turn_timer := False, ex_provider_tokens := ?n\<rparr>"
    have "step_ok s ?s 0" by (rule same) (simp_all add: same_flags_def)
    moreover have "step_ok s (interrupt By_provider_tokens ?s) 0"
      by (rule interrupted) (simp_all add: same_flags_def)
    ultimately show ?thesis
      using Turn_finished by (simp add: turn_finished_def Let_def del: interrupt_fields split: option.split)
  next
    case Wall_timer
    have "step_ok s (interrupt By_wall_clock s) 0"
      by (rule interrupted) (simp_all add: same_flags_def)
    with Wall_timer show ?thesis by (simp del: interrupt_fields)
  next
    case User_aborts
    have "run_inv (user_abort s)"
      using inv by (simp add: run_inv_def flag_inv_def user_abort_def)
    with User_aborts show ?thesis by (simp add: step_ok_def slots_def granted_def user_abort_def)
  next
    case Prompt_ended
    with prompt_ended_ok [OF inv] inv show ?thesis
      by (cases "snd (prompt_ended s)") (simp_all add: step_ok_refl)
  next
    case (Middleware_budget b)
    then show ?thesis
      by (auto intro!: same simp: same_flags_def budget_step_frozen step_ok_refl inv)
  next
    case Progress_fails
    with step_ok_disable [OF step_ok_refl [OF inv]] show ?thesis by simp
  qed (auto intro!: same interrupted turn_timer_ok tool_finished_ok steer_settles_ok
      simp: inv same_flags_def turn_started_def assistant_text_def Let_def)
qed

fun prompts_in :: "run_env \<Rightarrow> run_state \<Rightarrow> run_event list \<Rightarrow> nat" where
  "prompts_in env s [] = 0"
| "prompts_in env s (e # es) = prompts_started s e + prompts_in env (run_step env s e) es"

lemma run_events_simps [simp]:
  "run_events env s [] = s" "run_events env s (e # es) = run_events env (run_step env s e) es"
  by (simp_all add: run_events_def)

lemma run_events_ok:
  "run_inv s \<Longrightarrow> step_ok s (run_events env s es) (prompts_in env s es)"
proof (induction es arbitrary: s)
  case Nil
  then show ?case by (simp add: step_ok_refl)
next
  case (Cons e es)
  have ok: "step_ok s (run_step env s e) (prompts_started s e)"
    by (rule run_step_ok [OF Cons.prems])
  then have "run_inv (run_step env s e)" by (simp only: step_ok_def)
  from step_ok_trans [OF ok Cons.IH [OF this]] show ?case
    by (simp only: run_events_simps prompts_in.simps)
qed

lemma run_inv_new: "\<not> bt_frozen t \<Longrightarrow> run_inv (new_run t p)"
  by (simp add: run_inv_def new_run_def new_recovery_def recovery_inv_def rungs_needed_def flag_inv_def)

subsection \<open>The breaker\<close>

type_synonym tool_result = "jstext \<times> int \<times> tool_metadata"

definition results_run :: "run_env \<Rightarrow> run_state \<Rightarrow> tool_result list \<Rightarrow> run_state" where
  "results_run env s rs = foldl (\<lambda>s (tool, now, m). track_failure_streak env now tool m s) s rs"

definition results_of :: "jstext \<Rightarrow> tool_result list \<Rightarrow> tool_metadata list" where
  "results_of tool rs = map (\<lambda>(_, _, m). m)
     (filter (\<lambda>(t, _, m). t = tool \<and> (tm_status m = Tool_ok \<or> tm_status m = Tool_error)) rs)"

text \<open>The reference: how many of the tool's own latest results are the same failure.\<close>

definition same_failure :: "jstext \<Rightarrow> tool_metadata \<Rightarrow> tool_metadata \<Rightarrow> bool" where
  "same_failure tool m m' \<longleftrightarrow> tm_status m' = Tool_error \<and> failure_key tool m' = failure_key tool m"

definition trailing_failures :: "jstext \<Rightarrow> tool_result list \<Rightarrow> (jstext \<times> nat) option" where
  "trailing_failures tool rs = (case rev (results_of tool rs) of
     [] \<Rightarrow> None
   | m # ms \<Rightarrow> if tm_status m = Tool_ok then None
       else Some (failure_key tool m, length (takeWhile (same_failure tool m) (m # ms))))"

lemma results_of_snoc:
  "results_of tool (rs @ [(t, now, m)]) = results_of tool rs @
     (if t = tool \<and> (tm_status m = Tool_ok \<or> tm_status m = Tool_error) then [m] else [])"
  by (simp add: results_of_def)

lemma results_of_status: "m \<in> set (results_of tool rs) \<Longrightarrow> tm_status m = Tool_ok \<or> tm_status m = Tool_error"
  by (auto simp: results_of_def)

lemma trailing_snoc:
  "trailing_failures tool (rs @ [(t, now, m)]) =
     (if t \<noteq> tool \<or> tm_status m = Tool_denied \<or> tm_status m = Tool_aborted then trailing_failures tool rs
      else if tm_status m = Tool_ok then None
      else Some (next_streak (failure_key tool m) (trailing_failures tool rs)))"
proof (cases "rev (results_of tool rs)")
  case Nil
  then show ?thesis
    by (cases "tm_status m") (simp_all add: trailing_failures_def results_of_snoc same_failure_def next_streak_def)
next
  case (Cons m0 ms)
  then have "m0 \<in> set (results_of tool rs)" by (metis list.set_intros(1) set_rev)
  then have st: "tm_status m0 = Tool_ok \<or> tm_status m0 = Tool_error" by (rule results_of_status)
  have same: "same_failure tool m = same_failure tool m0" if "failure_key tool m0 = failure_key tool m"
    using that by (simp add: same_failure_def fun_eq_iff)
  show ?thesis
    using Cons st same
    by (cases "tm_status m")
      (auto simp: trailing_failures_def results_of_snoc next_streak_def same_failure_def)
qed

lemma streak_fields [simp]:
  "ex_tracker (track_failure_streak env now tool m s) = ex_tracker s"
  by (simp add: track_failure_streak_def Let_def)

lemma streaks_step:
  "map_get (ex_streaks (track_failure_streak env now t m s)) tool =
     (if t \<noteq> tool \<or> tm_status m = Tool_denied \<or> tm_status m = Tool_aborted then map_get (ex_streaks s) tool
      else if tm_status m = Tool_ok then None
      else Some (next_streak (failure_key tool m) (map_get (ex_streaks s) tool)))"
  by (cases "tm_status m") (auto simp: track_failure_streak_def Let_def delete_conv interrupt_def)

lemma repeated_step:
  "ex_repeated (track_failure_streak env now t m s) \<noteq> None \<longleftrightarrow> ex_repeated s \<noteq> None \<or>
     (tm_status m = Tool_error \<and>
      en_tool_retries env < snd (next_streak (failure_key t m) (map_get (ex_streaks s) t)) \<and>
      \<not> (tm_error_code m = Some ''TOOL_TIMEOUT'' \<and> is_soft_wall_clock_exhausted now (ex_tracker s)))"
  by (cases "tm_status m") (auto simp: track_failure_streak_def Let_def interrupt_def)

lemma results_run_snoc [simp]:
  "results_run env s (rs @ [(tool, now, m)]) = track_failure_streak env now tool m (results_run env s rs)"
  by (simp add: results_run_def)

lemma results_run_tracker [simp]: "ex_tracker (results_run env s rs) = ex_tracker s"
  by (induction rs rule: rev_induct) (auto simp: results_run_def)

lemma results_run_streaks:
  assumes "ex_streaks s = []"
  shows "map_get (ex_streaks (results_run env s rs)) tool = trailing_failures tool rs"
proof (induction rs rule: rev_induct)
  case Nil
  show ?case by (simp add: results_run_def assms trailing_failures_def results_of_def)
next
  case (snoc r rs)
  obtain t now m where r: "r = (t, now, m)" by (cases r)
  show ?case by (simp only: r results_run_snoc streaks_step trailing_snoc snoc)
qed

definition trips :: "run_env \<Rightarrow> tracker \<Rightarrow> tool_result list \<Rightarrow> tool_result \<Rightarrow> bool" where
  "trips env tr earlier r = (case r of (tool, now, m) \<Rightarrow>
     tm_status m = Tool_error \<and>
     (case trailing_failures tool (earlier @ [r]) of None \<Rightarrow> False | Some (_, n) \<Rightarrow> en_tool_retries env < n) \<and>
     \<not> (tm_error_code m = Some ''TOOL_TIMEOUT'' \<and> is_soft_wall_clock_exhausted now tr))"

lemma ex_index_snoc:
  "(\<exists>i < length (xs @ [x]). P (take i (xs @ [x])) ((xs @ [x]) ! i)) \<longleftrightarrow>
     (\<exists>i < length xs. P (take i xs) (xs ! i)) \<or> P xs x"
proof -
  have "(\<exists>i < length xs. P (take i (xs @ [x])) ((xs @ [x]) ! i)) \<longleftrightarrow>
      (\<exists>i < length xs. P (take i xs) (xs ! i))"
    by (intro ex_cong1 conj_cong refl) (simp add: nth_append)
  then show ?thesis by (simp add: Ex_less_Suc disj_commute)
qed

lemma results_run_repeated:
  assumes "ex_streaks s = []" and "ex_repeated s = None"
  shows "ex_repeated (results_run env s rs) \<noteq> None \<longleftrightarrow>
     (\<exists>i < length rs. trips env (ex_tracker s) (take i rs) (rs ! i))"
proof (induction rs rule: rev_induct)
  case Nil
  show ?case using assms by (simp add: results_run_def)
next
  case (snoc r rs)
  obtain t now m where r: "r = (t, now, m)" by (cases r)
  have "ex_repeated (results_run env s (rs @ [r])) \<noteq> None \<longleftrightarrow>
      ex_repeated (results_run env s rs) \<noteq> None \<or> trips env (ex_tracker s) rs r"
    unfolding r results_run_snoc repeated_step trips_def prod.case trailing_snoc
      results_run_streaks [OF assms(1)] results_run_tracker next_streak_def
    by (cases "tm_status m") simp_all
  also have "\<dots> \<longleftrightarrow> (\<exists>i < length (rs @ [r]). trips env (ex_tracker s) (take i (rs @ [r])) ((rs @ [r]) ! i))"
    unfolding snoc ex_index_snoc ..
  finally show ?case .
qed

section \<open>Properties\<close>

text \<open>C17. Recovery cannot run forever: over any sequence of session events, timers, aborts and
  middleware operations, a run starts at most two recovery prompts, exploration is only frozen once
  steer and freeze have fired, the run is aborted exactly when it was interrupted or the user
  aborted it, and it is marked stalled exactly when stalling was the first interrupt, after all three
  rungs.\<close>

theorem recovery_prompts_bounded:
  assumes "\<not> bt_frozen t"
  shows "(let s = run_events env (new_run t p) es in
     prompts_in env (new_run t p) es \<le> 2 \<and>
     (bt_frozen (ex_tracker s) \<longrightarrow> prefix [Steer, Freeze] (rc_rungs (ex_recovery s))) \<and>
     (ex_aborted s \<longleftrightarrow> ex_budget_reason s \<noteq> None \<or> ex_user_aborted s) \<and>
     (ex_stalled s \<noteq> None \<longleftrightarrow> ex_budget_reason s = Some By_stalled) \<and>
     (ex_stalled s \<noteq> None \<longrightarrow> rc_rungs (ex_recovery s) = [Steer, Freeze, Stop]))"
proof -
  let ?s = "run_events env (new_run t p) es"
  from run_events_ok [OF run_inv_new [OF assms], of p env es]
  have inv: "run_inv ?s" and count: "prompts_in env (new_run t p) es \<le> 2"
    by (auto simp: step_ok_def slots_def granted_def new_run_def new_recovery_def)
  have rungs: "2 \<le> rc_index r \<Longrightarrow> prefix [Steer, Freeze] (rc_rungs r)"
    "3 \<le> rc_index r \<Longrightarrow> rc_rungs r = [Steer, Freeze, Stop]" if "recovery_inv r" for r
    using that by (auto simp: recovery_inv_def RECOVERY_LADDER_def take_Cons' numeral_2_eq_2)
  have fired: "recovery_inv (ex_recovery ?s)"
    "bt_frozen (ex_tracker ?s) \<Longrightarrow> 2 \<le> rc_index (ex_recovery ?s)"
    "ex_stalled ?s \<noteq> None \<Longrightarrow> 3 \<le> rc_index (ex_recovery ?s)"
    using inv by (auto simp: run_inv_def rungs_needed_def split: if_splits)
  have "flag_inv ?s" using inv by (simp add: run_inv_def)
  then show ?thesis
    unfolding Let_def flag_inv_def using rungs [OF fired(1)] fired count by simp
qed

definition sample_tracker :: tracker where
  "sample_tracker = new_tracker DEFAULT_BUDGET_LIMITS 0"

definition sample_env :: run_env where
  "sample_env = \<lparr>en_turn_timeout_ms = 90000, en_tool_retries = 3, en_max_provider_tokens = None,
     en_tools = [\<lparr>rt_name = ''result_publish'', rt_bookkeeping = False, rt_has_kinds = False\<rparr>],
     en_deliverable_available = False, en_clean = (\<lambda>s. s)\<rparr>"

lemma recovery_prompts_bounded_witness:
  "prompts_in sample_env (new_run sample_tracker (new_progress 0 Enforce))
     [Turn_started, Turn_timer (sample_sources []) 5, Prompt_ended] \<le> 2"
  using recovery_prompts_bounded [of sample_tracker sample_env "new_progress 0 Enforce"
      "[Turn_started, Turn_timer (sample_sources []) 5, Prompt_ended]"]
  by (simp add: sample_tracker_def new_tracker_def Let_def)



text \<open>A provider failure after the model mentioned a verification wall is the exception C37 leaves
  open: the run is classified as failed, but its recorded reason says that a handoff was raised.\<close>

lemma failed_run_recorded_as_handoff:
  "(let s = run_events sample_env (new_run sample_tracker (new_progress 0 Enforce))
          [Assistant_text ''captcha'', Session_failed provider_error] in
     resolve_terminal_outcome None False [] (Some Session_failed_result) s =
       Draft_other (Run_failed provider_error) \<and>
     termination_reason_for (Some Session_failed_result) s = Handoff_raised)"
proof -
  have "reports_verification ''captcha''"
    by (simp add: reports_verification_def VERIFICATION_WORDS_def to_lower_def lower_char_def is_upper_def
        code_def)
  then show ?thesis
    by (simp add: assistant_text_def new_run_def resolve_terminal_outcome_def termination_reason_for_def
        Let_def)
qed

text \<open>C19. The stuck-loop breaker counts what it should: a tool's streak is the number of its own
  latest results that are the same failure, so that other tools, refusals and aborts never touch it
  and one success clears it, and the breaker has tripped exactly when some error made its tool's
  streak exceed the allowed retries, other than a timeout past the soft deadline.\<close>

theorem breaker_counts_trailing_failures:
  "map_get (ex_streaks (results_run env (new_run t p) rs)) tool = trailing_failures tool rs \<and>
   (ex_repeated (results_run env (new_run t p) rs) \<noteq> None \<longleftrightarrow>
      (\<exists>i < length rs. trips env t (take i rs) (rs ! i)))"
  using results_run_streaks [of "new_run t p" env rs tool] results_run_repeated [of "new_run t p" env rs]
  by (simp add: new_run_def)

end
