(* ===== verification/Similarity.thy ===== *)
theory Similarity
  imports Complex_Main Prelude
begin

text \<open>
  Text similarity of the deterministic pipelines, \<open>packages/core/src/synthesis/similarity.ts\<close>: the
  tokenizer, TF-IDF vectors over a document set, cosine similarity and containment. Weights are reals
  where the code has doubles; a vector is an association list in insertion order, as the code's map is.
\<close>

section \<open>Definitions\<close>

definition STOPWORDS :: "jstext list" where
  "STOPWORDS = [''a'', ''about'', ''after'', ''all'', ''also'', ''an'', ''and'', ''any'', ''are'', ''as'',
     ''at'', ''be'', ''been'', ''but'', ''by'', ''can'', ''could'', ''did'', ''do'', ''does'', ''for'',
     ''from'', ''had'', ''has'', ''have'', ''he'', ''her'', ''his'', ''how'', ''i'', ''if'', ''in'',
     ''into'', ''is'', ''it'', ''its'', ''just'', ''more'', ''most'', ''no'', ''not'', ''of'', ''on'',
     ''one'', ''or'', ''our'', ''she'', ''so'', ''some'', ''than'', ''that'', ''the'', ''their'', ''them'',
     ''then'', ''there'', ''these'', ''they'', ''this'', ''to'', ''up'', ''was'', ''we'', ''were'',
     ''what'', ''when'', ''which'', ''who'', ''will'', ''with'', ''would'', ''you'', ''your'']"

text \<open>Letters and numbers (\<open>\p{L}\p{N}\<close>) of the repertoire.\<close>

definition is_alnum_char :: "char \<Rightarrow> bool" where
  "is_alnum_char c \<longleftrightarrow> is_alnum c \<or> code c \<in> {170, 178, 179, 181, 185, 186, 188, 189, 190} \<or>
     (192 \<le> code c \<and> code c \<le> 255 \<and> code c \<noteq> 215 \<and> code c \<noteq> 247)"

text \<open>The pieces between separators; an empty piece stands between two adjacent ones.\<close>

fun split_where :: "(char \<Rightarrow> bool) \<Rightarrow> jstext \<Rightarrow> jstext list" where
  "split_where P [] = [[]]"
| "split_where P (c # s) =
     (if P c then [] # split_where P s
      else case split_where P s of [] \<Rightarrow> [[c]] | w # ws \<Rightarrow> (c # w) # ws)"

definition tokenize :: "jstext \<Rightarrow> jstext list" where
  "tokenize t = filter (\<lambda>w. 1 < length w \<and> w \<notin> set STOPWORDS)
     (split_where (\<lambda>c. \<not> is_alnum_char c) (to_lower t))"

type_synonym term_vector = "(jstext, real) jsmap"

definition bump :: "jstext \<Rightarrow> (jstext, nat) jsmap \<Rightarrow> (jstext, nat) jsmap" where
  "bump t m = map_set t ((case map_get m t of Some n \<Rightarrow> n | None \<Rightarrow> 0) + 1) m"

definition tally :: "jstext list \<Rightarrow> (jstext, nat) jsmap \<Rightarrow> (jstext, nat) jsmap" where
  "tally ts m = foldl (\<lambda>m t. bump t m) m ts"

definition document_frequency :: "jstext list list \<Rightarrow> (jstext, nat) jsmap" where
  "document_frequency tokenized = foldl (\<lambda>m ts. tally (to_jsset ts) m) [] tokenized"

definition idf :: "nat \<Rightarrow> nat \<Rightarrow> real" where
  "idf documents df = ln ((1 + real documents) / (1 + real df)) + 1"

definition weigh_terms :: "nat \<Rightarrow> (jstext, nat) jsmap \<Rightarrow> jstext list \<Rightarrow> term_vector" where
  "weigh_terms documents df tokens =
     (if tokens = [] then []
      else map (\<lambda>(t, count). (t, real count / real (length tokens) *
             idf documents (case map_get df t of Some n \<Rightarrow> n | None \<Rightarrow> 0))) (tally tokens []))"

definition tfidf_vectors :: "jstext list \<Rightarrow> term_vector list" where
  "tfidf_vectors docs = (let tokenized = map tokenize docs; df = document_frequency tokenized in
     map (weigh_terms (length docs) df) tokenized)"

definition dot :: "term_vector \<Rightarrow> term_vector \<Rightarrow> real" where
  "dot smaller larger = sum_list (map (\<lambda>(t, w). case map_get larger t of
     Some v \<Rightarrow> w * v | None \<Rightarrow> 0) smaller)"

definition norm_squared :: "term_vector \<Rightarrow> real" where
  "norm_squared v = sum_list (map (\<lambda>(t, w). w * w) v)"

definition cosine_similarity :: "term_vector \<Rightarrow> term_vector \<Rightarrow> real" where
  "cosine_similarity left right =
     (if left = [] \<or> right = [] then 0
      else let (smaller, larger) = (if length left \<le> length right then (left, right) else (right, left));
               d = dot smaller larger in
        if d = 0 then 0 else d / (sqrt (norm_squared left) * sqrt (norm_squared right)))"

definition mass :: "term_vector \<Rightarrow> real" where
  "mass v = sum_list (map snd v)"

definition shared_mass :: "term_vector \<Rightarrow> term_vector \<Rightarrow> real" where
  "shared_mass smaller larger = sum_list (map (\<lambda>(t, w). case map_get larger t of
     Some v \<Rightarrow> min w v | None \<Rightarrow> 0) smaller)"

definition bag_containment :: "term_vector \<Rightarrow> term_vector \<Rightarrow> real" where
  "bag_containment left right =
     (if left = [] \<or> right = [] then 0
      else let (smaller, larger) = (if mass left \<le> mass right then (left, right) else (right, left));
               m = min (mass left) (mass right) in
        if m = 0 then 0 else shared_mass smaller larger / m)"

section \<open>Lemmas\<close>

lemma tokenize_informative: "w \<in> set (tokenize t) \<Longrightarrow> 1 < length w \<and> w \<notin> set STOPWORDS"
  by (simp add: tokenize_def)

lemma bump_get: "map_get (bump t m) u =
    (if u = t then Some ((case map_get m t of Some n \<Rightarrow> n | None \<Rightarrow> 0) + 1) else map_get m u)"
  by (simp add: bump_def)

lemma distinct_tally: "distinct (map fst m) \<Longrightarrow> distinct (map fst (tally ts m))"
  by (induction ts arbitrary: m) (simp_all add: tally_def bump_def distinct_update)

lemma tally_get:
  "map_get (tally ts m) t = (if t \<in> set ts then Some (count_list ts t + (case map_get m t of Some n \<Rightarrow> n | None \<Rightarrow> 0))
     else map_get m t)"
  by (induction ts arbitrary: m) (auto simp: tally_def bump_get split: option.splits)

text \<open>Every token counted occurs, so each term of a non-empty text has a positive weight.\<close>

lemma tally_positive: "(t, n) \<in> set (tally ts []) \<Longrightarrow> t \<in> set ts \<and> 0 < n"
proof -
  assume "(t, n) \<in> set (tally ts [])"
  then have "map_get (tally ts []) t = Some n" by (simp add: distinct_tally)
  then have "t \<in> set ts \<and> n = count_list ts t" by (auto simp: tally_get split: if_splits)
  then show ?thesis using count_list_0_iff [of ts t] by auto
qed

lemma count_list_distinct: "distinct xs \<Longrightarrow> count_list xs t \<le> 1"
  by (induction xs) (auto simp: count_list_0_iff [THEN iffD2])

lemma document_frequency_le:
  "(case map_get (document_frequency tss) t of Some n \<Rightarrow> n | None \<Rightarrow> 0) \<le> length tss"
proof -
  have "(case map_get (foldl (\<lambda>m ts. tally (to_jsset ts) m) m tss) t of Some n \<Rightarrow> n | None \<Rightarrow> 0) \<le>
      length tss + (case map_get m t of Some n \<Rightarrow> n | None \<Rightarrow> 0)" for m
  proof (induction tss arbitrary: m)
    case (Cons ts tss)
    have "count_list (to_jsset ts) t \<le> 1" by (simp add: count_list_distinct [simplified])
    then have "(case map_get (tally (to_jsset ts) m) t of Some n \<Rightarrow> n | None \<Rightarrow> 0) \<le>
        Suc (case map_get m t of Some n \<Rightarrow> n | None \<Rightarrow> 0)"
      by (simp add: tally_get)
    then show ?case using Cons [of "tally (to_jsset ts) m"] by simp
  qed simp
  from this [of "[]"] show ?thesis by (simp add: document_frequency_def)
qed

lemma idf_ge_1: "df \<le> documents \<Longrightarrow> 1 \<le> idf documents df"
  by (simp add: idf_def)

definition positive_vector :: "term_vector \<Rightarrow> bool" where
  "positive_vector v \<longleftrightarrow> distinct (map fst v) \<and> (\<forall>(t, w) \<in> set v. 0 < w)"

lemma weigh_terms_positive:
  assumes "length tss \<le> documents"
  shows "positive_vector (weigh_terms documents (document_frequency tss) tokens)"
proof -
  have "0 < real n / real (length tokens) *
      idf documents (case map_get (document_frequency tss) t of Some n \<Rightarrow> n | None \<Rightarrow> 0)"
    if "(t, n) \<in> set (tally tokens [])" for t n
  proof -
    have "t \<in> set tokens" "0 < n" using tally_positive [OF that] by simp_all
    moreover have "1 \<le> idf documents (case map_get (document_frequency tss) t of Some n \<Rightarrow> n | None \<Rightarrow> 0)"
      by (rule idf_ge_1) (use document_frequency_le [of tss t] assms in linarith)
    ultimately show ?thesis by (cases tokens) (simp_all add: zero_less_mult_iff)
  qed
  then show ?thesis
    by (auto simp: positive_vector_def weigh_terms_def comp_def case_prod_unfold distinct_tally)
qed

lemma tfidf_vectors_positive: "v \<in> set (tfidf_vectors docs) \<Longrightarrow> positive_vector v"
  by (auto simp: tfidf_vectors_def Let_def intro!: weigh_terms_positive)

lemma norm_squared_positive: "positive_vector v \<Longrightarrow> v \<noteq> [] \<Longrightarrow> 0 < norm_squared v"
proof (induction v)
  case (Cons x v)
  have "0 \<le> norm_squared v"
    unfolding norm_squared_def by (rule sum_list_nonneg) auto
  moreover have "0 < snd x * snd x" using Cons.prems by (auto simp: positive_vector_def)
  ultimately show ?case by (simp add: norm_squared_def case_prod_unfold)
qed simp

lemma dot_self:
  assumes "distinct (map fst v)"
  shows "dot v v = norm_squared v"
proof -
  have "map (\<lambda>(t, w). case map_get v t of Some u \<Rightarrow> w * u | None \<Rightarrow> 0) v = map (\<lambda>(t, w). w * w) v"
    using assms by (intro map_cong) auto
  then show ?thesis unfolding dot_def norm_squared_def by (rule arg_cong)
qed

lemma cosine_self: "positive_vector v \<Longrightarrow> v \<noteq> [] \<Longrightarrow> cosine_similarity v v = 1"
  using norm_squared_positive [of v]
  by (simp add: cosine_similarity_def dot_self positive_vector_def)

lemma tally_not_Nil: "tokens \<noteq> [] \<Longrightarrow> tally tokens [] \<noteq> []"
proof
  assume "tokens \<noteq> []" and empty: "tally tokens [] = []"
  then obtain t ts where "tokens = t # ts" by (cases tokens) auto
  then have "map_get (tally tokens []) t \<noteq> None" by (simp add: tally_get)
  with empty show False by simp
qed

text \<open>Two texts with the same non-empty token list are as similar as a text is to itself.\<close>

lemma same_tokens_similar:
  assumes "tokenize t = tokenize u" and "tokenize t \<noteq> []" and "i < length us" and "us ! i = u"
  shows "cosine_similarity (tfidf_vectors (t # us) ! 0) (tfidf_vectors (t # us) ! Suc i) = 1"
proof -
  let ?v = "tfidf_vectors (t # us) ! 0"
  have "tfidf_vectors (t # us) ! Suc i = ?v" using assms by (simp add: tfidf_vectors_def Let_def)
  moreover have "positive_vector ?v"
    by (rule tfidf_vectors_positive [of _ "t # us"], rule nth_mem) (simp add: tfidf_vectors_def Let_def)
  moreover have "?v \<noteq> []"
    using assms(2) tally_not_Nil by (simp add: tfidf_vectors_def weigh_terms_def Let_def)
  ultimately show ?thesis by (simp add: cosine_self)
qed

lemma shared_mass_le:
  assumes "\<forall>(t, w) \<in> set v. 0 \<le> w" and "\<forall>(t, w) \<in> set u. 0 \<le> w"
  shows "0 \<le> shared_mass v u \<and> shared_mass v u \<le> mass v"
  using assms(1)
proof (induction v)
  case (Cons x v)
  have "0 \<le> y" if "map_get u (fst x) = Some y" for y
    using assms(2) map_of_SomeD [OF that] by auto
  then show ?case using Cons
    by (auto simp: shared_mass_def mass_def split: option.splits)
qed (simp add: shared_mass_def mass_def)

lemma bag_containment_range:
  assumes "positive_vector u" and "positive_vector v"
  shows "0 \<le> bag_containment u v \<and> bag_containment u v \<le> 1"
proof -
  have "\<forall>(t, w) \<in> set u. 0 \<le> w" "\<forall>(t, w) \<in> set v. 0 \<le> w"
    using assms by (auto simp: positive_vector_def)
  note uv = shared_mass_le [OF this] shared_mass_le [OF this(2,1)]
  then have "0 \<le> mass u" "0 \<le> mass v" by linarith+
  with uv show ?thesis
    by (auto simp: bag_containment_def Let_def min_def divide_le_eq_1)
qed

end
