(* ===== verification/Research.thy ===== *)
theory Research
  imports UrlIdentity Similarity "HOL-Library.Multiset"
begin

text \<open>
  The parts of a deep-research run, directory \<open>packages/core/src/research\<close>: the budget tracker
  (\<open>budget.ts\<close>), the deduplicated source pool (\<open>source-pool.ts\<close>), the coverage tracker
  (\<open>coverage.ts\<close>) and the follow-up query generator (\<open>query-gen.ts\<close>). Arguments of the
  definitions: the URL parser (through \<open>UrlIdentity\<close>), the collation behind \<open>localeCompare\<close>, the matches
  of the entity pattern, \<open>JSON.parse\<close>, the sanitizer, the prompt template and the model port. Hop,
  source and call counts are naturals, coverage scores rationals, similarities reals.
\<close>

section \<open>Definitions\<close>

subsection \<open>Budget\<close>

record research_budget =
  rb_max_hops :: nat
  rb_max_sources :: nat
  rb_max_wall_clock_ms :: int
  rb_max_llm_calls :: nat

definition DEFAULT_RESEARCH_BUDGET :: research_budget where
  "DEFAULT_RESEARCH_BUDGET = \<lparr>rb_max_hops = 2, rb_max_sources = 24,
     rb_max_wall_clock_ms = 180000, rb_max_llm_calls = 12\<rparr>"

datatype budget_dimension = Wall_clock | Max_sources | Max_llm_calls | Max_hops_dimension

record budget_exhausted =
  bx_dimension :: budget_dimension
  bx_message :: jstext

record budget_tracker_state =
  bs_budget :: research_budget
  bs_started_at :: int
  bs_hops_used :: nat
  bs_sources_used :: nat
  bs_llm_calls_used :: nat

record research_snapshot =
  sn_hops_used :: nat
  sn_hops_remaining :: nat
  sn_sources_used :: nat
  sn_sources_remaining :: nat
  sn_llm_calls_used :: nat
  sn_llm_calls_remaining :: nat
  sn_elapsed_ms :: int
  sn_wall_clock_remaining_ms :: int

definition new_budget :: "research_budget \<Rightarrow> int \<Rightarrow> budget_tracker_state" where
  "new_budget budget now = \<lparr>bs_budget = budget, bs_started_at = now, bs_hops_used = 0,
     bs_sources_used = 0, bs_llm_calls_used = 0\<rparr>"

definition record_hop :: "budget_tracker_state \<Rightarrow> budget_tracker_state" where
  "record_hop b = b\<lparr>bs_hops_used := bs_hops_used b + 1\<rparr>"

definition record_sources :: "int \<Rightarrow> budget_tracker_state \<Rightarrow> budget_tracker_state" where
  "record_sources n b = b\<lparr>bs_sources_used := bs_sources_used b + nat (max 0 n)\<rparr>"

definition record_llm_call :: "budget_tracker_state \<Rightarrow> budget_tracker_state" where
  "record_llm_call b = b\<lparr>bs_llm_calls_used := bs_llm_calls_used b + 1\<rparr>"

definition can_start_hop :: "budget_tracker_state \<Rightarrow> bool" where
  "can_start_hop b \<longleftrightarrow> bs_hops_used b < rb_max_hops (bs_budget b)"

definition remaining_sources :: "budget_tracker_state \<Rightarrow> nat" where
  "remaining_sources b = rb_max_sources (bs_budget b) - bs_sources_used b"

definition sources_exhausted :: "budget_tracker_state \<Rightarrow> bool" where
  "sources_exhausted b \<longleftrightarrow> rb_max_sources (bs_budget b) \<le> bs_sources_used b"

definition llm_calls_exhausted :: "budget_tracker_state \<Rightarrow> bool" where
  "llm_calls_exhausted b \<longleftrightarrow> rb_max_llm_calls (bs_budget b) \<le> bs_llm_calls_used b"

definition elapsed_ms :: "int \<Rightarrow> budget_tracker_state \<Rightarrow> int" where
  "elapsed_ms now b = max 0 (now - bs_started_at b)"

definition budget_checkpoint :: "int \<Rightarrow> budget_tracker_state \<Rightarrow> budget_exhausted option" where
  "budget_checkpoint now b =
     (if rb_max_wall_clock_ms (bs_budget b) \<le> elapsed_ms now b
      then Some \<lparr>bx_dimension = Wall_clock, bx_message = ''wall-clock budget exhausted''\<rparr>
      else if sources_exhausted b
      then Some \<lparr>bx_dimension = Max_sources, bx_message = ''source budget exhausted''\<rparr>
      else if llm_calls_exhausted b
      then Some \<lparr>bx_dimension = Max_llm_calls, bx_message = ''LLM-call budget exhausted''\<rparr>
      else None)"

definition snapshot_budget :: "int \<Rightarrow> budget_tracker_state \<Rightarrow> research_snapshot" where
  "snapshot_budget now b = (let elapsed = elapsed_ms now b in
     \<lparr>sn_hops_used = bs_hops_used b,
      sn_hops_remaining = rb_max_hops (bs_budget b) - bs_hops_used b,
      sn_sources_used = bs_sources_used b,
      sn_sources_remaining = remaining_sources b,
      sn_llm_calls_used = bs_llm_calls_used b,
      sn_llm_calls_remaining = rb_max_llm_calls (bs_budget b) - bs_llm_calls_used b,
      sn_elapsed_ms = elapsed,
      sn_wall_clock_remaining_ms = max 0 (rb_max_wall_clock_ms (bs_budget b) - elapsed)\<rparr>)"

subsection \<open>Source pool\<close>

record synthesis_doc =
  sd_url :: jstext
  sd_final_url :: "jstext option"
  sd_host :: jstext
  sd_title :: "jstext option"
  sd_fetched_at :: jstext
  sd_published_at :: "jstext option"
  sd_text :: jstext
  sd_excerpt :: "jstext option"

record pool_entry =
  pe_doc :: synthesis_doc
  pe_rank :: int

datatype pool_rejection = Duplicate_url | Near_duplicate | Host_cap | Sources_cap

record pool_add_result =
  pa_kept :: bool
  pa_rejection :: "pool_rejection option"

record source_pool =
  sp_max_sources :: nat
  sp_per_host_cap :: nat
  sp_threshold :: real
  sp_entries :: "pool_entry list"
  sp_urls :: "jstext jsset"

definition DEFAULT_PER_HOST_CAP :: nat where
  "DEFAULT_PER_HOST_CAP = 3"

definition CLUSTER_SIMILARITY_THRESHOLD :: real where
  "CLUSTER_SIMILARITY_THRESHOLD = 85 / 100"

definition new_pool :: "nat \<Rightarrow> nat option \<Rightarrow> real option \<Rightarrow> source_pool" where
  "new_pool max_sources per_host threshold =
     \<lparr>sp_max_sources = max 1 max_sources,
      sp_per_host_cap = max 1 (case per_host of Some n \<Rightarrow> n | None \<Rightarrow> DEFAULT_PER_HOST_CAP),
      sp_threshold = (case threshold of Some r \<Rightarrow> r | None \<Rightarrow> CLUSTER_SIMILARITY_THRESHOLD),
      sp_entries = [], sp_urls = []\<rparr>"

definition doc_identity :: "url_platform \<Rightarrow> synthesis_doc \<Rightarrow> jstext" where
  "doc_identity plat d = canonical_url plat (case sd_final_url d of Some u \<Rightarrow> u | None \<Rightarrow> sd_url d)"

definition is_near_duplicate :: "source_pool \<Rightarrow> jstext \<Rightarrow> bool" where
  "is_near_duplicate p t =
     (if sp_entries p = [] then False
      else let vectors = tfidf_vectors (t # map (\<lambda>e. sd_text (pe_doc e)) (sp_entries p)) in
        list_ex (\<lambda>v. sp_threshold p \<le> cosine_similarity (hd vectors) v) (tl vectors))"

definition host_entries :: "jstext \<Rightarrow> source_pool \<Rightarrow> pool_entry list" where
  "host_entries h p = filter (\<lambda>e. sd_host (pe_doc e) = h) (sp_entries p)"

definition worst_entry :: "pool_entry list \<Rightarrow> pool_entry" where
  "worst_entry es = foldl (\<lambda>a b. if pe_rank b \<le> pe_rank a then a else b) (hd es) (tl es)"

definition insert_entry :: "synthesis_doc \<Rightarrow> int \<Rightarrow> jstext \<Rightarrow> source_pool \<Rightarrow> source_pool" where
  "insert_entry d rank identity p =
     p\<lparr>sp_entries := sp_entries p @ [\<lparr>pe_doc = d, pe_rank = rank\<rparr>], sp_urls := set_add identity (sp_urls p)\<rparr>"

definition evict_entry :: "url_platform \<Rightarrow> pool_entry \<Rightarrow> source_pool \<Rightarrow> source_pool" where
  "evict_entry plat e p =
     (if e \<in> set (sp_entries p)
      then p\<lparr>sp_entries := remove1 e (sp_entries p),
             sp_urls := filter (\<lambda>u. u \<noteq> doc_identity plat (pe_doc e)) (sp_urls p)\<rparr>
      else p)"

definition kept :: pool_add_result where
  "kept = \<lparr>pa_kept = True, pa_rejection = None\<rparr>"

definition rejected :: "pool_rejection \<Rightarrow> pool_add_result" where
  "rejected r = \<lparr>pa_kept = False, pa_rejection = Some r\<rparr>"

definition pool_add :: "url_platform \<Rightarrow> synthesis_doc \<Rightarrow> int \<Rightarrow> source_pool \<Rightarrow> pool_add_result \<times> source_pool" where
  "pool_add plat d rank p =
     (let identity = doc_identity plat d in
      if identity \<in> set (sp_urls p) then (rejected Duplicate_url, p)
      else if is_near_duplicate p (sd_text d) then (rejected Near_duplicate, p)
      else let peers = host_entries (sd_host d) p in
        if sp_per_host_cap p \<le> length peers
        then let worst = worst_entry peers in
          if pe_rank worst \<le> rank then (rejected Host_cap, p)
          else (kept, insert_entry d rank identity (evict_entry plat worst p))
        else if sp_max_sources p \<le> length (sp_entries p) then (rejected Sources_cap, p)
        else (kept, insert_entry d rank identity p))"

definition pool_is_full :: "source_pool \<Rightarrow> bool" where
  "pool_is_full p \<longleftrightarrow> sp_max_sources p \<le> length (sp_entries p)"

definition pool_docs :: "source_pool \<Rightarrow> synthesis_doc list" where
  "pool_docs p = map pe_doc (sort_key pe_rank (sp_entries p))"

subsection \<open>Coverage\<close>

text \<open>A stable sort by a comparison \<open>le\<close> (the comparator of the code is not positive).\<close>

fun insert_by :: "('a \<Rightarrow> 'a \<Rightarrow> bool) \<Rightarrow> 'a \<Rightarrow> 'a list \<Rightarrow> 'a list" where
  "insert_by le x [] = [x]"
| "insert_by le x (y # ys) = (if le x y then x # y # ys else y # insert_by le x ys)"

definition sort_by :: "('a \<Rightarrow> 'a \<Rightarrow> bool) \<Rightarrow> 'a list \<Rightarrow> 'a list" where
  "sort_by le xs = foldr (insert_by le) xs []"

definition MIN_EVIDENCE_DOCS :: nat where
  "MIN_EVIDENCE_DOCS = 2"

definition EVIDENCE_TOKEN_THRESHOLD :: rat where
  "EVIDENCE_TOKEN_THRESHOLD = 1"

definition MAX_ENTITY_SUBTOPICS :: nat where
  "MAX_ENTITY_SUBTOPICS = 8"

text \<open>\<open>localeCompare\<close> as \<open>a <= b\<close>, and the matches of the entity pattern in a text.\<close>

record text_platform =
  tp_collate :: "jstext \<Rightarrow> jstext \<Rightarrow> bool"
  tp_entities :: "jstext \<Rightarrow> jstext list"

record subtopic =
  st_label :: jstext
  st_tokens :: "jstext list"
  st_weight :: nat
  st_covered :: bool
  st_evidence :: "nat list"

record coverage_tracker =
  ct_subtopics :: "subtopic list"
  ct_seen_labels :: "jstext jsset"
  ct_seeded :: bool

record brief_section =
  bc_heading :: jstext
  bc_citations :: nat

definition new_coverage :: coverage_tracker where
  "new_coverage = \<lparr>ct_subtopics = [], ct_seen_labels = [], ct_seeded = False\<rparr>"

definition evidences :: "jstext list \<Rightarrow> jstext list \<Rightarrow> bool" where
  "evidences subtopic_tokens doc_tokens =
     (if subtopic_tokens = [] then False
      else let hits = length (filter (\<lambda>t. t \<in> set doc_tokens) subtopic_tokens) in
        EVIDENCE_TOKEN_THRESHOLD \<le> of_nat hits / of_nat (length subtopic_tokens))"

definition add_weight :: "jstext \<Rightarrow> nat \<Rightarrow> subtopic list \<Rightarrow> subtopic list" where
  "add_weight key w sts = (case find_index (\<lambda>s. to_lower (st_label s) = key) sts of
     None \<Rightarrow> sts
   | Some i \<Rightarrow> sts[i := (sts ! i)\<lparr>st_weight := st_weight (sts ! i) + w\<rparr>])"

definition add_subtopic :: "jstext \<Rightarrow> nat \<Rightarrow> coverage_tracker \<Rightarrow> coverage_tracker" where
  "add_subtopic raw w c =
     (let label = collapse_spaces raw; tokens = tokenize label; key = to_lower label in
      if label = [] \<or> tokens = [] then c
      else if key \<in> set (ct_seen_labels c)
      then c\<lparr>ct_subtopics := add_weight key w (ct_subtopics c)\<rparr>
      else c\<lparr>ct_seen_labels := set_add key (ct_seen_labels c),
             ct_subtopics := ct_subtopics c @ [\<lparr>st_label = label, st_tokens = tokens, st_weight = w,
               st_covered = False, st_evidence = []\<rparr>]\<rparr>)"

definition entity_holders ::
  "text_platform \<Rightarrow> synthesis_doc list \<Rightarrow> (jstext, nat jsset) jsmap" where
  "entity_holders tp docs = foldl (\<lambda>m (d, i).
       foldl (\<lambda>m e. map_set e (set_add i (case map_get m e of Some hs \<Rightarrow> hs | None \<Rightarrow> [])) m)
         m (tp_entities tp (sd_text d)))
     [] (zip docs [0..<length docs])"

definition top_entities :: "text_platform \<Rightarrow> synthesis_doc list \<Rightarrow> (jstext \<times> nat) list" where
  "top_entities tp docs = take MAX_ENTITY_SUBTOPICS
     (sort_by (\<lambda>(e, n) (e', n'). n' < n \<or> (n = n' \<and> tp_collate tp e e'))
       (map (\<lambda>(e, hs). (e, length hs))
         (filter (\<lambda>(e, hs). 2 \<le> length hs) (entity_holders tp docs))))"

definition evidence_of :: "jstext list list \<Rightarrow> subtopic \<Rightarrow> nat list" where
  "evidence_of doc_tokens s =
     map snd (filter (\<lambda>(ts, i). evidences (st_tokens s) ts) (zip doc_tokens [0..<length doc_tokens]))"

definition coverage_update :: "synthesis_doc list \<Rightarrow> coverage_tracker \<Rightarrow> coverage_tracker" where
  "coverage_update docs c = (let doc_tokens = map (\<lambda>d. tokenize (sd_text d)) docs in
     c\<lparr>ct_subtopics := map (\<lambda>s. s\<lparr>st_evidence := evidence_of doc_tokens s,
         st_covered := MIN_EVIDENCE_DOCS \<le> length (evidence_of doc_tokens s)\<rparr>) (ct_subtopics c)\<rparr>)"

definition coverage_seed ::
  "text_platform \<Rightarrow> brief_section list \<Rightarrow> synthesis_doc list \<Rightarrow> coverage_tracker \<Rightarrow> coverage_tracker" where
  "coverage_seed tp sections docs c =
     (let c1 = foldl (\<lambda>c s. add_subtopic (bc_heading s) (max 1 (bc_citations s)) c) c sections;
          c2 = foldl (\<lambda>c (e, n). add_subtopic e n c) c1 (top_entities tp docs) in
      coverage_update docs (c2\<lparr>ct_seeded := True\<rparr>))"

definition total_weight :: "subtopic list \<Rightarrow> nat" where
  "total_weight sts = sum_list (map st_weight sts)"

definition coverage_score :: "coverage_tracker \<Rightarrow> rat" where
  "coverage_score c =
     (if total_weight (ct_subtopics c) = 0 then 0
      else of_nat (total_weight (filter st_covered (ct_subtopics c))) /
           of_nat (total_weight (ct_subtopics c)))"

definition more_salient :: "text_platform \<Rightarrow> subtopic \<Rightarrow> subtopic \<Rightarrow> bool" where
  "more_salient tp a b \<longleftrightarrow> st_weight b < st_weight a \<or>
     (st_weight a = st_weight b \<and> tp_collate tp (st_label a) (st_label b))"

definition coverage_gaps :: "text_platform \<Rightarrow> coverage_tracker \<Rightarrow> jstext list" where
  "coverage_gaps tp c =
     map st_label (sort_by (more_salient tp) (filter (\<lambda>s. \<not> st_covered s) (ct_subtopics c)))"

definition coverage_views :: "text_platform \<Rightarrow> coverage_tracker \<Rightarrow> (jstext \<times> nat \<times> bool) list" where
  "coverage_views tp c = map (\<lambda>s. (st_label s, st_weight s, st_covered s))
     (sort_by (more_salient tp) (ct_subtopics c))"

subsection \<open>Follow-up queries\<close>

definition MAX_QUERIES_PER_HOP :: nat where
  "MAX_QUERIES_PER_HOP = 3"

definition MIN_QUERY_CHARS :: nat where
  "MIN_QUERY_CHARS = 3"

definition MAX_QUERY_CHARS :: nat where
  "MAX_QUERY_CHARS = 120"

definition NOVELTY_JACCARD_THRESHOLD :: rat where
  "NOVELTY_JACCARD_THRESHOLD = 8 / 10"

definition COMPARATIVE_CUES :: "jstext list" where
  "COMPARATIVE_CUES = [''vs'', ''versus'', ''compare'', ''comparison'', ''best'', ''cheapest'', ''price'',
     ''alternative'', ''alternatives'']"

definition normalize_query_text :: "jstext \<Rightarrow> jstext" where
  "normalize_query_text = collapse_spaces"

definition is_valid_query :: "jstext \<Rightarrow> bool" where
  "is_valid_query q \<longleftrightarrow> MIN_QUERY_CHARS \<le> length q \<and> length q \<le> MAX_QUERY_CHARS \<and>
     \<not> list_ex (\<lambda>c. code c < 32 \<or> code c = 127) q \<and> tokenize q \<noteq> []"

definition jaccard :: "jstext jsset \<Rightarrow> jstext jsset \<Rightarrow> rat" where
  "jaccard a b =
     (if a = [] \<and> b = [] then 0
      else let intersection = length (filter (\<lambda>t. t \<in> set b) a);
               union = length a + length b - intersection in
        if union = 0 then 0 else of_nat intersection / of_nat union)"

definition token_set :: "jstext \<Rightarrow> jstext jsset" where
  "token_set q = to_jsset (tokenize q)"

definition restates :: "jstext jsset \<Rightarrow> jstext jsset list \<Rightarrow> bool" where
  "restates ts prior \<longleftrightarrow> list_ex (\<lambda>s. NOVELTY_JACCARD_THRESHOLD \<le> jaccard ts s) prior"

definition filter_novel :: "jstext list \<Rightarrow> jstext list \<Rightarrow> jstext list" where
  "filter_novel candidates issued =
     foldl (\<lambda>kept q. if restates (token_set q) (map token_set issued) \<or>
                        restates (token_set q) (map token_set kept)
                     then kept else kept @ [q]) [] candidates"

fun dedupe_from :: "jstext list \<Rightarrow> jstext list \<Rightarrow> jstext list" where
  "dedupe_from seen [] = []"
| "dedupe_from seen (q # qs) =
     (if to_lower q \<in> set seen then dedupe_from seen qs else q # dedupe_from (to_lower q # seen) qs)"

definition dedupe_queries :: "jstext list \<Rightarrow> jstext list" where
  "dedupe_queries qs = dedupe_from [] qs"

definition is_comparative :: "jstext \<Rightarrow> bool" where
  "is_comparative topic \<longleftrightarrow> list_ex (\<lambda>cue. cue \<in> set (tokenize topic)) COMPARATIVE_CUES"

text \<open>\<open>replace(/^\s*(?:[-*]|\d+[.)])\s*/, '')\<close>: a list marker and the spaces around it.\<close>

definition strip_marker :: "jstext \<Rightarrow> jstext" where
  "strip_marker line = (let s = dropWhile is_space line; d = dropWhile is_digit s in
     if s \<noteq> [] \<and> (hd s = CHR ''-'' \<or> hd s = CHR ''*'') then dropWhile is_space (tl s)
     else if d \<noteq> s \<and> d \<noteq> [] \<and> (hd d = CHR ''.'' \<or> hd d = CHR '')'') then dropWhile is_space (tl d)
     else line)"

definition is_quote :: "char \<Rightarrow> bool" where
  "is_quote c \<longleftrightarrow> c = CHR 0x22 \<or> c = CHR 0x27"

definition strip_quotes :: "jstext \<Rightarrow> jstext" where
  "strip_quotes s = (let t = (if s \<noteq> [] \<and> is_quote (hd s) then tl s else s) in
     if t \<noteq> [] \<and> is_quote (last t) then butlast t else t)"

text \<open>\<open>split(/\r?\n/)\<close>: a carriage return before a line feed belongs to the separator.\<close>

definition lines_of :: "jstext \<Rightarrow> jstext list" where
  "lines_of s = (let ls = split_on (char_of (10 :: nat)) s in
     map (\<lambda>l. if l \<noteq> [] \<and> last l = char_of (13 :: nat) then butlast l else l) (butlast ls) @ [last ls])"

text \<open>\<open>json\<close>: the strings of the array a text parses to; \<open>None\<close> when it throws or is no array.\<close>

definition parse_queries :: "(jstext \<Rightarrow> jstext list option) \<Rightarrow> jstext \<Rightarrow> jstext list" where
  "parse_queries json response =
     (let t = trim response;
          by_lines = filter (\<lambda>l. l \<noteq> []) (map (\<lambda>l. trim (strip_quotes (strip_marker l))) (lines_of t)) in
      case (find_index (\<lambda>c. c = CHR ''[''  ) t, find_index (\<lambda>c. c = CHR '']'') (rev t)) of
        (Some start, Some k) \<Rightarrow>
          (let stop = length t - Suc k in
           if start < stop
           then (case json (take (stop + 1 - start) (drop start t)) of
                   Some qs \<Rightarrow> qs | None \<Rightarrow> by_lines)
           else by_lines)
      | _ \<Rightarrow> by_lines)"

record query_gen_input =
  qi_topic :: jstext
  qi_gaps :: "jstext list"
  qi_interim_overview :: jstext
  qi_issued_queries :: "jstext list"
  qi_scope :: jstext
  qi_host :: jstext

text \<open>
  The generator's ports: the sanitizer, the prompt template (system text and user prompt) and the model
  call on the state of the world, whose failure is \<open>None\<close>. Without a model or a template there is no
  model path.
\<close>

record 'e query_port =
  qp_sanitize :: "jstext \<Rightarrow> jstext \<Rightarrow> jstext \<Rightarrow> jstext"
  qp_system :: jstext
  qp_build_user :: "query_gen_input \<Rightarrow> jstext \<Rightarrow> jstext"
  qp_send :: "jstext \<Rightarrow> jstext \<Rightarrow> 'e \<Rightarrow> jstext option \<times> 'e"
  qp_json :: "jstext \<Rightarrow> jstext list option"

record query_gen_result =
  qr_queries :: "jstext list"
  qr_used_llm :: bool

definition deterministic_queries :: "query_gen_input \<Rightarrow> jstext list" where
  "deterministic_queries i =
     (let generated = concat (map (\<lambda>gap. let s = normalize_query_text gap in
            if s = [] then []
            else [qi_topic i @ '' '' @ s, s @ '' explained''] @
                 (if is_comparative (qi_topic i) then [s @ '' comparison''] else [])) (qi_gaps i));
          valid = filter is_valid_query (map normalize_query_text generated) in
      take MAX_QUERIES_PER_HOP (filter_novel (dedupe_queries valid) (qi_issued_queries i)))"

definition generate_with_llm ::
  "'e query_port \<Rightarrow> query_gen_input \<Rightarrow> 'e \<Rightarrow> jstext list option \<times> 'e" where
  "generate_with_llm port i e =
     (case qp_send port (qp_system port)
             (qp_build_user port i (qp_sanitize port (qi_interim_overview i) (qi_scope i) (qi_host i))) e of
        (None, e') \<Rightarrow> (None, e')
      | (Some reply, e') \<Rightarrow>
          (let valid = filter is_valid_query (map normalize_query_text (parse_queries (qp_json port) reply)) in
           if valid = [] then (None, e')
           else (Some (take MAX_QUERIES_PER_HOP (filter_novel valid (qi_issued_queries i))), e')))"

definition generate_queries ::
  "'e query_port option \<Rightarrow> query_gen_input \<Rightarrow> 'e \<Rightarrow> query_gen_result \<times> 'e" where
  "generate_queries port i e = (case port of
     Some p \<Rightarrow> (case generate_with_llm p i e of
         (Some qs, e') \<Rightarrow> (\<lparr>qr_queries = qs, qr_used_llm = True\<rparr>, e')
       | (None, e') \<Rightarrow> (\<lparr>qr_queries = deterministic_queries i, qr_used_llm = False\<rparr>, e'))
   | None \<Rightarrow> (\<lparr>qr_queries = deterministic_queries i, qr_used_llm = False\<rparr>, e))"

section \<open>Lemmas\<close>

subsection \<open>Budget\<close>

lemma budget_checkpoint_None:
  "budget_checkpoint now b = None \<longleftrightarrow> elapsed_ms now b < rb_max_wall_clock_ms (bs_budget b) \<and>
     bs_sources_used b < rb_max_sources (bs_budget b) \<and> bs_llm_calls_used b < rb_max_llm_calls (bs_budget b)"
  by (auto simp: budget_checkpoint_def sources_exhausted_def llm_calls_exhausted_def)

lemma budget_checkpoint_dimension:
  "budget_checkpoint now b = Some x \<Longrightarrow> bx_dimension x \<noteq> Max_hops_dimension"
  by (auto simp: budget_checkpoint_def split: if_splits)

lemma snapshot_adds_up:
  assumes "bs_hops_used b \<le> rb_max_hops (bs_budget b)" and "bs_sources_used b \<le> rb_max_sources (bs_budget b)"
  shows "sn_hops_used (snapshot_budget now b) + sn_hops_remaining (snapshot_budget now b) = rb_max_hops (bs_budget b)"
    and "sn_sources_used (snapshot_budget now b) + sn_sources_remaining (snapshot_budget now b) =
      rb_max_sources (bs_budget b)"
  using assms by (simp_all add: snapshot_budget_def Let_def remaining_sources_def)

subsection \<open>Pool\<close>

definition entry_identity :: "url_platform \<Rightarrow> pool_entry \<Rightarrow> jstext" where
  "entry_identity plat e = doc_identity plat (pe_doc e)"

definition entry_tokens :: "pool_entry \<Rightarrow> jstext list" where
  "entry_tokens e = tokenize (sd_text (pe_doc e))"

definition pool_identities_ok :: "url_platform \<Rightarrow> source_pool \<Rightarrow> bool" where
  "pool_identities_ok plat p \<longleftrightarrow> distinct (map (entry_identity plat) (sp_entries p)) \<and>
     set (sp_urls p) = entry_identity plat ` set (sp_entries p)"

definition pool_caps_ok :: "source_pool \<Rightarrow> bool" where
  "pool_caps_ok p \<longleftrightarrow> 1 \<le> sp_per_host_cap p \<and> length (sp_entries p) \<le> sp_max_sources p \<and>
     (\<forall>h. length (host_entries h p) \<le> sp_per_host_cap p)"

definition pool_texts_ok :: "source_pool \<Rightarrow> bool" where
  "pool_texts_ok p \<longleftrightarrow> distinct (filter (\<lambda>ts. ts \<noteq> []) (map entry_tokens (sp_entries p)))"

definition same_limits :: "source_pool \<Rightarrow> source_pool \<Rightarrow> bool" where
  "same_limits p q \<longleftrightarrow> sp_max_sources p = sp_max_sources q \<and> sp_per_host_cap p = sp_per_host_cap q \<and>
     sp_threshold p = sp_threshold q"

lemma worst_entry_in_max:
  assumes "es \<noteq> []"
  shows "worst_entry es \<in> set es \<and> (\<forall>e \<in> set es. pe_rank e \<le> pe_rank (worst_entry es))"
proof -
  let ?f = "\<lambda>a b. if pe_rank b \<le> pe_rank a then a else b"
  have "foldl ?f x xs \<in> set (x # xs) \<and> (\<forall>e \<in> set (x # xs). pe_rank e \<le> pe_rank (foldl ?f x xs))" for x xs
  proof (induction xs arbitrary: x)
    case (Cons y ys)
    from Cons [of "?f x y"] show ?case by (auto split: if_splits)
  qed simp
  from this [of "hd es" "tl es"] assms show ?thesis by (simp add: worst_entry_def)
qed

lemma host_entries_subset: "e \<in> set (host_entries h p) \<Longrightarrow> e \<in> set (sp_entries p) \<and> sd_host (pe_doc e) = h"
  by (simp add: host_entries_def)

text \<open>The five ways an \<open>add\<close> can end.\<close>

lemma pool_add_cases:
  obtains (duplicate) "doc_identity plat d \<in> set (sp_urls p)" "pool_add plat d rank p = (rejected Duplicate_url, p)"
  | (near) "is_near_duplicate p (sd_text d)" "pool_add plat d rank p = (rejected Near_duplicate, p)"
  | (host) "pe_rank (worst_entry (host_entries (sd_host d) p)) \<le> rank"
      "sp_per_host_cap p \<le> length (host_entries (sd_host d) p)" "pool_add plat d rank p = (rejected Host_cap, p)"
  | (full) "sp_max_sources p \<le> length (sp_entries p)" "pool_add plat d rank p = (rejected Sources_cap, p)"
  | (swap) "doc_identity plat d \<notin> set (sp_urls p)" "\<not> is_near_duplicate p (sd_text d)"
      "sp_per_host_cap p \<le> length (host_entries (sd_host d) p)"
      "rank < pe_rank (worst_entry (host_entries (sd_host d) p))"
      "pool_add plat d rank p = (kept, insert_entry d rank (doc_identity plat d)
         (evict_entry plat (worst_entry (host_entries (sd_host d) p)) p))"
  | (insert) "doc_identity plat d \<notin> set (sp_urls p)" "\<not> is_near_duplicate p (sd_text d)"
      "length (host_entries (sd_host d) p) < sp_per_host_cap p" "length (sp_entries p) < sp_max_sources p"
      "pool_add plat d rank p = (kept, insert_entry d rank (doc_identity plat d) p)"
proof -
  consider "doc_identity plat d \<in> set (sp_urls p)"
    | "doc_identity plat d \<notin> set (sp_urls p)" "is_near_duplicate p (sd_text d)"
    | "doc_identity plat d \<notin> set (sp_urls p)" "\<not> is_near_duplicate p (sd_text d)" by blast
  then show thesis
  proof cases
    case 1
    then show thesis by (intro duplicate) (simp_all add: pool_add_def)
  next
    case 2
    then show thesis by (intro near) (simp_all add: pool_add_def)
  next
    case 3
    note new = 3
    show thesis
    proof (cases "sp_per_host_cap p \<le> length (host_entries (sd_host d) p)")
      case True
      note full_host = True
      show thesis
      proof (cases "pe_rank (worst_entry (host_entries (sd_host d) p)) \<le> rank")
        case True
        show thesis by (rule host [OF True full_host]) (simp add: pool_add_def Let_def new True full_host)
      next
        case False
        then show thesis
          by (intro swap [OF new full_host]) (simp_all add: pool_add_def Let_def new full_host)
      qed
    next
      case False
      then show thesis
      proof (cases "sp_max_sources p \<le> length (sp_entries p)")
        case True
        show thesis by (rule full [OF True]) (simp add: pool_add_def Let_def new True False)
      next
        case room: False
        show thesis
          by (rule insert [OF new]) (use False room in \<open>simp_all add: pool_add_def Let_def new\<close>)
      qed
    qed
  qed
qed

lemma near_duplicate_tokens:
  assumes "e \<in> set (sp_entries p)" and "tokenize t = entry_tokens e" and "tokenize t \<noteq> []"
    and "sp_threshold p \<le> 1"
  shows "is_near_duplicate p t"
proof -
  let ?us = "map (\<lambda>e. sd_text (pe_doc e)) (sp_entries p)"
  let ?vs = "tfidf_vectors (t # ?us)"
  obtain i where i: "i < length (sp_entries p)" "sp_entries p ! i = e"
    using assms(1) by (auto simp: in_set_conv_nth)
  have "cosine_similarity (?vs ! 0) (?vs ! Suc i) = 1"
    by (rule same_tokens_similar [where u = "sd_text (pe_doc e)"])
      (use assms i in \<open>simp_all add: entry_tokens_def\<close>)
  moreover have "length ?vs = Suc (length (sp_entries p))" by (simp add: tfidf_vectors_def Let_def)
  then obtain v vs where vs: "?vs = v # vs" "length vs = length (sp_entries p)"
    by (cases ?vs) simp_all
  ultimately have "cosine_similarity v (vs ! i) = 1" "vs ! i \<in> set vs" using i(1) by simp_all
  moreover have "sp_entries p \<noteq> []" using assms(1) by auto
  ultimately show ?thesis using assms(4) vs(1)
    by (auto simp: is_near_duplicate_def list_ex_iff intro!: bexI [of _ "vs ! i"])
qed

lemma same_limits_simps [simp]:
  "same_limits p p" "same_limits p (insert_entry d r u p)" "same_limits p (evict_entry plat e p)"
  by (simp_all add: same_limits_def insert_entry_def evict_entry_def)

lemma insert_entry_simps [simp]:
  "sp_entries (insert_entry d r u p) = sp_entries p @ [\<lparr>pe_doc = d, pe_rank = r\<rparr>]"
  "set (sp_urls (insert_entry d r u p)) = insert u (set (sp_urls p))"
  "sp_max_sources (insert_entry d r u p) = sp_max_sources p"
  "sp_per_host_cap (insert_entry d r u p) = sp_per_host_cap p"
  "host_entries h (insert_entry d r u p) = host_entries h p @
     (if sd_host d = h then [\<lparr>pe_doc = d, pe_rank = r\<rparr>] else [])"
  by (simp_all add: insert_entry_def host_entries_def)

lemma evict_entry_simps:
  assumes "e \<in> set (sp_entries p)"
  shows "sp_entries (evict_entry plat e p) = remove1 e (sp_entries p)"
    and "sp_urls (evict_entry plat e p) = filter (\<lambda>u. u \<noteq> entry_identity plat e) (sp_urls p)"
    and "sp_max_sources (evict_entry plat e p) = sp_max_sources p"
    and "sp_per_host_cap (evict_entry plat e p) = sp_per_host_cap p"
    and "host_entries h (evict_entry plat e p) =
      (if sd_host (pe_doc e) = h then remove1 e (host_entries h p) else host_entries h p)"
  using assms
  by (simp_all add: evict_entry_def entry_identity_def host_entries_def filter_remove1 remove1_idem)

lemma evict_identities:
  assumes "pool_identities_ok plat p" and "e \<in> set (sp_entries p)"
  shows "pool_identities_ok plat (evict_entry plat e p)"
proof -
  obtain xs ys where xs: "sp_entries p = xs @ e # ys" "e \<notin> set xs" using assms(2) split_list_first by metis
  let ?I = "entry_identity plat ` set (xs @ ys)"
  have left: "sp_entries (evict_entry plat e p) = xs @ ys"
    using assms(2) xs by (simp add: evict_entry_simps remove1_append)
  have out: "entry_identity plat e \<notin> ?I" using assms(1) by (auto simp: pool_identities_ok_def xs)
  have "set (sp_urls p) = insert (entry_identity plat e) ?I"
    using assms(1) by (simp add: pool_identities_ok_def xs)
  then have "set (sp_urls (evict_entry plat e p)) = insert (entry_identity plat e) ?I - {entry_identity plat e}"
    using assms(2) by (auto simp: evict_entry_simps)
  with out have "set (sp_urls (evict_entry plat e p)) = ?I" by simp
  moreover have "distinct (map (entry_identity plat) (xs @ ys))"
    using assms(1) by (simp add: pool_identities_ok_def xs)
  ultimately show ?thesis by (simp add: pool_identities_ok_def left)
qed

lemma insert_identities:
  "pool_identities_ok plat p \<Longrightarrow> doc_identity plat d \<notin> set (sp_urls p) \<Longrightarrow>
     pool_identities_ok plat (insert_entry d r (doc_identity plat d) p)"
  by (simp add: pool_identities_ok_def entry_identity_def)

lemma pool_add_identities:
  assumes "pool_identities_ok plat p"
  shows "pool_identities_ok plat (snd (pool_add plat d rank p))"
proof (cases rule: pool_add_cases [where plat = plat and d = d and p = p and rank = rank])
  case swap
  let ?w = "worst_entry (host_entries (sd_host d) p)"
  have "?w \<in> set (sp_entries p)" if "host_entries (sd_host d) p \<noteq> []"
    using worst_entry_in_max [OF that] host_entries_subset by blast
  then have "pool_identities_ok plat (evict_entry plat ?w p)"
    using evict_identities [OF assms] by (cases "?w \<in> set (sp_entries p)") (auto simp: evict_entry_def assms)
  moreover have "doc_identity plat d \<notin> set (sp_urls (evict_entry plat ?w p))"
    using swap(1) by (simp add: evict_entry_def)
  ultimately show ?thesis using swap(5) insert_identities by simp
qed (use assms insert_identities in simp_all)

lemma pool_add_limits [simp]: "same_limits p (snd (pool_add plat d rank p))"
  by (cases rule: pool_add_cases [where plat = plat and d = d and p = p and rank = rank])
    (simp_all add: same_limits_def insert_entry_def evict_entry_def)

lemma pool_add_caps:
  assumes "pool_caps_ok p"
  shows "pool_caps_ok (snd (pool_add plat d rank p))"
proof (cases rule: pool_add_cases [where plat = plat and d = d and p = p and rank = rank])
  case swap
  let ?w = "worst_entry (host_entries (sd_host d) p)"
  have "host_entries (sd_host d) p \<noteq> []" using swap(3) assms by (auto simp: pool_caps_ok_def)
  from worst_entry_in_max [OF this] have w: "?w \<in> set (host_entries (sd_host d) p)" by blast
  then have in_p: "?w \<in> set (sp_entries p)" "sd_host (pe_doc ?w) = sd_host d"
    using host_entries_subset by blast+
  have "length (sp_entries p) > 0" "length (host_entries (sd_host d) p) > 0" using w in_p by auto
  then show ?thesis using assms swap(5) in_p w
    by (auto simp: pool_caps_ok_def evict_entry_simps length_remove1)
next
  case insert
  then show ?thesis using assms by (auto simp: pool_caps_ok_def)
qed (use assms in simp_all)

lemma distinct_after_remove1:
  assumes "distinct (filter P (map f xs))"
  shows "distinct (filter P (map f (remove1 e xs)))"
proof (cases "e \<in> set xs")
  case True
  then obtain ys zs where "xs = ys @ e # zs" "e \<notin> set ys" using split_list_first by metis
  then show ?thesis using assms by (auto simp: remove1_append split: if_splits)
qed (simp add: assms remove1_idem)

lemma pool_add_texts:
  assumes "pool_texts_ok p" and "sp_threshold p \<le> 1"
  shows "pool_texts_ok (snd (pool_add plat d rank p))"
proof -
  have fresh: "tokenize (sd_text d) \<notin> set (filter (\<lambda>ts. ts \<noteq> []) (map entry_tokens (sp_entries p)))"
    if "\<not> is_near_duplicate p (sd_text d)"
  proof
    assume "tokenize (sd_text d) \<in> set (filter (\<lambda>ts. ts \<noteq> []) (map entry_tokens (sp_entries p)))"
    then obtain e where "e \<in> set (sp_entries p)" "tokenize (sd_text d) = entry_tokens e"
      "tokenize (sd_text d) \<noteq> []" by auto
    from near_duplicate_tokens [OF this assms(2)] that show False by simp
  qed
  show ?thesis
  proof (cases rule: pool_add_cases [where plat = plat and d = d and p = p and rank = rank])
    case swap
    let ?q = "evict_entry plat (worst_entry (host_entries (sd_host d) p)) p"
    have q: "sp_entries ?q = remove1 (worst_entry (host_entries (sd_host d) p)) (sp_entries p)"
      by (simp add: evict_entry_def remove1_idem)
    have "set (sp_entries ?q) \<subseteq> set (sp_entries p)" unfolding q by (rule set_remove1_subset)
    then have "tokenize (sd_text d) \<notin> set (filter (\<lambda>ts. ts \<noteq> []) (map entry_tokens (sp_entries ?q)))"
      using fresh [OF swap(2)] by auto
    moreover have "distinct (filter (\<lambda>ts. ts \<noteq> []) (map entry_tokens (sp_entries ?q)))"
      unfolding q using assms(1) by (intro distinct_after_remove1) (simp add: pool_texts_ok_def)
    ultimately show ?thesis using swap(5)
      by (auto simp: pool_texts_ok_def entry_tokens_def [of "\<lparr>pe_doc = d, pe_rank = rank\<rparr>"])
  next
    case insert
    then show ?thesis using fresh [OF insert(2)] assms(1)
      by (auto simp: pool_texts_ok_def entry_tokens_def)
  qed (use assms in simp_all)
qed

text \<open>A run of the pool: candidates offered in order.\<close>

definition pool_run :: "url_platform \<Rightarrow> (synthesis_doc \<times> int) list \<Rightarrow> source_pool \<Rightarrow> source_pool" where
  "pool_run plat offers p = foldl (\<lambda>p (d, rank). snd (pool_add plat d rank p)) p offers"

definition pool_ok :: "url_platform \<Rightarrow> source_pool \<Rightarrow> bool" where
  "pool_ok plat p \<longleftrightarrow> pool_identities_ok plat p \<and> pool_caps_ok p \<and>
     (sp_threshold p \<le> 1 \<longrightarrow> pool_texts_ok p)"

lemma new_pool_ok: "pool_ok plat (new_pool m c t)"
  by (simp add: pool_ok_def pool_identities_ok_def pool_caps_ok_def pool_texts_ok_def new_pool_def host_entries_def)

lemma pool_add_ok: "pool_ok plat p \<Longrightarrow> pool_ok plat (snd (pool_add plat d rank p))"
  using pool_add_limits [of p plat d rank]
  by (simp add: pool_ok_def pool_add_identities pool_add_caps pool_add_texts same_limits_def)

lemma pool_run_ok: "pool_ok plat p \<Longrightarrow> pool_ok plat (pool_run plat offers p) \<and> same_limits p (pool_run plat offers p)"
proof (induction offers arbitrary: p)
  case (Cons x offers)
  obtain d rank where x: "x = (d, rank)" by fastforce
  let ?q = "snd (pool_add plat d rank p)"
  have "pool_ok plat (pool_run plat offers ?q) \<and> same_limits ?q (pool_run plat offers ?q)"
    using Cons.IH [OF pool_add_ok [OF Cons.prems]] .
  moreover have "pool_run plat (x # offers) p = pool_run plat offers ?q" by (simp add: pool_run_def x)
  ultimately show ?case using pool_add_limits [of p plat d rank] by (simp add: same_limits_def)
qed (simp add: pool_run_def)

lemma pool_add_kept_size:
  "length (sp_entries (snd (pool_add plat d rank p))) \<le>
     length (sp_entries p) + (if pa_kept (fst (pool_add plat d rank p)) then 1 else 0)"
  by (cases rule: pool_add_cases [where plat = plat and d = d and p = p and rank = rank])
    (auto simp: kept_def rejected_def evict_entry_def length_remove1)

text \<open>
  An eviction is counted as a source kept: the pool can hold fewer documents than the budget has charged.
\<close>

lemma eviction_keeps_size:
  assumes "pool_caps_ok p" and "pa_kept (fst (pool_add plat d rank p))"
    and "sp_per_host_cap p \<le> length (host_entries (sd_host d) p)"
  shows "length (sp_entries (snd (pool_add plat d rank p))) = length (sp_entries p)"
proof (cases rule: pool_add_cases [where plat = plat and d = d and p = p and rank = rank])
  case swap
  have "host_entries (sd_host d) p \<noteq> []" using assms(1,3) by (auto simp: pool_caps_ok_def)
  then have "worst_entry (host_entries (sd_host d) p) \<in> set (sp_entries p)"
    using worst_entry_in_max host_entries_subset by blast
  moreover from this have "0 < length (sp_entries p)" by (auto simp: length_pos_if_in_set)
  ultimately show ?thesis using swap(5) by (simp add: evict_entry_def length_remove1)
qed (use assms in \<open>auto simp: rejected_def\<close>)

subsection \<open>Coverage\<close>

lemma mset_insert_by: "mset (insert_by le x ys) = add_mset x (mset ys)"
  by (induction ys) auto

lemma mset_sort_by [simp]: "mset (sort_by le xs) = mset xs"
  by (induction xs) (simp_all add: sort_by_def mset_insert_by)

lemma set_sort_by [simp]: "set (sort_by le xs) = set xs"
  by (metis mset_sort_by set_mset_mset)

lemma total_weight_filter_le: "total_weight (filter P sts) \<le> total_weight sts"
  by (induction sts) (auto simp: total_weight_def)

lemma coverage_score_range: "0 \<le> coverage_score c \<and> coverage_score c \<le> 1"
  using total_weight_filter_le [of st_covered "ct_subtopics c"]
  by (auto simp: coverage_score_def divide_le_eq_1)

definition weighted :: "coverage_tracker \<Rightarrow> bool" where
  "weighted c \<longleftrightarrow> (\<forall>s \<in> set (ct_subtopics c). 1 \<le> st_weight s)"

lemma add_subtopic_weighted: "weighted c \<Longrightarrow> 1 \<le> w \<Longrightarrow> weighted (add_subtopic l w c)"
  by (auto simp: weighted_def add_subtopic_def add_weight_def Let_def trans_le_add1
      dest!: find_index_Some set_update_subset_insert [THEN subsetD] split: option.splits)

lemma coverage_update_weighted: "weighted c \<Longrightarrow> weighted (coverage_update docs c)"
  by (auto simp: weighted_def coverage_update_def Let_def)

lemma top_entities_ge_2: "(e, n) \<in> set (top_entities tp docs) \<Longrightarrow> 2 \<le> n"
  by (auto simp: top_entities_def dest!: in_set_takeD)

lemma coverage_seed_weighted:
  assumes "weighted c"
  shows "weighted (coverage_seed tp sections docs c)"
proof -
  have sections: "weighted (foldl (\<lambda>c s. add_subtopic (bc_heading s) (max 1 (bc_citations s)) c) c sections)" for sections
    using assms by (induction sections arbitrary: c) (simp_all add: add_subtopic_weighted)
  have entities: "weighted (foldl (\<lambda>c (e, n). add_subtopic e n c) c es)"
    if "weighted c" "\<forall>(e, n) \<in> set es. 2 \<le> n" for es c
    using that
  proof (induction es arbitrary: c)
    case (Cons x es)
    obtain e n where "x = (e, n)" by fastforce
    with Cons show ?case by (auto simp: add_subtopic_weighted)
  qed simp
  have "\<forall>(e, n) \<in> set (top_entities tp docs). 2 \<le> n" by (auto dest: top_entities_ge_2)
  note seeded = entities [OF sections this]
  have flag: "weighted (c\<lparr>ct_seeded := b\<rparr>) = weighted c" for c b by (simp add: weighted_def)
  show ?thesis
    unfolding coverage_seed_def Let_def by (rule coverage_update_weighted) (simp only: flag seeded)
qed

text \<open>Full score means no gap: the score reaches one exactly when every subtopic is covered.\<close>

lemma total_weight_filter_eq:
  assumes "\<forall>s \<in> set sts. 1 \<le> st_weight s" and "total_weight (filter P sts) = total_weight sts"
  shows "\<forall>s \<in> set sts. P s"
  using assms
proof (induction sts)
  case (Cons s sts)
  note le = total_weight_filter_le [of P sts]
  have weight: "1 \<le> st_weight s" using Cons.prems(1) by simp
  show ?case
  proof (cases "P s")
    case True
    then have "total_weight (filter P sts) = total_weight sts"
      using Cons.prems(2) by (simp add: total_weight_def)
    from Cons.IH [OF _ this] Cons.prems(1) True show ?thesis by simp
  next
    case False
    then have "total_weight (filter P sts) = st_weight s + total_weight sts"
      using Cons.prems(2) by (simp add: total_weight_def)
    then show ?thesis using le weight by linarith
  qed
qed simp

lemma coverage_full_iff:
  assumes "weighted c" and "ct_subtopics c \<noteq> []"
  shows "coverage_score c = 1 \<longleftrightarrow> coverage_gaps tp c = []"
proof -
  have pos: "0 < total_weight (ct_subtopics c)"
    using assms by (cases "ct_subtopics c") (auto simp: weighted_def total_weight_def)
  have "coverage_score c = 1 \<longleftrightarrow> total_weight (filter st_covered (ct_subtopics c)) = total_weight (ct_subtopics c)"
    using pos by (auto simp: coverage_score_def)
  also have "\<dots> \<longleftrightarrow> (\<forall>s \<in> set (ct_subtopics c). st_covered s)"
    using assms(1) total_weight_filter_eq [of "ct_subtopics c" st_covered]
    by (auto simp: weighted_def)
  also have "\<dots> \<longleftrightarrow> set (coverage_gaps tp c) = {}"
    by (auto simp: coverage_gaps_def)
  finally show ?thesis by simp
qed

subsection \<open>Queries\<close>

lemma foldl_novel:
  fixes prior :: "jstext jsset list"
  defines "f \<equiv> \<lambda>kept q. if restates (token_set q) prior \<or> restates (token_set q) (map token_set kept)
                     then kept else kept @ [q]"
  assumes "list_all (\<lambda>q. \<not> restates (token_set q) prior) acc"
  shows "list_all (\<lambda>q. \<not> restates (token_set q) prior) (foldl f acc qs)"
  using assms(2) by (induction qs arbitrary: acc) (auto simp: f_def)

lemma filter_novel_novel:
  "list_all (\<lambda>q. \<not> restates (token_set q) (map token_set issued)) (filter_novel qs issued)"
  unfolding filter_novel_def by (rule foldl_novel) simp

lemma filter_novel_subset: "set (filter_novel qs issued) \<subseteq> set qs"
proof -
  have "set (foldl (\<lambda>kept q. if restates (token_set q) prior \<or> restates (token_set q) (map token_set kept)
      then kept else kept @ [q]) acc qs) \<subseteq> set acc \<union> set qs" for prior acc
  proof (induction qs arbitrary: acc)
    case (Cons q qs)
    show ?case
      using Cons.IH [of acc] Cons.IH [of "acc @ [q]"] by auto
  qed simp
  from this [of "map token_set issued" "[]"] show ?thesis by (simp add: filter_novel_def)
qed

lemma dedupe_subset: "set (dedupe_queries qs) \<subseteq> set qs"
proof -
  have "set (dedupe_from seen qs) \<subseteq> set qs" for seen
    by (induction seen qs rule: dedupe_from.induct) auto
  then show ?thesis by (simp add: dedupe_queries_def)
qed

definition fresh_queries :: "jstext list \<Rightarrow> jstext list \<Rightarrow> bool" where
  "fresh_queries issued qs \<longleftrightarrow> length qs \<le> MAX_QUERIES_PER_HOP \<and> list_all is_valid_query qs \<and>
     list_all (\<lambda>q. \<not> restates (token_set q) (map token_set issued)) qs"

lemma fresh_take_novel:
  assumes "list_all is_valid_query qs"
  shows "fresh_queries issued (take MAX_QUERIES_PER_HOP (filter_novel qs issued))"
proof -
  have "list_all is_valid_query (filter_novel qs issued)"
    using assms filter_novel_subset [of qs issued] by (auto simp: list_all_iff)
  with filter_novel_novel [of issued qs] show ?thesis
    by (auto simp: fresh_queries_def list_all_iff dest: in_set_takeD)
qed

lemma fresh_deterministic: "fresh_queries (qi_issued_queries i) (deterministic_queries i)"
  unfolding deterministic_queries_def Let_def
  by (rule fresh_take_novel) (use dedupe_subset in \<open>fastforce simp: list_all_iff\<close>)

lemma fresh_generate_with_llm:
  "generate_with_llm p i e = (Some qs, e') \<Longrightarrow> fresh_queries (qi_issued_queries i) qs"
  by (auto simp: generate_with_llm_def Let_def list_all_iff intro!: fresh_take_novel
      split: prod.splits option.splits if_splits)

lemma fresh_generate: "fresh_queries (qi_issued_queries i) (qr_queries (fst (generate_queries port i e)))"
  by (auto simp: generate_queries_def fresh_deterministic fresh_generate_with_llm
      split: option.splits prod.splits)

text \<open>A call the model answered unusably is not charged: the result says no model was used.\<close>

lemma failed_call_not_charged:
  assumes "generate_with_llm p i e = (None, e')"
  shows "qr_used_llm (fst (generate_queries (Some p) i e)) = False \<and>
    e' = snd (qp_send p (qp_system p) (qp_build_user p i (qp_sanitize p (qi_interim_overview i) (qi_scope i) (qi_host i))) e)"
  using assms by (auto simp: generate_queries_def generate_with_llm_def Let_def
      split: prod.splits option.splits if_splits)

subsection \<open>The corpus\<close>

definition corpus ::
  "url_platform \<Rightarrow> nat \<Rightarrow> nat option \<Rightarrow> (synthesis_doc \<times> int) list \<Rightarrow> synthesis_doc list" where
  "corpus plat m c offers = pool_docs (pool_run plat offers (new_pool m c None))"

text \<open>Sorting by rank permutes the entries.\<close>

lemma mset_sort_key_eq: "mset (sort_key f xs) = mset xs"
  by simp

lemma length_filter_sort_key: "length (filter P (sort_key f xs)) = length (filter P xs)"
  by (metis mset_filter mset_sort_key_eq size_mset)

lemma distinct_filter_map_sort_key:
  "distinct (filter P (map g (sort_key f xs))) = distinct (filter P (map g xs))"
  by (rule mset_eq_imp_distinct_iff) simp

lemma distinct_map_sort_key: "distinct (map g (sort_key f xs)) = distinct (map g xs)"
  using distinct_filter_map_sort_key [of "\<lambda>_. True" g f xs] by simp

lemma new_pool_docs:
  assumes ok: "pool_ok plat p" and limits: "same_limits (new_pool m c None) p"
  shows "length (pool_docs p) \<le> max 1 m \<and>
    length (filter (\<lambda>d. sd_host d = h) (pool_docs p)) \<le>
      max 1 (case c of Some n \<Rightarrow> n | None \<Rightarrow> DEFAULT_PER_HOST_CAP) \<and>
    distinct (map (doc_identity plat) (pool_docs p)) \<and>
    distinct (filter (\<lambda>ts. ts \<noteq> []) (map (\<lambda>d. tokenize (sd_text d)) (pool_docs p)))"
proof -
  have p: "pool_identities_ok plat p" "pool_caps_ok p" "pool_texts_ok p"
    using ok limits
    by (simp_all add: pool_ok_def same_limits_def new_pool_def CLUSTER_SIMILARITY_THRESHOLD_def)
  have "length (filter (\<lambda>d. sd_host d = h) (pool_docs p)) = length (host_entries h p)"
    by (simp add: pool_docs_def host_entries_def filter_map comp_def length_filter_sort_key)
  moreover have "distinct (map (doc_identity plat) (pool_docs p))"
    using p(1) distinct_map_sort_key [of "entry_identity plat" pe_rank "sp_entries p"]
    by (simp add: pool_docs_def pool_identities_ok_def entry_identity_def [abs_def] comp_def)
  moreover have "distinct (filter (\<lambda>ts. ts \<noteq> []) (map (\<lambda>d. tokenize (sd_text d)) (pool_docs p)))"
    using p(3) distinct_filter_map_sort_key [of "\<lambda>ts. ts \<noteq> []" entry_tokens pe_rank "sp_entries p"]
    by (simp add: pool_docs_def pool_texts_ok_def entry_tokens_def [abs_def] comp_def)
  ultimately show ?thesis using p(2) limits
    by (simp add: pool_caps_ok_def same_limits_def new_pool_def pool_docs_def)
qed

section \<open>Properties\<close>

text \<open>C38. The corpus is bounded, diverse and without repeats: after any sequence of offers the pool holds
  at most the source cap, at most the per-host cap of any host, no page twice (by canonical URL) and,
  at the default threshold, no two documents with the same words.
\<close>

theorem pool_bounded_and_distinct:
  "length (corpus plat m c offers) \<le> max 1 m \<and>
   length (filter (\<lambda>d. sd_host d = h) (corpus plat m c offers)) \<le>
     max 1 (case c of Some n \<Rightarrow> n | None \<Rightarrow> DEFAULT_PER_HOST_CAP) \<and>
   distinct (map (doc_identity plat) (corpus plat m c offers)) \<and>
   distinct (filter (\<lambda>ts. ts \<noteq> []) (map (\<lambda>d. tokenize (sd_text d)) (corpus plat m c offers)))"
  unfolding corpus_def by (rule new_pool_docs) (use pool_run_ok [OF new_pool_ok] in blast)+

text \<open>Follow-up queries are few, valid and novel, whether the model or the templates wrote them: at
  most three, each of bounded length without control characters and with an informative word, and none
  close (Jaccard at least 0.8) to a query already issued.
\<close>

theorem follow_ups_are_fresh:
  "fresh_queries (qi_issued_queries i) (qr_queries (fst (generate_queries port i e)))"
  by (rule fresh_generate)

end
