(* ===== verification/Ethics.thy ===== *)
theory Ethics
  imports Complex_Main Prelude
begin

text \<open>
  The ethics gate in front of every navigation and fetch, directory \<open>packages/core/src/ethics\<close>: the
  host blocklist, the robots.txt cache and the per-host token bucket with its persisted rows
  (\<open>packages/core/src/index-db/rate-limit-store.ts\<close>), composed by \<open>EthicsGateImpl.check\<close>.

  Arguments of the definitions: the URL parser, the YAML parser, the \<open>robots-parser\<close> package, HTTP, the
  injected clock and the ISO rendering of dates. Token counts are rationals where the code has doubles;
  times are integral milliseconds. The acquire loop runs on fuel: \<open>acquire_settles\<close> shows that two
  rounds are enough, \<open>acquire_starves\<close> that a burst below one never returns.
\<close>

section \<open>Definitions\<close>

subsection \<open>Blocklist\<close>

type_synonym host = jstext

record blocklist_file =
  bf_categories :: "(jstext \<times> host list) list"
  bf_user_rules :: "host list"

record block_rule =
  br_label :: jstext
  br_pattern :: "host \<Rightarrow> bool"

definition host_matcher :: "host \<Rightarrow> host \<Rightarrow> bool" where
  "host_matcher pattern host =
     (if starts_with ''*.'' pattern
      then host = drop 2 pattern \<or> ends_with (drop 1 pattern) host
      else host = pattern \<or> ends_with (''.'' @ pattern) host)"

definition build_rules :: "blocklist_file \<Rightarrow> block_rule list" where
  "build_rules data =
     concat (map (\<lambda>(category, hosts).
         map (\<lambda>h. \<lparr>br_label = category, br_pattern = host_matcher h\<rparr>) hosts) (bf_categories data)) @
     map (\<lambda>h. \<lparr>br_label = ''user_rules'', br_pattern = host_matcher h\<rparr>) (bf_user_rules data)"

definition blocklist_match :: "block_rule list \<Rightarrow> host \<Rightarrow> jstext option" where
  "blocklist_match rules host = map_option br_label (find (\<lambda>r. br_pattern r host) rules)"

text \<open>
  \<open>reload\<close>: the user's file, else the bundled one, else no rules. A text the YAML parser cannot turn
  into a blocklist makes the call throw, and the rules stay what they were.
\<close>

definition blocklist_reload ::
  "(jstext \<Rightarrow> blocklist_file option) \<Rightarrow> jstext option \<Rightarrow> jstext option \<Rightarrow> block_rule list \<Rightarrow>
     bool \<times> block_rule list" where
  "blocklist_reload parse user bundled rules =
     (case (case user of Some content \<Rightarrow> Some content | None \<Rightarrow> bundled) of
        None \<Rightarrow> (True, [])
      | Some content \<Rightarrow> (case parse content of
          None \<Rightarrow> (False, rules)
        | Some data \<Rightarrow> (True, build_rules data)))"

subsection \<open>Token bucket\<close>

record 'c clock =
  ck_now :: "'c \<Rightarrow> int \<times> 'c"
  ck_sleep :: "int \<Rightarrow> 'c \<Rightarrow> 'c"

record host_rate_limit =
  tokens_per_second :: rat
  rate_burst :: rat

record bucket_state =
  bs_tokens :: rat
  bs_last_refill_ms :: int

record token_bucket =
  tb_limit :: host_rate_limit
  tb_tokens :: rat
  tb_last_refill :: int

definition new_bucket ::
  "'c clock \<Rightarrow> host_rate_limit \<Rightarrow> bucket_state option \<Rightarrow> 'c \<Rightarrow> token_bucket \<times> 'c" where
  "new_bucket clk lm restore c = (case restore of
     Some s \<Rightarrow> (\<lparr>tb_limit = lm, tb_tokens = min (rate_burst lm) (max 0 (bs_tokens s)),
                 tb_last_refill = bs_last_refill_ms s\<rparr>, c)
   | None \<Rightarrow> (let (now, c') = ck_now clk c in
       (\<lparr>tb_limit = lm, tb_tokens = rate_burst lm, tb_last_refill = now\<rparr>, c')))"

definition refill_at :: "int \<Rightarrow> token_bucket \<Rightarrow> token_bucket" where
  "refill_at now b =
     (let elapsed = of_int (now - tb_last_refill b) / 1000 in
      b\<lparr>tb_tokens := min (rate_burst (tb_limit b))
           (tb_tokens b + elapsed * tokens_per_second (tb_limit b)),
        tb_last_refill := now\<rparr>)"

definition wait_ms :: "host_rate_limit \<Rightarrow> int" where
  "wait_ms lm = \<lceil>1 / tokens_per_second lm * 1000\<rceil>"

fun acquire_loop :: "nat \<Rightarrow> 'c clock \<Rightarrow> token_bucket \<Rightarrow> 'c \<Rightarrow> (token_bucket \<times> 'c) option" where
  "acquire_loop 0 clk b c = None"
| "acquire_loop (Suc fuel) clk b c =
     (let (now, c1) = ck_now clk c; b1 = refill_at now b in
      if 1 \<le> tb_tokens b1 then Some (b1\<lparr>tb_tokens := tb_tokens b1 - 1\<rparr>, c1)
      else acquire_loop fuel clk b1 (ck_sleep clk (wait_ms (tb_limit b1)) c1))"

definition bucket_acquire ::
  "nat \<Rightarrow> 'c clock \<Rightarrow> token_bucket \<Rightarrow> 'c \<Rightarrow> (int \<times> token_bucket \<times> 'c) option" where
  "bucket_acquire fuel clk b c =
     (let (start, c1) = ck_now clk c in
      case acquire_loop fuel clk b c1 of
        None \<Rightarrow> None
      | Some (b', c2) \<Rightarrow> (let (t, c3) = ck_now clk c2 in Some (t - start, b', c3)))"

definition bucket_snapshot :: "token_bucket \<Rightarrow> bucket_state" where
  "bucket_snapshot b = \<lparr>bs_tokens = tb_tokens b, bs_last_refill_ms = tb_last_refill b\<rparr>"

subsection \<open>Persisted rows\<close>

record rate_limit_row =
  rr_host :: host
  rr_tokens :: rat
  rr_window_started_at :: jstext

record 's rate_store =
  rs_load :: "'s \<Rightarrow> host \<Rightarrow> rate_limit_row option"
  rs_save :: "rate_limit_row \<Rightarrow> 's \<Rightarrow> 's"

text \<open>\<open>SqliteRateLimitStore\<close>: an upsert keyed by host; a database error degrades to a no-op.\<close>

record sqlite_db =
  db_rate_limits :: "(host, rate_limit_row) jsmap"
  db_failing :: bool

definition sqlite_load :: "sqlite_db \<Rightarrow> host \<Rightarrow> rate_limit_row option" where
  "sqlite_load db host = (if db_failing db then None else map_get (db_rate_limits db) host)"

definition sqlite_save :: "rate_limit_row \<Rightarrow> sqlite_db \<Rightarrow> sqlite_db" where
  "sqlite_save row db = (if db_failing db then db
     else db\<lparr>db_rate_limits := map_set (rr_host row) row (db_rate_limits db)\<rparr>)"

definition sqlite_store :: "sqlite_db rate_store" where
  "sqlite_store = \<lparr>rs_load = sqlite_load, rs_save = sqlite_save\<rparr>"

subsection \<open>Limiter\<close>

record ('c, 's) limiter_env =
  le_default :: host_rate_limit
  le_overrides :: "(host, host_rate_limit) jsmap"
  le_clock :: "'c clock"
  le_to_iso :: "int \<Rightarrow> jstext"
  le_parse_iso :: "jstext \<Rightarrow> int option"
  le_store :: "'s rate_store option"

record ('c, 's) limiter =
  rl_buckets :: "(host, token_bucket) jsmap"
  rl_table :: 's
  rl_clock :: 'c

definition budget_for :: "('c, 's) limiter_env \<Rightarrow> host \<Rightarrow> host_rate_limit" where
  "budget_for env host = (case map_get (le_overrides env) host of
     Some lm \<Rightarrow> lm | None \<Rightarrow> le_default env)"

definition restore_bucket :: "('c, 's) limiter_env \<Rightarrow> 's \<Rightarrow> host \<Rightarrow> bucket_state option" where
  "restore_bucket env table host = (case le_store env of
     None \<Rightarrow> None
   | Some ops \<Rightarrow> (case rs_load ops table host of
       None \<Rightarrow> None
     | Some row \<Rightarrow> (case le_parse_iso env (rr_window_started_at row) of
         None \<Rightarrow> None
       | Some ms \<Rightarrow> Some \<lparr>bs_tokens = rr_tokens row, bs_last_refill_ms = ms\<rparr>)))"

definition bucket_of :: "('c, 's) limiter_env \<Rightarrow> host \<Rightarrow> ('c, 's) limiter \<Rightarrow> token_bucket \<times> 'c" where
  "bucket_of env host l = (case map_get (rl_buckets l) host of
     Some b \<Rightarrow> (b, rl_clock l)
   | None \<Rightarrow> new_bucket (le_clock env) (budget_for env host)
               (restore_bucket env (rl_table l) host) (rl_clock l))"

definition persist_bucket ::
  "('c, 's) limiter_env \<Rightarrow> host \<Rightarrow> token_bucket \<Rightarrow> 's \<Rightarrow> 's" where
  "persist_bucket env host b table = (case le_store env of
     None \<Rightarrow> table
   | Some ops \<Rightarrow> (let s = bucket_snapshot b in
       rs_save ops \<lparr>rr_host = host, rr_tokens = bs_tokens s,
         rr_window_started_at = le_to_iso env (bs_last_refill_ms s)\<rparr> table))"

definition limiter_acquire ::
  "nat \<Rightarrow> ('c, 's) limiter_env \<Rightarrow> host \<Rightarrow> ('c, 's) limiter \<Rightarrow> (int \<times> ('c, 's) limiter) option" where
  "limiter_acquire fuel env host l =
     (let (b, c) = bucket_of env host l in
      case bucket_acquire fuel (le_clock env) b c of
        None \<Rightarrow> None
      | Some (wait, b', c') \<Rightarrow>
          Some (wait, \<lparr>rl_buckets = map_set host b' (rl_buckets l),
             rl_table = persist_bucket env host b' (rl_table l), rl_clock = c'\<rparr>))"

text \<open>A new process: no bucket in memory, the same table, the same clock.\<close>

definition restart :: "('c, 's) limiter \<Rightarrow> ('c, 's) limiter" where
  "restart l = l\<lparr>rl_buckets := []\<rparr>"

datatype limiter_event = Acquire host | Restart

fun run_limiter ::
  "nat \<Rightarrow> ('c, 's) limiter_env \<Rightarrow> limiter_event list \<Rightarrow> ('c, 's) limiter \<Rightarrow> ('c, 's) limiter option" where
  "run_limiter fuel env [] l = Some l"
| "run_limiter fuel env (Acquire h # es) l = (case limiter_acquire fuel env h l of
     None \<Rightarrow> None | Some (w, l') \<Rightarrow> run_limiter fuel env es l')"
| "run_limiter fuel env (Restart # es) l = run_limiter fuel env es (restart l)"


subsection \<open>robots.txt\<close>

record robots_parser =
  rp_is_allowed :: "jstext \<Rightarrow> jstext \<Rightarrow> bool option"
  rp_matching_line :: "jstext \<Rightarrow> jstext \<Rightarrow> int"

record robots_entry =
  re_parser :: robots_parser
  re_expires_at :: int
  re_fetched_at :: int

record http_response =
  hr_status :: int
  hr_body :: jstext

text \<open>
  What the cache calls: the URL parser's hostname, HTTP (a failed or timed-out request is \<open>None\<close>) on
  the state of the network, the parser package (\<open>None\<close> when it is absent or throws).
\<close>

record 'n robots_env =
  rb_hostname :: "jstext \<Rightarrow> host option"
  rb_fetch :: "jstext \<Rightarrow> 'n \<Rightarrow> http_response option \<times> 'n"
  rb_factory :: "jstext \<Rightarrow> jstext \<Rightarrow> robots_parser option"
  rb_user_agent :: jstext

type_synonym robots_cache = "(host, robots_entry) jsmap"

definition ROBOTS_TTL_MS :: int where
  "ROBOTS_TTL_MS = 24 * 60 * 60 * 1000"

definition MAX_HOSTS_CACHED :: nat where
  "MAX_HOSTS_CACHED = 1024"

definition extract_host :: "(jstext \<Rightarrow> host option) \<Rightarrow> jstext \<Rightarrow> host" where
  "extract_host hostname url = (case hostname url of Some h \<Rightarrow> h | None \<Rightarrow> url)"

definition resolve_user_agent :: "jstext \<Rightarrow> jstext \<Rightarrow> jstext" where
  "resolve_user_agent agent fallback = (let n = trim agent in if n \<noteq> [] then n else fallback)"

definition open_robots_parser :: robots_parser where
  "open_robots_parser = \<lparr>rp_is_allowed = (\<lambda>_ _. Some True), rp_matching_line = (\<lambda>_ _. - 1)\<rparr>"

definition parse_robots :: "'n robots_env \<Rightarrow> jstext \<Rightarrow> jstext \<Rightarrow> robots_parser" where
  "parse_robots env url content = (case rb_factory env url content of
     Some p \<Rightarrow> p | None \<Rightarrow> open_robots_parser)"

definition robots_url :: "jstext \<Rightarrow> host \<Rightarrow> jstext" where
  "robots_url scheme host = scheme @ ''://'' @ host @ ''/robots.txt''"

definition robots_of_response ::
  "'n robots_env \<Rightarrow> host \<Rightarrow> http_response \<Rightarrow> robots_parser option" where
  "robots_of_response env host r =
     (if hr_status r = 404 then Some open_robots_parser
      else if hr_status r \<noteq> 200 then None
      else Some (parse_robots env (robots_url ''https'' host) (hr_body r)))"

definition fetch_robots ::
  "'n robots_env \<Rightarrow> host \<Rightarrow> 'n \<Rightarrow> robots_parser option \<times> 'n" where
  "fetch_robots env host n = (case rb_fetch env (robots_url ''https'' host) n of
     (Some r, n') \<Rightarrow> (robots_of_response env host r, n')
   | (None, n') \<Rightarrow> (case rb_fetch env (robots_url ''http'' host) n' of
       (Some r, n'') \<Rightarrow> (robots_of_response env host r, n'')
     | (None, n'') \<Rightarrow> (None, n'')))"

text \<open>The entry fetched first; among equals the one that was inserted first (the sort is stable).\<close>

fun oldest_entry :: "robots_cache \<Rightarrow> host option" where
  "oldest_entry [] = None"
| "oldest_entry ((h, e) # es) = Some (fst (foldl
     (\<lambda>(h0, e0) (h1, e1). if re_fetched_at e1 < re_fetched_at e0 then (h1, e1) else (h0, e0))
     (h, e) es))"

definition evict_oldest :: "robots_cache \<Rightarrow> robots_cache" where
  "evict_oldest cache =
     (if MAX_HOSTS_CACHED \<le> length cache
      then (case oldest_entry cache of None \<Rightarrow> cache | Some h \<Rightarrow> filter (\<lambda>(k, _). k \<noteq> h) cache)
      else cache)"

definition live_entry :: "int \<Rightarrow> host \<Rightarrow> robots_cache \<Rightarrow> robots_parser option" where
  "live_entry now host cache = (case map_get cache host of
     Some e \<Rightarrow> if now < re_expires_at e then Some (re_parser e) else None
   | None \<Rightarrow> None)"

definition get_parser ::
  "'n robots_env \<Rightarrow> int \<Rightarrow> jstext \<Rightarrow> robots_cache \<Rightarrow> 'n \<Rightarrow>
     robots_parser option \<times> robots_cache \<times> 'n" where
  "get_parser env now url cache n =
     (let host = extract_host (rb_hostname env) url in
      case live_entry now host cache of
        Some p \<Rightarrow> (Some p, cache, n)
      | None \<Rightarrow>
          (let cache1 = evict_oldest cache in
           case fetch_robots env host n of
             (None, n') \<Rightarrow> (None, cache1, n')
           | (Some p, n') \<Rightarrow>
               (Some p, map_set host \<lparr>re_parser = p, re_expires_at = now + ROBOTS_TTL_MS,
                                      re_fetched_at = now\<rparr> cache1, n')))"

definition robots_is_allowed ::
  "'n robots_env \<Rightarrow> int \<Rightarrow> jstext \<Rightarrow> jstext \<Rightarrow> robots_cache \<Rightarrow> 'n \<Rightarrow> bool \<times> robots_cache \<times> 'n" where
  "robots_is_allowed env now url agent cache n =
     (case get_parser env now url cache n of
        (None, cache', n') \<Rightarrow> (False, cache', n')
      | (Some p, cache', n') \<Rightarrow>
          (rp_is_allowed p url (resolve_user_agent agent (rb_user_agent env)) \<noteq> Some False, cache', n'))"

definition unavailable_reason :: "host option \<Rightarrow> jstext" where
  "unavailable_reason h = (case h of
     Some host \<Rightarrow> ''Robots policy unavailable at \"'' @ host @ ''\" (could not fetch robots.txt)''
   | None \<Rightarrow> ''Robots policy unavailable (could not fetch robots.txt)'')"

definition disallowed_reason :: "host option \<Rightarrow> int \<Rightarrow> jstext" where
  "disallowed_reason h line =
     ''Disallowed by robots.txt'' @ (case h of Some host \<Rightarrow> '' at \"'' @ host @ ''\"'' | None \<Rightarrow> []) @
     (if 0 \<le> line then '' (matched line '' @ show_nat (nat line) @ '')''
      else '' (matched disallow rule)'')"

definition reason_if_disallowed ::
  "'n robots_env \<Rightarrow> int \<Rightarrow> jstext \<Rightarrow> jstext \<Rightarrow> robots_cache \<Rightarrow> 'n \<Rightarrow>
     jstext option \<times> robots_cache \<times> 'n" where
  "reason_if_disallowed env now url agent cache n =
     (case get_parser env now url cache n of
        (None, cache', n') \<Rightarrow> (Some (unavailable_reason (rb_hostname env url)), cache', n')
      | (Some p, cache', n') \<Rightarrow>
          (let ua = resolve_user_agent agent (rb_user_agent env) in
           if rp_is_allowed p url ua \<noteq> Some False then (None, cache', n')
           else (Some (disallowed_reason (rb_hostname env url) (rp_matching_line p url ua)),
                 cache', n')))"

subsection \<open>The gate\<close>

datatype refusal_source = FromBlocklist | FromRobots

record ethics_refusal =
  er_host :: host
  er_rule :: jstext
  er_reason :: jstext
  er_source :: refusal_source

datatype gate_result = GateRefused ethics_refusal | GateAllowed int

record ('c, 's, 'n) gate_env =
  ge_rules :: "block_rule list"
  ge_enforce_robots :: bool
  ge_user_agent :: jstext
  ge_robots :: "'n robots_env"
  ge_limiter :: "('c, 's) limiter_env"

record ('c, 's, 'n) gate_state =
  gs_cache :: robots_cache
  gs_net :: 'n
  gs_limiter :: "('c, 's) limiter"

definition blocklist_refusal :: "host \<Rightarrow> jstext \<Rightarrow> ethics_refusal" where
  "blocklist_refusal host category = \<lparr>er_host = host, er_rule = category,
     er_reason = ''Host is in the '' @ category @ '' blocklist'', er_source = FromBlocklist\<rparr>"

definition robots_refusal :: "host \<Rightarrow> jstext \<Rightarrow> ethics_refusal" where
  "robots_refusal host reason = \<lparr>er_host = host, er_rule = ''robots.txt'',
     er_reason = reason, er_source = FromRobots\<rparr>"

definition limiter_gate ::
  "nat \<Rightarrow> ('c, 's, 'n) gate_env \<Rightarrow> host \<Rightarrow> ('c, 's, 'n) gate_state \<Rightarrow>
     (gate_result \<times> ('c, 's, 'n) gate_state) option" where
  "limiter_gate fuel env host st =
     (case limiter_acquire fuel (ge_limiter env) host (gs_limiter st) of
        None \<Rightarrow> None
      | Some (wait, l) \<Rightarrow> Some (GateAllowed wait, st\<lparr>gs_limiter := l\<rparr>))"

definition gate_check ::
  "nat \<Rightarrow> ('c, 's, 'n) gate_env \<Rightarrow> int \<Rightarrow> jstext \<Rightarrow> ('c, 's, 'n) gate_state \<Rightarrow>
     (gate_result \<times> ('c, 's, 'n) gate_state) option" where
  "gate_check fuel env now url st =
     (let host = extract_host (rb_hostname (ge_robots env)) url in
      case blocklist_match (ge_rules env) host of
        Some category \<Rightarrow> Some (GateRefused (blocklist_refusal host category), st)
      | None \<Rightarrow>
          if ge_enforce_robots env
          then (case reason_if_disallowed (ge_robots env) now url (ge_user_agent env)
                       (gs_cache st) (gs_net st) of
                  (Some reason, cache, n) \<Rightarrow>
                    Some (GateRefused (robots_refusal host reason), st\<lparr>gs_cache := cache, gs_net := n\<rparr>)
                | (None, cache, n) \<Rightarrow>
                    limiter_gate fuel env host (st\<lparr>gs_cache := cache, gs_net := n\<rparr>))
          else limiter_gate fuel env host st)"

section \<open>Lemmas\<close>

subsection \<open>Blocklist entries are domains\<close>

text \<open>The domain an entry names: the leading \<open>*.\<close> adds nothing.\<close>

definition entry_domain :: "host \<Rightarrow> host" where
  "entry_domain p = (if prefix ''*.'' p then drop 2 p else p)"

lemma host_matcher_iff:
  "host_matcher p h \<longleftrightarrow> h = entry_domain p \<or> suffix (''.'' @ entry_domain p) h"
proof (cases "prefix ''*.'' p")
  case True
  then obtain q where "p = ''*.'' @ q" by (auto simp: prefix_def)
  then show ?thesis
    by (simp add: host_matcher_def entry_domain_def ends_with_iff_suffix)
next
  case False
  then show ?thesis
    by (simp add: host_matcher_def entry_domain_def ends_with_iff_suffix)
qed

lemma split_on_append: "split_on d (a @ d # b) = split_on d a @ split_on d b"
  by (induction a) (auto split: list.splits)

lemma join_split_on: "join [d] (split_on d s) = s"
proof (induction s)
  case Nil
  then show ?case by simp
next
  case (Cons c s)
  then show ?case
    by (cases "split_on d s"; cases "tl (split_on d s)") (auto split: list.splits)
qed

lemma join_append:
  "xs \<noteq> [] \<Longrightarrow> ys \<noteq> [] \<Longrightarrow> join sep (xs @ ys) = join sep xs @ sep @ join sep ys"
proof (induction sep xs rule: join.induct)
  case (2 sep s)
  then show ?case by (cases ys) auto
qed auto

text \<open>A suffix that starts at a dot is a suffix of whole labels.\<close>

lemma dotted_suffix_iff:
  "h = b \<or> suffix (d # b) h \<longleftrightarrow> suffix (split_on d b) (split_on d h)"
proof
  assume "h = b \<or> suffix (d # b) h"
  then show "suffix (split_on d b) (split_on d h)"
    by (auto simp: suffix_def split_on_append)
next
  assume "suffix (split_on d b) (split_on d h)"
  then obtain ls where ls: "split_on d h = ls @ split_on d b" by (auto simp: suffix_def)
  have h: "h = join [d] (ls @ split_on d b)" using join_split_on [of d h] ls by simp
  show "h = b \<or> suffix (d # b) h"
  proof (cases "ls = []")
    case True
    then show ?thesis using h join_split_on by simp
  next
    case False
    then have "h = join [d] ls @ [d] @ b" using h by (simp add: join_append join_split_on)
    then show ?thesis by (auto simp: suffix_def)
  qed
qed

definition blocked_entries :: "blocklist_file \<Rightarrow> host list" where
  "blocked_entries data = concat (map snd (bf_categories data)) @ bf_user_rules data"

lemma blocklist_match_None: "blocklist_match rules h = None \<longleftrightarrow> (\<forall>r \<in> set rules. \<not> br_pattern r h)"
  by (auto simp: blocklist_match_def find_None_iff)

lemma build_rules_patterns: "map br_pattern (build_rules data) = map host_matcher (blocked_entries data)"
  by (simp add: build_rules_def blocked_entries_def map_concat o_def case_prod_unfold)

lemma blocklist_match_blocked:
  "blocklist_match (build_rules data) h \<noteq> None \<longleftrightarrow>
     list_ex (\<lambda>p. host_matcher p h) (blocked_entries data)"
proof -
  have "blocklist_match (build_rules data) h \<noteq> None \<longleftrightarrow>
      (\<exists>q \<in> set (map br_pattern (build_rules data)). q h)"
    by (simp add: blocklist_match_None)
  then show ?thesis unfolding build_rules_patterns by (simp add: list_ex_iff)
qed

subsection \<open>Token buckets\<close>

text \<open>
  What the code relies on of its clock: readings never go back, and a timer set for \<open>w\<close> milliseconds
  fires no earlier than that. \<open>tm\<close> is a lower bound of the next reading.
\<close>

definition clock_monotone :: "'c clock \<Rightarrow> ('c \<Rightarrow> int) \<Rightarrow> bool" where
  "clock_monotone clk tm \<longleftrightarrow>
     (\<forall>c. tm c \<le> fst (ck_now clk c) \<and> fst (ck_now clk c) \<le> tm (snd (ck_now clk c))) \<and>
     (\<forall>w c. tm c \<le> tm (ck_sleep clk w c))"

definition clock_sleeps :: "'c clock \<Rightarrow> ('c \<Rightarrow> int) \<Rightarrow> bool" where
  "clock_sleeps clk tm \<longleftrightarrow> (\<forall>w c. tm c + w \<le> tm (ck_sleep clk w c))"

lemma clock_readingD:
  assumes "clock_monotone clk tm" and "ck_now clk c = (t, c')"
  shows "tm c \<le> t" and "t \<le> tm c'"
  using assms by (auto simp: clock_monotone_def dest: spec [of _ c])

lemma clock_nowD: "clock_monotone clk tm \<Longrightarrow> tm c \<le> tm (snd (ck_now clk c))"
  by (meson clock_monotone_def order_trans)

lemma clock_sleepD: "clock_monotone clk tm \<Longrightarrow> tm c \<le> tm (ck_sleep clk w c)"
  by (simp add: clock_monotone_def)

lemma refill_at_simps [simp]:
  "tb_limit (refill_at t b) = tb_limit b" "tb_last_refill (refill_at t b) = t"
  "tb_tokens (refill_at t b) = min (rate_burst (tb_limit b))
     (tb_tokens b + of_int (t - tb_last_refill b) / 1000 * tokens_per_second (tb_limit b))"
  by (simp_all add: refill_at_def Let_def)

lemma acquire_loop_Suc:
  assumes "ck_now clk c = (t, c1)"
  shows "acquire_loop (Suc fuel) clk b c =
     (if 1 \<le> tb_tokens (refill_at t b)
      then Some ((refill_at t b)\<lparr>tb_tokens := tb_tokens (refill_at t b) - 1\<rparr>, c1)
      else acquire_loop fuel clk (refill_at t b) (ck_sleep clk (wait_ms (tb_limit b)) c1))"
  using assms by (simp add: Let_def)

declare acquire_loop.simps(2) [simp del]

lemma acquire_loop_range:
  assumes "acquire_loop fuel clk b c = Some (b', c')"
  shows "tb_limit b' = tb_limit b \<and> 0 \<le> tb_tokens b' \<and> tb_tokens b' \<le> rate_burst (tb_limit b)"
  using assms
proof (induction fuel arbitrary: b c)
  case (Suc fuel)
  obtain t c1 where t: "ck_now clk c = (t, c1)" by fastforce
  show ?case
  proof (cases "1 \<le> tb_tokens (refill_at t b)")
    case True
    have "tb_tokens (refill_at t b) \<le> rate_burst (tb_limit b)" by simp
    moreover have "b' = (refill_at t b)\<lparr>tb_tokens := tb_tokens (refill_at t b) - 1\<rparr>"
      using Suc.prems True by (simp add: acquire_loop_Suc [OF t])
    ultimately show ?thesis using True by (simp del: refill_at_simps(3))
  next
    case False
    with Suc.prems have "acquire_loop fuel clk (refill_at t b)
        (ck_sleep clk (wait_ms (tb_limit b)) c1) = Some (b', c')"
      by (simp add: acquire_loop_Suc [OF t] del: refill_at_simps(3))
    from Suc.IH [OF this] show ?thesis by (simp only: refill_at_simps(1))
  qed
qed simp

text \<open>Every token taken was either in the bucket or accrued since its last refill.\<close>

lemma acquire_loop_account:
  assumes "acquire_loop fuel clk b c = Some (b', c')" and "clock_monotone clk tm"
    and "tb_last_refill b \<le> tm c"
  shows "tb_last_refill b \<le> tb_last_refill b' \<and> tb_last_refill b' \<le> tm c' \<and>
    1 + tb_tokens b' \<le> tb_tokens b +
      of_int (tb_last_refill b' - tb_last_refill b) / 1000 * tokens_per_second (tb_limit b)"
  using assms
proof (induction fuel arbitrary: b c)
  case (Suc fuel)
  obtain t c1 where t: "ck_now clk c = (t, c1)" by fastforce
  note rd = clock_readingD [OF Suc.prems(2) t]
  let ?b1 = "refill_at t b"
  have grow: "tb_tokens ?b1 \<le> tb_tokens b +
      of_int (t - tb_last_refill b) / 1000 * tokens_per_second (tb_limit b)" by simp
  show ?case
  proof (cases "1 \<le> tb_tokens ?b1")
    case True
    then have "b' = ?b1\<lparr>tb_tokens := tb_tokens ?b1 - 1\<rparr> \<and> c' = c1"
      using Suc.prems by (simp add: acquire_loop_Suc [OF t] del: refill_at_simps(3))
    then show ?thesis using rd Suc.prems(3) grow by (simp del: refill_at_simps(3))
  next
    case False
    let ?c2 = "ck_sleep clk (wait_ms (tb_limit b)) c1"
    have "acquire_loop fuel clk ?b1 ?c2 = Some (b', c')"
      using Suc.prems False by (simp add: acquire_loop_Suc [OF t] del: refill_at_simps(3))
    moreover have "tb_last_refill ?b1 \<le> tm ?c2"
      using rd(2) clock_sleepD [OF Suc.prems(2), of c1] by (simp add: order_trans)
    ultimately have ih: "t \<le> tb_last_refill b' \<and> tb_last_refill b' \<le> tm c' \<and>
        1 + tb_tokens b' \<le> tb_tokens ?b1 +
          of_int (tb_last_refill b' - t) / 1000 * tokens_per_second (tb_limit b)"
      using Suc.IH [of ?b1 ?c2] Suc.prems(2) by (simp del: refill_at_simps(3))
    have "of_int (tb_last_refill b' - tb_last_refill b) / 1000 * tokens_per_second (tb_limit b) =
        of_int (t - tb_last_refill b) / 1000 * tokens_per_second (tb_limit b) +
        of_int (tb_last_refill b' - t) / 1000 * tokens_per_second (tb_limit b)"
      by (simp add: diff_divide_distrib ring_distribs)
    with ih grow rd(1) Suc.prems(3) show ?thesis by linarith
  qed
qed simp

lemma acquire_loop_later:
  assumes "acquire_loop fuel clk b c = Some (b', c')" and "clock_monotone clk tm"
  shows "tm c \<le> tm c'"
  using assms
proof (induction fuel arbitrary: b c)
  case (Suc fuel)
  obtain t c1 where t: "ck_now clk c = (t, c1)" by fastforce
  have later: "tm c \<le> tm c1" using clock_nowD [OF Suc.prems(2), of c] t by simp
  show ?case
  proof (cases "1 \<le> tb_tokens (refill_at t b)")
    case True
    then show ?thesis
      using Suc.prems later by (simp add: acquire_loop_Suc [OF t] del: refill_at_simps(3))
  next
    case False
    let ?c2 = "ck_sleep clk (wait_ms (tb_limit b)) c1"
    have "acquire_loop fuel clk (refill_at t b) ?c2 = Some (b', c')"
      using Suc.prems False by (simp add: acquire_loop_Suc [OF t] del: refill_at_simps(3))
    from Suc.IH [OF this Suc.prems(2)] later clock_sleepD [OF Suc.prems(2), of c1 "wait_ms (tb_limit b)"]
    show ?thesis by linarith
  qed
qed simp

text \<open>One sleep suffices: the wait is the time one token takes to accrue.\<close>

lemma wait_accrues_token:
  assumes "0 < tokens_per_second lm" and "wait_ms lm \<le> d"
  shows "1 \<le> of_int d / 1000 * tokens_per_second lm"
proof -
  have "1 / tokens_per_second lm * 1000 \<le> of_int (wait_ms lm)" unfolding wait_ms_def by (rule le_of_int_ceiling)
  also have "\<dots> \<le> of_int d" using assms(2) by simp
  finally have "1000 \<le> of_int d * tokens_per_second lm"
    using assms(1) by (simp add: field_simps)
  then show ?thesis by simp
qed

lemma acquire_settles:
  assumes mono: "clock_monotone clk tm" and sleeps: "clock_sleeps clk tm"
    and rate: "0 < tokens_per_second (tb_limit b)" and burst: "1 \<le> rate_burst (tb_limit b)"
    and tokens: "0 \<le> tb_tokens b" and past: "tb_last_refill b \<le> tm c"
  shows "\<exists>r. acquire_loop (Suc (Suc fuel)) clk b c = Some r"
proof -
  obtain t c1 where t: "ck_now clk c = (t, c1)" by fastforce
  let ?b1 = "refill_at t b" and ?w = "wait_ms (tb_limit b)"
  show ?thesis
  proof (cases "1 \<le> tb_tokens ?b1")
    case True
    then show ?thesis by (simp add: acquire_loop_Suc [OF t] del: refill_at_simps(3))
  next
    case False
    obtain t2 c3 where t2: "ck_now clk (ck_sleep clk ?w c1) = (t2, c3)" by fastforce
    have "0 \<le> of_int (t - tb_last_refill b) / 1000 * tokens_per_second (tb_limit b)"
      using past clock_readingD(1) [OF mono t] rate by simp
    then have nonneg: "0 \<le> tb_tokens ?b1" using tokens burst by simp
    have "tm c1 + ?w \<le> tm (ck_sleep clk ?w c1)" using sleeps by (simp add: clock_sleeps_def)
    then have "t + ?w \<le> t2"
      using clock_readingD(2) [OF mono t] clock_readingD(1) [OF mono t2] by linarith
    then have "1 \<le> of_int (t2 - t) / 1000 * tokens_per_second (tb_limit b)"
      by (intro wait_accrues_token [OF rate]) simp
    then have "1 \<le> tb_tokens (refill_at t2 ?b1)"
      using nonneg burst by (simp add: refill_at_simps(3) [of t2])
    then show ?thesis
      using False by (simp add: acquire_loop_Suc [OF t] acquire_loop_Suc [OF t2] del: refill_at_simps(3))
  qed
qed

lemma acquire_starves:
  assumes "rate_burst (tb_limit b) < 1"
  shows "acquire_loop fuel clk b c = None"
  using assms
proof (induction fuel arbitrary: b c)
  case (Suc fuel)
  obtain t c1 where t: "ck_now clk c = (t, c1)" by fastforce
  have "tb_tokens (refill_at t b) < 1" using Suc.prems by simp
  then show ?case using Suc by (simp add: acquire_loop_Suc [OF t] del: refill_at_simps(3))
qed simp

subsection \<open>The persisted rows\<close>

text \<open>How many tokens a run grants a host.\<close>

definition grants :: "host \<Rightarrow> limiter_event list \<Rightarrow> nat" where
  "grants h es = length (filter (\<lambda>e. e = Acquire h) es)"

text \<open>What the limiter relies on of a store: a saved row is loaded back and other hosts keep theirs.\<close>

locale rate_table =
  fixes load :: "'s \<Rightarrow> host \<Rightarrow> rate_limit_row option"
    and save :: "rate_limit_row \<Rightarrow> 's \<Rightarrow> 's"
    and healthy :: "'s \<Rightarrow> bool"
  assumes load_saved: "healthy s \<Longrightarrow> load (save row s) (rr_host row) = Some row"
    and load_other: "healthy s \<Longrightarrow> h \<noteq> rr_host row \<Longrightarrow> load (save row s) h = load s h"
    and healthy_save: "healthy s \<Longrightarrow> healthy (save row s)"
begin

definition wired :: "('c, 's) limiter_env \<Rightarrow> bool" where
  "wired env \<longleftrightarrow> le_store env = Some \<lparr>rs_load = load, rs_save = save\<rparr> \<and>
     (\<forall>ms. le_parse_iso env (le_to_iso env ms) = Some ms)"

lemma restore_persisted:
  assumes "wired env" and "healthy s"
  shows "restore_bucket env (persist_bucket env h b s) g =
    (if g = h then Some (bucket_snapshot b) else restore_bucket env s g)"
proof (cases "g = h")
  case True
  let ?row = "\<lparr>rr_host = h, rr_tokens = tb_tokens b, rr_window_started_at = le_to_iso env (tb_last_refill b)\<rparr>"
  have "load (save ?row s) h = Some ?row" using load_saved [OF assms(2), of ?row] by simp
  then show ?thesis using assms(1) True
    by (simp add: wired_def restore_bucket_def persist_bucket_def bucket_snapshot_def)
next
  case False
  then show ?thesis using assms
    by (simp add: wired_def restore_bucket_def persist_bucket_def Let_def load_other)
qed

lemma healthy_persist: "wired env \<Longrightarrow> healthy s \<Longrightarrow> healthy (persist_bucket env h b s)"
  by (simp add: wired_def persist_bucket_def Let_def healthy_save)

text \<open>A bucket in memory is the one its row would restore.\<close>

definition mirrored :: "('c, 's) limiter_env \<Rightarrow> host \<Rightarrow> ('c, 's) limiter \<Rightarrow> bool" where
  "mirrored env h l \<longleftrightarrow> (\<forall>b. map_get (rl_buckets l) h = Some b \<longrightarrow>
     tb_limit b = budget_for env h \<and> 0 \<le> tb_tokens b \<and> tb_tokens b \<le> rate_burst (budget_for env h) \<and>
     restore_bucket env (rl_table l) h = Some (bucket_snapshot b))"

definition coherent :: "('c, 's) limiter_env \<Rightarrow> ('c, 's) limiter \<Rightarrow> bool" where
  "coherent env l \<longleftrightarrow> healthy (rl_table l) \<and> (\<forall>h. mirrored env h l)"

lemma bucket_of_mirrored:
  assumes "mirrored env h l"
  shows "bucket_of env h l = new_bucket (le_clock env) (budget_for env h)
    (restore_bucket env (rl_table l) h) (rl_clock l)"
  using assms
  by (cases "map_get (rl_buckets l) h")
    (auto simp: mirrored_def bucket_of_def new_bucket_def bucket_snapshot_def)

lemma bucket_of_limit: "mirrored env h l \<Longrightarrow> bucket_of env h l = (b, c) \<Longrightarrow> tb_limit b = budget_for env h"
  by (auto simp: bucket_of_mirrored new_bucket_def split: option.splits prod.splits)

lemma limiter_acquire_SomeD:
  assumes "limiter_acquire fuel env h l = Some (w, l')"
  obtains b c c1 start b' c2 where "bucket_of env h l = (b, c)" and "ck_now (le_clock env) c = (start, c1)"
    and "acquire_loop fuel (le_clock env) b c1 = Some (b', c2)"
    and "rl_clock l' = snd (ck_now (le_clock env) c2)"
    and "rl_buckets l' = map_set h b' (rl_buckets l)"
    and "rl_table l' = persist_bucket env h b' (rl_table l)"
proof -
  obtain b c where bc: "bucket_of env h l = (b, c)" by fastforce
  obtain start c1 where start: "ck_now (le_clock env) c = (start, c1)" by fastforce
  obtain b' c2 where loop: "acquire_loop fuel (le_clock env) b c1 = Some (b', c2)"
    using assms by (cases "acquire_loop fuel (le_clock env) b c1")
      (auto simp: limiter_acquire_def bucket_acquire_def bc start)
  obtain t c3 where t: "ck_now (le_clock env) c2 = (t, c3)" by fastforce
  from assms show thesis
    by (intro that [OF bc start loop])
      (auto simp: limiter_acquire_def bucket_acquire_def bc start loop t)
qed

lemma coherent_acquire:
  assumes "wired env" and "coherent env l" and "limiter_acquire fuel env h l = Some (w, l')"
  shows "coherent env l'"
proof -
  obtain b c c1 start b' c2 where bc: "bucket_of env h l = (b, c)"
    and loop: "acquire_loop fuel (le_clock env) b c1 = Some (b', c2)"
    and l': "rl_buckets l' = map_set h b' (rl_buckets l)" "rl_table l' = persist_bucket env h b' (rl_table l)"
    using assms(3) by (rule limiter_acquire_SomeD) blast
  have ok: "healthy (rl_table l)" "\<And>g. mirrored env g l"
    using assms(2) by (simp_all add: coherent_def)
  have "tb_limit b = budget_for env h" using bucket_of_limit [OF ok(2) bc] .
  with acquire_loop_range [OF loop]
  have "tb_limit b' = budget_for env h \<and> 0 \<le> tb_tokens b' \<and> tb_tokens b' \<le> rate_burst (budget_for env h)"
    by metis
  moreover have "map_get (rl_buckets l') h = Some b'" by (simp add: l'(1))
  moreover have "restore_bucket env (rl_table l') h = Some (bucket_snapshot b')"
    unfolding l'(2) restore_persisted [OF assms(1) ok(1)] by simp
  ultimately have this_host: "mirrored env h l'" by (simp add: mirrored_def)
  have others: "mirrored env g l'" if "g \<noteq> h" for g
  proof -
    have "map_get (rl_buckets l') g = map_get (rl_buckets l) g" using that by (simp add: l'(1))
    moreover have "restore_bucket env (rl_table l') g = restore_bucket env (rl_table l) g"
      using that restore_persisted [OF assms(1) ok(1), of h b' g] by (simp add: l'(2))
    ultimately show ?thesis using ok(2) [of g] by (simp only: mirrored_def)
  qed
  have "mirrored env g l'" for g
    using this_host others by (cases "g = h") simp_all
  then show ?thesis
    using healthy_persist [OF assms(1) ok(1)] by (simp add: coherent_def l'(2))
qed

lemma coherent_restart: "coherent env l \<Longrightarrow> coherent env (restart l)"
  by (simp add: coherent_def mirrored_def restart_def)

definition same_outside :: "('c, 's) limiter \<Rightarrow> ('c, 's) limiter \<Rightarrow> bool" where
  "same_outside l m \<longleftrightarrow> rl_table l = rl_table m \<and> rl_clock l = rl_clock m"

lemma acquire_same_outside:
  assumes "coherent env l" and "coherent env m" and "same_outside l m"
  shows "rel_option (\<lambda>(w, l') (v, m'). w = v \<and> same_outside l' m')
    (limiter_acquire fuel env h l) (limiter_acquire fuel env h m)"
proof -
  have "bucket_of env h l = bucket_of env h m"
    using assms by (simp add: bucket_of_mirrored coherent_def same_outside_def)
  then show ?thesis using assms(3)
    by (simp add: limiter_acquire_def same_outside_def split: prod.splits option.splits)
qed

lemma run_without_restarts:
  assumes "wired env" and "coherent env l" and "coherent env m" and "same_outside l m"
  shows "rel_option same_outside (run_limiter fuel env es l)
    (run_limiter fuel env (filter (\<lambda>e. e \<noteq> Restart) es) m)"
  using assms(2-)
proof (induction es arbitrary: l m)
  case (Cons e es)
  show ?case
  proof (cases e)
    case (Acquire h)
    note step = acquire_same_outside [OF Cons.prems, of fuel h]
    show ?thesis
    proof (cases "limiter_acquire fuel env h l")
      case None
      with step Acquire show ?thesis by (auto simp: option.rel_sel)
    next
      case (Some r)
      obtain w l' where r: "r = (w, l')" by fastforce
      with step Some obtain m' where m': "limiter_acquire fuel env h m = Some (w, m')" "same_outside l' m'"
        by (cases "limiter_acquire fuel env h m") auto
      note coh = coherent_acquire [OF assms(1) Cons.prems(1) Some [unfolded r]]
        coherent_acquire [OF assms(1) Cons.prems(2) m'(1)]
      from Cons.IH [OF coh m'(2)] Some r m'(1) Acquire show ?thesis by simp
    qed
  next
    case Restart
    have "same_outside (restart l) m" using Cons.prems by (simp add: same_outside_def restart_def)
    from Cons.IH [OF coherent_restart [OF Cons.prems(1)] Cons.prems(2) this] Restart
    show ?thesis by simp
  qed
qed simp

text \<open>
  The account of a host: \<open>n\<close> tokens handed out since \<open>t0\<close>, all covered by the burst and by what accrued
  up to the refill its row records.
\<close>

definition spent ::
  "('c, 's) limiter_env \<Rightarrow> ('c \<Rightarrow> int) \<Rightarrow> host \<Rightarrow> int \<Rightarrow> nat \<Rightarrow> ('c, 's) limiter \<Rightarrow> bool" where
  "spent env tm h t0 n l \<longleftrightarrow> t0 \<le> tm (rl_clock l) \<and>
     (case restore_bucket env (rl_table l) h of
        None \<Rightarrow> n = 0
      | Some s \<Rightarrow> 0 \<le> bs_tokens s \<and> bs_tokens s \<le> rate_burst (budget_for env h) \<and>
          bs_last_refill_ms s \<le> tm (rl_clock l) \<and>
          of_nat n + bs_tokens s \<le> rate_burst (budget_for env h) +
            of_int (bs_last_refill_ms s - t0) / 1000 * tokens_per_second (budget_for env h))"

lemma spent_later:
  assumes "spent env tm h t0 n l" and "restore_bucket env (rl_table l') h = restore_bucket env (rl_table l) h"
    and "tm (rl_clock l) \<le> tm (rl_clock l')"
  shows "spent env tm h t0 n l'"
  using assms by (auto simp: spent_def split: option.splits)

lemma spent_bucket:
  assumes spent: "spent env tm h t0 n l" and mirror: "mirrored env h l"
    and mono: "clock_monotone (le_clock env) tm" and rate: "0 \<le> tokens_per_second (budget_for env h)"
    and bc: "bucket_of env h l = (b, c)"
  shows "tm (rl_clock l) \<le> tm c \<and> tb_last_refill b \<le> tm c \<and>
    of_nat n + tb_tokens b \<le> rate_burst (budget_for env h) +
      of_int (tb_last_refill b - t0) / 1000 * tokens_per_second (budget_for env h)"
proof (cases "restore_bucket env (rl_table l) h")
  case None
  obtain t c' where t: "ck_now (le_clock env) (rl_clock l) = (t, c')" by fastforce
  note rd = clock_readingD [OF mono t]
  have "b = \<lparr>tb_limit = budget_for env h, tb_tokens = rate_burst (budget_for env h), tb_last_refill = t\<rparr>"
    and "c = c'"
    using bc by (simp_all add: bucket_of_mirrored [OF mirror] None new_bucket_def t)
  moreover have "0 \<le> of_int (t - t0) / 1000 * tokens_per_second (budget_for env h)"
    using rd(1) spent rate by (simp add: spent_def)
  ultimately show ?thesis using rd spent None by (simp add: spent_def)
next
  case (Some s)
  then show ?thesis
    using bc spent by (auto simp: bucket_of_mirrored [OF mirror] new_bucket_def spent_def)
qed

lemma acquire_later:
  assumes mono: "clock_monotone (le_clock env) tm" and acq: "limiter_acquire fuel env g l = Some (w, l')"
  shows "tm (rl_clock l) \<le> tm (rl_clock l')"
proof -
  obtain b c c1 start b' c2 where bc: "bucket_of env g l = (b, c)"
    and start: "ck_now (le_clock env) c = (start, c1)"
    and loop: "acquire_loop fuel (le_clock env) b c1 = Some (b', c2)"
    and clk: "rl_clock l' = snd (ck_now (le_clock env) c2)"
    using acq by (rule limiter_acquire_SomeD) blast
  have "c = rl_clock l \<or> c = snd (ck_now (le_clock env) (rl_clock l))"
    using bc by (auto simp: bucket_of_def new_bucket_def split: option.splits prod.splits)
  then have "tm (rl_clock l) \<le> tm c" using clock_nowD [OF mono] by auto
  moreover have "tm c \<le> tm c1" using clock_nowD [OF mono, of c] start by simp
  moreover have "tm c2 \<le> tm (rl_clock l')" using clock_nowD [OF mono, of c2] by (simp add: clk)
  ultimately show ?thesis using acquire_loop_later [OF loop mono] by linarith
qed

lemma acquire_spends:
  assumes "wired env" and "coherent env l" and mono: "clock_monotone (le_clock env) tm"
    and rate: "0 \<le> tokens_per_second (budget_for env h)"
    and acq: "limiter_acquire fuel env h l = Some (w, l')" and spent: "spent env tm h t0 n l"
  shows "spent env tm h t0 (Suc n) l'"
proof -
  have ok: "healthy (rl_table l)" "mirrored env h l" using assms(2) by (simp_all add: coherent_def)
  obtain b c c1 start b' c2 where bc: "bucket_of env h l = (b, c)"
    and start: "ck_now (le_clock env) c = (start, c1)"
    and loop: "acquire_loop fuel (le_clock env) b c1 = Some (b', c2)"
    and clk: "rl_clock l' = snd (ck_now (le_clock env) c2)"
    and tab: "rl_table l' = persist_bucket env h b' (rl_table l)"
    using acq by (rule limiter_acquire_SomeD) blast
  note before = spent_bucket [OF spent ok(2) mono rate bc]
  note lm = bucket_of_limit [OF ok(2) bc]
  have tm: "tm c \<le> tm c1" "tm c2 \<le> tm (rl_clock l')" "t0 \<le> tm (rl_clock l')"
    using acquire_later [OF mono acq] spent clock_nowD [OF mono, of c] clock_nowD [OF mono, of c2] start
    by (simp_all add: clk spent_def)
  have "tb_last_refill b \<le> tm c1" using before tm by simp
  note after = acquire_loop_account [OF loop mono this] acquire_loop_range [OF loop]
  have "restore_bucket env (rl_table l') h = Some (bucket_snapshot b')"
    unfolding tab restore_persisted [OF assms(1) ok(1)] by simp
  moreover have "of_nat (Suc n) + tb_tokens b' \<le> rate_burst (budget_for env h) +
      of_int (tb_last_refill b' - t0) / 1000 * tokens_per_second (budget_for env h)"
    using before after by (simp add: lm field_simps)
  moreover have "tb_last_refill b' \<le> tm (rl_clock l')" using after tm(2) by linarith
  moreover note tm(3)
  ultimately show ?thesis using after by (simp add: spent_def bucket_snapshot_def lm)
qed

lemma run_spends:
  assumes "wired env" and mono: "clock_monotone (le_clock env) tm"
    and rate: "0 \<le> tokens_per_second (budget_for env h)"
    and "coherent env l" and "spent env tm h t0 n l" and "run_limiter fuel env es l = Some l'"
  shows "spent env tm h t0 (n + grants h es) l'"
  using assms(4-)
proof (induction es arbitrary: l n)
  case (Cons e es)
  show ?case
  proof (cases e)
    case (Acquire g)
    obtain w m where acq: "limiter_acquire fuel env g l = Some (w, m)"
      and run: "run_limiter fuel env es m = Some l'"
      using Cons.prems(3) Acquire by (auto split: option.splits)
    note coh = coherent_acquire [OF assms(1) Cons.prems(1) acq]
    show ?thesis
    proof (cases "g = h")
      case True
      have "spent env tm h t0 (Suc n) m"
        using acquire_spends [OF assms(1) Cons.prems(1) mono rate _ Cons.prems(2)] acq True by simp
      from Cons.IH [OF coh this run] True Acquire show ?thesis by (simp add: grants_def)
    next
      case False
      obtain b' where "rl_table m = persist_bucket env g b' (rl_table l)"
        using acq by (rule limiter_acquire_SomeD) blast
      then have "restore_bucket env (rl_table m) h = restore_bucket env (rl_table l) h"
        using assms(1) Cons.prems(1) False by (simp add: restore_persisted coherent_def)
      from spent_later [where l' = m, OF Cons.prems(2) this acquire_later [OF mono acq]]
      have "spent env tm h t0 n m" .
      from Cons.IH [OF coh this run] False Acquire show ?thesis by (simp add: grants_def)
    qed
  next
    case Restart
    have "spent env tm h t0 n (restart l)"
      by (rule spent_later [OF Cons.prems(2)]) (simp_all add: restart_def)
    from Cons.IH [OF coherent_restart [OF Cons.prems(1)] this] Cons.prems(3) Restart
    show ?thesis by (simp add: grants_def)
  qed
qed (simp add: grants_def)

lemma spent_bound:
  assumes "spent env tm h t0 n l" and rate: "0 \<le> tokens_per_second (budget_for env h)"
    and burst: "0 \<le> rate_burst (budget_for env h)"
  shows "of_nat n \<le> rate_burst (budget_for env h) +
    of_int (tm (rl_clock l) - t0) / 1000 * tokens_per_second (budget_for env h)"
proof (cases "restore_bucket env (rl_table l) h")
  case None
  have "0 \<le> of_int (tm (rl_clock l) - t0) / 1000 * tokens_per_second (budget_for env h)"
    using assms by (simp add: spent_def)
  then show ?thesis using assms None by (simp add: spent_def)
next
  case (Some s)
  have "of_int (bs_last_refill_ms s - t0) / 1000 * tokens_per_second (budget_for env h)
      \<le> of_int (tm (rl_clock l) - t0) / 1000 * tokens_per_second (budget_for env h)"
    by (intro mult_right_mono divide_right_mono of_int_le_iff [THEN iffD2])
      (use assms Some in \<open>auto simp: spent_def\<close>)
  then show ?thesis using assms(1) Some by (simp add: spent_def)
qed

definition rows_past :: "('c, 's) limiter_env \<Rightarrow> ('c \<Rightarrow> int) \<Rightarrow> ('c, 's) limiter \<Rightarrow> bool" where
  "rows_past env tm l \<longleftrightarrow> (\<forall>h s. restore_bucket env (rl_table l) h = Some s \<longrightarrow>
     bs_last_refill_ms s \<le> tm (rl_clock l))"

lemma bucket_of_past:
  assumes coh: "coherent env l" and past: "rows_past env tm l" and mono: "clock_monotone (le_clock env) tm"
    and burst: "0 \<le> rate_burst (budget_for env h)" and bc: "bucket_of env h l = (b, c)"
  shows "0 \<le> tb_tokens b \<and> tb_last_refill b \<le> tm c"
proof (cases "restore_bucket env (rl_table l) h")
  case None
  obtain t c' where t: "ck_now (le_clock env) (rl_clock l) = (t, c')" by fastforce
  show ?thesis
    using bc coh burst clock_readingD(2) [OF mono t]
    by (auto simp: bucket_of_mirrored coherent_def None new_bucket_def t)
next
  case (Some s)
  then have "bs_last_refill_ms s \<le> tm (rl_clock l)" using past by (simp add: rows_past_def)
  then show ?thesis
    using bc coh burst by (auto simp: bucket_of_mirrored coherent_def Some new_bucket_def)
qed

lemma acquire_returns:
  assumes coh: "coherent env l" and past: "rows_past env tm l" and mono: "clock_monotone (le_clock env) tm"
    and sleeps: "clock_sleeps (le_clock env) tm"
    and rate: "0 < tokens_per_second (budget_for env h)" and burst: "1 \<le> rate_burst (budget_for env h)"
  shows "\<exists>w l'. limiter_acquire 2 env h l = Some (w, l')"
proof -
  obtain b c where bc: "bucket_of env h l = (b, c)" by fastforce
  obtain start c1 where start: "ck_now (le_clock env) c = (start, c1)" by fastforce
  have "tb_limit b = budget_for env h" using coh bucket_of_limit [OF _ bc] by (simp add: coherent_def)
  moreover have "0 \<le> tb_tokens b \<and> tb_last_refill b \<le> tm c"
    using bucket_of_past [OF coh past mono _ bc] burst by simp
  moreover have "tm c \<le> tm c1" using clock_nowD [OF mono, of c] start by simp
  ultimately obtain r where "acquire_loop 2 (le_clock env) b c1 = Some r"
    using acquire_settles [OF mono sleeps, of b c1 0] rate burst by (auto simp: numeral_2_eq_2)
  then show ?thesis
    by (cases r) (simp add: limiter_acquire_def bucket_acquire_def bc start split: prod.splits)
qed

lemma rows_past_acquire:
  assumes "wired env" and "coherent env l" and past: "rows_past env tm l"
    and mono: "clock_monotone (le_clock env) tm" and burst: "0 \<le> rate_burst (budget_for env h)"
    and acq: "limiter_acquire fuel env h l = Some (w, l')"
  shows "rows_past env tm l'"
proof -
  obtain b c c1 start b' c2 where bc: "bucket_of env h l = (b, c)"
    and start: "ck_now (le_clock env) c = (start, c1)"
    and loop: "acquire_loop fuel (le_clock env) b c1 = Some (b', c2)"
    and clk: "rl_clock l' = snd (ck_now (le_clock env) c2)"
    and tab: "rl_table l' = persist_bucket env h b' (rl_table l)"
    using acq by (rule limiter_acquire_SomeD) blast
  have "tb_last_refill b \<le> tm c1"
    using bucket_of_past [OF assms(2) past mono burst bc] clock_nowD [OF mono, of c] start by simp
  then have "tb_last_refill b' \<le> tm (rl_clock l')"
    using acquire_loop_account [OF loop mono] clock_nowD [OF mono, of c2] clk by simp
  moreover have "healthy (rl_table l)" using assms(2) by (simp add: coherent_def)
  ultimately show ?thesis
    using past acquire_later [OF mono acq] restore_persisted [OF assms(1), of "rl_table l" h b']
    by (auto simp: rows_past_def tab bucket_snapshot_def split: if_splits intro: order_trans)
qed

lemma run_returns:
  assumes "wired env" and mono: "clock_monotone (le_clock env) tm" and sleeps: "clock_sleeps (le_clock env) tm"
    and limits: "\<And>h. 0 < tokens_per_second (budget_for env h) \<and> 1 \<le> rate_burst (budget_for env h)"
    and "coherent env l" and "rows_past env tm l"
  shows "\<exists>l'. run_limiter 2 env es l = Some l'"
  using assms(5-)
proof (induction es arbitrary: l)
  case (Cons e es)
  show ?case
  proof (cases e)
    case (Acquire h)
    obtain w m where acq: "limiter_acquire 2 env h l = Some (w, m)"
      using acquire_returns [OF Cons.prems mono sleeps] limits by blast
    have "0 \<le> rate_burst (budget_for env h)" using limits [of h] by simp
    from Cons.IH [OF coherent_acquire [OF assms(1) Cons.prems(1) acq]
        rows_past_acquire [OF assms(1) Cons.prems mono this acq]] acq Acquire
    show ?thesis by simp
  next
    case Restart
    have "rows_past env tm (restart l)" using Cons.prems(2) by (simp add: rows_past_def restart_def)
    from Cons.IH [OF coherent_restart [OF Cons.prems(1)] this] Restart show ?thesis by simp
  qed
qed simp

end

interpretation sqlite: rate_table sqlite_load sqlite_save "\<lambda>db. \<not> db_failing db"
  by unfold_locales (simp_all add: sqlite_load_def sqlite_save_def)

lemma sqlite_wired:
  assumes "le_store env = Some sqlite_store" and "\<And>ms. le_parse_iso env (le_to_iso env ms) = Some ms"
  shows "sqlite.wired env"
  using assms by (simp add: sqlite.wired_def sqlite_store_def)

lemma fresh_coherent:
  "rl_buckets l = [] \<Longrightarrow> \<not> db_failing (rl_table l) \<Longrightarrow> sqlite.coherent env l"
  by (simp add: sqlite.coherent_def sqlite.mirrored_def)

lemma limiter_starves:
  assumes "rate_burst (budget_for env h) < 1" and "map_get (rl_buckets l) h = None"
  shows "limiter_acquire fuel env h l = None"
proof -
  obtain b c where bc: "bucket_of env h l = (b, c)" by fastforce
  then have "tb_limit b = budget_for env h"
    using assms(2) by (auto simp: bucket_of_def new_bucket_def split: option.splits prod.splits)
  then show ?thesis using assms(1)
    by (auto simp: limiter_acquire_def bucket_acquire_def bc acquire_starves split: prod.splits)
qed

subsection \<open>The robots cache and the gate\<close>

definition robots_cache_ok :: "robots_cache \<Rightarrow> bool" where
  "robots_cache_ok cache \<longleftrightarrow> distinct (map fst cache) \<and> length cache \<le> MAX_HOSTS_CACHED"

lemma foldl_choice:
  assumes "\<And>x y. f x y = x \<or> f x y = y"
  shows "foldl f x es \<in> set (x # es)"
proof (induction es arbitrary: x)
  case (Cons y es)
  from Cons [of "f x y"] assms [of x y] show ?case by auto
qed simp

lemma oldest_entry_in:
  assumes "cache \<noteq> []"
  shows "\<exists>h e. oldest_entry cache = Some h \<and> (h, e) \<in> set cache"
proof -
  obtain h e es where cache: "cache = (h, e) # es" using assms by (cases cache) auto
  let ?f = "\<lambda>(h0, e0) (h1, e1). if re_fetched_at e1 < re_fetched_at e0 then (h1, e1) else (h0, e0)"
  have "foldl ?f (h, e) es \<in> set cache" unfolding cache by (rule foldl_choice) auto
  then have "(fst (foldl ?f (h, e) es), snd (foldl ?f (h, e) es)) \<in> set cache" by simp
  then show ?thesis unfolding cache oldest_entry.simps by blast
qed

lemma evict_oldest_ok:
  assumes "robots_cache_ok cache"
  shows "robots_cache_ok (evict_oldest cache) \<and> length (evict_oldest cache) < MAX_HOSTS_CACHED"
proof (cases "MAX_HOSTS_CACHED \<le> length cache")
  case True
  then have "cache \<noteq> []" by (auto simp: MAX_HOSTS_CACHED_def)
  from oldest_entry_in [OF this] obtain h e where h: "oldest_entry cache = Some h" "(h, e) \<in> set cache"
    by blast
  have "length (filter (\<lambda>(k, _). k \<noteq> h) cache) < length cache"
    using h(2) by (intro length_filter_less [of "(h, e)"]) auto
  moreover have "distinct (map fst (filter (\<lambda>(k, _). k \<noteq> h) cache))"
    using assms by (auto simp: robots_cache_ok_def intro: distinct_map_filter)
  ultimately show ?thesis using assms True h by (simp add: evict_oldest_def robots_cache_ok_def)
next
  case False
  then show ?thesis using assms by (simp add: evict_oldest_def)
qed

lemma length_map_set_le: "length (map_set k v m) \<le> Suc (length m)"
  by (induction m) auto

lemma robots_cache_ok_set:
  "robots_cache_ok m \<Longrightarrow> length m < MAX_HOSTS_CACHED \<Longrightarrow> robots_cache_ok (map_set k v m)"
  using length_map_set_le [of k v m] by (auto simp: robots_cache_ok_def distinct_update)

lemma get_parser_ok:
  assumes "robots_cache_ok cache" and "get_parser env now url cache n = (p, cache', n')"
  shows "robots_cache_ok cache'"
  using assms evict_oldest_ok [OF assms(1)]
  by (auto simp: get_parser_def Let_def robots_cache_ok_set split: option.splits prod.splits)

lemma reason_None:
  assumes "reason_if_disallowed env now url agent cache n = (None, cache', n')"
  obtains p where "get_parser env now url cache n = (Some p, cache', n')"
    and "rp_is_allowed p url (resolve_user_agent agent (rb_user_agent env)) \<noteq> Some False"
  using assms by (auto simp: reason_if_disallowed_def Let_def split: prod.splits option.splits if_splits)

text \<open>Where a parser can come from: a live cache entry, or an answer with status 404 or 200.\<close>

definition robots_answer :: "'n robots_env \<Rightarrow> host \<Rightarrow> 'n \<Rightarrow> http_response option" where
  "robots_answer env host n = (case rb_fetch env (robots_url ''https'' host) n of
     (Some r, n') \<Rightarrow> Some r
   | (None, n') \<Rightarrow> fst (rb_fetch env (robots_url ''http'' host) n'))"

lemma fetch_robots_Some:
  assumes "fst (fetch_robots env host n) = Some p"
  shows "\<exists>r. robots_answer env host n = Some r \<and> (hr_status r = 404 \<or> hr_status r = 200)"
  using assms
  by (auto simp: fetch_robots_def robots_answer_def robots_of_response_def
      split: prod.splits option.splits if_splits)

lemma get_parser_Some:
  assumes "get_parser env now url cache n = (Some p, cache', n')"
  shows "live_entry now (extract_host (rb_hostname env) url) cache = Some p \<or>
    (\<exists>r. robots_answer env (extract_host (rb_hostname env) url) n = Some r \<and>
       (hr_status r = 404 \<or> hr_status r = 200))"
  using assms fetch_robots_Some [of env "extract_host (rb_hostname env) url" n p]
  by (auto simp: get_parser_def Let_def split: option.splits prod.splits)

section \<open>Properties\<close>

text \<open>The blocklist refuses exactly the domains its entries name and their subdomains, label by label:
  a host is blocked when and only when the dot-separated labels of some entry (with or without the
  leading wildcard) are the last labels of the host. A mere textual suffix never blocks.
\<close>

theorem blocklist_blocks_whole_domains:
  "blocklist_match (build_rules data) h \<noteq> None \<longleftrightarrow>
     list_ex (\<lambda>p. suffix (split_on CHR ''.'' (entry_domain p)) (split_on CHR ''.'' h)) (blocked_entries data)"
  unfolding blocklist_match_blocked host_matcher_iff
  using dotted_suffix_iff [of h _ "CHR ''.''"] by (simp add: list_ex_iff)


text \<open>Persisting and restoring a bucket is a round trip: a run with restarts grants, waits and stores
  exactly what the same run without them does, so the rows and the clock it leaves are equal.
\<close>

theorem restart_is_invisible:
  assumes "\<And>ms. le_parse_iso env (le_to_iso env ms) = Some ms" and "le_store env = Some sqlite_store"
    and "\<not> db_failing (rl_table l)" and "rl_buckets l = []"
  shows "map_option (\<lambda>m. (rl_table m, rl_clock m)) (run_limiter fuel env es l) =
    map_option (\<lambda>m. (rl_table m, rl_clock m)) (run_limiter fuel env (filter (\<lambda>e. e \<noteq> Restart) es) l)"
proof -
  note coh = fresh_coherent [OF assms(4,3), of env]
  have "rel_option sqlite.same_outside (run_limiter fuel env es l)
      (run_limiter fuel env (filter (\<lambda>e. e \<noteq> Restart) es) l)"
    by (rule sqlite.run_without_restarts [OF sqlite_wired [OF assms(2,1)] coh coh])
      (simp add: sqlite.same_outside_def)
  then show ?thesis
    by (cases "run_limiter fuel env es l"; cases "run_limiter fuel env (filter (\<lambda>e. e \<noteq> Restart) es) l")
      (auto simp: sqlite.same_outside_def)
qed



section \<open>Witnesses\<close>

text \<open>A virtual clock, dates as signed decimal numerals, the default budget, an empty database.\<close>

definition virtual_clock :: "int clock" where
  "virtual_clock = \<lparr>ck_now = (\<lambda>c. (c, c)), ck_sleep = (\<lambda>w c. c + max 0 w)\<rparr>"

definition show_ms :: "int \<Rightarrow> jstext" where
  "show_ms ms = (if ms < 0 then CHR ''-'' # show_nat (nat (- ms)) else show_nat (nat ms))"

definition read_ms :: "jstext \<Rightarrow> int option" where
  "read_ms s = (case s of [] \<Rightarrow> None
     | c # cs \<Rightarrow> Some (if c = CHR ''-'' then - int (read_nat cs) else int (read_nat s)))"

lemma show_nat_head: "\<exists>c cs. show_nat n = c # cs \<and> is_digit c"
proof (cases "show_nat n")
  case Nil
  then show ?thesis by (subst (asm) show_nat.simps) (simp split: if_splits)
next
  case (Cons c cs)
  then show ?thesis using show_nat_digits [of c n] by simp
qed

lemma read_show_ms [simp]: "read_ms (show_ms ms) = Some ms"
proof (cases "ms < 0")
  case True
  then show ?thesis by (simp add: show_ms_def read_ms_def)
next
  case False
  obtain c cs where c: "show_nat (nat ms) = c # cs" "is_digit c" using show_nat_head by blast
  moreover have "c \<noteq> CHR ''-''" using c(2) by (auto simp: is_digit_def code_def)
  ultimately show ?thesis using False read_show_nat [of "nat ms"] by (simp add: show_ms_def read_ms_def)
qed

definition default_env :: "(int, sqlite_db) limiter_env" where
  "default_env = \<lparr>le_default = \<lparr>tokens_per_second = 1, rate_burst = 2\<rparr>, le_overrides = [],
     le_clock = virtual_clock, le_to_iso = show_ms, le_parse_iso = read_ms, le_store = Some sqlite_store\<rparr>"

definition first_run :: "(int, sqlite_db) limiter" where
  "first_run = \<lparr>rl_buckets = [], rl_table = \<lparr>db_rate_limits = [], db_failing = False\<rparr>, rl_clock = 0\<rparr>"

definition three_starts :: "limiter_event list" where
  "three_starts = [Acquire ''a.org'', Restart, Acquire ''a.org'', Restart, Acquire ''a.org'']"

lemma virtual_clock_laws:
  "clock_monotone virtual_clock id" "clock_sleeps virtual_clock id"
  by (simp_all add: virtual_clock_def clock_monotone_def clock_sleeps_def)

lemma default_env_simps [simp]:
  "le_clock default_env = virtual_clock" "le_store default_env = Some sqlite_store"
  "le_parse_iso default_env (le_to_iso default_env ms) = Some ms"
  "budget_for default_env h = \<lparr>tokens_per_second = 1, rate_burst = 2\<rparr>"
  by (simp_all add: default_env_def budget_for_def)

lemma first_run_simps [simp]:
  "rl_buckets first_run = []" "db_failing (rl_table first_run) = False"
  "map_get (db_rate_limits (rl_table first_run)) h = None" "rl_clock first_run = 0"
  "restore_bucket default_env (rl_table first_run) h = None"
  by (simp_all add: first_run_def restore_bucket_def default_env_def sqlite_store_def sqlite_load_def)

lemma default_run_returns: "\<exists>l'. run_limiter 2 default_env es first_run = Some l'"
  by (rule sqlite.run_returns [OF sqlite_wired _ _ _ fresh_coherent, of _ id])
    (simp_all add: virtual_clock_laws sqlite.rows_past_def)


lemma restart_is_invisible_witness:
  "map_option (\<lambda>m. (rl_table m, rl_clock m)) (run_limiter 2 default_env three_starts first_run) =
   map_option (\<lambda>m. (rl_table m, rl_clock m)) (run_limiter 2 default_env
     [Acquire ''a.org'', Acquire ''a.org'', Acquire ''a.org''] first_run)"
  using restart_is_invisible [of default_env first_run 2 three_starts] by (simp add: three_starts_def)


definition missing_robots :: "unit robots_env" where
  "missing_robots = \<lparr>rb_hostname = (\<lambda>u. if u = ''u'' then Some ''a.org'' else None),
     rb_fetch = (\<lambda>_ n. (Some \<lparr>hr_status = 404, hr_body = []\<rparr>, n)),
     rb_factory = (\<lambda>_ _. None), rb_user_agent = ''bot''\<rparr>"

definition strict_gate :: "(int, sqlite_db, unit) gate_env" where
  "strict_gate = \<lparr>ge_rules = build_rules \<lparr>bf_categories = [(''bank'', [''*.b.org''])], bf_user_rules = []\<rparr>,
     ge_enforce_robots = True, ge_user_agent = ''bot'', ge_robots = missing_robots, ge_limiter = default_env\<rparr>"

definition idle_gate :: "(int, sqlite_db, unit) gate_state" where
  "idle_gate = \<lparr>gs_cache = [], gs_net = (), gs_limiter = first_run\<rparr>"

lemma strict_gate_unblocked: "blocklist_match (ge_rules strict_gate) ''a.org'' = None"
  by (simp add: strict_gate_def build_rules_def blocklist_match_def host_matcher_def ends_with_iff_suffix suffix_def)

lemma strict_gate_allows: "\<exists>w st'. gate_check 2 strict_gate 0 ''u'' idle_gate = Some (GateAllowed w, st')"
proof -
  obtain w l where "limiter_acquire 2 default_env ''a.org'' first_run = Some (w, l)"
    using default_run_returns [of "[Acquire ''a.org'']"] by (auto split: option.splits)
  moreover have "extract_host (rb_hostname (ge_robots strict_gate)) ''u'' = ''a.org''"
    by (simp add: strict_gate_def missing_robots_def extract_host_def)
  moreover have "\<exists>c n. reason_if_disallowed missing_robots 0 ''u'' ''bot'' [] () = (None, c, n)"
    by (simp add: reason_if_disallowed_def get_parser_def missing_robots_def extract_host_def live_entry_def
        fetch_robots_def robots_of_response_def open_robots_parser_def Let_def)
  ultimately show ?thesis using strict_gate_unblocked
    by (auto simp: gate_check_def limiter_gate_def idle_gate_def Let_def) (auto simp: strict_gate_def limiter_gate_def)
qed


end
