(* ===== verification/ResearchLoop.thy ===== *)
theory ResearchLoop
  imports Research Ethics
begin

text \<open>
  The multi-hop controller of a research run, \<open>packages/core/src/research/research-loop.ts\<close>, with the
  per-source pipeline it calls (\<open>packages/core/src/extraction/source-processor.ts\<close>), the adapter of the
  ethics gate (\<open>extraction/ethics-adapter.ts\<close>) and the ranking signals (\<open>ranking/recording.ts\<close>).

  The stages the constructor injects (search provider, fetcher, extractors, synthesizers, clock) are the
  fields of \<open>research_env\<close>, functions on the state \<open>'e\<close> of the world. The loop is a total function: the
  measure is the number of hops the budget still allows. Files, events and the abort timer are left out.
\<close>

section \<open>Definitions\<close>

subsection \<open>Sources\<close>

datatype blocked_reason = By_robots | By_blocklist | By_rate_limit

datatype ask_decision =
    Ask_ok
  | Ask_blocked blocked_reason jstext
  | Ask_budget jstext
  | Ask_policy jstext

definition map_reason :: "refusal_source \<Rightarrow> blocked_reason" where
  "map_reason s = (case s of FromRobots \<Rightarrow> By_robots | FromBlocklist \<Rightarrow> By_blocklist)"

definition ask_decision_of :: "gate_result \<Rightarrow> ask_decision" where
  "ask_decision_of r = (case r of
     GateAllowed w \<Rightarrow> Ask_ok
   | GateRefused e \<Rightarrow> Ask_blocked (map_reason (er_source e)) (er_reason e))"

datatype fetch_error_kind = Fetch_timeout | Fetch_http_status | Fetch_network | Fetch_too_large | Fetch_challenge

record fetch_error_context =
  fc_kind :: fetch_error_kind
  fc_status_code :: "nat option"
  fc_marker :: "jstext option"

text \<open>What a stage can throw: a \<open>FetchError\<close>, another \<open>Error\<close>, or any other value.\<close>

datatype thrown = Thrown_fetch fetch_error_context | Thrown_error jstext | Thrown_value

datatype failure_stage = Stage_fetch | Stage_extract | Stage_blocked | Stage_budget | Stage_policy

record source_failure =
  sf_url :: jstext
  sf_host :: jstext
  sf_stage :: failure_stage
  sf_reason :: jstext

datatype fetch_mode = Via_http | Via_browser

record fetched_doc =
  fd_html :: jstext
  fd_final_url :: jstext
  fd_fetched_at :: jstext
  fd_fetch_mode :: fetch_mode

record article =
  ar_title :: "jstext option"
  ar_published_at :: "jstext option"
  ar_content_text :: jstext
  ar_excerpt :: "jstext option"

text \<open>The shape-aware read: the article, if there is one, whether the page has a shape, its readable text.\<close>

record page_extraction =
  px_article :: "article option"
  px_has_shape :: bool
  px_readable_text :: jstext

record search_result =
  sr_url :: jstext
  sr_rank :: int

record processed_source =
  ps_rank :: int
  ps_doc :: "synthesis_doc option"
  ps_failure :: "source_failure option"
  ps_fetch_mode :: "fetch_mode option"
  ps_timed_out :: bool
  ps_cause :: "thrown option"

record 'e source_env =
  se_hostname :: "jstext \<Rightarrow> jstext option"
  se_check_url :: "jstext \<Rightarrow> 'e \<Rightarrow> (thrown + ask_decision) \<times> 'e"
  se_fetch :: "jstext \<Rightarrow> 'e \<Rightarrow> (thrown + fetched_doc) \<times> 'e"
  se_on_html :: "jstext \<Rightarrow> jstext \<Rightarrow> 'e \<Rightarrow> (thrown + unit) \<times> 'e"
  se_extract_page :: "(fetched_doc \<Rightarrow> 'e \<Rightarrow> (thrown + page_extraction) \<times> 'e) option"
  se_extract :: "fetched_doc \<Rightarrow> 'e \<Rightarrow> (thrown + article option) \<times> 'e"

definition safe_host :: "'e source_env \<Rightarrow> jstext \<Rightarrow> jstext" where
  "safe_host env url = extract_host (se_hostname env) url"

definition source_failure_of :: "'e source_env \<Rightarrow> jstext \<Rightarrow> failure_stage \<Rightarrow> jstext \<Rightarrow> source_failure" where
  "source_failure_of env url stage reason =
     \<lparr>sf_url = url, sf_host = safe_host env url, sf_stage = stage, sf_reason = reason\<rparr>"

definition challenge_reason :: "fetch_error_context \<Rightarrow> jstext" where
  "challenge_reason c = ''challenge page ('' @
     (case fc_marker c of Some m \<Rightarrow> m | None \<Rightarrow> ''unknown'') @ '')''"

definition build_failure_reason :: "thrown \<Rightarrow> jstext" where
  "build_failure_reason t = (case t of
     Thrown_fetch c \<Rightarrow> (case fc_kind c of
         Fetch_timeout \<Rightarrow> ''fetch timed out''
       | Fetch_http_status \<Rightarrow> ''source returned HTTP '' @
           (case fc_status_code c of Some n \<Rightarrow> show_nat n | None \<Rightarrow> ''error'')
       | Fetch_too_large \<Rightarrow> ''source payload exceeded the size limit''
       | Fetch_challenge \<Rightarrow> challenge_reason c
       | Fetch_network \<Rightarrow> ''fetch failed'')
   | Thrown_error msg \<Rightarrow> msg
   | Thrown_value \<Rightarrow> ''unexpected failure while processing source'')"

definition reason_text :: "blocked_reason \<Rightarrow> jstext" where
  "reason_text r = (case r of By_robots \<Rightarrow> ''robots'' | By_blocklist \<Rightarrow> ''blocklist'' | By_rate_limit \<Rightarrow> ''rate-limit'')"

text \<open>The stage and the reason of a refusal; \<open>None\<close> when the URL may be fetched.\<close>

definition refusal_of :: "ask_decision \<Rightarrow> (failure_stage \<times> jstext) option" where
  "refusal_of d = (case d of
     Ask_ok \<Rightarrow> None
   | Ask_blocked r detail \<Rightarrow> Some (Stage_blocked, reason_text r @ '' - '' @ detail)
   | Ask_budget detail \<Rightarrow> Some (Stage_budget, ''budget - '' @ detail)
   | Ask_policy detail \<Rightarrow> Some (Stage_policy, ''policy - '' @ detail))"

definition failed_source ::
  "'e source_env \<Rightarrow> search_result \<Rightarrow> failure_stage \<Rightarrow> jstext \<Rightarrow> fetch_mode option \<Rightarrow> processed_source" where
  "failed_source env r stage reason mode =
     \<lparr>ps_rank = sr_rank r, ps_doc = None, ps_failure = Some (source_failure_of env (sr_url r) stage reason),
      ps_fetch_mode = mode, ps_timed_out = False, ps_cause = None\<rparr>"

text \<open>\<open>ps_timed_out\<close> is the call of \<open>onTimeout\<close>, \<open>ps_cause\<close> the error kept for the caller.\<close>

definition caught_source :: "'e source_env \<Rightarrow> search_result \<Rightarrow> thrown \<Rightarrow> processed_source" where
  "caught_source env r t =
     (case t of
        Thrown_fetch c \<Rightarrow>
          (if fc_kind c = Fetch_challenge
           then failed_source env r Stage_blocked (challenge_reason c) (Some Via_browser)
           else (failed_source env r Stage_fetch (build_failure_reason t) None)
                  \<lparr>ps_timed_out := (fc_kind c = Fetch_timeout)\<rparr>)
      | _ \<Rightarrow> failed_source env r Stage_fetch (build_failure_reason t) None)
     \<lparr>ps_cause := Some t\<rparr>"

definition doc_of ::
  "'e source_env \<Rightarrow> search_result \<Rightarrow> fetched_doc \<Rightarrow> article option \<Rightarrow> jstext \<Rightarrow> synthesis_doc" where
  "doc_of env r f art txt =
     \<lparr>sd_url = sr_url r,
      sd_final_url = (if fd_final_url f \<noteq> sr_url r then Some (fd_final_url f) else None),
      sd_host = safe_host env (if fd_final_url f \<noteq> [] then fd_final_url f else sr_url r),
      sd_title = Option.bind art ar_title,
      sd_fetched_at = fd_fetched_at f,
      sd_published_at = Option.bind art ar_published_at,
      sd_text = txt,
      sd_excerpt = Option.bind art ar_excerpt\<rparr>"

definition read_source :: "search_result \<Rightarrow> fetched_doc \<Rightarrow> synthesis_doc \<Rightarrow> processed_source" where
  "read_source r f d = \<lparr>ps_rank = sr_rank r, ps_doc = Some d, ps_failure = None,
     ps_fetch_mode = Some (fd_fetch_mode f), ps_timed_out = False, ps_cause = None\<rparr>"

definition extract_source ::
  "'e source_env \<Rightarrow> search_result \<Rightarrow> fetched_doc \<Rightarrow> 'e \<Rightarrow> processed_source \<times> 'e" where
  "extract_source env r f e = (case se_extract_page env of
     Some extract_page \<Rightarrow> (case extract_page f e of
         (Inl t, e') \<Rightarrow> (caught_source env r t, e')
       | (Inr px, e') \<Rightarrow>
           (if \<not> px_has_shape px
            then (failed_source env r Stage_extract ''could not extract readable content''
                    (Some (fd_fetch_mode f)), e')
            else (read_source r f (doc_of env r f (px_article px)
                    (case px_article px of Some a \<Rightarrow> ar_content_text a | None \<Rightarrow> px_readable_text px)), e')))
   | None \<Rightarrow> (case se_extract env f e of
         (Inl t, e') \<Rightarrow> (caught_source env r t, e')
       | (Inr None, e') \<Rightarrow> (failed_source env r Stage_extract ''could not extract a readable article''
                              (Some (fd_fetch_mode f)), e')
       | (Inr (Some a), e') \<Rightarrow> (read_source r f (doc_of env r f (Some a) (ar_content_text a)), e')))"

definition fetch_source :: "'e source_env \<Rightarrow> search_result \<Rightarrow> 'e \<Rightarrow> processed_source \<times> 'e" where
  "fetch_source env r e = (case se_fetch env (sr_url r) e of
     (Inl t, e') \<Rightarrow> (caught_source env r t, e')
   | (Inr f, e') \<Rightarrow> (case se_on_html env (sr_url r) (fd_html f) e' of
       (Inl t, e'') \<Rightarrow> (caught_source env r t, e'')
     | (Inr _, e'') \<Rightarrow> extract_source env r f e''))"

definition process_source :: "'e source_env \<Rightarrow> search_result \<Rightarrow> 'e \<Rightarrow> processed_source \<times> 'e" where
  "process_source env r e = (case se_check_url env (sr_url r) e of
     (Inl t, e') \<Rightarrow> (caught_source env r t, e')
   | (Inr d, e') \<Rightarrow> (case refusal_of d of
       Some (stage, reason) \<Rightarrow> (failed_source env r stage reason None, e')
     | None \<Rightarrow> fetch_source env r e'))"

subsection \<open>Ranking signals\<close>

datatype rank_reason = Search_result_reason | Fetch_failed | Extract_failed | Blocked_reason

record rank_signal =
  rg_domain :: jstext
  rg_delta :: int
  rg_reason :: rank_reason

definition rank_reason_for_stage :: "failure_stage \<Rightarrow> rank_reason option" where
  "rank_reason_for_stage s = (case s of
     Stage_fetch \<Rightarrow> Some Fetch_failed | Stage_extract \<Rightarrow> Some Extract_failed
   | Stage_blocked \<Rightarrow> Some Blocked_reason | Stage_budget \<Rightarrow> None | Stage_policy \<Rightarrow> None)"

subsection \<open>The run\<close>

record source_notice =
  bn_source :: jstext
  bn_reason :: jstext
  bn_kind :: jstext

record brief =
  br_sections :: "brief_section list"
  br_overview :: jstext
  br_notices :: "source_notice list"
  br_coverage :: "rat option"

definition append_notice :: "brief \<Rightarrow> source_notice \<Rightarrow> brief" where
  "append_notice b n = b\<lparr>br_notices := br_notices b @ [n]\<rparr>"

record research_options =
  ro_topic :: jstext
  ro_budget :: research_budget
  ro_scope :: jstext
  ro_per_query_limit :: int
  ro_coverage_target :: rat

text \<open>
  The injected stages. A search that throws answers the message of the error, if it was one; the interim
  synthesis answers \<open>None\<close> and the final one a message when they fail.
\<close>

record 'e research_env =
  re_sources :: "'e source_env"
  re_search :: "jstext \<Rightarrow> int \<Rightarrow> 'e \<Rightarrow> (jstext option + search_result list) \<times> 'e"
  re_interim :: "jstext \<Rightarrow> synthesis_doc list \<Rightarrow> source_failure list \<Rightarrow> 'e \<Rightarrow> brief option \<times> 'e"
  re_synthesize :: "jstext \<Rightarrow> synthesis_doc list \<Rightarrow> source_failure list \<Rightarrow> jstext list \<Rightarrow> 'e \<Rightarrow>
     (jstext + brief) \<times> 'e"
  re_port :: "'e query_port option"
  re_now :: "'e \<Rightarrow> int \<times> 'e"
  re_aborted :: "'e \<Rightarrow> bool"
  re_platform :: url_platform
  re_text :: text_platform

record research_hop =
  rh_index :: nat
  rh_queries :: "jstext list"
  rh_results_count :: nat
  rh_docs_fetched :: nat
  rh_docs_kept :: nat
  rh_gaps :: "jstext list"
  rh_coverage :: rat

datatype research_termination = Coverage_met | Max_hops | No_novel_queries | Budget_stop budget_dimension

record 'e research_state =
  rs_budget :: budget_tracker_state
  rs_pool :: source_pool
  rs_coverage :: coverage_tracker
  rs_failures :: "source_failure list"
  rs_notices :: "source_notice list"
  rs_signals :: "rank_signal list"
  rs_hops :: "research_hop list"
  rs_issued :: "jstext list"
  rs_next :: "jstext list"
  rs_stop :: "budget_exhausted option"
  rs_world :: 'e

definition checkpoint_now :: "'e research_env \<Rightarrow> 'e research_state \<Rightarrow> budget_exhausted option \<times> 'e research_state" where
  "checkpoint_now env s = (let (now, e) = re_now env (rs_world s) in
     (budget_checkpoint now (rs_budget s), s\<lparr>rs_world := e\<rparr>))"

definition search_failure_notice :: "jstext \<Rightarrow> jstext option \<Rightarrow> source_notice" where
  "search_failure_notice q msg = \<lparr>bn_source = ''search'',
     bn_reason = ''query \"'' @ q @ ''\" failed: '' @ (case msg of Some m \<Rightarrow> m | None \<Rightarrow> ''search error''),
     bn_kind = ''other''\<rparr>"

definition result_signals :: "'e research_env \<Rightarrow> search_result list \<Rightarrow> rank_signal list" where
  "result_signals env results = List.map_filter (\<lambda>r. map_option
     (\<lambda>d. \<lparr>rg_domain = d, rg_delta = 1, rg_reason = Search_result_reason\<rparr>)
     (se_hostname (re_sources env) (sr_url r))) results"

fun add_unseen :: "url_platform \<Rightarrow> search_result list \<Rightarrow> jstext jsset \<times> search_result list \<Rightarrow>
    jstext jsset \<times> search_result list" where
  "add_unseen plat [] acc = acc"
| "add_unseen plat (r # rs) (seen, combined) =
     (let identity = canonical_url plat (sr_url r) in
      if identity \<in> set seen then add_unseen plat rs (seen, combined)
      else add_unseen plat rs (set_add identity seen, combined @ [r]))"

fun search_queries :: "'e research_env \<Rightarrow> research_options \<Rightarrow> jstext list \<Rightarrow>
    jstext jsset \<times> search_result list \<Rightarrow> 'e research_state \<Rightarrow> search_result list \<times> 'e research_state" where
  "search_queries env opts [] (seen, combined) s = (combined, s)"
| "search_queries env opts (q # qs) (seen, combined) s =
     (case re_search env q (max 1 (ro_per_query_limit opts)) (rs_world s) of
        (Inr results, e) \<Rightarrow>
          search_queries env opts qs (add_unseen (re_platform env) results (seen, combined))
            (s\<lparr>rs_world := e, rs_signals := rs_signals s @ result_signals env results\<rparr>)
      | (Inl msg, e) \<Rightarrow>
          (if re_aborted env e then (combined, s\<lparr>rs_world := e\<rparr>)
           else search_queries env opts qs (seen, combined)
             (s\<lparr>rs_world := e, rs_notices := rs_notices s @ [search_failure_notice q msg]\<rparr>)))"

record hop_tally =
  ht_fetched :: nat
  ht_kept :: nat
  ht_stop :: "budget_exhausted option"

definition record_failure :: "source_failure \<Rightarrow> 'e research_state \<Rightarrow> 'e research_state" where
  "record_failure f s = s\<lparr>rs_failures := rs_failures s @ [f],
     rs_signals := rs_signals s @ (case rank_reason_for_stage (sf_stage f) of
        None \<Rightarrow> []
      | Some reason \<Rightarrow> [\<lparr>rg_domain = sf_host f, rg_delta = - 1, rg_reason = reason\<rparr>])\<rparr>"

definition offer_doc :: "'e research_env \<Rightarrow> int \<Rightarrow> synthesis_doc \<Rightarrow> hop_tally \<Rightarrow> 'e research_state \<Rightarrow>
    hop_tally \<times> 'e research_state" where
  "offer_doc env rank d t s =
     (case pool_add (re_platform env) d rank (rs_pool s) of (added, pool) \<Rightarrow>
        if pa_kept added
        then (t\<lparr>ht_fetched := ht_fetched t + 1, ht_kept := ht_kept t + 1\<rparr>,
              s\<lparr>rs_pool := pool, rs_budget := record_sources 1 (rs_budget s)\<rparr>)
        else (t\<lparr>ht_fetched := ht_fetched t + 1\<rparr>, s\<lparr>rs_pool := pool\<rparr>))"

definition account_source :: "'e research_env \<Rightarrow> int \<Rightarrow> processed_source \<Rightarrow> hop_tally \<Rightarrow>
    'e research_state \<Rightarrow> hop_tally \<times> 'e research_state" where
  "account_source env rank p t s = (case ps_doc p of
     Some d \<Rightarrow> offer_doc env rank d t s
   | None \<Rightarrow> (case ps_failure p of
       Some f \<Rightarrow> (t, record_failure f s)
     | None \<Rightarrow> (t, s)))"

fun run_sources :: "'e research_env \<Rightarrow> search_result list \<Rightarrow> hop_tally \<Rightarrow> 'e research_state \<Rightarrow>
    hop_tally \<times> 'e research_state" where
  "run_sources env [] t s = (t, s)"
| "run_sources env (r # rs) t s =
     (if pool_is_full (rs_pool s) then (t, s)
      else (case checkpoint_now env s of
          (Some x, s1) \<Rightarrow> (t\<lparr>ht_stop := Some x\<rparr>, s1)
        | (None, s1) \<Rightarrow>
            (case process_source (re_sources env) r (rs_world s1) of (p, e) \<Rightarrow>
             case account_source env (sr_rank r) p t (s1\<lparr>rs_world := e\<rparr>) of (t', s2) \<Rightarrow>
               run_sources env rs t' s2)))"

definition run_hop :: "'e research_env \<Rightarrow> research_options \<Rightarrow> jstext list \<Rightarrow> 'e research_state \<Rightarrow>
    (nat \<times> hop_tally) \<times> 'e research_state" where
  "run_hop env opts queries s =
     (case search_queries env opts queries ([], []) s of (results, s1) \<Rightarrow>
      case run_sources env results \<lparr>ht_fetched = 0, ht_kept = 0, ht_stop = None\<rparr> s1 of (t, s2) \<Rightarrow>
        ((length results, t), s2))"

text \<open>The interim synthesis seeds the coverage once and updates it from then on.\<close>

definition measure_coverage :: "'e research_env \<Rightarrow> research_options \<Rightarrow> 'e research_state \<Rightarrow>
    brief option \<times> 'e research_state" where
  "measure_coverage env opts s =
     (case re_interim env (ro_topic opts) (pool_docs (rs_pool s)) (rs_failures s) (rs_world s) of (b, e) \<Rightarrow>
        (b, s\<lparr>rs_world := e, rs_coverage := (case b of
           Some b' \<Rightarrow>
             if ct_seeded (rs_coverage s) then coverage_update (pool_docs (rs_pool s)) (rs_coverage s)
             else coverage_seed (re_text env) (br_sections b') (pool_docs (rs_pool s)) (rs_coverage s)
         | None \<Rightarrow> coverage_update (pool_docs (rs_pool s)) (rs_coverage s))\<rparr>))"

definition start_hop :: "'e research_state \<Rightarrow> 'e research_state" where
  "start_hop s = s\<lparr>rs_budget := record_hop (rs_budget s), rs_issued := rs_issued s @ rs_next s\<rparr>"

definition log_hop :: "'e research_env \<Rightarrow> jstext list \<Rightarrow> nat \<Rightarrow> hop_tally \<Rightarrow> 'e research_state \<Rightarrow> 'e research_state" where
  "log_hop env queries results t s = s\<lparr>rs_hops := rs_hops s @
     [\<lparr>rh_index = bs_hops_used (rs_budget s), rh_queries = queries, rh_results_count = results,
       rh_docs_fetched = ht_fetched t, rh_docs_kept = ht_kept t,
       rh_gaps = coverage_gaps (re_text env) (rs_coverage s), rh_coverage = coverage_score (rs_coverage s)\<rparr>]\<rparr>"

definition next_queries :: "'e research_env \<Rightarrow> research_options \<Rightarrow> brief option \<Rightarrow> 'e research_state \<Rightarrow> 'e research_state" where
  "next_queries env opts b s =
     (case generate_queries (re_port env)
        \<lparr>qi_topic = ro_topic opts, qi_gaps = coverage_gaps (re_text env) (rs_coverage s),
         qi_interim_overview = (case b of Some b' \<Rightarrow> br_overview b' | None \<Rightarrow> []),
         qi_issued_queries = rs_issued s, qi_scope = ro_scope opts, qi_host = ''research''\<rparr> (rs_world s) of
      (g, e) \<Rightarrow> s\<lparr>rs_world := e, rs_next := qr_queries g,
         rs_budget := (if qr_used_llm g then record_llm_call (rs_budget s) else rs_budget s)\<rparr>)"

text \<open>One round of the loop: the reason it stops, or \<open>None\<close> to go on.\<close>

definition complete_hop :: "'e research_env \<Rightarrow> research_options \<Rightarrow> 'e research_state \<Rightarrow>
    research_termination option \<times> 'e research_state" where
  "complete_hop env opts s0 =
     (case run_hop env opts (rs_next s0) (start_hop s0) of ((results, t), s1) \<Rightarrow>
      case measure_coverage env opts (s1\<lparr>rs_stop := ht_stop t\<rparr>) of (b, s2) \<Rightarrow>
      let s3 = log_hop env (rs_next s0) results t s2 in
      case ht_stop t of
        Some x \<Rightarrow> (Some (Budget_stop (bx_dimension x)), s3)
      | None \<Rightarrow>
          if ro_coverage_target opts \<le> coverage_score (rs_coverage s3) then (Some Coverage_met, s3)
          else if \<not> can_start_hop (rs_budget s3) then (Some Max_hops, s3)
          else (None, next_queries env opts b s3))"

definition research_step :: "'e research_env \<Rightarrow> research_options \<Rightarrow> 'e research_state \<Rightarrow>
    research_termination option \<times> 'e research_state" where
  "research_step env opts s = (case checkpoint_now env s of
     (Some x, s1) \<Rightarrow> (Some (Budget_stop (bx_dimension x)), s1\<lparr>rs_stop := Some x\<rparr>)
   | (None, s1) \<Rightarrow>
       if \<not> can_start_hop (rs_budget s1) then (Some Max_hops, s1)
       else if rs_next s1 = [] then (Some No_novel_queries, s1)
       else complete_hop env opts s1)"

text \<open>What one hop leaves alone: the budget's caps and hop count, the hop log and the queries.\<close>

definition hop_frame :: "'e research_state \<Rightarrow> 'e research_state \<Rightarrow> bool" where
  "hop_frame s s' \<longleftrightarrow> bs_budget (rs_budget s') = bs_budget (rs_budget s) \<and>
     bs_hops_used (rs_budget s') = bs_hops_used (rs_budget s) \<and> rs_hops s' = rs_hops s \<and>
     rs_next s' = rs_next s \<and> rs_issued s' = rs_issued s \<and> rs_stop s' = rs_stop s"

lemma hop_frame_refl [simp]: "hop_frame s s"
  by (simp add: hop_frame_def)

lemma hop_frame_trans: "hop_frame s s' \<Longrightarrow> hop_frame s' s'' \<Longrightarrow> hop_frame s s''"
  by (simp add: hop_frame_def)

lemma record_sources_fields [simp]:
  "bs_budget (record_sources n b) = bs_budget b" "bs_hops_used (record_sources n b) = bs_hops_used b"
  "bs_sources_used (record_sources 1 b) = Suc (bs_sources_used b)"
  by (simp_all add: record_sources_def)

lemma record_hop_fields [simp]:
  "bs_budget (record_hop b) = bs_budget b" "bs_hops_used (record_hop b) = Suc (bs_hops_used b)"
  "bs_sources_used (record_hop b) = bs_sources_used b"
  by (simp_all add: record_hop_def)

lemma record_llm_call_fields [simp]:
  "bs_budget (record_llm_call b) = bs_budget b" "bs_hops_used (record_llm_call b) = bs_hops_used b"
  "bs_sources_used (record_llm_call b) = bs_sources_used b"
  by (simp_all add: record_llm_call_def)

lemma checkpoint_now_frame: "checkpoint_now env s = (x, s') \<Longrightarrow> hop_frame s s'"
  by (auto simp: checkpoint_now_def hop_frame_def split: prod.splits)

lemma search_queries_frame: "search_queries env opts qs acc s = (r, s') \<Longrightarrow> hop_frame s s'"
proof (induction env opts qs acc s rule: search_queries.induct)
  case (2 env opts q qs seen combined s)
  then show ?case by (fastforce simp: hop_frame_def split: prod.splits sum.splits if_splits)
qed simp

lemma record_failure_frame: "hop_frame s (record_failure f s)"
  by (simp add: record_failure_def hop_frame_def)

lemma account_source_frame: "account_source env rank p t s = (t', s') \<Longrightarrow> hop_frame s s'"
  by (auto simp: account_source_def offer_doc_def record_failure_frame hop_frame_def record_failure_def
      split: option.splits prod.splits if_splits)

lemma hop_frame_world: "hop_frame s (s'\<lparr>rs_world := e\<rparr>) = hop_frame s s'"
  by (simp add: hop_frame_def)

lemma run_sources_frame: "run_sources env rs t s = (t', s') \<Longrightarrow> hop_frame s s'"
proof (induction rs arbitrary: t s)
  case (Cons r rs)
  show ?case
  proof (cases "pool_is_full (rs_pool s)")
    case True
    then show ?thesis using Cons.prems by simp
  next
    case False
    obtain x s1 where cp: "checkpoint_now env s = (x, s1)" by fastforce
    note f1 = checkpoint_now_frame [OF cp]
    show ?thesis
    proof (cases x)
      case (Some y)
      then show ?thesis using Cons.prems False cp f1 by simp
    next
      case None
      obtain p e where p: "process_source (re_sources env) r (rs_world s1) = (p, e)" by fastforce
      obtain t2 s2 where a: "account_source env (sr_rank r) p t (s1\<lparr>rs_world := e\<rparr>) = (t2, s2)" by fastforce
      have "hop_frame (s1\<lparr>rs_world := e\<rparr>) s2" using account_source_frame [OF a] .
      moreover have "hop_frame s (s1\<lparr>rs_world := e\<rparr>)" using f1 by (simp add: hop_frame_world)
      moreover have "hop_frame s2 s'" using Cons.IH Cons.prems False cp None p a by simp
      ultimately show ?thesis by (blast intro: hop_frame_trans)
    qed
  qed
qed simp

lemma run_hop_frame:
  assumes "run_hop env opts qs s = (r, s')"
  shows "hop_frame s s'"
proof -
  obtain results s1 where search: "search_queries env opts qs ([], []) s = (results, s1)" by fastforce
  obtain t s2 where sources: "run_sources env results \<lparr>ht_fetched = 0, ht_kept = 0, ht_stop = None\<rparr> s1 = (t, s2)"
    by fastforce
  have "s' = s2" using assms by (simp add: run_hop_def search sources)
  then show ?thesis
    using hop_frame_trans [OF search_queries_frame [OF search] run_sources_frame [OF sources]] by simp
qed

lemma measure_coverage_frame: "measure_coverage env opts s = (b, s') \<Longrightarrow> hop_frame s s'"
  by (auto simp: measure_coverage_def hop_frame_def split: prod.splits)

text \<open>What one round of the loop does to the hop count and the hop log.\<close>

definition hop_logged :: "'e research_state \<Rightarrow> 'e research_state \<Rightarrow> bool" where
  "hop_logged s s' \<longleftrightarrow> bs_budget (rs_budget s') = bs_budget (rs_budget s) \<and>
     bs_hops_used (rs_budget s') = Suc (bs_hops_used (rs_budget s)) \<and>
     (\<exists>h. rs_hops s' = rs_hops s @ [h] \<and> rh_index h = Suc (bs_hops_used (rs_budget s)) \<and>
        rh_coverage h = coverage_score (rs_coverage s'))"

lemma complete_hop_logs:
  assumes "complete_hop env opts s = (r, s')"
  shows "hop_logged s s'"
proof -
  obtain results t s1 where hop: "run_hop env opts (rs_next s) (start_hop s) = ((results, t), s1)"
    by (metis prod_cases3 surj_pair)
  obtain b s2 where cov: "measure_coverage env opts (s1\<lparr>rs_stop := ht_stop t\<rparr>) = (b, s2)" by fastforce
  define s3 where "s3 = log_hop env (rs_next s) results t s2"
  have f: "hop_frame (start_hop s) s1" "hop_frame (s1\<lparr>rs_stop := ht_stop t\<rparr>) s2"
    using run_hop_frame [OF hop] measure_coverage_frame [OF cov] .
  then have logged: "hop_logged s s3"
    by (auto simp: hop_logged_def s3_def log_hop_def hop_frame_def start_hop_def)
  have "hop_logged s (next_queries env opts b s3)"
    using logged by (auto simp: hop_logged_def next_queries_def split: prod.splits)
  with logged assms show ?thesis
    by (auto simp: complete_hop_def hop cov Let_def simp flip: s3_def split: option.splits if_splits)
qed

lemma research_step_continues:
  assumes "research_step env opts s = (None, s')"
  shows "bs_budget (rs_budget s') = bs_budget (rs_budget s) \<and>
    bs_hops_used (rs_budget s') = Suc (bs_hops_used (rs_budget s)) \<and>
    bs_hops_used (rs_budget s) < rb_max_hops (bs_budget (rs_budget s))"
proof -
  obtain x s1 where cp: "checkpoint_now env s = (x, s1)" by fastforce
  then have "complete_hop env opts s1 = (None, s')" "can_start_hop (rs_budget s1)"
    using assms by (auto simp: research_step_def split: option.splits if_splits)
  with complete_hop_logs checkpoint_now_frame [OF cp] show ?thesis
    by (fastforce simp: hop_logged_def hop_frame_def can_start_hop_def)
qed

text \<open>The loop ends because every round that goes on spends a hop.\<close>

function research_loop :: "'e research_env \<Rightarrow> research_options \<Rightarrow> 'e research_state \<Rightarrow>
    research_termination \<times> 'e research_state" where
  "research_loop env opts s = (case research_step env opts s of
     (Some r, s') \<Rightarrow> (r, s')
   | (None, s') \<Rightarrow> research_loop env opts s')"
  by pat_completeness auto

termination
proof (relation "measure (\<lambda>(env, opts, s). rb_max_hops (bs_budget (rs_budget s)) - bs_hops_used (rs_budget s))")
  fix env :: "'e research_env" and opts s x s' y
  assume "(x, s') = research_step env opts s" and "x = None"
  then have "research_step env opts s = (None, s')" by simp
  from research_step_continues [OF this]
  show "((env, opts, s'), (env, opts, s)) \<in>
      measure (\<lambda>(env, opts, s). rb_max_hops (bs_budget (rs_budget s)) - bs_hops_used (rs_budget s))"
    by auto
qed simp

declare research_loop.simps [simp del]

definition start_run :: "'e research_env \<Rightarrow> research_options \<Rightarrow> 'e \<Rightarrow> 'e research_state" where
  "start_run env opts e = (let (now, e') = re_now env e in
     \<lparr>rs_budget = new_budget (ro_budget opts) now,
      rs_pool = new_pool (rb_max_sources (ro_budget opts)) None None,
      rs_coverage = new_coverage, rs_failures = [], rs_notices = [], rs_signals = [], rs_hops = [],
      rs_issued = [], rs_next = [if trim (ro_topic opts) = [] then ro_topic opts else trim (ro_topic opts)],
      rs_stop = None, rs_world = e'\<rparr>)"

definition run_notices :: "'e research_state \<Rightarrow> source_notice list" where
  "run_notices s = rs_notices s @
     (if sp_entries (rs_pool s) = [] \<and> rs_stop s = None
      then [\<lparr>bn_source = ''search'', bn_reason = ''no sources could be retrieved for this topic'',
             bn_kind = ''other''\<rparr>] else []) @
     (case rs_stop s of None \<Rightarrow> []
      | Some x \<Rightarrow> [\<lparr>bn_source = ''pipeline'',
          bn_reason = bx_message x @ '' before the topic was fully mapped'', bn_kind = ''budget_exhausted''\<rparr>])"

definition finalize_research :: "'e research_env \<Rightarrow> research_options \<Rightarrow> 'e research_state \<Rightarrow>
    (jstext + brief) \<times> 'e research_state" where
  "finalize_research env opts s =
     (case re_synthesize env (ro_topic opts) (pool_docs (rs_pool s)) (rs_failures s)
             (map fst (coverage_views (re_text env) (rs_coverage s))) (rs_world s) of
        (Inl msg, e) \<Rightarrow> (Inl msg, s\<lparr>rs_world := e\<rparr>)
      | (Inr b, e) \<Rightarrow> (Inr ((foldl append_notice b (run_notices s))
            \<lparr>br_coverage := (if sp_entries (rs_pool s) = [] then None
                             else Some (coverage_score (rs_coverage s)))\<rparr>), s\<lparr>rs_world := e\<rparr>))"

datatype research_status = Manifest_ok | Manifest_partial | Manifest_failed

definition research_status_of :: "jstext + brief \<Rightarrow> research_status" where
  "research_status_of r = (case r of
     Inl msg \<Rightarrow> Manifest_failed
   | Inr b \<Rightarrow> if br_notices b = [] then Manifest_ok else Manifest_partial)"

record 'e research_result =
  rr_outcome :: "jstext + brief"
  rr_status :: research_status
  rr_reason :: research_termination
  rr_state :: "'e research_state"

definition research_run :: "'e research_env \<Rightarrow> research_options \<Rightarrow> 'e \<Rightarrow> 'e research_result" where
  "research_run env opts e =
     (case research_loop env opts (start_run env opts e) of (reason, s) \<Rightarrow>
      case finalize_research env opts s of (outcome, s') \<Rightarrow>
        \<lparr>rr_outcome = outcome, rr_status = research_status_of outcome, rr_reason = reason, rr_state = s'\<rparr>)"

section \<open>Lemmas\<close>

text \<open>A source whose URL is refused is never fetched.\<close>

lemma refused_source_not_fetched:
  assumes "se_check_url env (sr_url r) e = (Inr d, e')" and "refusal_of d = Some (stage, reason)"
  shows "snd (process_source env r e) = e' \<and> ps_doc (fst (process_source env r e)) = None"
  using assms by (simp add: process_source_def failed_source_def)

text \<open>Exactly one of document and failure, for every way a stage can end.\<close>

lemma caught_source_failure: "ps_doc (caught_source env r t) = None \<and> ps_failure (caught_source env r t) \<noteq> None"
  by (auto simp: caught_source_def failed_source_def split: thrown.splits)

lemma process_source_one:
  "ps_doc (fst (process_source env r e)) = None \<longleftrightarrow> ps_failure (fst (process_source env r e)) \<noteq> None"
proof -
  have extracted: "ps_doc (fst (extract_source env r f e)) = None \<longleftrightarrow> ps_failure (fst (extract_source env r f e)) \<noteq> None"
    for f e
    using caught_source_failure [of env r]
    by (auto simp: extract_source_def failed_source_def read_source_def
        split: option.splits prod.splits sum.splits)
  have "ps_doc (fst (fetch_source env r e)) = None \<longleftrightarrow> ps_failure (fst (fetch_source env r e)) \<noteq> None" for e
    using caught_source_failure [of env r] extracted
    by (auto simp: fetch_source_def split: prod.splits sum.splits)
  then show ?thesis using caught_source_failure [of env r]
    by (auto simp: process_source_def failed_source_def split: option.splits prod.splits sum.splits)
qed

subsection \<open>The corpus\<close>

definition corpus_inv :: "'e research_env \<Rightarrow> research_options \<Rightarrow> 'e research_state \<Rightarrow> bool" where
  "corpus_inv env opts s \<longleftrightarrow> pool_ok (re_platform env) (rs_pool s) \<and>
     same_limits (new_pool (rb_max_sources (ro_budget opts)) None None) (rs_pool s) \<and>
     length (sp_entries (rs_pool s)) \<le> bs_sources_used (rs_budget s) \<and>
     bs_sources_used (rs_budget s) \<le> rb_max_sources (ro_budget opts) \<and>
     bs_budget (rs_budget s) = ro_budget opts"

definition corpus_frame :: "'e research_state \<Rightarrow> 'e research_state \<Rightarrow> bool" where
  "corpus_frame s s' \<longleftrightarrow> rs_pool s' = rs_pool s \<and> bs_budget (rs_budget s') = bs_budget (rs_budget s) \<and>
     bs_sources_used (rs_budget s') = bs_sources_used (rs_budget s)"

lemma corpus_frame_inv: "corpus_inv env opts s \<Longrightarrow> corpus_frame s s' \<Longrightarrow> corpus_inv env opts s'"
  by (simp add: corpus_inv_def corpus_frame_def)

lemma checkpoint_now_corpus: "checkpoint_now env s = (x, s') \<Longrightarrow> corpus_frame s s'"
  by (auto simp: checkpoint_now_def corpus_frame_def split: prod.splits)

lemma checkpoint_now_open:
  assumes "checkpoint_now env s = (None, s')"
  shows "bs_sources_used (rs_budget s') < rb_max_sources (bs_budget (rs_budget s'))"
  using assms by (auto simp: checkpoint_now_def budget_checkpoint_None split: prod.splits)

lemma search_queries_corpus: "search_queries env opts qs acc s = (r, s') \<Longrightarrow> corpus_frame s s'"
proof (induction env opts qs acc s rule: search_queries.induct)
  case (2 env opts q qs seen combined s)
  then show ?case by (fastforce simp: corpus_frame_def split: prod.splits sum.splits if_splits)
qed (simp add: corpus_frame_def)

lemma offer_doc_corpus:
  assumes inv: "corpus_inv env opts s" and room: "bs_sources_used (rs_budget s) < rb_max_sources (ro_budget opts)"
    and offer: "offer_doc env rank d t s = (t', s')"
  shows "corpus_inv env opts s'"
proof -
  obtain added pool where add: "pool_add (re_platform env) d rank (rs_pool s) = (added, pool)" by fastforce
  have "pool_ok (re_platform env) pool"
    using pool_add_ok [of "re_platform env" "rs_pool s" d rank] inv by (simp add: corpus_inv_def add)
  moreover have "same_limits (new_pool (rb_max_sources (ro_budget opts)) None None) pool"
    using pool_add_limits [of "rs_pool s" "re_platform env" d rank] inv
    by (simp add: corpus_inv_def add same_limits_def)
  moreover have "length (sp_entries pool) \<le> length (sp_entries (rs_pool s)) + (if pa_kept added then 1 else 0)"
    using pool_add_kept_size [of "re_platform env" d rank "rs_pool s"] by (simp add: add)
  ultimately show ?thesis using inv room offer
    by (auto simp: corpus_inv_def offer_doc_def add split: if_splits)
qed

lemma account_source_corpus:
  assumes "corpus_inv env opts s" and "bs_sources_used (rs_budget s) < rb_max_sources (ro_budget opts)"
    and "account_source env rank p t s = (t', s')"
  shows "corpus_inv env opts s'"
proof (cases "ps_doc p")
  case (Some d)
  then show ?thesis using assms offer_doc_corpus by (simp add: account_source_def)
next
  case None
  have "corpus_frame s (record_failure f s)" for f by (simp add: corpus_frame_def record_failure_def)
  note kept_inv = corpus_frame_inv [OF assms(1) this]
  show ?thesis using assms None kept_inv by (auto simp: account_source_def split: option.splits)
qed

lemma run_sources_corpus:
  "corpus_inv env opts s \<Longrightarrow> run_sources env rs t s = (t', s') \<Longrightarrow> corpus_inv env opts s'"
proof (induction rs arbitrary: t s)
  case (Cons r rs)
  show ?case
  proof (cases "pool_is_full (rs_pool s)")
    case True
    then show ?thesis using Cons.prems by simp
  next
    case False
    obtain x s1 where cp: "checkpoint_now env s = (x, s1)" by fastforce
    have inv1: "corpus_inv env opts s1"
      using corpus_frame_inv [OF Cons.prems(1) checkpoint_now_corpus [OF cp]] .
    show ?thesis
    proof (cases x)
      case (Some y)
      then show ?thesis using Cons.prems False cp inv1 by simp
    next
      case None
      obtain p e where p: "process_source (re_sources env) r (rs_world s1) = (p, e)" by fastforce
      obtain t2 s2 where a: "account_source env (sr_rank r) p t (s1\<lparr>rs_world := e\<rparr>) = (t2, s2)" by fastforce
      have "bs_sources_used (rs_budget s1) < rb_max_sources (ro_budget opts)"
        using checkpoint_now_open cp None inv1 by (fastforce simp: corpus_inv_def)
      moreover have "corpus_inv env opts (s1\<lparr>rs_world := e\<rparr>)" using inv1 by (simp add: corpus_inv_def)
      ultimately have "corpus_inv env opts s2" using account_source_corpus [OF _ _ a] by simp
      moreover have "run_sources env rs t2 s2 = (t', s')" using Cons.prems(2) False cp None p a by simp
      ultimately show ?thesis by (rule Cons.IH)
    qed
  qed
qed simp

lemma complete_hop_corpus:
  assumes inv: "corpus_inv env opts s" and step: "complete_hop env opts s = (r, s')"
  shows "corpus_inv env opts s'"
proof -
  obtain results s1 where search: "search_queries env opts (rs_next s) ([], []) (start_hop s) = (results, s1)"
    by fastforce
  obtain t s2 where sources: "run_sources env results \<lparr>ht_fetched = 0, ht_kept = 0, ht_stop = None\<rparr> s1 = (t, s2)"
    by fastforce
  obtain b s3 where cov: "measure_coverage env opts (s2\<lparr>rs_stop := ht_stop t\<rparr>) = (b, s3)" by fastforce
  define s4 where "s4 = log_hop env (rs_next s) (length results) t s3"
  have "corpus_inv env opts (start_hop s)" using inv by (simp add: corpus_inv_def start_hop_def)
  then have "corpus_inv env opts s1" using search_queries_corpus [OF search] by (rule corpus_frame_inv)
  then have "corpus_inv env opts s2" using sources by (rule run_sources_corpus)
  moreover have "corpus_frame s2 s4"
    using cov by (auto simp: s4_def log_hop_def measure_coverage_def corpus_frame_def split: prod.splits)
  ultimately have s4: "corpus_inv env opts s4" by (rule corpus_frame_inv)
  moreover have "corpus_frame s4 (next_queries env opts b s4)"
    by (simp add: next_queries_def corpus_frame_def split: prod.splits)
  ultimately have "corpus_inv env opts (next_queries env opts b s4)" by (rule corpus_frame_inv)
  with s4 step show ?thesis
    by (auto simp: complete_hop_def run_hop_def search sources cov Let_def simp flip: s4_def
        split: option.splits if_splits)
qed

lemma research_step_corpus:
  assumes "corpus_inv env opts s" and "research_step env opts s = (r, s')"
  shows "corpus_inv env opts s'"
proof -
  obtain x s1 where cp: "checkpoint_now env s = (x, s1)" by fastforce
  have inv1: "corpus_inv env opts s1"
    using corpus_frame_inv [OF assms(1) checkpoint_now_corpus [OF cp]] .
  then have "corpus_inv env opts (s1\<lparr>rs_stop := y\<rparr>)" for y by (simp add: corpus_inv_def)
  with inv1 assms(2) complete_hop_corpus [OF inv1] show ?thesis
    by (auto simp: research_step_def cp split: option.splits if_splits)
qed

subsection \<open>Why a run stops\<close>

definition log_inv :: "research_options \<Rightarrow> 'e research_state \<Rightarrow> bool" where
  "log_inv opts s \<longleftrightarrow> bs_budget (rs_budget s) = ro_budget opts \<and>
     bs_hops_used (rs_budget s) = length (rs_hops s) \<and> length (rs_hops s) \<le> rb_max_hops (ro_budget opts) \<and>
     map rh_index (rs_hops s) = [1..<Suc (length (rs_hops s))]"

definition stop_explained :: "research_options \<Rightarrow> research_termination \<Rightarrow> 'e research_state \<Rightarrow> bool" where
  "stop_explained opts r s = (case r of
     Coverage_met \<Rightarrow> rs_stop s = None \<and> rs_hops s \<noteq> [] \<and>
       ro_coverage_target opts \<le> rh_coverage (last (rs_hops s))
   | Max_hops \<Rightarrow> rs_stop s = None \<and> length (rs_hops s) = rb_max_hops (ro_budget opts)
   | No_novel_queries \<Rightarrow> rs_stop s = None \<and> rs_next s = []
   | Budget_stop d \<Rightarrow> map_option bx_dimension (rs_stop s) = Some d)"

lemma hop_frame_log: "hop_frame s s' \<Longrightarrow> log_inv opts s \<Longrightarrow> log_inv opts s'"
  by (simp add: hop_frame_def log_inv_def)

lemma hop_logged_log:
  assumes "hop_logged s s'" and "log_inv opts s" and "can_start_hop (rs_budget s)"
  shows "log_inv opts s'"
  using assms by (auto simp: hop_logged_def log_inv_def can_start_hop_def)

lemma complete_hop_stop:
  assumes "complete_hop env opts s = (r, s')"
  shows "case r of None \<Rightarrow> rs_stop s' = None
    | Some Coverage_met \<Rightarrow> rs_stop s' = None \<and> ro_coverage_target opts \<le> coverage_score (rs_coverage s')
    | Some Max_hops \<Rightarrow> rs_stop s' = None \<and> \<not> can_start_hop (rs_budget s')
    | Some No_novel_queries \<Rightarrow> False
    | Some (Budget_stop d) \<Rightarrow> map_option bx_dimension (rs_stop s') = Some d"
proof -
  obtain results t s1 where hop: "run_hop env opts (rs_next s) (start_hop s) = ((results, t), s1)"
    by (metis prod_cases3 surj_pair)
  obtain b s2 where cov: "measure_coverage env opts (s1\<lparr>rs_stop := ht_stop t\<rparr>) = (b, s2)" by fastforce
  have stop: "rs_stop s2 = ht_stop t" using measure_coverage_frame [OF cov] by (simp add: hop_frame_def)
  then have log: "rs_stop (log_hop env q n t s2) = ht_stop t"
      "rs_stop (next_queries env opts b (log_hop env q n t s2)) = ht_stop t" for q n
    by (simp_all add: log_hop_def next_queries_def split: prod.splits)
  show ?thesis using assms log
    by (auto simp: complete_hop_def hop cov Let_def split: option.splits if_splits)
qed

lemma research_step_explained:
  assumes inv: "log_inv opts s" and none: "rs_stop s = None" and step: "research_step env opts s = (r, s')"
  shows "log_inv opts s' \<and> (case r of None \<Rightarrow> rs_stop s' = None | Some r' \<Rightarrow> stop_explained opts r' s')"
proof -
  obtain x s1 where cp: "checkpoint_now env s = (x, s1)" by fastforce
  note f = checkpoint_now_frame [OF cp]
  have inv1: "log_inv opts s1" and none1: "rs_stop s1 = None"
    using hop_frame_log [OF f inv] f none by (simp_all add: hop_frame_def)
  show ?thesis
  proof (cases "x = None \<and> can_start_hop (rs_budget s1) \<and> rs_next s1 \<noteq> []")
    case True
    then have hop: "complete_hop env opts s1 = (r, s')" using step by (simp add: research_step_def cp)
    note logged = complete_hop_logs [OF hop]
    have inv': "log_inv opts s'" using hop_logged_log [OF logged inv1] True by simp
    have "rs_hops s' \<noteq> [] \<and> rh_coverage (last (rs_hops s')) = coverage_score (rs_coverage s')"
      using logged by (auto simp: hop_logged_def)
    moreover have "length (rs_hops s') = rb_max_hops (ro_budget opts)" if "\<not> can_start_hop (rs_budget s')"
      using that inv' by (simp add: log_inv_def can_start_hop_def)
    ultimately show ?thesis using inv' complete_hop_stop [OF hop]
      by (auto simp: stop_explained_def split: option.splits research_termination.splits)
  next
    case False
    then show ?thesis using step inv1 none1
      by (auto simp: research_step_def cp stop_explained_def log_inv_def can_start_hop_def
          split: option.splits if_splits)
  qed
qed

lemma research_loop_explained:
  "log_inv opts s \<Longrightarrow> rs_stop s = None \<Longrightarrow> corpus_inv env opts s \<Longrightarrow> research_loop env opts s = (r, s') \<Longrightarrow>
     log_inv opts s' \<and> stop_explained opts r s' \<and> corpus_inv env opts s'"
proof (induction env opts s rule: research_loop.induct)
  case (1 env opts s)
  obtain x s1 where step: "research_step env opts s = (x, s1)" by fastforce
  note ex = research_step_explained [OF 1(2,3) step] and corpus = research_step_corpus [OF 1(4) step]
  show ?case
  proof (cases x)
    case None
    then have "research_loop env opts s1 = (r, s')"
      using 1(5) step by (simp add: research_loop.simps [of env opts s])
    then show ?thesis using 1(1) [of x s1] ex corpus None step by simp
  next
    case (Some y)
    then show ?thesis using 1(5) step ex corpus by (simp add: research_loop.simps [of env opts s])
  qed
qed

lemma start_run_inv:
  "log_inv opts (start_run env opts e) \<and> rs_stop (start_run env opts e) = None \<and>
   corpus_inv env opts (start_run env opts e)"
  by (auto simp: start_run_def log_inv_def corpus_inv_def new_budget_def new_pool_ok Let_def split: prod.splits)
    (simp add: new_pool_def)

lemma append_notices: "br_notices (foldl append_notice b ns) = br_notices b @ ns"
  by (induction ns arbitrary: b) (simp_all add: append_notice_def)

lemma research_run_explained:
  assumes "s = rr_state (research_run env opts e)"
  shows "log_inv opts s \<and> stop_explained opts (rr_reason (research_run env opts e)) s \<and> corpus_inv env opts s"
proof -
  obtain r t where loop: "research_loop env opts (start_run env opts e) = (r, t)" by fastforce
  note start = start_run_inv [of opts env e]
  have ex: "log_inv opts t \<and> stop_explained opts r t \<and> corpus_inv env opts t"
    by (rule research_loop_explained [OF _ _ _ loop]) (use start in blast)+
  obtain x t' where fin: "finalize_research env opts t = (x, t')" by fastforce
  have same: "rs_hops t' = rs_hops t" "rs_stop t' = rs_stop t" "rs_next t' = rs_next t"
      "rs_budget t' = rs_budget t" "rs_pool t' = rs_pool t"
    using fin by (auto simp: finalize_research_def split: prod.splits sum.splits)
  have "s = t'" "rr_reason (research_run env opts e) = r"
    by (simp_all add: assms research_run_def loop fin)
  with ex same show ?thesis
    by (simp add: log_inv_def stop_explained_def corpus_inv_def cong: research_termination.case_cong)
qed

text \<open>A budget stop is a success with notice: its brief ends with it and the run counts as partial.\<close>

definition brief_honest :: "'e research_result \<Rightarrow> bool" where
  "brief_honest r = (case rr_outcome r of
     Inl msg \<Rightarrow> rr_status r = Manifest_failed
   | Inr b \<Rightarrow> (case rr_reason r of
       Budget_stop d \<Rightarrow> rr_status r = Manifest_partial \<and> br_notices b \<noteq> [] \<and>
         bn_kind (last (br_notices b)) = ''budget_exhausted''
     | _ \<Rightarrow> rr_status r = (if br_notices b = [] then Manifest_ok else Manifest_partial)))"

lemma finalize_brief_honest:
  assumes "stop_explained opts reason s" and "finalize_research env opts s = (x, s')"
  shows "brief_honest \<lparr>rr_outcome = x, rr_status = research_status_of x, rr_reason = reason, rr_state = s'\<rparr>"
proof (cases x)
  case (Inl msg)
  then show ?thesis by (simp add: brief_honest_def research_status_of_def)
next
  case (Inr b)
  then have "\<exists>ns. br_notices b = ns @ run_notices s"
    using assms(2) by (auto simp: finalize_research_def append_notices split: prod.splits sum.splits)
  then obtain ns where "br_notices b = ns @ run_notices s" by blast
  then show ?thesis using assms(1) Inr
    by (cases reason) (auto simp: brief_honest_def research_status_of_def stop_explained_def run_notices_def)
qed

lemma research_run_honest: "brief_honest (research_run env opts e)"
proof -
  obtain r t where loop: "research_loop env opts (start_run env opts e) = (r, t)" by fastforce
  note start = start_run_inv [of opts env e]
  have "log_inv opts t \<and> stop_explained opts r t \<and> corpus_inv env opts t"
    by (rule research_loop_explained [OF _ _ _ loop]) (use start in blast)+
  then have "stop_explained opts r t" by blast
  moreover obtain x t' where fin: "finalize_research env opts t = (x, t')" by fastforce
  ultimately show ?thesis
    using finalize_brief_honest by (simp add: research_run_def loop)
qed

section \<open>Properties\<close>


text \<open>C40. The corpus a run synthesizes from respects every budget it was given: at most the source cap and
  three documents of any host, no page twice and no two texts with the same words; the sources charged
  to the budget never exceed its cap and are never fewer than the documents kept.\<close>

theorem research_corpus_within_budget:
  "length (pool_docs (rs_pool (rr_state (research_run env opts e)))) \<le>
     bs_sources_used (rs_budget (rr_state (research_run env opts e))) \<and>
   bs_sources_used (rs_budget (rr_state (research_run env opts e))) \<le> rb_max_sources (ro_budget opts) \<and>
   length (filter (\<lambda>d. sd_host d = h) (pool_docs (rs_pool (rr_state (research_run env opts e))))) \<le> 3 \<and>
   distinct (map (doc_identity (re_platform env)) (pool_docs (rs_pool (rr_state (research_run env opts e))))) \<and>
   distinct (filter (\<lambda>ts. ts \<noteq> []) (map (\<lambda>d. tokenize (sd_text d))
     (pool_docs (rs_pool (rr_state (research_run env opts e))))))"
proof -
  let ?s = "rr_state (research_run env opts e)"
  have inv: "corpus_inv env opts ?s" using research_run_explained [of ?s env opts e, OF refl] by blast
  then have "pool_ok (re_platform env) (rs_pool ?s)"
      "same_limits (new_pool (rb_max_sources (ro_budget opts)) None None) (rs_pool ?s)"
    by (simp_all add: corpus_inv_def)
  from new_pool_docs [OF this, of h] show ?thesis
    using inv by (simp add: DEFAULT_PER_HOST_CAP_def corpus_inv_def pool_docs_def)
qed

end
