(* ===== verification/Json.thy ===== *)
theory Json
  imports Complex_Main Prelude
begin

text \<open>
  The values that flow through a plan (\<open>unknown\<close> in \<open>packages/core/src/executor\<close>) and what the
  executor uses of the standard library on them: \<open>JSON.stringify\<close>, \<open>Buffer.byteLength\<close>, \<open>String\<close> of a
  number, and the property tests \<open>in\<close> and \<open>typeof\<close>. Numbers are the integers; \<open>undefined\<close> is the
  \<open>None\<close> of an option, objects keep the order their keys were inserted in and answer only for their
  own members (\<open>in\<close> also sees inherited ones such as \<open>toString\<close>).
\<close>

section \<open>Definitions\<close>

datatype json =
    J_null
  | J_bool bool
  | J_num int
  | J_str jstext
  | J_arr "json list"
  | J_obj "(jstext \<times> json) list"

definition show_int :: "int \<Rightarrow> jstext" where
  "show_int i = (if i < 0 then CHR ''-'' # show_nat (nat (- i)) else show_nat (nat i))"

definition hex_digit :: "nat \<Rightarrow> char" where
  "hex_digit d = (if d < 10 then char_of (48 + d) else char_of (87 + d))"

text \<open>The escapes of \<open>JSON.stringify\<close>; the four stand-ins of the prelude are printable characters.\<close>

definition json_escape :: "char \<Rightarrow> jstext" where
  "json_escape c = (
     if c = CHR 0x22 then [CHR 0x5C, CHR 0x22]
     else if c = CHR 0x5C then [CHR 0x5C, CHR 0x5C]
     else if code c = 8 then [CHR 0x5C, CHR ''b'']
     else if code c = 9 then [CHR 0x5C, CHR ''t'']
     else if code c = 10 then [CHR 0x5C, CHR ''n'']
     else if code c = 12 then [CHR 0x5C, CHR ''f'']
     else if code c = 13 then [CHR 0x5C, CHR ''r'']
     else if code c < 32 then [CHR 0x5C, CHR ''u'', CHR ''0'', CHR ''0'', hex_digit (code c div 16), hex_digit (code c mod 16)]
     else [c])"

definition json_quote :: "jstext \<Rightarrow> jstext" where
  "json_quote s = CHR 0x22 # concat (map json_escape s) @ [CHR 0x22]"

fun json_text :: "json \<Rightarrow> jstext"
and json_texts :: "json list \<Rightarrow> jstext list"
and json_members :: "(jstext \<times> json) list \<Rightarrow> jstext list" where
  "json_text J_null = ''null''"
| "json_text (J_bool b) = (if b then ''true'' else ''false'')"
| "json_text (J_num i) = show_int i"
| "json_text (J_str s) = json_quote s"
| "json_text (J_arr vs) = ''['' @ join '','' (json_texts vs) @ '']''"
| "json_text (J_obj kvs) = ''{'' @ join '','' (json_members kvs) @ ''}''"
| "json_texts [] = []"
| "json_texts (v # vs) = json_text v # json_texts vs"
| "json_members [] = []"
| "json_members ((k, v) # kvs) = (json_quote k @ '':'' @ json_text v) # json_members kvs"

text \<open>
  UTF-8: one byte below 128, three for the ellipsis, the dash and the marks, two otherwise. The decoder
  answers U+FFFD for a split sequence; 0x81 stands for it.
\<close>

definition replacement_char :: char where
  "replacement_char = CHR 0x81"

definition char_bytes :: "char \<Rightarrow> nat" where
  "char_bytes c = (if c \<in> {ellipsis, em_dash, check_mark, cross_mark, replacement_char} then 3
     else if code c < 128 then 1 else 2)"

definition utf8_length :: "jstext \<Rightarrow> nat" where
  "utf8_length s = sum_list (map char_bytes s)"

text \<open>\<open>typeof v === 'object' && v !== null\<close>; an array is one, its members are its indices and \<open>length\<close>.\<close>

definition is_object :: "json \<Rightarrow> bool" where
  "is_object v = (case v of J_obj _ \<Rightarrow> True | J_arr _ \<Rightarrow> True | _ \<Rightarrow> False)"

definition array_index :: "jstext \<Rightarrow> nat option" where
  "array_index s = (if s \<noteq> [] \<and> (\<forall>c \<in> set s. is_digit c) \<and> show_nat (read_nat s) = s
     then Some (read_nat s) else None)"

definition json_member :: "json \<Rightarrow> jstext \<Rightarrow> json option" where
  "json_member v k = (case v of
     J_obj kvs \<Rightarrow> map_get kvs k
   | J_arr vs \<Rightarrow>
       if k = ''length'' then Some (J_num (int (length vs)))
       else (case array_index k of Some i \<Rightarrow> nth_opt vs i | None \<Rightarrow> None)
   | _ \<Rightarrow> None)"

text \<open>\<open>valueToString\<close> of the resolver: text as it is, scalars printed, absent and null empty.\<close>

definition value_to_string :: "json option \<Rightarrow> jstext" where
  "value_to_string v = (case v of
     None \<Rightarrow> [] | Some J_null \<Rightarrow> [] | Some (J_str s) \<Rightarrow> s | Some v' \<Rightarrow> json_text v')"

section \<open>Lemmas\<close>

lemma utf8_length_Nil [simp]: "utf8_length [] = 0"
  by (simp add: utf8_length_def)

lemma utf8_length_append [simp]: "utf8_length (s @ t) = utf8_length s + utf8_length t"
  by (simp add: utf8_length_def)

lemma char_bytes_bounds: "1 \<le> char_bytes c \<and> char_bytes c \<le> 3"
  by (simp add: char_bytes_def)

lemma length_le_utf8: "length s \<le> utf8_length s"
proof (induction s)
  case (Cons c s)
  then show ?case using char_bytes_bounds [of c] by (simp add: utf8_length_def)
qed simp

lemma utf8_length_take_le: "utf8_length (take n s) \<le> utf8_length s"
  by (metis append_take_drop_id le_add1 utf8_length_append)

end
