(* ===== verification/Plan.thy ===== *)
theory Plan
  imports Json
begin

text \<open>
  Plans: the step language of \<open>packages/protocol/src/schemas/\<close> (\<open>plan.ts\<close>, \<open>steps.ts\<close>, \<open>refs.ts\<close>,
  \<open>security.ts\<close>), the semantic validator \<open>packages/protocol/src/validators/semantic.ts\<close> and the
  second scope gate, \<open>packages/core/src/secrets/scope-enforcer.ts\<close>, which the executor runs again
  before the first browser action (\<open>executor/scope-enforcer.ts\<close>).

  The patterns and sizes the zod schemas demand of ids, names and lists are not stated here: a plan of this
  model is any value of the schema's shape, and the theorems hold for all of them.

  The host of a URL (\<open>new URL(u).hostname\<close>) is an argument. The side-effect mark of an assert step, read by
  the gate for the wording of a reason, is no field of the schema and is left out.
\<close>

section \<open>Definitions\<close>

subsection \<open>References\<close>

record capture_ref =
  cr_step :: jstext
  cr_field :: "jstext option"

datatype value_ref =
    Literal_value json
  | Param_value jstext
  | Secret_value jstext "jstext list option"
  | Capture_value capture_ref
  | Template_value jstext "(jstext \<times> value_ref) list"

datatype aria_role =
    Role_button | Role_link | Role_textbox | Role_searchbox | Role_table | Role_heading | Role_region
  | Role_dialog | Role_listitem | Role_cell | Role_checkbox | Role_radio | Role_combobox | Role_listbox
  | Role_slider | Role_spinbutton | Role_option | Role_tab | Role_tabpanel | Role_menuitem | Role_row | Role_grid

datatype name_match = Name_exact jstext | Name_regex jstext jstext

datatype locator_chain =
    Recorded_locator nat
  | Workflow_locator jstext
  | Intent_locator aria_role "name_match option" "locator_chain option"

subsection \<open>Steps\<close>

datatype security_scope = Scope_public | Scope_read_only | Scope_authenticated

datatype step_verb =
    V_navigate | V_click | V_fill | V_fill_element | V_extract | V_wait_for | V_assert | V_branch | V_loop
  | V_call_workflow | V_llm_summarize

datatype consequence_level = Reversible | Hard_to_reverse | Irreversible | Consequence_unknown

record confirmation_hints =
  ch_description :: "jstext option"
  ch_cost :: "(rat \<times> jstext) option"
  ch_consequence :: "consequence_level option"

datatype primitive_kind = Kind_string | Kind_number | Kind_boolean | Kind_date | Kind_money | Kind_readable

datatype extraction_schema =
    Primitive_schema primitive_kind
  | Array_schema extraction_schema
  | Object_schema "(jstext \<times> extraction_schema) list"

datatype assert_condition =
    Assert_visible | Assert_hidden | Assert_text jstext jstext | Assert_count nat

datatype branch_condition = Branch_always | Branch_capture_exists capture_ref

record click_modifiers =
  cm_alt :: bool
  cm_shift :: bool
  cm_ctrl :: bool
  cm_meta :: bool

datatype label_origin = Origin_explicit | Origin_structural | Origin_placeholder | Origin_title

datatype wait_state = Wait_visible | Wait_hidden | Wait_attached | Wait_detached

datatype collection_ref = Over_capture capture_ref | Over_param jstext

record loop_spec =
  lp_over :: collection_ref
  lp_as :: jstext
  lp_body :: "jstext list"
  lp_max :: nat

datatype step_body =
    Navigate_step confirmation_hints value_ref
  | Click_step confirmation_hints locator_chain "click_modifiers option"
  | Fill_step confirmation_hints locator_chain value_ref bool
  | Fill_element_step confirmation_hints jstext "label_origin option" locator_chain value_ref
  | Extract_step locator_chain extraction_schema jstext
  | Wait_for_step locator_chain wait_state "nat option"
  | Assert_step locator_chain assert_condition
  | Branch_step branch_condition jstext "jstext option"
  | Loop_step loop_spec
  | Call_workflow_step jstext "(jstext \<times> value_ref) list" "jstext option"
  | Llm_summarize_step capture_ref jstext jstext

record plan_step =
  st_id :: jstext
  st_scope :: "security_scope option"
  st_confirm :: bool
  st_body :: step_body

record output_binding =
  ob_name :: jstext
  ob_from :: capture_ref

record plan =
  pl_task :: jstext
  pl_id :: jstext
  pl_default_scope :: security_scope
  pl_steps :: "plan_step list"
  pl_outputs :: "output_binding list"

definition verb_of :: "step_body \<Rightarrow> step_verb" where
  "verb_of b = (case b of
     Navigate_step _ _ \<Rightarrow> V_navigate | Click_step _ _ _ \<Rightarrow> V_click | Fill_step _ _ _ _ \<Rightarrow> V_fill
   | Fill_element_step _ _ _ _ _ \<Rightarrow> V_fill_element | Extract_step _ _ _ \<Rightarrow> V_extract
   | Wait_for_step _ _ _ \<Rightarrow> V_wait_for | Assert_step _ _ \<Rightarrow> V_assert | Branch_step _ _ _ \<Rightarrow> V_branch
   | Loop_step _ \<Rightarrow> V_loop | Call_workflow_step _ _ _ \<Rightarrow> V_call_workflow | Llm_summarize_step _ _ _ \<Rightarrow> V_llm_summarize)"

abbreviation st_verb :: "plan_step \<Rightarrow> step_verb" where
  "st_verb s \<equiv> verb_of (st_body s)"

definition verb_name :: "step_verb \<Rightarrow> jstext" where
  "verb_name v = (case v of
     V_navigate \<Rightarrow> ''navigate'' | V_click \<Rightarrow> ''click'' | V_fill \<Rightarrow> ''fill'' | V_fill_element \<Rightarrow> ''fill_element''
   | V_extract \<Rightarrow> ''extract'' | V_wait_for \<Rightarrow> ''wait_for'' | V_assert \<Rightarrow> ''assert'' | V_branch \<Rightarrow> ''branch''
   | V_loop \<Rightarrow> ''loop'' | V_call_workflow \<Rightarrow> ''call_workflow'' | V_llm_summarize \<Rightarrow> ''llm_summarize'')"

definition STEP_VERBS :: "step_verb list" where
  "STEP_VERBS = [V_navigate, V_click, V_fill, V_fill_element, V_extract, V_wait_for, V_assert, V_branch, V_loop,
     V_call_workflow, V_llm_summarize]"

definition ALLOWED_VERBS_BY_SCOPE :: "security_scope \<Rightarrow> step_verb list" where
  "ALLOWED_VERBS_BY_SCOPE s = (case s of
     Scope_public \<Rightarrow> STEP_VERBS | Scope_authenticated \<Rightarrow> STEP_VERBS
   | Scope_read_only \<Rightarrow> [V_extract, V_wait_for, V_llm_summarize])"

definition effective_scope :: "plan \<Rightarrow> plan_step \<Rightarrow> security_scope" where
  "effective_scope p s = (case st_scope s of Some sc \<Rightarrow> sc | None \<Rightarrow> pl_default_scope p)"

text \<open>What the schema demands of the parts the model keeps: id patterns, sizes, who may ask for consent.\<close>

subsection \<open>The semantic validator\<close>

record semantic_context =
  sx_secrets :: "jstext list option"
  sx_locators :: "jstext list option"

record validation_error =
  ve_path :: jstext
  ve_code :: jstext
  ve_message :: jstext

fun collect_value_refs :: "value_ref \<Rightarrow> jstext \<Rightarrow> (value_ref \<times> jstext) list"
and collect_bindings :: "(jstext \<times> value_ref) list \<Rightarrow> jstext \<Rightarrow> (value_ref \<times> jstext) list" where
  "collect_value_refs v path = (v, path) #
     (case v of Template_value t bs \<Rightarrow> collect_bindings bs (path @ ''/bindings/'') | _ \<Rightarrow> [])"
| "collect_bindings [] path = []"
| "collect_bindings ((k, v) # bs) path = collect_value_refs v (path @ k) @ collect_bindings bs path"

fun collect_locator_chains :: "locator_chain \<Rightarrow> jstext \<Rightarrow> (locator_chain \<times> jstext) list" where
  "collect_locator_chains l path = (l, path) #
     (case l of Intent_locator _ _ (Some near) \<Rightarrow> collect_locator_chains near (path @ ''/near'') | _ \<Rightarrow> [])"

definition extraction_field_keys :: "plan_step \<Rightarrow> jstext list" where
  "extraction_field_keys s = (case st_body s of
     Extract_step _ (Object_schema fs) _ \<Rightarrow> map_keys fs | _ \<Rightarrow> [])"

definition missing_ref :: "jstext \<Rightarrow> jstext \<Rightarrow> jstext \<Rightarrow> jstext \<Rightarrow> validation_error" where
  "missing_ref path c v domain =
     \<lparr>ve_path = path, ve_code = c, ve_message = domain @ '' reference not found: '' @ v\<rparr>"

definition step_path :: "nat \<Rightarrow> jstext" where
  "step_path i = ''/steps/'' @ show_nat i"

definition duplicate_error :: "nat \<Rightarrow> plan_step \<Rightarrow> validation_error" where
  "duplicate_error i s = \<lparr>ve_path = step_path i @ ''/id'', ve_code = ''duplicate_step_id'',
     ve_message = ''Duplicate step id '' @ st_id s @ ''.''\<rparr>"

definition scope_error :: "nat \<Rightarrow> plan_step \<Rightarrow> validation_error" where
  "scope_error i s = \<lparr>ve_path = step_path i @ ''/type'', ve_code = ''scope_violation'',
     ve_message = ''Step type '' @ verb_name (st_verb s) @ '' is not allowed in read-only-data scope.''\<rparr>"

definition out_of_scope :: "plan \<Rightarrow> plan_step \<Rightarrow> bool" where
  "out_of_scope p s \<longleftrightarrow> effective_scope p s = Scope_read_only \<and>
     st_verb s \<notin> set (ALLOWED_VERBS_BY_SCOPE Scope_read_only)"

text \<open>The first pass: the index of every step id, duplicates and scope violations.\<close>

fun index_steps :: "plan \<Rightarrow> nat \<Rightarrow> plan_step list \<Rightarrow> (jstext, nat) jsmap \<times> validation_error list \<Rightarrow>
    (jstext, nat) jsmap \<times> validation_error list" where
  "index_steps p i [] acc = acc"
| "index_steps p i (s # ss) (ids, errs) = index_steps p (Suc i) ss
     (if map_has ids (st_id s) then ids else map_set (st_id s) i ids,
      errs @ (if map_has ids (st_id s) then [duplicate_error i s] else []) @
        (if out_of_scope p s then [scope_error i s] else []))"

definition target_errors :: "jstext list \<Rightarrow> nat \<Rightarrow> plan_step \<Rightarrow> validation_error list" where
  "target_errors ids i s = (case st_body s of
     Branch_step _ t e \<Rightarrow>
       (if t \<in> set ids then []
        else [missing_ref (step_path i @ ''/then_step_id'') ''unknown_then_step'' t ''Branch target step'']) @
       (case e of None \<Rightarrow> []
        | Some e' \<Rightarrow> if e' \<in> set ids then []
            else [missing_ref (step_path i @ ''/else_step_id'') ''unknown_else_step'' e' ''Branch else step''])
   | Loop_step l \<Rightarrow> concat (map (\<lambda>(k, b). if b \<in> set ids then []
        else [missing_ref (step_path i @ ''/body_step_ids/'' @ show_nat k) ''unknown_loop_body_step'' b ''Loop body step''])
        (enumerate 0 (lp_body l)))
   | _ \<Rightarrow> [])"

definition step_value_refs :: "nat \<Rightarrow> plan_step \<Rightarrow> (value_ref \<times> jstext) list" where
  "step_value_refs i s = (case st_body s of
     Navigate_step _ url \<Rightarrow> collect_value_refs url (step_path i @ ''/url'')
   | Fill_step _ _ v _ \<Rightarrow> collect_value_refs v (step_path i @ ''/value'')
   | Fill_element_step _ _ _ _ v \<Rightarrow> collect_value_refs v (step_path i @ ''/value'')
   | Call_workflow_step _ ps _ \<Rightarrow> collect_bindings ps (step_path i @ ''/params/'')
   | Loop_step l \<Rightarrow> (case lp_over l of
       Over_capture c \<Rightarrow> [(Capture_value c, step_path i @ ''/over'')] | Over_param _ \<Rightarrow> [])
   | Llm_summarize_step c _ _ \<Rightarrow> [(Capture_value c, step_path i @ ''/input'')]
   | Branch_step (Branch_capture_exists c) _ _ \<Rightarrow> [(Capture_value c, step_path i @ ''/condition/capture'')]
   | _ \<Rightarrow> [])"

definition step_locators :: "nat \<Rightarrow> plan_step \<Rightarrow> (locator_chain \<times> jstext) list" where
  "step_locators i s = (case st_body s of
     Fill_step _ l _ _ \<Rightarrow> collect_locator_chains l (step_path i @ ''/locator'')
   | Fill_element_step _ _ _ l _ \<Rightarrow> collect_locator_chains l (step_path i @ ''/locator'')
   | Click_step _ l _ \<Rightarrow> collect_locator_chains l (step_path i @ ''/locator'')
   | Extract_step l _ _ \<Rightarrow> collect_locator_chains l (step_path i @ ''/locator'')
   | Wait_for_step l _ _ \<Rightarrow> collect_locator_chains l (step_path i @ ''/locator'')
   | Assert_step l _ \<Rightarrow> collect_locator_chains l (step_path i @ ''/locator'')
   | _ \<Rightarrow> [])"

definition capture_errors :: "plan \<Rightarrow> (jstext, nat) jsmap \<Rightarrow> nat \<Rightarrow> capture_ref \<Rightarrow> jstext \<Rightarrow> validation_error list" where
  "capture_errors p ids i c path = (case map_get ids (cr_step c) of
     None \<Rightarrow> [missing_ref path ''unknown_capture_step'' (cr_step c) ''Capture step'']
   | Some j \<Rightarrow>
       if i \<le> j then [\<lparr>ve_path = path @ ''/step_id'', ve_code = ''capture_must_reference_prior_step'',
         ve_message = ''Capture reference '' @ cr_step c @ '' must point to a prior step.''\<rparr>]
       else (case nth_opt (pl_steps p) j of
           None \<Rightarrow> [\<lparr>ve_path = path @ ''/step_id'', ve_code = ''capture_step_not_extract'',
             ve_message = ''Referenced step '' @ cr_step c @ '' is not an extract step.''\<rparr>]
         | Some producer \<Rightarrow>
             if st_verb producer \<noteq> V_extract then [\<lparr>ve_path = path @ ''/step_id'', ve_code = ''capture_step_not_extract'',
               ve_message = ''Referenced step '' @ cr_step c @ '' is not an extract step.''\<rparr>]
             else (case cr_field c of
                 None \<Rightarrow> []
               | Some f \<Rightarrow> if f \<in> set (extraction_field_keys producer) then []
                   else [\<lparr>ve_path = path @ ''/field'', ve_code = ''capture_field_missing'',
                     ve_message = ''Capture field '' @ f @ '' is not defined by extract schema of '' @ cr_step c @ ''.''\<rparr>])))"

definition value_ref_errors ::
  "semantic_context \<Rightarrow> plan \<Rightarrow> (jstext, nat) jsmap \<Rightarrow> nat \<Rightarrow> value_ref \<times> jstext \<Rightarrow> validation_error list" where
  "value_ref_errors ctx p ids i = (\<lambda>(v, path). case v of
     Capture_value c \<Rightarrow> capture_errors p ids i c path
   | Secret_value k _ \<Rightarrow> (case sx_secrets ctx of
       Some declared \<Rightarrow> if k \<in> set declared then [] else [missing_ref path ''undeclared_secret'' k ''Secret'']
     | None \<Rightarrow> [])
   | _ \<Rightarrow> [])"

definition locator_errors :: "semantic_context \<Rightarrow> locator_chain \<times> jstext \<Rightarrow> validation_error list" where
  "locator_errors ctx = (\<lambda>(l, path). case l of
     Workflow_locator n \<Rightarrow> (case sx_locators ctx of
       Some declared \<Rightarrow> if n \<in> set declared then [] else [missing_ref path ''unknown_locator'' n ''Workflow locator'']
     | None \<Rightarrow> [])
   | _ \<Rightarrow> [])"

definition step_errors ::
  "semantic_context \<Rightarrow> plan \<Rightarrow> (jstext, nat) jsmap \<Rightarrow> nat \<Rightarrow> plan_step \<Rightarrow> validation_error list" where
  "step_errors ctx p ids i s = target_errors (map st_id (pl_steps p)) i s @
     concat (map (value_ref_errors ctx p ids i) (step_value_refs i s)) @
     concat (map (locator_errors ctx) (step_locators i s))"

definition validate_semantics :: "semantic_context \<Rightarrow> plan \<Rightarrow> validation_error list + plan" where
  "validate_semantics ctx p =
     (let (ids, errs) = index_steps p 0 (pl_steps p) ([], []);
          all_errs = errs @ concat (map (\<lambda>(i, s). step_errors ctx p ids i s) (enumerate 0 (pl_steps p)))
      in if all_errs = [] then Ok p else Err all_errs)"

subsection \<open>The second scope gate\<close>

definition READ_ONLY_ALLOWED_STEPS :: "step_verb list" where
  "READ_ONLY_ALLOWED_STEPS = [V_extract, V_wait_for, V_llm_summarize]"

record scope_violation =
  sv_step :: jstext
  sv_verb :: step_verb
  sv_scope :: security_scope
  sv_reason :: jstext

text \<open>
  \<open>replace(/{{\s*[^}]+\s*}}/g, '')\<close>: a placeholder is two braces, a run free of closing braces that is not
  empty, and two closing braces. \<open>placeholder_rest\<close> is what follows one at the start of the text.
\<close>

definition placeholder_rest :: "jstext \<Rightarrow> jstext option" where
  "placeholder_rest s =
     (let inner = takeWhile (\<lambda>c. c \<noteq> CHR 0x7D) (drop 2 s); rest = dropWhile (\<lambda>c. c \<noteq> CHR 0x7D) (drop 2 s)
      in if starts_with [CHR 0x7B, CHR 0x7B] s \<and> inner \<noteq> [] \<and> starts_with [CHR 0x7D, CHR 0x7D] rest
         then Some (drop 2 rest) else None)"

lemma placeholder_rest_shorter: "placeholder_rest s = Some r \<Longrightarrow> length r < length s"
  using length_dropWhile_le [of "\<lambda>c. c \<noteq> CHR 0x7D" "drop 2 s"]
  by (auto simp: placeholder_rest_def Let_def prefix_def split: if_splits)

function remove_placeholders :: "jstext \<Rightarrow> jstext" where
  "remove_placeholders s = (case placeholder_rest s of
     Some r \<Rightarrow> remove_placeholders r
   | None \<Rightarrow> (case s of [] \<Rightarrow> [] | c # cs \<Rightarrow> c # remove_placeholders cs))"
  by pat_completeness auto

termination
  by (relation "measure length") (auto dest: placeholder_rest_shorter)

declare remove_placeholders.simps [simp del]

definition navigate_host :: "(jstext \<Rightarrow> jstext option) \<Rightarrow> plan_step \<Rightarrow> jstext option" where
  "navigate_host host s = (case st_body s of
     Navigate_step _ (Literal_value (J_str u)) \<Rightarrow> host u
   | Navigate_step _ (Template_value t _) \<Rightarrow> host (remove_placeholders t)
   | _ \<Rightarrow> None)"

text \<open>\<open>current && previous && current !== previous\<close>: an absent or empty host never counts as a change.\<close>

definition host_changed :: "jstext option \<Rightarrow> jstext option \<Rightarrow> (jstext \<times> jstext) option" where
  "host_changed previous current = (case (previous, current) of
     (Some a, Some b) \<Rightarrow> if a \<noteq> [] \<and> b \<noteq> [] \<and> a \<noteq> b then Some (a, b) else None
   | _ \<Rightarrow> None)"

definition scope_reason :: "(jstext \<Rightarrow> jstext option) \<Rightarrow> jstext option \<Rightarrow> plan_step \<Rightarrow> jstext" where
  "scope_reason host previous s =
     ''Step type \"'' @ verb_name (st_verb s) @ ''\" is not allowed in read-only-data scope. Allowed: '' @
     join '', '' (map verb_name READ_ONLY_ALLOWED_STEPS) @ ''.'' @
     (if st_verb s = V_navigate then (case host_changed previous (navigate_host host s) of
        Some (a, b) \<Rightarrow> '' Host changed from '' @ a @ '' to '' @ b @ ''.'' | None \<Rightarrow> []) else [])"

definition step_violations ::
  "(jstext \<Rightarrow> jstext option) \<Rightarrow> plan \<Rightarrow> jstext option \<Rightarrow> plan_step \<Rightarrow> scope_violation list" where
  "step_violations host p previous s =
     (if effective_scope p s \<noteq> Scope_read_only then []
      else if st_verb s \<notin> set READ_ONLY_ALLOWED_STEPS then
        [\<lparr>sv_step = st_id s, sv_verb = st_verb s, sv_scope = effective_scope p s,
          sv_reason = scope_reason host previous s\<rparr>]
      else if st_verb s = V_navigate then (case host_changed previous (navigate_host host s) of
          Some (a, b) \<Rightarrow> [\<lparr>sv_step = st_id s, sv_verb = st_verb s, sv_scope = effective_scope p s,
            sv_reason = ''Navigate host changed from '' @ a @ '' to '' @ b @ '' in read-only-data scope.''\<rparr>]
        | None \<Rightarrow> [])
      else [])"

fun scope_violations_from ::
  "(jstext \<Rightarrow> jstext option) \<Rightarrow> plan \<Rightarrow> jstext option \<Rightarrow> plan_step list \<Rightarrow> scope_violation list" where
  "scope_violations_from host p previous [] = []"
| "scope_violations_from host p previous (s # ss) = step_violations host p previous s @
     scope_violations_from host p
       (case navigate_host host s of Some h \<Rightarrow> Some h | None \<Rightarrow> previous) ss"

definition validate_scope_violations :: "(jstext \<Rightarrow> jstext option) \<Rightarrow> plan \<Rightarrow> scope_violation list" where
  "validate_scope_violations host p = scope_violations_from host p None (pl_steps p)"

definition enforce_scopes :: "(jstext \<Rightarrow> jstext option) \<Rightarrow> plan \<Rightarrow> scope_violation list + unit" where
  "enforce_scopes host p =
     (if validate_scope_violations host p \<noteq> [] then Err (validate_scope_violations host p) else Ok ())"

definition build_scope_chain :: "plan \<Rightarrow> security_scope list" where
  "build_scope_chain p = map (effective_scope p) (pl_steps p)"

subsection \<open>Host-bound secrets\<close>

definition strip_dots :: "jstext \<Rightarrow> jstext" where
  "strip_dots s = rev (dropWhile (\<lambda>c. c = CHR ''.'') (rev (dropWhile (\<lambda>c. c = CHR ''.'') s)))"

definition normalize_host :: "(jstext \<Rightarrow> jstext option) \<Rightarrow> jstext \<Rightarrow> jstext" where
  "normalize_host host h =
     strip_dots (to_lower (case host (if str_includes ''://'' h then h else ''https://'' @ h) of
       Some n \<Rightarrow> n | None \<Rightarrow> h))"

definition TWO_LEVEL_PUBLIC_SUFFIXES :: "jstext list" where
  "TWO_LEVEL_PUBLIC_SUFFIXES = [''co.uk'', ''org.uk'', ''ac.uk'', ''com.au'', ''net.au'', ''org.au'', ''co.jp'',
     ''co.nz'', ''com.br'', ''com.mx'']"

definition is_ipv4_shape :: "jstext \<Rightarrow> bool" where
  "is_ipv4_shape h \<longleftrightarrow> length (split_on CHR ''.'' h) = 4 \<and>
     (\<forall>l \<in> set (split_on CHR ''.'' h). 1 \<le> length l \<and> length l \<le> 3 \<and> (\<forall>c \<in> set l. is_digit c))"

definition take_last :: "nat \<Rightarrow> 'a list \<Rightarrow> 'a list" where
  "take_last n xs = drop (length xs - n) xs"

definition registrable_domain :: "jstext \<Rightarrow> jstext" where
  "registrable_domain h =
     (let labels = filter (\<lambda>l. l \<noteq> []) (split_on CHR ''.'' h) in
      if h = ''localhost'' \<or> is_ipv4_shape h then h
      else if length labels \<le> 2 then h
      else join ''.'' (take_last
        (if join ''.'' (take_last 2 labels) \<in> set TWO_LEVEL_PUBLIC_SUFFIXES then 3 else 2) labels))"

record secret_host_mismatch =
  hm_key :: jstext
  hm_host :: jstext

definition assert_host_binding ::
  "(jstext \<Rightarrow> jstext option) \<Rightarrow> jstext \<Rightarrow> jstext list \<Rightarrow> jstext \<Rightarrow> secret_host_mismatch + unit" where
  "assert_host_binding host key bindings live =
     (if \<exists>b \<in> set bindings. normalize_host host b = normalize_host host live \<or>
           registrable_domain (normalize_host host b) = registrable_domain (normalize_host host live)
      then Ok () else Err \<lparr>hm_key = key, hm_host = normalize_host host live\<rparr>)"

section \<open>What a valid plan is\<close>

fun subrefs :: "value_ref \<Rightarrow> value_ref list"
and binding_subrefs :: "(jstext \<times> value_ref) list \<Rightarrow> value_ref list" where
  "subrefs v = v # (case v of Template_value t bs \<Rightarrow> binding_subrefs bs | _ \<Rightarrow> [])"
| "binding_subrefs [] = []"
| "binding_subrefs ((k, v) # bs) = subrefs v @ binding_subrefs bs"

fun sublocators :: "locator_chain \<Rightarrow> locator_chain list" where
  "sublocators l = l # (case l of Intent_locator _ _ (Some near) \<Rightarrow> sublocators near | _ \<Rightarrow> [])"

definition body_value_refs :: "step_body \<Rightarrow> value_ref list" where
  "body_value_refs b = (case b of
     Navigate_step _ url \<Rightarrow> subrefs url | Fill_step _ _ v _ \<Rightarrow> subrefs v
   | Fill_element_step _ _ _ _ v \<Rightarrow> subrefs v | Call_workflow_step _ ps _ \<Rightarrow> binding_subrefs ps
   | Loop_step l \<Rightarrow> (case lp_over l of Over_capture c \<Rightarrow> [Capture_value c] | Over_param _ \<Rightarrow> [])
   | Llm_summarize_step c _ _ \<Rightarrow> [Capture_value c]
   | Branch_step (Branch_capture_exists c) _ _ \<Rightarrow> [Capture_value c] | _ \<Rightarrow> [])"

definition body_locators :: "step_body \<Rightarrow> locator_chain list" where
  "body_locators b = (case b of
     Fill_step _ l _ _ \<Rightarrow> sublocators l | Fill_element_step _ _ _ l _ \<Rightarrow> sublocators l
   | Click_step _ l _ \<Rightarrow> sublocators l | Extract_step l _ _ \<Rightarrow> sublocators l
   | Wait_for_step l _ _ \<Rightarrow> sublocators l | Assert_step l _ \<Rightarrow> sublocators l | _ \<Rightarrow> [])"

definition target_ids :: "step_body \<Rightarrow> jstext list" where
  "target_ids b = (case b of
     Branch_step _ t e \<Rightarrow> t # (case e of None \<Rightarrow> [] | Some e' \<Rightarrow> [e']) | Loop_step l \<Rightarrow> lp_body l | _ \<Rightarrow> [])"

text \<open>The capture is that of an earlier extract step, and its field is one the step extracts.\<close>

definition capture_resolves :: "plan \<Rightarrow> nat \<Rightarrow> capture_ref \<Rightarrow> bool" where
  "capture_resolves p i c \<longleftrightarrow> (\<exists>j < i. j < length (pl_steps p) \<and> st_id (pl_steps p ! j) = cr_step c \<and>
     st_verb (pl_steps p ! j) = V_extract \<and>
     (case cr_field c of None \<Rightarrow> True | Some f \<Rightarrow> f \<in> set (extraction_field_keys (pl_steps p ! j))))"

definition plan_valid :: "semantic_context \<Rightarrow> plan \<Rightarrow> bool" where
  "plan_valid ctx p \<longleftrightarrow> distinct (map st_id (pl_steps p)) \<and> (\<forall>s \<in> set (pl_steps p). \<not> out_of_scope p s) \<and>
     (\<forall>i < length (pl_steps p). let b = st_body (pl_steps p ! i) in
        set (target_ids b) \<subseteq> set (map st_id (pl_steps p)) \<and>
        (\<forall>c. Capture_value c \<in> set (body_value_refs b) \<longrightarrow> capture_resolves p i c) \<and>
        (\<forall>k hs declared. Secret_value k hs \<in> set (body_value_refs b) \<longrightarrow> sx_secrets ctx = Some declared \<longrightarrow>
           k \<in> set declared) \<and>
        (\<forall>n declared. Workflow_locator n \<in> set (body_locators b) \<longrightarrow> sx_locators ctx = Some declared \<longrightarrow>
           n \<in> set declared))"

section \<open>Lemmas\<close>

lemma collect_value_refs_fst:
  "map fst (collect_value_refs v path) = subrefs v"
  "map fst (collect_bindings bs path) = binding_subrefs bs"
  by (induction v and bs arbitrary: path and path rule: subrefs_binding_subrefs.induct)
    (auto split: value_ref.splits)

lemma collect_locator_chains_fst: "map fst (collect_locator_chains l path) = sublocators l"
  by (induction l arbitrary: path rule: sublocators.induct) (auto split: locator_chain.splits option.splits)

lemma step_refs_fst:
  "map fst (step_value_refs i s) = body_value_refs (st_body s)"
  "map fst (step_locators i s) = body_locators (st_body s)"
  by (auto simp: step_value_refs_def body_value_refs_def step_locators_def body_locators_def
      collect_value_refs_fst collect_locator_chains_fst simp del: collect_value_refs.simps subrefs.simps
      collect_locator_chains.simps sublocators.simps
      split: step_body.splits branch_condition.splits collection_ref.splits)

lemma concat_enumerate_Nil:
  "concat (map (\<lambda>(i, x). f i x) (enumerate 0 xs)) = [] \<longleftrightarrow> (\<forall>i < length xs. f i (xs ! i) = [])"
proof -
  have "set (enumerate 0 xs) = (\<lambda>i. (i, xs ! i)) ` {..< length xs}"
    by (auto simp: in_set_enumerate_eq)
  then show ?thesis by auto
qed

lemma target_errors_Nil: "target_errors ids i s = [] \<longleftrightarrow> set (target_ids (st_body s)) \<subseteq> set ids"
proof (cases "st_body s")
  case (Loop_step l)
  then show ?thesis
    using concat_enumerate_Nil [of "\<lambda>k b. if b \<in> set ids then [] else [missing_ref
      (step_path i @ ''/body_step_ids/'' @ show_nat k) ''unknown_loop_body_step'' b ''Loop body step'']" "lp_body l"]
    by (simp add: target_errors_def target_ids_def subset_code(1) all_set_conv_all_nth del: concat_eq_Nil_conv) blast
qed (auto simp: target_errors_def target_ids_def split: option.splits)

text \<open>The first pass reports nothing exactly when the ids are distinct and every step is in scope.\<close>

lemma index_steps_ok:
  assumes "index_steps p i ss (ids, errs) = (ids', errs')"
  shows "errs' = [] \<longleftrightarrow> errs = [] \<and> distinct (map st_id ss) \<and>
      (\<forall>s \<in> set ss. \<not> map_has ids (st_id s)) \<and> (\<forall>s \<in> set ss. \<not> out_of_scope p s)"
  using assms
proof (induction ss arbitrary: i ids errs)
  case (Cons s ss)
  then show ?case by (auto simp: map_has_get image_iff split: if_splits)
qed simp

lemma index_steps_get:
  assumes "index_steps p i ss (ids, errs) = (ids', errs')"
  shows "map_get ids' k = (case map_get ids k of Some j \<Rightarrow> Some j
    | None \<Rightarrow> map_option (\<lambda>j. i + j) (find_index (\<lambda>s. st_id s = k) ss))"
  using assms
proof (induction ss arbitrary: i ids errs)
  case (Cons s ss)
  have shift: "map_option ((+) (Suc i)) x = map_option (\<lambda>j. Suc (i + j)) x" for x
    by (cases x) simp_all
  show ?case using Cons
    by (auto simp: map_has_get option.map_comp comp_def shift split: if_splits option.splits)
qed (auto split: option.splits)

lemma find_index_distinct:
  assumes "distinct (map f xs)" and "j < length xs" and "f (xs ! j) = k"
  shows "find_index (\<lambda>x. f x = k) xs = Some j"
  using assms
proof (induction xs arbitrary: j)
  case (Cons x xs)
  then show ?case by (cases j) auto
qed simp

lemma capture_errors_Nil:
  assumes "distinct (map st_id (pl_steps p))"
    and "map_get ids (cr_step c) = find_index (\<lambda>s. st_id s = cr_step c) (pl_steps p)"
  shows "capture_errors p ids i c path = [] \<longleftrightarrow> capture_resolves p i c"
proof (cases "find_index (\<lambda>s. st_id s = cr_step c) (pl_steps p)")
  case None
  then have "\<not> capture_resolves p i c"
    by (auto simp: capture_resolves_def find_index_None)
  moreover have "capture_errors p ids i c path \<noteq> []"
    using assms(2) None by (simp add: capture_errors_def)
  ultimately show ?thesis by blast
next
  case (Some j)
  note at = find_index_Some [OF Some]
  have unique: "k = j" if "k < length (pl_steps p)" "st_id (pl_steps p ! k) = cr_step c" for k
    using find_index_distinct [OF assms(1) that] Some by simp
  have "capture_resolves p i c \<longleftrightarrow> j < i \<and> st_verb (pl_steps p ! j) = V_extract \<and>
      (case cr_field c of None \<Rightarrow> True | Some f \<Rightarrow> f \<in> set (extraction_field_keys (pl_steps p ! j)))"
    using at unique unfolding capture_resolves_def by blast
  with at show ?thesis
    using assms(2) Some by (simp add: capture_errors_def nth_opt_def split: option.splits)
qed

lemma ref_errors_Nil:
  assumes "\<And>c path. Capture_value c \<in> fst ` set refs \<Longrightarrow> capture_errors p ids i c path = [] \<longleftrightarrow> capture_resolves p i c"
  shows "concat (map (value_ref_errors ctx p ids i) refs) = [] \<longleftrightarrow>
    (\<forall>c. Capture_value c \<in> fst ` set refs \<longrightarrow> capture_resolves p i c) \<and>
    (\<forall>k hs declared. Secret_value k hs \<in> fst ` set refs \<longrightarrow> sx_secrets ctx = Some declared \<longrightarrow> k \<in> set declared)"
  using assms
proof (induction refs)
  case (Cons r refs)
  have ih: "concat (map (value_ref_errors ctx p ids i) refs) = [] \<longleftrightarrow>
      (\<forall>c. Capture_value c \<in> fst ` set refs \<longrightarrow> capture_resolves p i c) \<and>
      (\<forall>k hs declared. Secret_value k hs \<in> fst ` set refs \<longrightarrow> sx_secrets ctx = Some declared \<longrightarrow> k \<in> set declared)"
    by (rule Cons.IH) (simp add: Cons.prems)
  obtain v path where r: "r = (v, path)" by force
  have head: "value_ref_errors ctx p ids i r = [] \<longleftrightarrow> (\<forall>c. v = Capture_value c \<longrightarrow> capture_resolves p i c) \<and>
      (\<forall>k hs declared. v = Secret_value k hs \<longrightarrow> sx_secrets ctx = Some declared \<longrightarrow> k \<in> set declared)"
    using Cons.prems r by (cases v) (auto simp: value_ref_errors_def split: option.splits)
  have "concat (map (value_ref_errors ctx p ids i) (r # refs)) = [] \<longleftrightarrow>
      value_ref_errors ctx p ids i r = [] \<and> concat (map (value_ref_errors ctx p ids i) refs) = []"
    by simp
  then have all: "concat (map (value_ref_errors ctx p ids i) (r # refs)) = [] \<longleftrightarrow>
      ((\<forall>c. v = Capture_value c \<longrightarrow> capture_resolves p i c) \<and>
       (\<forall>k hs declared. v = Secret_value k hs \<longrightarrow> sx_secrets ctx = Some declared \<longrightarrow> k \<in> set declared)) \<and>
      (\<forall>c. Capture_value c \<in> fst ` set refs \<longrightarrow> capture_resolves p i c) \<and>
      (\<forall>k hs declared. Secret_value k hs \<in> fst ` set refs \<longrightarrow> sx_secrets ctx = Some declared \<longrightarrow> k \<in> set declared)"
    unfolding head ih .
  show ?case unfolding all by (simp only: r list.set image_insert fst_conv insert_iff) blast
qed simp

lemma locator_errors_Nil:
  "concat (map (locator_errors ctx) ls) = [] \<longleftrightarrow>
    (\<forall>n declared. Workflow_locator n \<in> fst ` set ls \<longrightarrow> sx_locators ctx = Some declared \<longrightarrow> n \<in> set declared)"
proof (induction ls)
  case (Cons l ls)
  then show ?case
    by (cases l; cases "fst l") (auto simp: locator_errors_def split: option.splits)
qed simp

lemma step_errors_Nil:
  assumes "distinct (map st_id (pl_steps p))"
    and ids: "\<And>k. map_get ids k = find_index (\<lambda>s. st_id s = k) (pl_steps p)"
  shows "step_errors ctx p ids i s = [] \<longleftrightarrow> (let b = st_body s in
        set (target_ids b) \<subseteq> set (map st_id (pl_steps p)) \<and>
        (\<forall>c. Capture_value c \<in> set (body_value_refs b) \<longrightarrow> capture_resolves p i c) \<and>
        (\<forall>k hs declared. Secret_value k hs \<in> set (body_value_refs b) \<longrightarrow> sx_secrets ctx = Some declared \<longrightarrow>
           k \<in> set declared) \<and>
        (\<forall>n declared. Workflow_locator n \<in> set (body_locators b) \<longrightarrow> sx_locators ctx = Some declared \<longrightarrow>
           n \<in> set declared))"
proof -
  have refs: "fst ` set (step_value_refs i s) = set (body_value_refs (st_body s))"
      "fst ` set (step_locators i s) = set (body_locators (st_body s))"
    using step_refs_fst [of i s] by (metis list.set_map)+
  show ?thesis
    unfolding step_errors_def append_is_Nil_conv target_errors_Nil locator_errors_Nil refs Let_def
    by (subst ref_errors_Nil [unfolded refs]) (simp_all add: capture_errors_Nil assms refs conj_assoc)
qed

lemma validate_semantics_iff: "validate_semantics ctx p = Ok p \<longleftrightarrow> plan_valid ctx p"
proof -
  obtain ids errs where first: "index_steps p 0 (pl_steps p) ([], []) = (ids, errs)" by fastforce
  note ok = index_steps_ok [OF first]
  have get: "map_get ids k = find_index (\<lambda>s. st_id s = k) (pl_steps p)" for k
    using index_steps_get [OF first, of k]
    by (cases "find_index (\<lambda>s. st_id s = k) (pl_steps p)") simp_all
  show ?thesis
  proof (cases "distinct (map st_id (pl_steps p))")
    case True
    have "concat (map (\<lambda>(i, s). step_errors ctx p ids i s) (enumerate 0 (pl_steps p))) = [] \<longleftrightarrow>
        (\<forall>i < length (pl_steps p). step_errors ctx p ids i (pl_steps p ! i) = [])"
      by (rule concat_enumerate_Nil)
    then show ?thesis
      using ok True unfolding validate_semantics_def first plan_valid_def step_errors_Nil [OF True get]
      by (auto simp: map_has_def Let_def)
  next
    case False
    then have "errs \<noteq> []" "\<not> plan_valid ctx p" using ok by (auto simp: plan_valid_def)
    then show ?thesis by (simp add: validate_semantics_def first)
  qed
qed

lemma scope_gates_agree:
  "map sv_step (validate_scope_violations host p) = map st_id (filter (out_of_scope p) (pl_steps p))"
proof -
  have step: "map sv_step (step_violations host p h s) = (if out_of_scope p s then [st_id s] else [])" for h s
    by (auto simp: step_violations_def out_of_scope_def READ_ONLY_ALLOWED_STEPS_def ALLOWED_VERBS_BY_SCOPE_def)
  have "map sv_step (scope_violations_from host p h ss) = map st_id (filter (out_of_scope p) ss)" for h ss
    by (induction ss arbitrary: h) (simp_all add: step)
  then show ?thesis by (simp add: validate_scope_violations_def)
qed

text \<open>The gate's second branch, a host change of a permitted navigation, is never reached.\<close>

lemma violations_are_forbidden_verbs:
  assumes "v \<in> set (validate_scope_violations host p)"
  shows "sv_verb v \<notin> set READ_ONLY_ALLOWED_STEPS"
proof -
  have step: "\<forall>v \<in> set (step_violations host p h s). sv_verb v \<notin> set READ_ONLY_ALLOWED_STEPS" for h s
    by (cases "st_verb s = V_navigate") (simp_all add: step_violations_def READ_ONLY_ALLOWED_STEPS_def)
  have "\<forall>v \<in> set (scope_violations_from host p h ss). sv_verb v \<notin> set READ_ONLY_ALLOWED_STEPS" for h ss
    by (induction ss arbitrary: h) (simp_all add: ball_Un step)
  with assms show ?thesis by (simp add: validate_scope_violations_def)
qed

lemma valid_plan_in_scope: "plan_valid ctx p \<Longrightarrow> validate_scope_violations host p = []"
  using scope_gates_agree [of host p] by (auto simp: plan_valid_def filter_empty_conv)

text \<open>
  A public suffix of two levels that the list lacks counts as registrable: a secret bound to one
  site under it is released to every other.
\<close>

lemma unlisted_suffix_shares_secrets:
  assumes "\<And>h. host (''https://'' @ h) = Some h"
  shows "assert_host_binding host key [''bank.co.in''] ''www.attacker.co.in'' = Ok ()"
proof -
  have "normalize_host host ''bank.co.in'' = ''bank.co.in''"
      "normalize_host host ''www.attacker.co.in'' = ''www.attacker.co.in''"
    using assms [of "''bank.co.in''"] assms [of "''www.attacker.co.in''"]
    by (simp_all add: normalize_host_def) code_simp+
  moreover have "registrable_domain ''bank.co.in'' = registrable_domain ''www.attacker.co.in''"
    by code_simp
  ultimately show ?thesis by (simp add: assert_host_binding_def)
qed

section \<open>Properties\<close>

text \<open>C20. The semantic validator accepts exactly the valid plans: step ids distinct, every step within its
  scope, every branch target and loop body a step of the plan, every capture reference (however deeply
  nested) to an earlier extract step and one of its fields, secrets and locators declared. The executor's
  own scope gate flags exactly the steps the validator's scope rule flags, so an accepted plan passes it.\<close>

theorem validator_decides_validity:
  "(validate_semantics ctx p = Ok p \<longleftrightarrow> plan_valid ctx p) \<and>
   (\<exists>es. validate_semantics ctx p = Err es \<and> es \<noteq> []) = (\<not> plan_valid ctx p) \<and>
   map sv_step (validate_scope_violations host p) = map st_id (filter (out_of_scope p) (pl_steps p))"
proof -
  have "(\<exists>es. validate_semantics ctx p = Err es \<and> es \<noteq> []) \<longleftrightarrow> validate_semantics ctx p \<noteq> Ok p"
    by (simp add: validate_semantics_def split: prod.splits)
  then show ?thesis by (simp add: validate_semantics_iff scope_gates_agree)
qed

end
