(* ===== verification/ExecStores.thy ===== *)
theory ExecStores
  imports Plan
begin

text \<open>
  What a plan run keeps beside its cursor, in \<open>packages/core/src/executor/\<close>: the retry budget
  (\<open>retry-budget.ts\<close>), the captures (\<open>capture-store.ts\<close>), the checkpoints
  (\<open>checkpoint-store.ts\<close>), the evidence ledger (\<open>evidence-ledger.ts\<close>), the consent log
  (\<open>confirmation-gateway.ts\<close>) and the resolver of value references (\<open>value-resolver.ts\<close>).

  A directory of checkpoint files is the list of its entries in the order \<open>readdir\<close> gives them, each with
  the checkpoint it parses to, if it does; the consent log is the list of entries its lines parse to.
\<close>

section \<open>Definitions\<close>

subsection \<open>Retry budget\<close>

datatype retry_level = Retry_locator | Retry_step | Retry_workflow

record retry_levels =
  lv_locator :: nat
  lv_step :: nat
  lv_workflow :: nat

record retry_budget =
  ry_initial :: retry_levels
  ry_remaining :: retry_levels

definition DEFAULT_BUDGETS :: retry_levels where
  "DEFAULT_BUDGETS = \<lparr>lv_locator = 3, lv_step = 3, lv_workflow = 1\<rparr>"

definition new_retry_budget :: "nat option \<Rightarrow> nat option \<Rightarrow> nat option \<Rightarrow> retry_budget" where
  "new_retry_budget l s w =
     (let initial = \<lparr>lv_locator = (case l of Some n \<Rightarrow> n | None \<Rightarrow> lv_locator DEFAULT_BUDGETS),
                     lv_step = (case s of Some n \<Rightarrow> n | None \<Rightarrow> lv_step DEFAULT_BUDGETS),
                     lv_workflow = (case w of Some n \<Rightarrow> n | None \<Rightarrow> lv_workflow DEFAULT_BUDGETS)\<rparr>
      in \<lparr>ry_initial = initial, ry_remaining = initial\<rparr>)"

definition level_of :: "retry_level \<Rightarrow> retry_levels \<Rightarrow> nat" where
  "level_of l b = (case l of Retry_locator \<Rightarrow> lv_locator b | Retry_step \<Rightarrow> lv_step b | Retry_workflow \<Rightarrow> lv_workflow b)"

definition can_retry :: "retry_level \<Rightarrow> retry_budget \<Rightarrow> bool" where
  "can_retry l b \<longleftrightarrow> 0 < level_of l (ry_remaining b)"

text \<open>Consuming past zero throws, with the level and its initial allowance.\<close>

definition consume_retry :: "retry_level \<Rightarrow> retry_budget \<Rightarrow> (retry_level \<times> nat) + retry_budget" where
  "consume_retry l b =
     (if level_of l (ry_remaining b) = 0 then Err (l, level_of l (ry_initial b))
      else Ok (b\<lparr>ry_remaining := (case l of
          Retry_locator \<Rightarrow> (ry_remaining b)\<lparr>lv_locator := lv_locator (ry_remaining b) - 1\<rparr>
        | Retry_step \<Rightarrow> (ry_remaining b)\<lparr>lv_step := lv_step (ry_remaining b) - 1\<rparr>
        | Retry_workflow \<Rightarrow> (ry_remaining b)\<lparr>lv_workflow := lv_workflow (ry_remaining b) - 1\<rparr>)\<rparr>))"

subsection \<open>Captures\<close>

type_synonym capture_store = "(jstext, json) jsmap"

record capture_snapshot =
  sn_entries :: "(jstext \<times> json) list"
  sn_sidecars :: "(jstext \<times> jstext) list"

definition DEFAULT_INLINE_LIMIT_BYTES :: nat where
  "DEFAULT_INLINE_LIMIT_BYTES = 64 * 1024"

definition oversized :: "nat \<Rightarrow> json \<Rightarrow> bool" where
  "oversized cap v \<longleftrightarrow> cap < utf8_length (json_text v)"

definition capture_snapshot_of :: "nat \<Rightarrow> capture_store \<Rightarrow> capture_snapshot" where
  "capture_snapshot_of cap c =
     \<lparr>sn_entries = map (\<lambda>(k, v). (k, if oversized cap v then J_obj [(''$ref'', J_str k)] else v)) c,
      sn_sidecars = map (\<lambda>(k, v). (k, k)) (filter (\<lambda>(k, v). oversized cap v) c)\<rparr>"

definition is_sidecar_ref :: "json \<Rightarrow> bool" where
  "is_sidecar_ref v \<longleftrightarrow> is_object v \<and> (case json_member v ''$ref'' of Some (J_str _) \<Rightarrow> True | _ \<Rightarrow> False)"

definition restore_captures :: "capture_snapshot \<Rightarrow> capture_store" where
  "restore_captures s = foldl (\<lambda>c (k, v). if is_sidecar_ref v then c else map_set k v c) [] (sn_entries s)"

subsection \<open>Checkpoints\<close>

record run_checkpoint =
  cp_step :: jstext
  cp_idx :: nat
  cp_url :: "jstext option"
  cp_captures :: capture_snapshot
  cp_scopes :: "security_scope list"
  cp_budgets :: retry_levels

type_synonym checkpoint_dir = "(jstext, run_checkpoint option) jsmap"

definition save_checkpoint :: "run_checkpoint \<Rightarrow> checkpoint_dir \<Rightarrow> checkpoint_dir" where
  "save_checkpoint cp d = map_set (cp_step cp) (Some cp) d"

definition load_checkpoint :: "jstext \<Rightarrow> checkpoint_dir \<Rightarrow> run_checkpoint option" where
  "load_checkpoint i d = (case map_get d i of Some (Some cp) \<Rightarrow> Some cp | _ \<Rightarrow> None)"

definition list_checkpoints :: "checkpoint_dir \<Rightarrow> (jstext \<times> nat) list" where
  "list_checkpoints d = sort_key snd (map (\<lambda>cp. (cp_step cp, cp_idx cp)) (List.map_filter snd d))"

definition load_last_checkpoint :: "checkpoint_dir \<Rightarrow> run_checkpoint option" where
  "load_last_checkpoint d = (case last_opt (list_checkpoints d) of
     None \<Rightarrow> None | Some (i, _) \<Rightarrow> load_checkpoint i d)"

subsection \<open>Evidence ledger\<close>

record evidence_entry =
  ev_url :: jstext
  ev_final_url :: "jstext option"
  ev_host :: jstext
  ev_title :: "jstext option"
  ev_text :: jstext
  ev_step :: jstext

record evidence_ledger =
  el_max_entries :: nat
  el_max_bytes :: nat
  el_items :: "evidence_entry list"
  el_bytes :: nat
  el_overflow :: nat

definition MAX_EVIDENCE_ENTRIES :: nat where
  "MAX_EVIDENCE_ENTRIES = 32"

definition MAX_EVIDENCE_TEXT_BYTES :: nat where
  "MAX_EVIDENCE_TEXT_BYTES = 256 * 1024"

definition new_ledger :: "nat \<Rightarrow> nat \<Rightarrow> evidence_ledger" where
  "new_ledger entries bytes =
     \<lparr>el_max_entries = entries, el_max_bytes = bytes, el_items = [], el_bytes = 0, el_overflow = 0\<rparr>"

text \<open>The first bytes of a text decoded again: whole characters, then U+FFFD for a split one.\<close>

fun decode_prefix :: "nat \<Rightarrow> jstext \<Rightarrow> jstext" where
  "decode_prefix n [] = []"
| "decode_prefix n (c # s) =
     (if n = 0 then [] else if char_bytes c \<le> n then c # decode_prefix (n - char_bytes c) s
      else [replacement_char])"

text \<open>The loop that drops the last character while the text is too long.\<close>

function drop_excess :: "nat \<Rightarrow> jstext \<Rightarrow> jstext" where
  "drop_excess n s = (if s \<noteq> [] \<and> n < utf8_length s then drop_excess n (butlast s) else s)"
  by pat_completeness auto

termination
  by (relation "measure (\<lambda>(n, s). length s)") auto

declare drop_excess.simps [simp del]

definition truncate_utf8 :: "jstext \<Rightarrow> nat \<Rightarrow> jstext" where
  "truncate_utf8 s n = (if utf8_length s \<le> n then s else drop_excess n (decode_prefix n s))"

fun evict_entries :: "nat \<Rightarrow> nat \<Rightarrow> evidence_entry list \<times> nat \<times> nat \<Rightarrow> evidence_entry list \<times> nat \<times> nat" where
  "evict_entries entries bytes ([], used, overflow) = ([], used, overflow)"
| "evict_entries entries bytes (e # es, used, overflow) =
     (if entries < length (e # es) \<or> bytes < used
      then evict_entries entries bytes (es, used - utf8_length (ev_text e), Suc overflow)
      else (e # es, used, overflow))"

definition append_evidence :: "evidence_entry \<Rightarrow> evidence_ledger \<Rightarrow> evidence_ledger" where
  "append_evidence e l =
     (let t = truncate_utf8 (ev_text e) (el_max_bytes l);
          overflow = (if length t \<noteq> length (ev_text e) then Suc (el_overflow l) else el_overflow l);
          (items, used, overflow') = evict_entries (el_max_entries l) (el_max_bytes l)
            (el_items l @ [e\<lparr>ev_text := t\<rparr>], el_bytes l + utf8_length t, overflow)
      in l\<lparr>el_items := items, el_bytes := used, el_overflow := overflow'\<rparr>)"

subsection \<open>Consent log\<close>

record confirmation_request =
  cq_id :: jstext
  cq_run :: jstext
  cq_step :: jstext
  cq_verb :: step_verb
  cq_host :: jstext
  cq_description :: jstext
  cq_cost :: "(rat \<times> jstext) option"
  cq_consequence :: consequence_level

datatype confirmation_verdict = Granted | Denied | Timed_out

datatype decided_by = By_user_interactive | By_user_cli | By_timeout

record confirmation_decision =
  cd_id :: jstext
  cd_verdict :: confirmation_verdict
  cd_by :: decided_by

datatype confirmation_entry = Requested confirmation_request | Decided confirmation_decision

definition log_requests :: "confirmation_entry list \<Rightarrow> confirmation_request list" where
  "log_requests es = List.map_filter (\<lambda>e. case e of Requested r \<Rightarrow> Some r | Decided _ \<Rightarrow> None) es"

definition log_decisions :: "confirmation_entry list \<Rightarrow> confirmation_decision list" where
  "log_decisions es = List.map_filter (\<lambda>e. case e of Requested _ \<Rightarrow> None | Decided d \<Rightarrow> Some d) es"

definition find_pending :: "jstext \<Rightarrow> confirmation_entry list \<Rightarrow> confirmation_request option" where
  "find_pending run es = find (\<lambda>r. cq_run r = run \<and> cq_id r \<notin> set (map cd_id (log_decisions es)))
     (rev (log_requests es))"

definition has_decision :: "jstext \<Rightarrow> confirmation_entry list \<Rightarrow> bool" where
  "has_decision i es \<longleftrightarrow> (\<exists>d \<in> set (log_decisions es). cd_id d = i)"

definition latest_decision :: "jstext \<Rightarrow> confirmation_entry list \<Rightarrow> confirmation_decision option" where
  "latest_decision run es = last_opt (filter (\<lambda>d. cd_id d \<in>
     set (map cq_id (filter (\<lambda>r. cq_run r = run) (log_requests es)))) (log_decisions es))"

subsection \<open>Value references\<close>

text \<open>
  \<open>replaceAll\<close> of a placeholder: the replacement text is itself scanned for the patterns
  \<open>$$\<close>, \<open>$&\<close>, \<open>$`\<close> and \<open>$'\<close>, which stand for a dollar, the match and the text before and after it.
\<close>

fun expand_dollars :: "jstext \<Rightarrow> jstext \<Rightarrow> jstext \<Rightarrow> jstext \<Rightarrow> jstext" where
  "expand_dollars hit before after [] = []"
| "expand_dollars hit before after [c] = [c]"
| "expand_dollars hit before after (c # d # s) =
     (if c \<noteq> CHR ''$'' then c # expand_dollars hit before after (d # s)
      else if d = CHR ''$'' then CHR ''$'' # expand_dollars hit before after s
      else if d = CHR ''&'' then hit @ expand_dollars hit before after s
      else if d = CHR 0x60 then before @ expand_dollars hit before after s
      else if d = CHR 0x27 then after @ expand_dollars hit before after s
      else c # expand_dollars hit before after (d # s))"

definition placeholder :: "jstext \<Rightarrow> jstext" where
  "placeholder k = [CHR 0x7B, CHR 0x7B] @ k @ [CHR 0x7D, CHR 0x7D]"

function replace_placeholder :: "jstext \<Rightarrow> jstext \<Rightarrow> jstext \<Rightarrow> jstext \<Rightarrow> jstext" where
  "replace_placeholder k rep before s = (case s of [] \<Rightarrow> [] | c # cs \<Rightarrow>
     if starts_with (placeholder k) s
     then (let after = drop (length k + 4) s in expand_dollars (placeholder k) before after rep @
        replace_placeholder k rep (before @ placeholder k) after)
     else c # replace_placeholder k rep (before @ [c]) cs)"
  by pat_completeness auto

termination
  by (relation "measure (\<lambda>(k, rep, before, s). length s)") auto

declare replace_placeholder.simps [simp del]

record resolver =
  rv_captures :: capture_store
  rv_params :: "(jstext, json) jsmap"

definition quoted :: "jstext \<Rightarrow> jstext" where
  "quoted s = CHR 0x22 # s @ [CHR 0x22]"

definition resolve_param :: "jstext \<Rightarrow> (jstext, json) jsmap \<Rightarrow> jstext + json option" where
  "resolve_param k params = (case map_get params k of
     None \<Rightarrow> Err (''Param '' @ quoted k @ '' is not defined in task params.'')
   | Some v \<Rightarrow> Ok (Some v))"

definition resolve_capture :: "capture_ref \<Rightarrow> capture_store \<Rightarrow> jstext + json option" where
  "resolve_capture c store = (case map_get store (cr_step c) of
     None \<Rightarrow> Err (''Capture step '' @ quoted (cr_step c) @ '' has no captured value.'')
   | Some envelope \<Rightarrow> (case cr_field c of
       None \<Rightarrow> Ok (Some envelope)
     | Some f \<Rightarrow>
         if \<not> is_object envelope then
           Err (''Capture step '' @ quoted (cr_step c) @ '' is not an object; cannot access field '' @ quoted f @ ''.'')
         else (case json_member envelope f of
             None \<Rightarrow> Err (''Capture field '' @ quoted f @ '' not found in step '' @ quoted (cr_step c) @ ''.'')
           | Some v \<Rightarrow> Ok (Some v))))"

fun resolve_value :: "resolver \<Rightarrow> value_ref \<Rightarrow> jstext + json option"
and fill_bindings :: "resolver \<Rightarrow> (jstext \<times> value_ref) list \<Rightarrow> jstext \<Rightarrow> jstext + jstext" where
  "resolve_value rv v = (case v of
     Literal_value j \<Rightarrow> Ok (Some j)
   | Param_value k \<Rightarrow> resolve_param k (rv_params rv)
   | Capture_value c \<Rightarrow> resolve_capture c (rv_captures rv)
   | Template_value t bs \<Rightarrow> (case fill_bindings rv bs t of
       Inl e \<Rightarrow> Err e | Inr s \<Rightarrow> Ok (Some (J_str (remove_placeholders s))))
   | Secret_value k _ \<Rightarrow> Err (''Secret references must be resolved via resolveSecret(), not resolve(). Secret key: '' @ quoted k))"
| "fill_bindings rv [] s = Ok s"
| "fill_bindings rv ((k, v) # bs) s = (case v of
     Secret_value _ _ \<Rightarrow> Err (''Secret bindings ('' @ quoted k @ '') are not allowed in template refs. '' @
       ''Secrets may only appear as direct step values in fill steps.'')
   | _ \<Rightarrow> (case resolve_value rv v of
       Inl e \<Rightarrow> Err e
     | Inr j \<Rightarrow> fill_bindings rv bs (replace_placeholder k (value_to_string j) [] s)))"

definition resolve_to_string :: "resolver \<Rightarrow> value_ref \<Rightarrow> jstext + jstext" where
  "resolve_to_string rv v = (case v of
     Secret_value _ _ \<Rightarrow> Err (''Secret references cannot be coerced to strings via resolveToString(). '' @
       ''Use resolveSecret() at fill step boundaries only.'')
   | _ \<Rightarrow> (case resolve_value rv v of Inl e \<Rightarrow> Err e | Inr j \<Rightarrow> Ok (value_to_string j)))"

section \<open>Lemmas\<close>

subsection \<open>Retries\<close>

lemma consume_retry_Ok:
  assumes "consume_retry l b = Ok b'"
  shows "level_of l (ry_remaining b) = Suc (level_of l (ry_remaining b'))"
    and "l' \<noteq> l \<Longrightarrow> level_of l' (ry_remaining b') = level_of l' (ry_remaining b)"
  using assms by (auto simp: consume_retry_def level_of_def split: if_splits retry_level.splits)

lemma can_retry_consume: "can_retry l b \<longleftrightarrow> is_ok (consume_retry l b)"
  by (simp add: can_retry_def consume_retry_def)

subsection \<open>Captures\<close>

lemma update_new: "k \<notin> fst ` set al \<Longrightarrow> AList.update k v al = al @ [(k, v)]"
  by (induction al) auto

lemma restore_foldl:
  assumes "distinct (map fst kvs)" and "fst ` set acc \<inter> fst ` set kvs = {}"
  shows "foldl (\<lambda>c (k, v). if is_sidecar_ref v then c else map_set k v c) acc kvs =
    acc @ filter (\<lambda>(k, v). \<not> is_sidecar_ref v) kvs"
  using assms
proof (induction kvs arbitrary: acc)
  case (Cons kv kvs)
  obtain k v where kv: "kv = (k, v)" by force
  show ?case
  proof (cases "is_sidecar_ref v")
    case True
    then show ?thesis using Cons kv by simp
  next
    case False
    have new: "map_set k v acc = acc @ [(k, v)]" using Cons.prems(2) kv by (auto intro: update_new)
    have "fst ` set (acc @ [(k, v)]) \<inter> fst ` set kvs = {}" using Cons.prems kv by auto
    with Cons.IH [of "acc @ [(k, v)]"] Cons.prems(1) kv False new show ?thesis by simp
  qed
qed simp

lemma sidecar_ref_is_ref [simp]: "is_sidecar_ref (J_obj [(''$ref'', J_str k)])"
  by (simp add: is_sidecar_ref_def is_object_def json_member_def)

lemma restore_snapshot:
  assumes "distinct (map fst c)"
  shows "restore_captures (capture_snapshot_of cap c) = filter (\<lambda>(k, v). \<not> oversized cap v \<and> \<not> is_sidecar_ref v) c"
proof -
  let ?entries = "map (\<lambda>(k, v). (k, if oversized cap v then J_obj [(''$ref'', J_str k)] else v)) c"
  have keys: "map fst ?entries = map fst c" by (simp add: case_prod_beta comp_def)
  have "distinct (map fst ?entries)" unfolding keys by (rule assms)
  from restore_foldl [OF this, of "[]"]
  have "restore_captures (capture_snapshot_of cap c) = filter (\<lambda>(k, v). \<not> is_sidecar_ref v) ?entries"
    unfolding restore_captures_def capture_snapshot_of_def by (simp del: foldl_map)
  also have "\<dots> = filter (\<lambda>(k, v). \<not> oversized cap v \<and> \<not> is_sidecar_ref v) c"
    by (induction c) (auto split: if_splits)
  finally show ?thesis .
qed

lemma restored_keys_distinct:
  assumes "distinct (map fst c)"
  shows "distinct (map fst (restore_captures (capture_snapshot_of cap c)))"
  unfolding restore_snapshot [OF assms] by (rule distinct_map_filter [OF assms])

subsection \<open>Checkpoints\<close>

text \<open>A checkpoint that was just saved is the one its step loads.\<close>

lemma load_saved: "load_checkpoint (cp_step cp) (save_checkpoint cp d) = Some cp"
  by (simp add: load_checkpoint_def save_checkpoint_def)

text \<open>
  \<open>loadLast\<close> answers the highest step index on disk, not the last checkpoint written: after a jump
  back a run resumes behind the stale checkpoint of the earlier pass.
\<close>

lemma sorted_le_last: "sorted xs \<Longrightarrow> x \<in> set xs \<Longrightarrow> x \<le> last (xs :: nat list)"
  by (induction xs) auto

lemma load_last_is_highest:
  assumes "load_last_checkpoint d = Some cp" and "(i, Some cp') \<in> set d"
    and files: "\<And>j c. (j, Some c) \<in> set d \<Longrightarrow> j = cp_step c" and "distinct (map fst d)"
  shows "cp_idx cp' \<le> cp_idx cp"
proof -
  let ?s = "map (\<lambda>cp. (cp_step cp, cp_idx cp)) (List.map_filter snd d)"
  obtain j n where last: "last_opt (list_checkpoints d) = Some (j, n)" and cp: "load_checkpoint j d = Some cp"
    using assms(1) by (auto simp: load_last_checkpoint_def split: option.splits)
  have sorted: "sorted (map snd (list_checkpoints d))" by (simp add: list_checkpoints_def)
  have ne: "list_checkpoints d \<noteq> []" and "last (list_checkpoints d) = (j, n)"
    using last by (auto simp: last_opt_def split: if_splits)
  then have top: "\<forall>x \<in> set (list_checkpoints d). snd x \<le> n"
    using sorted_le_last [OF sorted] by (auto simp: last_map)
  have "(j, n) \<in> set ?s"
    using last_in_set [OF ne] \<open>last (list_checkpoints d) = (j, n)\<close> by (simp add: list_checkpoints_def)
  then obtain k c where c: "(k, Some c) \<in> set d" "cp_step c = j" "cp_idx c = n"
    by (auto simp: List.map_filter_def)
  have "c = cp"
    using cp c files [OF c(1)] assms(4) by (auto simp: load_checkpoint_def map_of_is_SomeI split: option.splits)
  moreover have "cp_idx cp' \<le> n"
    using top assms(2) by (force simp: list_checkpoints_def List.map_filter_def)
  ultimately show ?thesis using c(3) by simp
qed

lemma stale_checkpoint_wins:
  assumes "cp_step c1 \<noteq> cp_step c2" and "cp_idx c1 < cp_idx c2"
    and "cp_step again = cp_step c1" and "cp_idx again = cp_idx c1"
  shows "load_last_checkpoint (save_checkpoint again (save_checkpoint c2 (save_checkpoint c1 []))) = Some c2"
  using assms
  by (simp add: save_checkpoint_def load_last_checkpoint_def list_checkpoints_def List.map_filter_def
      load_checkpoint_def last_opt_def)

subsection \<open>Evidence\<close>

lemma decode_prefix_prefix:
  "\<exists>p. prefix p s \<and> utf8_length p \<le> n \<and> (decode_prefix n s = p \<or>
     decode_prefix n s = p @ [replacement_char] \<and> n < utf8_length p + char_bytes replacement_char)"
proof (induction n s rule: decode_prefix.induct)
  case (2 n c s)
  have rep: "char_bytes replacement_char = 3" by (simp add: char_bytes_def)
  consider "n = 0" | "n \<noteq> 0" "char_bytes c \<le> n" | "n \<noteq> 0" "n < char_bytes c" by linarith
  then show ?case
  proof cases
    case 2
    with "2.IH" obtain p where p: "prefix p s" "utf8_length p \<le> n - char_bytes c"
      "decode_prefix (n - char_bytes c) s = p \<or> decode_prefix (n - char_bytes c) s = p @ [replacement_char] \<and>
        n - char_bytes c < utf8_length p + char_bytes replacement_char" by blast
    then have "prefix (c # p) (c # s) \<and> utf8_length (c # p) \<le> n \<and> (decode_prefix n (c # s) = c # p \<or>
        decode_prefix n (c # s) = (c # p) @ [replacement_char] \<and>
        n < utf8_length (c # p) + char_bytes replacement_char)"
      using 2 by (auto simp: utf8_length_def)
    then show ?thesis by blast
  next
    case 3
    then have "n < 3" using char_bytes_bounds [of c] by linarith
    then have "prefix [] (c # s) \<and> utf8_length [] \<le> n \<and> decode_prefix n (c # s) = [] @ [replacement_char] \<and>
        n < utf8_length [] + char_bytes replacement_char" using 3 rep by simp
    then show ?thesis by blast
  qed (auto intro: exI [of _ "[]"])
qed (auto intro: exI [of _ "[]"])

text \<open>Truncation keeps a prefix of whole characters that fits, and nothing else.\<close>

lemma truncate_utf8_prefix: "prefix (truncate_utf8 s n) s \<and> utf8_length (truncate_utf8 s n) \<le> n"
proof (cases "utf8_length s \<le> n")
  case False
  obtain p where p: "prefix p s" "utf8_length p \<le> n" "decode_prefix n s = p \<or>
      decode_prefix n s = p @ [replacement_char] \<and> n < utf8_length p + char_bytes replacement_char"
    using decode_prefix_prefix [of s n] by blast
  have keep: "drop_excess n p = p" using p(2) by (simp add: drop_excess.simps)
  have "drop_excess n (p @ [replacement_char]) = p" if "n < utf8_length p + char_bytes replacement_char"
    using that keep by (simp add: drop_excess.simps [of n "p @ _"] utf8_length_def [of "[replacement_char]"])
  then show ?thesis using p keep False by (auto simp: truncate_utf8_def)
qed (simp add: truncate_utf8_def)

definition total_bytes :: "evidence_entry list \<Rightarrow> nat" where
  "total_bytes es = sum_list (map (\<lambda>e. utf8_length (ev_text e)) es)"

definition over_caps :: "nat \<Rightarrow> nat \<Rightarrow> evidence_entry list \<Rightarrow> bool" where
  "over_caps entries bytes es \<longleftrightarrow> entries < length es \<or> bytes < total_bytes es"

lemma evict_entries_spec:
  "\<exists>k \<le> length es. evict_entries entries bytes (es, total_bytes es, v) = (drop k es, total_bytes (drop k es), v + k) \<and>
     \<not> over_caps entries bytes (drop k es) \<and> (\<forall>j < k. over_caps entries bytes (drop j es))"
proof (induction es arbitrary: v)
  case Nil
  then show ?case by (auto simp: over_caps_def total_bytes_def)
next
  case (Cons e es)
  show ?case
  proof (cases "over_caps entries bytes (e # es)")
    case True
    from Cons.IH [of "Suc v"] obtain k where k: "k \<le> length es"
      "evict_entries entries bytes (es, total_bytes es, Suc v) = (drop k es, total_bytes (drop k es), Suc v + k)"
      "\<not> over_caps entries bytes (drop k es)" "\<forall>j < k. over_caps entries bytes (drop j es)" by blast
    have "total_bytes (e # es) - utf8_length (ev_text e) = total_bytes es" by (simp add: total_bytes_def)
    with k True show ?thesis
      by (intro exI [of _ "Suc k"]) (auto simp: over_caps_def less_Suc_eq_0_disj)
  next
    case False
    then show ?thesis by (intro exI [of _ 0]) (auto simp: over_caps_def)
  qed
qed

text \<open>The texts as stored, and how many of them had to be cut.\<close>

definition stored_entry :: "nat \<Rightarrow> evidence_entry \<Rightarrow> evidence_entry" where
  "stored_entry bytes e = e\<lparr>ev_text := truncate_utf8 (ev_text e) bytes\<rparr>"

definition cut_entries :: "nat \<Rightarrow> evidence_entry list \<Rightarrow> evidence_entry list" where
  "cut_entries bytes es = filter (\<lambda>e. length (truncate_utf8 (ev_text e) bytes) \<noteq> length (ev_text e)) es"

definition ledger_holds :: "nat \<Rightarrow> nat \<Rightarrow> evidence_entry list \<Rightarrow> evidence_ledger \<Rightarrow> bool" where
  "ledger_holds entries bytes es l \<longleftrightarrow> el_max_entries l = entries \<and> el_max_bytes l = bytes \<and>
     (\<exists>k \<le> length es. el_items l = drop k (map (stored_entry bytes) es) \<and>
        el_overflow l = k + length (cut_entries bytes es) \<and>
        (\<forall>j < k. over_caps entries bytes (drop j (map (stored_entry bytes) es)))) \<and>
     el_bytes l = total_bytes (el_items l) \<and> \<not> over_caps entries bytes (el_items l)"

lemma over_caps_append: "over_caps entries bytes es \<Longrightarrow> over_caps entries bytes (es @ es')"
  by (auto simp: over_caps_def total_bytes_def)

lemma append_evidence_holds:
  assumes "ledger_holds entries bytes es l"
  shows "ledger_holds entries bytes (es @ [e]) (append_evidence e l)"
proof -
  let ?m = "map (stored_entry bytes)"
  obtain k where k: "k \<le> length es" "el_items l = drop k (?m es)" "el_overflow l = k + length (cut_entries bytes es)"
      "\<forall>j < k. over_caps entries bytes (drop j (?m es))"
    using assms by (auto simp: ledger_holds_def)
  have caps: "el_max_entries l = entries" "el_max_bytes l = bytes" "el_bytes l = total_bytes (el_items l)"
    using assms by (simp_all add: ledger_holds_def)
  define items where "items = el_items l @ [stored_entry bytes e]"
  define v where "v = (if length (truncate_utf8 (ev_text e) bytes) \<noteq> length (ev_text e) then Suc (el_overflow l)
    else el_overflow l)"
  have items: "items = drop k (?m (es @ [e]))" using k by (simp add: items_def)
  obtain n where n: "n \<le> length items"
      "evict_entries entries bytes (items, total_bytes items, v) = (drop n items, total_bytes (drop n items), v + n)"
      "\<not> over_caps entries bytes (drop n items)" "\<forall>j < n. over_caps entries bytes (drop j items)"
    using evict_entries_spec by blast
  have bytes: "el_bytes l + utf8_length (truncate_utf8 (ev_text e) bytes) = total_bytes items"
    by (simp add: caps items_def total_bytes_def stored_entry_def)
  have new: "append_evidence e l = l\<lparr>el_items := drop n items, el_bytes := total_bytes (drop n items),
      el_overflow := v + n\<rparr>"
    using n(2) by (simp add: append_evidence_def caps(1,2) Let_def bytes items_def [symmetric] v_def
        stored_entry_def [symmetric])
  have "over_caps entries bytes (drop j (?m (es @ [e])))" if "j < k + n" for j
  proof (cases "j < k")
    case True
    then show ?thesis using k over_caps_append [of entries bytes "drop j (?m es)"] by simp
  next
    case False
    then have "over_caps entries bytes (drop (j - k) items)" using n(4) that by simp
    then show ?thesis using False by (simp add: items del: map_append)
  qed
  moreover have "v = k + length (cut_entries bytes (es @ [e]))"
    by (simp add: v_def k(3) cut_entries_def)
  moreover have "k + n \<le> length (es @ [e])" using n(1) k(1) by (simp add: items)
  ultimately show ?thesis
    unfolding ledger_holds_def new using n(3) caps
    by (auto intro!: exI [of _ "k + n"] simp: items add.commute simp del: map_append)
qed

lemma ledger_run_holds: "ledger_holds n b es (fold append_evidence es (new_ledger n b))"
proof (induction es rule: rev_induct)
  case Nil
  then show ?case
    by (simp add: ledger_holds_def new_ledger_def cut_entries_def total_bytes_def over_caps_def)
next
  case (snoc e es)
  then show ?case using append_evidence_holds by simp
qed

subsection \<open>Consent\<close>

lemma log_requests_append [simp]: "log_requests (es @ es') = log_requests es @ log_requests es'"
  by (simp add: log_requests_def List.map_filter_def)

lemma log_decisions_append [simp]: "log_decisions (es @ es') = log_decisions es @ log_decisions es'"
  by (simp add: log_decisions_def List.map_filter_def)

lemma log_single [simp]:
  "log_requests [Requested r] = [r]" "log_requests [Decided d] = []"
  "log_decisions [Requested r] = []" "log_decisions [Decided d] = [d]"
  by (simp_all add: log_requests_def log_decisions_def List.map_filter_def)

text \<open>A fresh request is the run's pending one until a decision with its id is logged.\<close>

lemma fresh_request_pending:
  "\<not> has_decision (cq_id r) es \<Longrightarrow> find_pending (cq_run r) (es @ [Requested r]) = Some r"
  by (auto simp: find_pending_def has_decision_def)

lemma decided_not_pending:
  assumes "find_pending run es = Some r"
  shows "\<not> has_decision (cq_id r) es"
  using find_SomeD [OF assms [unfolded find_pending_def]] by (auto simp: has_decision_def image_iff)

lemma decision_settles:
  "find_pending run (es @ [Decided d]) \<noteq> Some r" if "cd_id d = cq_id r"
  using decided_not_pending [of run "es @ [Decided d]" r] that by (auto simp: has_decision_def)

subsection \<open>Templates\<close>

text \<open>A value is not inserted as it stands: \<open>$&\<close> in it becomes the placeholder, which is then stripped.\<close>

lemma template_reads_dollar_patterns:
  "resolve_value \<lparr>rv_captures = [], rv_params = [(''p'', J_str ''5 $& 6'')]\<rparr>
     (Template_value ''a {{x}} b'' [(''x'', Param_value ''p'')]) = Ok (Some (J_str ''a 5  6 b''))"
  by code_simp

text \<open>A value that looks like a later placeholder is replaced in its turn.\<close>

lemma template_value_is_rescanned:
  "resolve_value \<lparr>rv_captures = [], rv_params = [(''p'', J_str ''{{y}}''), (''q'', J_str ''secret'')]\<rparr>
     (Template_value ''{{x}}'' [(''x'', Param_value ''p''), (''y'', Param_value ''q'')]) = Ok (Some (J_str ''secret''))"
  by code_simp

section \<open>Properties\<close>

text \<open>Whatever is appended, the ledger holds the latest reads: a suffix of them, each text cut at a whole
  character to the byte budget, within the entry cap and the byte cap together; nothing is dropped that
  would have fitted, and the overflow count is exactly the reads dropped plus the texts cut.\<close>

theorem ledger_keeps_latest:
  "\<exists>k. k \<le> length es \<and>
     el_items (fold append_evidence es (new_ledger n b)) = drop k (map (stored_entry b) es) \<and>
     el_overflow (fold append_evidence es (new_ledger n b)) = k + length (cut_entries b es) \<and>
     length (drop k es) \<le> n \<and> total_bytes (drop k (map (stored_entry b) es)) \<le> b \<and>
     (k = 0 \<or> over_caps n b (drop (k - 1) (map (stored_entry b) es)))"
proof -
  obtain k where k: "k \<le> length es"
      "el_items (fold append_evidence es (new_ledger n b)) = drop k (map (stored_entry b) es)"
      "el_overflow (fold append_evidence es (new_ledger n b)) = k + length (cut_entries b es)"
      "\<forall>j < k. over_caps n b (drop j (map (stored_entry b) es))"
    using ledger_run_holds [of n b es] by (auto simp: ledger_holds_def)
  have "\<not> over_caps n b (drop k (map (stored_entry b) es))"
    using ledger_run_holds [of n b es] k(2) by (simp add: ledger_holds_def)
  then have "length (drop k es) \<le> n" "total_bytes (drop k (map (stored_entry b) es)) \<le> b"
    by (simp_all add: over_caps_def)
  moreover have "k = 0 \<or> over_caps n b (drop (k - 1) (map (stored_entry b) es))"
    using k(4) by (cases k) auto
  ultimately show ?thesis using k(1-3) by blast
qed

end
