(* ===== verification/StepHandlers.thy ===== *)
theory StepHandlers
  imports ExecStores Outcome
begin

text \<open>
  The step handlers of \<open>packages/core/src/executor/step-handlers/\<close> and the run context they share
  (\<open>executor/types.ts\<close>, \<open>executor/execution-context.ts\<close>).

  The mutable part of the context is \<open>exec_ctx\<close>; its log records, in order, every event published while
  the bus is open, every handler invoked, every checkpoint saved, every consent entry appended and the outputs
  file. What
  the context injects (page, locator engine, secrets, ethics gate, model, clock, gateway) is a field of
  \<open>exec_env\<close>, a function on the state \<open>'w\<close> of the world; an element handle is a number. A handler answers a
  result, or \<open>Inl\<close> the message of what it throws. Timestamps, the logger and page listeners are left out;
  the semantic fill of \<open>fill-element.ts\<close> is an argument.
\<close>

section \<open>Definitions\<close>

datatype handoff_reason = Handoff_captcha | Handoff_mfa | Handoff_unexpected_state | Handoff_other

datatype step_result =
    Completed "jstext list"
  | Retried jstext
  | Step_failed failure_class jstext
  | Handoff_requested handoff_reason
  | Ethics_refusal jstext jstext jstext
  | Jump jstext

datatype task_event =
    Ev_scope_violation security_scope step_verb jstext
  | Ev_task_started
  | Ev_task_failed failure_class
  | Ev_task_completed "jstext list"
  | Ev_step_started jstext step_verb
  | Ev_step_retry jstext nat jstext
  | Ev_step_completed jstext "jstext list"
  | Ev_checkpoint_saved jstext
  | Ev_confirmation_requested confirmation_request
  | Ev_confirmation_resolved jstext confirmation_verdict decided_by
  | Ev_human_handoff jstext handoff_reason
  | Ev_llm_step_skipped jstext jstext jstext

datatype exec_action =
    Emitted task_event
  | Dispatched jstext
  | Saved run_checkpoint
  | Logged confirmation_entry
  | Wrote_outputs "(jstext, json) jsmap"

record 'w exec_ctx =
  xc_idx :: nat
  xc_captures :: capture_store
  xc_budgets :: retry_budget
  xc_page :: bool
  xc_host :: bool
  xc_evidence :: "evidence_ledger option"
  xc_closed :: bool
  xc_log :: "exec_action list"
  xc_world :: 'w

subsection \<open>The injected environment\<close>

datatype text_matcher = Matcher_text jstext | Matcher_regex jstext jstext

text \<open>What a description shows of a candidate; the rest of it is the engine's business.\<close>

datatype locator_intent =
    Role_intent jstext "text_matcher option"
  | Testid_intent jstext
  | Label_intent text_matcher
  | Placeholder_intent text_matcher
  | Text_intent text_matcher
  | Css_intent jstext
  | Xpath_intent jstext
  | Relative_intent jstext

record engine_chain =
  ec_name :: jstext
  ec_candidates :: "locator_intent list"

datatype actionable_requirement = Need_attached | Need_visible | Need_actionable

text \<open>The locator engine resolves, reports the element unusable (one of its three errors), or throws otherwise.\<close>

datatype resolve_outcome = Resolved_handle nat | Unusable jstext | Resolve_threw jstext

datatype located = Found jstext nat | Not_found jstext nat jstext | Locate_error jstext

datatype ethics_verdict = Ethics_passed | Ethics_refused_by jstext jstext jstext | Ethics_threw jstext

text \<open>\<open>goto\<close> answers a status and the \<open>retry-after\<close> header, nothing the code reads, or throws.\<close>

datatype goto_outcome = Response_with nat "jstext option" | No_response | Goto_threw jstext

datatype gateway_outcome = Decision confirmation_decision | Parked

record 'w exec_env =
  xe_plan :: plan
  xe_run :: jstext
  xe_scopes :: "security_scope list"
  xe_params :: "(jstext, json) jsmap"
  xe_url_host :: "jstext \<Rightarrow> jstext option"
  xe_url_hostname :: "jstext \<Rightarrow> jstext option"
  xe_valid_regex :: "jstext \<Rightarrow> jstext \<Rightarrow> bool"
  xe_regex_test :: "jstext \<Rightarrow> jstext \<Rightarrow> jstext \<Rightarrow> bool"
  xe_locators :: "(jstext \<Rightarrow> engine_chain option) option"
  xe_secret :: "(jstext \<Rightarrow> 'w \<Rightarrow> (jstext + jstext) \<times> 'w) option"
  xe_browser :: "('w \<Rightarrow> (jstext + bool) \<times> 'w) option"
  xe_page_has_host :: bool
  xe_page_url :: "'w \<Rightarrow> jstext"
  xe_page_title :: "'w \<Rightarrow> jstext option \<times> 'w"
  xe_ethics :: "jstext \<Rightarrow> 'w \<Rightarrow> ethics_verdict \<times> 'w"
  xe_goto :: "jstext \<Rightarrow> 'w \<Rightarrow> goto_outcome \<times> 'w"
  xe_settle_navigation :: "'w \<Rightarrow> 'w"
  xe_settle_read :: "'w \<Rightarrow> 'w"
  xe_resolve :: "engine_chain \<Rightarrow> actionable_requirement \<Rightarrow> nat \<Rightarrow> 'w \<Rightarrow> resolve_outcome \<times> 'w"
  xe_click :: "nat \<Rightarrow> 'w \<Rightarrow> (jstext + unit) \<times> 'w"
  xe_fill :: "nat \<Rightarrow> jstext \<Rightarrow> bool \<Rightarrow> 'w \<Rightarrow> (jstext + unit) \<times> 'w"
  xe_element_text :: "nat \<Rightarrow> 'w \<Rightarrow> (jstext + jstext) \<times> 'w"
  xe_read_element :: "nat \<Rightarrow> extraction_schema \<Rightarrow> 'w \<Rightarrow> (jstext + json option) \<times> 'w"
  xe_now :: "'w \<Rightarrow> nat"
  xe_sleep :: "nat \<Rightarrow> 'w \<Rightarrow> 'w"
  xe_sanitize :: "(json \<Rightarrow> security_scope \<Rightarrow> jstext) option"
  xe_summarize :: "(jstext \<Rightarrow> jstext \<Rightarrow> 'w \<Rightarrow> (jstext + jstext) \<times> 'w) option"
  xe_fill_element :: "plan_step \<Rightarrow> capture_store \<Rightarrow> retry_budget \<Rightarrow> 'w \<Rightarrow> (jstext + step_result) \<times> 'w"
  xe_gateway :: "(confirmation_request \<Rightarrow> 'w \<Rightarrow> (jstext + gateway_outcome) \<times> 'w) option"
  xe_store :: bool
  xe_ulid :: "'w \<Rightarrow> jstext \<times> 'w"

type_synonym 'w handled = "(jstext + step_result) \<times> 'w exec_ctx"

definition log_action :: "exec_action \<Rightarrow> 'w exec_ctx \<Rightarrow> 'w exec_ctx" where
  "log_action a c = c\<lparr>xc_log := xc_log c @ [a]\<rparr>"

text \<open>A closed bus drops what is published.\<close>

definition publish :: "task_event \<Rightarrow> 'w exec_ctx \<Rightarrow> 'w exec_ctx" where
  "publish e c = (if xc_closed c then c else log_action (Emitted e) c)"

definition close_bus :: "'w exec_ctx \<Rightarrow> 'w exec_ctx" where
  "close_bus c = c\<lparr>xc_closed := True\<rparr>"

definition set_capture :: "jstext \<Rightarrow> json \<Rightarrow> 'w exec_ctx \<Rightarrow> 'w exec_ctx" where
  "set_capture k v c = c\<lparr>xc_captures := map_set k v (xc_captures c)\<rparr>"

definition plan_index :: "plan \<Rightarrow> jstext \<Rightarrow> nat option" where
  "plan_index p k = map_get (foldl (\<lambda>m (i, s). map_set (st_id s) i m) [] (enumerate 0 (pl_steps p))) k"

subsection \<open>Locators\<close>

definition role_name :: "aria_role \<Rightarrow> jstext" where
  "role_name r = (case r of
     Role_button \<Rightarrow> ''button'' | Role_link \<Rightarrow> ''link'' | Role_textbox \<Rightarrow> ''textbox'' | Role_searchbox \<Rightarrow> ''searchbox''
   | Role_table \<Rightarrow> ''table'' | Role_heading \<Rightarrow> ''heading'' | Role_region \<Rightarrow> ''region'' | Role_dialog \<Rightarrow> ''dialog''
   | Role_listitem \<Rightarrow> ''listitem'' | Role_cell \<Rightarrow> ''cell'' | Role_checkbox \<Rightarrow> ''checkbox'' | Role_radio \<Rightarrow> ''radio''
   | Role_combobox \<Rightarrow> ''combobox'' | Role_listbox \<Rightarrow> ''listbox'' | Role_slider \<Rightarrow> ''slider''
   | Role_spinbutton \<Rightarrow> ''spinbutton'' | Role_option \<Rightarrow> ''option'' | Role_tab \<Rightarrow> ''tab'' | Role_tabpanel \<Rightarrow> ''tabpanel''
   | Role_menuitem \<Rightarrow> ''menuitem'' | Role_row \<Rightarrow> ''row'' | Role_grid \<Rightarrow> ''grid'')"

definition intent_display_name :: "aria_role \<Rightarrow> name_match option \<Rightarrow> jstext" where
  "intent_display_name r m = role_name r @ (case m of
     None \<Rightarrow> [] | Some (Name_exact v) \<Rightarrow> '' '' @ quoted v | Some (Name_regex p f) \<Rightarrow> '' /'' @ p @ ''/'')"

definition locator_name :: "locator_chain \<Rightarrow> jstext" where
  "locator_name l = (case l of
     Intent_locator r m _ \<Rightarrow> intent_display_name r m | Workflow_locator n \<Rightarrow> n
   | Recorded_locator i \<Rightarrow> ''recorded['' @ show_nat i @ '']'')"

text \<open>An invalid pattern makes \<open>new RegExp\<close> throw; the anchor of an intent is not used.\<close>

definition build_engine_chain :: "'w exec_env \<Rightarrow> locator_chain \<Rightarrow> jstext + engine_chain option" where
  "build_engine_chain env l = (case l of
     Intent_locator r None _ \<Rightarrow>
       Ok (Some \<lparr>ec_name = intent_display_name r None, ec_candidates = [Role_intent (role_name r) None]\<rparr>)
   | Intent_locator r (Some (Name_exact v)) _ \<Rightarrow>
       Ok (Some \<lparr>ec_name = intent_display_name r (Some (Name_exact v)),
         ec_candidates = [Role_intent (role_name r) (Some (Matcher_text v))]\<rparr>)
   | Intent_locator r (Some (Name_regex p f)) _ \<Rightarrow>
       if xe_valid_regex env p f
       then Ok (Some \<lparr>ec_name = intent_display_name r (Some (Name_regex p f)),
         ec_candidates = [Role_intent (role_name r) (Some (Matcher_regex p f))]\<rparr>)
       else Err ''Invalid regular expression''
   | Workflow_locator n \<Rightarrow> Ok (case xe_locators env of None \<Rightarrow> None | Some table \<Rightarrow> table n)
   | Recorded_locator _ \<Rightarrow> Ok None)"

definition render_matcher :: "text_matcher \<Rightarrow> jstext" where
  "render_matcher m = (case m of
     Matcher_text s \<Rightarrow> quoted s | Matcher_regex p f \<Rightarrow> ''/'' @ p @ ''/'' @ f)"

definition describe_intent :: "locator_intent \<Rightarrow> jstext" where
  "describe_intent i = (case i of
     Role_intent r None \<Rightarrow> ''role='' @ r
   | Role_intent r (Some m) \<Rightarrow> ''role='' @ r @ '' name='' @ render_matcher m
   | Testid_intent v \<Rightarrow> ''testid='' @ v
   | Label_intent m \<Rightarrow> ''label='' @ render_matcher m
   | Placeholder_intent m \<Rightarrow> ''placeholder='' @ render_matcher m
   | Text_intent m \<Rightarrow> ''text='' @ render_matcher m
   | Css_intent s \<Rightarrow> ''css='' @ s
   | Xpath_intent x \<Rightarrow> ''xpath='' @ x
   | Relative_intent r \<Rightarrow> ''relative('' @ r @ '')'')"

definition describe_chain :: "engine_chain \<Rightarrow> jstext" where
  "describe_chain c = ''Candidates tried: '' @ join ''; ''
     (map (\<lambda>(i, x). ''['' @ show_nat i @ ''] '' @ describe_intent x) (enumerate 0 (ec_candidates c)))"

definition unresolvable_diagnostics :: "'w exec_env \<Rightarrow> locator_chain \<Rightarrow> jstext" where
  "unresolvable_diagnostics env l = (case l of
     Workflow_locator n \<Rightarrow>
       (if xe_locators env = None
        then ''Locator '' @ quoted n @ '' is a named workflow locator, but this run has no '' @
          ''locator table. The plan was not built from a workflow file.''
        else ''Named locator '' @ quoted n @ '' is not defined in the workflow'' @ [CHR 0x27] @ ''s _locators block. '' @
          ''Check for a typo, or re-record the workflow.'')
   | Recorded_locator i \<Rightarrow> ''Step references recorded locator index '' @ show_nat i @
       '', which this run cannot resolve '' @ [em_dash] @
       '' recorded locator references are not supported outside a recording session.''
   | Intent_locator _ _ _ \<Rightarrow> ''Locator '' @ locator_name l @ '' could not be compiled into a candidate chain.'')"

definition DEFAULT_ACTIONABLE_TIMEOUT_MS :: nat where
  "DEFAULT_ACTIONABLE_TIMEOUT_MS = 30000"

definition resolve_locator_chain ::
  "'w exec_env \<Rightarrow> locator_chain \<Rightarrow> jstext \<Rightarrow> actionable_requirement \<Rightarrow> nat \<Rightarrow> 'w exec_ctx \<Rightarrow>
   (jstext + located) \<times> 'w exec_ctx" where
  "resolve_locator_chain env l sid need timeout c =
     (if \<not> xc_host c then (Ok (Locate_error (''Step '' @ quoted sid @ '': InjectedScriptHost is not available.'')), c)
      else (case build_engine_chain env l of
          Inl msg \<Rightarrow> (Err msg, c)
        | Inr None \<Rightarrow> (Ok (Not_found (locator_name l) 0 (unresolvable_diagnostics env l)), c)
        | Inr (Some chain) \<Rightarrow>
            if ec_candidates chain = [] then (Ok (Not_found (ec_name chain) 0
              (''Locator '' @ quoted (ec_name chain) @ '' has no usable candidates '' @ [em_dash] @
               '' every recorded entry was empty. Re-record the workflow, or author the locator by hand in the _locators block.'')), c)
            else (case xe_resolve env chain need timeout (xc_world c) of (r, w) \<Rightarrow>
              (Ok (case r of
                 Resolved_handle h \<Rightarrow> Found (ec_name chain) h
               | Unusable msg \<Rightarrow> Not_found (ec_name chain) (length (ec_candidates chain)) (msg @ '' '' @ describe_chain chain)
               | Resolve_threw msg \<Rightarrow> Locate_error msg), c\<lparr>xc_world := w\<rparr>))))"

subsection \<open>Handlers\<close>

definition locator_not_found_message :: "jstext \<Rightarrow> nat \<Rightarrow> jstext \<Rightarrow> jstext" where
  "locator_not_found_message name n diagnostics = ''Locator chain '' @ quoted name @ '' exhausted '' @ show_nat n @
     '' candidate(s). '' @ diagnostics"

definition needs_browser :: "jstext \<Rightarrow> 'w exec_ctx \<Rightarrow> 'w handled" where
  "needs_browser name c = (Ok (Step_failed Unexpected (name @ '' step requires a browser session with an InjectedScriptHost.'')), c)"

definition browser_ready :: "'w exec_ctx \<Rightarrow> bool" where
  "browser_ready c \<longleftrightarrow> xc_host c \<and> xc_page c"

text \<open>A chain that is not found is retried while the step budget lasts.\<close>

definition retry_or_fail :: "jstext \<Rightarrow> jstext \<Rightarrow> nat \<Rightarrow> jstext \<Rightarrow> 'w exec_ctx \<Rightarrow> 'w handled" where
  "retry_or_fail reason name n diagnostics c =
     (Ok (if can_retry Retry_step (xc_budgets c) then Retried reason
          else Step_failed Locator_not_found (locator_not_found_message name n diagnostics)), c)"

text \<open>The modifiers of a click only set its count; no key is held down.\<close>

definition handle_click :: "'w exec_env \<Rightarrow> plan_step \<Rightarrow> locator_chain \<Rightarrow> click_modifiers option \<Rightarrow> 'w exec_ctx \<Rightarrow> 'w handled" where
  "handle_click env s l mods c =
     (if \<not> browser_ready c then needs_browser ''Click'' c
      else (case resolve_locator_chain env l (st_id s) Need_actionable DEFAULT_ACTIONABLE_TIMEOUT_MS c of
          (Inl msg, c') \<Rightarrow> (Err msg, c')
        | (Inr (Not_found name n d), c') \<Rightarrow>
            retry_or_fail (''Locator chain exhausted '' @ [em_dash] @ '' DOM may have re-rendered'') name n d c'
        | (Inr (Locate_error msg), c') \<Rightarrow> (Ok (Step_failed Unexpected msg), c')
        | (Inr (Found _ h), c') \<Rightarrow> (case xe_click env h (xc_world c') of
              (Inl msg, w) \<Rightarrow> (Ok (Step_failed Unexpected msg), c'\<lparr>xc_world := w\<rparr>)
            | (Inr _, w) \<Rightarrow> (Ok (Completed []), c'\<lparr>xc_world := w\<rparr>))))"

definition fill_text :: "'w exec_env \<Rightarrow> value_ref \<Rightarrow> 'w exec_ctx \<Rightarrow> (jstext + jstext) \<times> 'w exec_ctx" where
  "fill_text env v c = (case v of
     Secret_value k _ \<Rightarrow> (case xe_secret env of
       None \<Rightarrow> (Err (''SecretResolver is not configured. Cannot resolve secret '' @ quoted k @ ''. '' @
         ''Wire FEAT-006 SecretResolver to enable secret resolution.''), c)
     | Some resolve \<Rightarrow> (case resolve k (xc_world c) of (r, w) \<Rightarrow> (r, c\<lparr>xc_world := w\<rparr>)))
   | _ \<Rightarrow> (resolve_to_string \<lparr>rv_captures = xc_captures c, rv_params = xe_params env\<rparr> v, c))"

definition handle_fill :: "'w exec_env \<Rightarrow> plan_step \<Rightarrow> locator_chain \<Rightarrow> value_ref \<Rightarrow> bool \<Rightarrow> 'w exec_ctx \<Rightarrow> 'w handled" where
  "handle_fill env s l v submit c =
     (if \<not> browser_ready c then needs_browser ''Fill'' c
      else (case resolve_locator_chain env l (st_id s) Need_actionable DEFAULT_ACTIONABLE_TIMEOUT_MS c of
          (Inl msg, c') \<Rightarrow> (Err msg, c')
        | (Inr (Not_found name n d), c') \<Rightarrow>
            retry_or_fail (''Locator chain exhausted '' @ [em_dash] @ '' DOM may have re-rendered'') name n d c'
        | (Inr (Locate_error msg), c') \<Rightarrow> (Ok (Step_failed Unexpected msg), c')
        | (Inr (Found _ h), c') \<Rightarrow> (case fill_text env v c' of
              (Inl msg, c'') \<Rightarrow> (Ok (Step_failed Unexpected msg), c'')
            | (Inr plaintext, c'') \<Rightarrow> (case xe_fill env h plaintext submit (xc_world c'') of
                  (Inl msg, w) \<Rightarrow> (Ok (Step_failed Unexpected msg), c''\<lparr>xc_world := w\<rparr>)
                | (Inr _, w) \<Rightarrow> (Ok (Completed []), c''\<lparr>xc_world := w\<rparr>)))))"

text \<open>The poll of an inverse wait; \<open>None\<close> when the fuel runs out before the deadline.\<close>

definition PROBE_TIMEOUT_MS :: nat where
  "PROBE_TIMEOUT_MS = 500"

definition wait_state_name :: "wait_state \<Rightarrow> jstext" where
  "wait_state_name s = (case s of
     Wait_visible \<Rightarrow> ''visible'' | Wait_hidden \<Rightarrow> ''hidden'' | Wait_attached \<Rightarrow> ''attached'' | Wait_detached \<Rightarrow> ''detached'')"

fun poll_gone :: "nat \<Rightarrow> 'w exec_env \<Rightarrow> plan_step \<Rightarrow> locator_chain \<Rightarrow> actionable_requirement \<Rightarrow> nat \<Rightarrow> jstext \<Rightarrow>
    'w exec_ctx \<Rightarrow> 'w handled option" where
  "poll_gone 0 env s l need deadline late c = None"
| "poll_gone (Suc n) env s l need deadline late c =
     (if xe_now env (xc_world c) < deadline
      then (case resolve_locator_chain env l (st_id s) need PROBE_TIMEOUT_MS c of
          (Inl msg, c') \<Rightarrow> Some (Err msg, c')
        | (Inr (Not_found _ _ _), c') \<Rightarrow> Some (Ok (Completed []), c')
        | (Inr (Locate_error _), c') \<Rightarrow> Some (Ok (Completed []), c')
        | (Inr (Found _ _), c') \<Rightarrow>
            poll_gone n env s l need deadline late (c'\<lparr>xc_world := xe_sleep env 100 (xc_world c')\<rparr>))
      else Some (Ok (Step_failed Unexpected late), c))"

definition handle_wait_for :: "nat \<Rightarrow> 'w exec_env \<Rightarrow> plan_step \<Rightarrow> locator_chain \<Rightarrow> wait_state \<Rightarrow> nat option \<Rightarrow> 'w exec_ctx \<Rightarrow>
    'w handled option" where
  "handle_wait_for n env s l state timeout c =
     (let ms = (case timeout of Some t \<Rightarrow> t | None \<Rightarrow> 30000) in
      if \<not> browser_ready c then Some (needs_browser ''WaitFor'' c)
      else if state = Wait_visible \<or> state = Wait_attached then
        Some (case resolve_locator_chain env l (st_id s)
                (if state = Wait_visible then Need_visible else Need_attached) ms c of
            (Inl msg, c') \<Rightarrow> (Err msg, c')
          | (Inr (Not_found name k d), c') \<Rightarrow> (Ok (Step_failed Locator_not_found (locator_not_found_message name k d)), c')
          | (Inr (Locate_error msg), c') \<Rightarrow> (Ok (Step_failed Unexpected msg), c')
          | (Inr (Found _ _), c') \<Rightarrow> (Ok (Completed []), c'))
      else poll_gone n env s l (if state = Wait_hidden then Need_visible else Need_attached)
        (xe_now env (xc_world c) + ms)
        (''WaitFor step '' @ quoted (st_id s) @ '': element did not become '' @ wait_state_name state @
         '' within '' @ show_nat ms @ ''ms.'') c)"

definition assert_failed :: "jstext \<Rightarrow> jstext \<Rightarrow> jstext \<Rightarrow> step_result" where
  "assert_failed sid kind detail =
     Step_failed Unexpected (''Assert step '' @ quoted sid @ '' failed ('' @ kind @ ''): '' @ detail)"

text \<open>Reading the text of the element and an invalid pattern both throw past the handler.\<close>

definition assert_text :: "'w exec_env \<Rightarrow> plan_step \<Rightarrow> jstext \<Rightarrow> jstext \<Rightarrow> located \<Rightarrow> 'w exec_ctx \<Rightarrow> 'w handled" where
  "assert_text env s p f loc c = (case loc of
     Found _ h \<Rightarrow> (case xe_element_text env h (xc_world c) of
         (Inl msg, w) \<Rightarrow> (Err msg, c\<lparr>xc_world := w\<rparr>)
       | (Inr t, w) \<Rightarrow>
           (if \<not> xe_valid_regex env p f then Err ''Invalid regular expression''
            else if xe_regex_test env p f (trim t) then Ok (Completed [])
            else Ok (assert_failed (st_id s) ''text_matches''
              (''Text '' @ quoted (trim t) @ '' did not match pattern /'' @ p @ ''/'' @ f @ ''.'')), c\<lparr>xc_world := w\<rparr>))
   | Not_found _ _ d \<Rightarrow> (Ok (assert_failed (st_id s) ''text_matches'' (''Element not found for text assertion. '' @ d)), c)
   | Locate_error msg \<Rightarrow> (Ok (assert_failed (st_id s) ''text_matches'' (''Element not found for text assertion. '' @ msg)), c))"

text \<open>The count is approximate: one if the chain resolves, none otherwise.\<close>

definition found_count :: "located \<Rightarrow> nat" where
  "found_count loc = (case loc of Found _ _ \<Rightarrow> 1 | Not_found _ _ _ \<Rightarrow> 0 | Locate_error _ \<Rightarrow> 0)"

definition check_assert :: "'w exec_env \<Rightarrow> plan_step \<Rightarrow> assert_condition \<Rightarrow> located \<Rightarrow> 'w exec_ctx \<Rightarrow> 'w handled" where
  "check_assert env s condition loc c = (case condition of
     Assert_visible \<Rightarrow> (case loc of
         Not_found _ _ d \<Rightarrow> (Ok (assert_failed (st_id s) ''visible'' (''Element was not found / not visible. '' @ d)), c)
       | Locate_error msg \<Rightarrow> (Ok (Step_failed Unexpected msg), c)
       | Found _ _ \<Rightarrow> (Ok (Completed []), c))
   | Assert_hidden \<Rightarrow> (case loc of
         Found _ _ \<Rightarrow> (Ok (assert_failed (st_id s) ''hidden'' ''Element is visible but expected hidden.''), c)
       | Not_found _ _ _ \<Rightarrow> (Ok (Completed []), c)
       | Locate_error _ \<Rightarrow> (Ok (Completed []), c))
   | Assert_text p f \<Rightarrow> assert_text env s p f loc c
   | Assert_count n \<Rightarrow>
       (Ok (if found_count loc \<noteq> n then assert_failed (st_id s) ''count_equals''
          (''Expected '' @ show_nat n @ '' element(s), found ~'' @ show_nat (found_count loc) @ ''.'')
        else Completed []), c))"

definition handle_assert :: "'w exec_env \<Rightarrow> plan_step \<Rightarrow> locator_chain \<Rightarrow> assert_condition \<Rightarrow> 'w exec_ctx \<Rightarrow> 'w handled" where
  "handle_assert env s l condition c =
     (if \<not> browser_ready c then needs_browser ''Assert'' c
      else (case resolve_locator_chain env l (st_id s) Need_visible DEFAULT_ACTIONABLE_TIMEOUT_MS
                   (c\<lparr>xc_world := xe_settle_read env (xc_world c)\<rparr>) of
          (Inl msg, c') \<Rightarrow> (Err msg, c')
        | (Inr loc, c') \<Rightarrow> check_assert env s condition loc c'))"

text \<open>\<open>parseInt(h, 10)\<close>: leading space, a sign, the digits that follow; \<open>None\<close> is NaN.\<close>

definition parse_int :: "jstext \<Rightarrow> int option" where
  "parse_int s =
     (let t = dropWhile is_space s; minus = starts_with ''-'' t;
          u = (if minus \<or> starts_with ''+'' t then tl t else t); ds = takeWhile is_digit u
      in if ds = [] then None else Some (if minus then - int (read_nat ds) else int (read_nat ds)))"

definition retry_after_ms :: "jstext option \<Rightarrow> int option" where
  "retry_after_ms h = (case h of
     None \<Rightarrow> None | Some t \<Rightarrow> if t = [] then None else map_option (\<lambda>n. n * 1000) (parse_int t))"

definition is_timeout_message :: "jstext \<Rightarrow> bool" where
  "is_timeout_message m \<longleftrightarrow> str_includes ''timeout'' (to_lower m) \<or> str_includes ''timed out'' (to_lower m)"

definition DEFAULT_NAV_TIMEOUT_MS :: nat where
  "DEFAULT_NAV_TIMEOUT_MS = 30000"

text \<open>The reply of the page: refusals fail or, with a \<open>retry-after\<close>, retry; everything else settles and completes.\<close>

definition navigated :: "'w exec_env \<Rightarrow> jstext \<Rightarrow> goto_outcome \<Rightarrow> 'w exec_ctx \<Rightarrow> 'w handled" where
  "navigated env url r c =
     (let settled = (Ok (Completed []), c\<lparr>xc_world := xe_settle_navigation env (xc_world c)\<rparr>);
          host = (case xe_url_hostname env url of Some h \<Rightarrow> h | None \<Rightarrow> url)
      in case r of
        Goto_threw msg \<Rightarrow>
          (Ok (if is_timeout_message msg
             then Step_failed Network_error (''Navigation to '' @ quoted url @ '' timed out after '' @
               show_nat DEFAULT_NAV_TIMEOUT_MS @ ''ms.'')
             else Step_failed Unexpected msg), c)
      | No_response \<Rightarrow> settled
      | Response_with status header \<Rightarrow>
          if status = 429 \<or> status = 403 \<or> status = 451 then
            (Ok (case retry_after_ms header of
               Some ms \<Rightarrow> if status = 429 then Retried (''HTTP 429 Retry-After: '' @ show_int ms @ ''ms'')
                 else Step_failed Rate_limited (''Remote refused with HTTP '' @ show_nat status @ '' at '' @ quoted host @ ''.'')
             | None \<Rightarrow> Step_failed Rate_limited (''Remote refused with HTTP '' @ show_nat status @ '' at '' @ quoted host @ ''.'')), c)
          else settled)"

text \<open>The handler resolves its URL with no params (\<open>getParams\<close> answers an empty object) and asks the gate first.\<close>

definition handle_navigate :: "'w exec_env \<Rightarrow> value_ref \<Rightarrow> 'w exec_ctx \<Rightarrow> 'w handled" where
  "handle_navigate env v c = (case resolve_to_string \<lparr>rv_captures = xc_captures c, rv_params = []\<rparr> v of
     Inl msg \<Rightarrow> (Ok (Step_failed Unexpected msg), c)
   | Inr url \<Rightarrow> (case xe_ethics env url (xc_world c) of
       (Ethics_refused_by host rule reason, w) \<Rightarrow> (Ok (Ethics_refusal host rule reason), c\<lparr>xc_world := w\<rparr>)
     | (Ethics_threw msg, w) \<Rightarrow> (Ok (Step_failed Ethics_refused msg), c\<lparr>xc_world := w\<rparr>)
     | (Ethics_passed, w) \<Rightarrow>
         if \<not> xc_page c then (Ok (Step_failed Unexpected ''No active page in ExecutionContext.''), c\<lparr>xc_world := w\<rparr>)
         else (case xe_goto env url w of (r, w') \<Rightarrow> navigated env url r (c\<lparr>xc_world := w'\<rparr>))))"

definition capture_field_present :: "json option \<Rightarrow> jstext \<Rightarrow> bool" where
  "capture_field_present v f = (case v of Some j \<Rightarrow> is_object j \<and> json_member j f \<noteq> None | None \<Rightarrow> False)"

definition branch_taken :: "branch_condition \<Rightarrow> capture_store \<Rightarrow> bool" where
  "branch_taken b store = (case b of
     Branch_always \<Rightarrow> True
   | Branch_capture_exists r \<Rightarrow> map_has store (cr_step r) \<and>
       (case cr_field r of None \<Rightarrow> True | Some f \<Rightarrow> capture_field_present (map_get store (cr_step r)) f))"

definition handle_branch :: "branch_condition \<Rightarrow> jstext \<Rightarrow> jstext option \<Rightarrow> 'w exec_ctx \<Rightarrow> 'w handled" where
  "handle_branch b t e c =
     (Ok (if branch_taken b (xc_captures c) then Jump t
          else case e of Some i \<Rightarrow> Jump i | None \<Rightarrow> Completed []), c)"

definition handle_call_workflow :: "plan_step \<Rightarrow> jstext \<Rightarrow> 'w exec_ctx \<Rightarrow> 'w handled" where
  "handle_call_workflow s w c =
     (Ok (Step_failed Unexpected (''call_workflow step '' @ quoted (st_id s) @ '' (workflow: '' @ quoted w @
        '') requires FEAT-010. Wire a WorkflowStore into ExecutionContext to enable cross-workflow calls.'')), c)"

text \<open>Extraction: the rows of the envelope, and the text the evidence ledger keeps of them.\<close>

definition error_row :: "json \<Rightarrow> json" where
  "error_row raw = J_obj [(''__error'', J_str ''Null or undefined row''), (''__raw'', raw)]"

definition is_error_row :: "json \<Rightarrow> bool" where
  "is_error_row r \<longleftrightarrow> is_object r \<and> json_member r ''__error'' \<noteq> None"

definition extraction_rows :: "extraction_schema \<Rightarrow> json option \<Rightarrow> json list" where
  "extraction_rows schema raw = (case schema of
     Array_schema _ \<Rightarrow> (case raw of
         Some (J_arr vs) \<Rightarrow> map (\<lambda>v. if v = J_null then error_row J_null else v) vs
       | Some v \<Rightarrow> [if v = J_null then error_row J_null else v]
       | None \<Rightarrow> [error_row J_null])
   | _ \<Rightarrow> [case raw of Some v \<Rightarrow> v | None \<Rightarrow> J_null])"

definition extraction_envelope :: "json list \<Rightarrow> json" where
  "extraction_envelope rows =
     (let valid = length (filter (\<lambda>r. \<not> is_error_row r) rows) in
      J_obj [(''rows'', J_arr rows), (''metadata'', J_obj [(''total_rows'', J_num (int (length rows))),
        (''valid_rows'', J_num (int valid)), (''error_count'', J_num (int (length rows - valid)))])])"

definition evidence_text :: "json option \<Rightarrow> json list \<Rightarrow> jstext" where
  "evidence_text raw rows = (case raw of
     Some (J_str t) \<Rightarrow> t
   | _ \<Rightarrow> join [CHR 0x0A] (filter (\<lambda>l. l \<noteq> [])
       (map (\<lambda>r. case r of J_str t \<Rightarrow> t | v \<Rightarrow> json_text v) rows)))"

definition record_evidence :: "'w exec_env \<Rightarrow> plan_step \<Rightarrow> json option \<Rightarrow> json list \<Rightarrow> 'w exec_ctx \<Rightarrow> 'w exec_ctx" where
  "record_evidence env s raw rows c = (case xc_evidence c of
     None \<Rightarrow> c
   | Some l \<Rightarrow> (case xe_page_title env (xc_world c) of (title, w) \<Rightarrow>
       let url = xe_page_url env (xc_world c) in
       c\<lparr>xc_world := w, xc_evidence := Some (append_evidence
         \<lparr>ev_url = url, ev_final_url = None,
          ev_host = (case xe_url_host env url of Some h \<Rightarrow> h | None \<Rightarrow> url),
          ev_title = (if title = Some [] then None else title),
          ev_text = evidence_text raw rows, ev_step = st_id s\<rparr> l)\<rparr>))"

definition handle_extract :: "'w exec_env \<Rightarrow> plan_step \<Rightarrow> locator_chain \<Rightarrow> extraction_schema \<Rightarrow> jstext \<Rightarrow> 'w exec_ctx \<Rightarrow> 'w handled" where
  "handle_extract env s l schema alias c =
     (if \<not> browser_ready c then needs_browser ''Extract'' c
      else (case resolve_locator_chain env l (st_id s) Need_visible DEFAULT_ACTIONABLE_TIMEOUT_MS
                   (c\<lparr>xc_world := xe_settle_read env (xc_world c)\<rparr>) of
          (Inl msg, c') \<Rightarrow> (Err msg, c')
        | (Inr (Not_found name n d), c') \<Rightarrow> retry_or_fail ''Locator chain exhausted during extraction'' name n d c'
        | (Inr (Locate_error msg), c') \<Rightarrow> (Ok (Step_failed Unexpected msg), c')
        | (Inr (Found _ h), c') \<Rightarrow> (case xe_read_element env h schema (xc_world c') of
              (Inl msg, w) \<Rightarrow> (Ok (Step_failed Unexpected msg), c'\<lparr>xc_world := w\<rparr>)
            | (Inr raw, w) \<Rightarrow>
                (let rows = extraction_rows schema raw in
                 (Ok (Completed [alias]), record_evidence env s raw rows
                    (set_capture alias (extraction_envelope rows) (c'\<lparr>xc_world := w\<rparr>)))))))"

text \<open>Without a model or a sanitizer the input is bound unchanged, and an event says so.\<close>

definition pass_through :: "'w exec_env \<Rightarrow> plan_step \<Rightarrow> jstext \<Rightarrow> json \<Rightarrow> 'w exec_ctx \<Rightarrow> 'w handled" where
  "pass_through env s out v c =
     (Ok (Completed [out]), publish (Ev_llm_step_skipped (st_id s) out
        (if xe_summarize env = None then ''no model client is configured for this run''
         else ''no sanitizer is configured for this run'')) (set_capture out v c))"

text \<open>The rows left out are those that parse as an error row: an object with a non-empty \<open>__error\<close> text.\<close>

definition parses_as_error_row :: "json \<Rightarrow> bool" where
  "parses_as_error_row r = (case r of
     J_obj kvs \<Rightarrow> (case map_get kvs ''__error'' of Some (J_str t) \<Rightarrow> t \<noteq> [] | _ \<Rightarrow> False) | _ \<Rightarrow> False)"

definition summary_payload :: "json \<Rightarrow> jstext + json" where
  "summary_payload v =
     (if is_object v \<and> json_member v ''rows'' \<noteq> None \<and> json_member v ''metadata'' \<noteq> None
      then (case json_member v ''rows'' of
          Some (J_arr rows) \<Rightarrow> Ok (J_obj [(''rows'', J_arr (filter (\<lambda>r. \<not> parses_as_error_row r) rows))])
        | _ \<Rightarrow> Err ''envelope.rows.filter is not a function'')
      else Ok v)"

definition current_scope :: "'w exec_env \<Rightarrow> 'w exec_ctx \<Rightarrow> security_scope" where
  "current_scope env c = (case nth_opt (xe_scopes env) (xc_idx c) of
     Some sc \<Rightarrow> sc | None \<Rightarrow> pl_default_scope (xe_plan env))"

definition handle_llm_summarize :: "'w exec_env \<Rightarrow> plan_step \<Rightarrow> capture_ref \<Rightarrow> jstext \<Rightarrow> jstext \<Rightarrow> 'w exec_ctx \<Rightarrow> 'w handled" where
  "handle_llm_summarize env s input prompt out c = (case map_get (xc_captures c) (cr_step input) of
     None \<Rightarrow> (Ok (Step_failed Unexpected (''llm_summarize step '' @ quoted (st_id s) @ '': capture '' @
       quoted (cr_step input) @ '' not found.'')), c)
   | Some v \<Rightarrow> (case (xe_sanitize env, xe_summarize env) of
       (Some sanitize, Some summarize) \<Rightarrow> (case summary_payload v of
           Inl msg \<Rightarrow> (Err msg, c)
         | Inr payload \<Rightarrow> (case summarize (sanitize payload (current_scope env c)) prompt (xc_world c) of
               (Inl msg, w) \<Rightarrow> (Ok (Step_failed Unexpected msg), c\<lparr>xc_world := w\<rparr>)
             | (Inr t, w) \<Rightarrow> (Ok (Completed [out]), set_capture out (J_str t) (c\<lparr>xc_world := w\<rparr>))))
     | _ \<Rightarrow> pass_through env s out v c))"

definition handle_fill_element :: "'w exec_env \<Rightarrow> plan_step \<Rightarrow> 'w exec_ctx \<Rightarrow> 'w handled" where
  "handle_fill_element env s c = (case xe_fill_element env s (xc_captures c) (xc_budgets c) (xc_world c) of
     (r, w) \<Rightarrow> (r, c\<lparr>xc_world := w\<rparr>))"

subsection \<open>Loops and dispatch\<close>

definition PROTOCOL_MAX_LOOP_ITERATIONS :: nat where
  "PROTOCOL_MAX_LOOP_ITERATIONS = 1000"

definition type_name :: "json option \<Rightarrow> jstext" where
  "type_name v = (case v of
     None \<Rightarrow> ''undefined'' | Some (J_bool _) \<Rightarrow> ''boolean'' | Some (J_num _) \<Rightarrow> ''number''
   | Some (J_str _) \<Rightarrow> ''string'' | Some _ \<Rightarrow> ''object'')"

text \<open>The collection; a loop over a param is empty, as in the code.\<close>

definition resolve_collection :: "collection_ref \<Rightarrow> capture_store \<Rightarrow> jstext + json option" where
  "resolve_collection over store = (case over of
     Over_param _ \<Rightarrow> Ok (Some (J_arr []))
   | Over_capture r \<Rightarrow> (case map_get store (cr_step r) of
       None \<Rightarrow> Err (''Loop: capture step '' @ quoted (cr_step r) @ '' not found.'')
     | Some raw \<Rightarrow> (case cr_field r of
         None \<Rightarrow> Ok (Some raw)
       | Some f \<Rightarrow> if is_object raw then Ok (json_member raw f)
           else Err (''Loop: capture '' @ quoted (cr_step r) @ '' is not an object.''))))"

definition step_by_id :: "plan \<Rightarrow> jstext \<Rightarrow> plan_step option" where
  "step_by_id p k = Option.bind (plan_index p k) (nth_opt (pl_steps p))"

type_synonym 'w dispatcher = "plan_step \<Rightarrow> 'w exec_ctx \<Rightarrow> 'w handled option"

text \<open>One pass over the body: it goes on while the steps complete.\<close>

fun run_body :: "'w dispatcher \<Rightarrow> plan \<Rightarrow> jstext list \<Rightarrow> 'w exec_ctx \<Rightarrow> 'w handled option" where
  "run_body d p [] c = Some (Ok (Completed []), c)"
| "run_body d p (i # is) c = (case step_by_id p i of
     None \<Rightarrow> run_body d p is c
   | Some s \<Rightarrow> (case d s c of
       None \<Rightarrow> None
     | Some (Inr (Completed _), c') \<Rightarrow> run_body d p is c'
     | Some (r, c') \<Rightarrow> Some (r, c')))"

fun run_items :: "'w dispatcher \<Rightarrow> plan \<Rightarrow> loop_spec \<Rightarrow> json list \<Rightarrow> 'w exec_ctx \<Rightarrow> 'w handled option" where
  "run_items d p l [] c = Some (Ok (Completed []), c)"
| "run_items d p l (v # vs) c = (case run_body d p (lp_body l) (set_capture (lp_as l) v c) of
     None \<Rightarrow> None
   | Some (Inr (Completed _), c') \<Rightarrow> run_items d p l vs c'
   | Some (r, c') \<Rightarrow> Some (r, c'))"

definition handle_loop :: "'w dispatcher \<Rightarrow> plan \<Rightarrow> plan_step \<Rightarrow> loop_spec \<Rightarrow> 'w exec_ctx \<Rightarrow> 'w handled option" where
  "handle_loop d p s l c = (case resolve_collection (lp_over l) (xc_captures c) of
     Inl msg \<Rightarrow> Some (Err msg, c)
   | Inr (Some (J_arr vs)) \<Rightarrow>
       (if PROTOCOL_MAX_LOOP_ITERATIONS < length vs then
          Some (Ok (Step_failed Budget_exhausted (''Loop step '' @ quoted (st_id s) @ '': collection length '' @
            show_nat (length vs) @ '' exceeds PROTOCOL_MAX_LOOP_ITERATIONS ('' @
            show_nat PROTOCOL_MAX_LOOP_ITERATIONS @ '').'')), c)
        else (case find (\<lambda>i. plan_index p i = None) (lp_body l) of
            Some i \<Rightarrow> Some (Ok (Step_failed Validation_error (''Loop step '' @ quoted (st_id s) @ '': body step ID '' @
              quoted i @ '' not found in plan.'')), c)
          | None \<Rightarrow> run_items d p l
              (take (min (length vs) (min (lp_max l) PROTOCOL_MAX_LOOP_ITERATIONS)) vs) c))
   | Inr v \<Rightarrow> Some (Ok (Step_failed Unexpected (''Loop step '' @ quoted (st_id s) @
       '': \"over\" resolved to a non-array value ('' @ type_name v @ '').'')), c))"

text \<open>
  \<open>STEP_DISPATCH\<close>. A loop dispatches its body steps itself, without the executor; the fuel bounds the
  depth of that recursion and the polls of a wait. \<open>None\<close> is a call that has not returned within it.
\<close>

fun dispatch :: "nat \<Rightarrow> 'w exec_env \<Rightarrow> 'w dispatcher" where
  "dispatch 0 env s c = None"
| "dispatch (Suc n) env s c =
     (let c = log_action (Dispatched (st_id s)) c in
      case st_body s of
        Navigate_step _ url \<Rightarrow> Some (handle_navigate env url c)
      | Click_step _ l mods \<Rightarrow> Some (handle_click env s l mods c)
      | Fill_step _ l v submit \<Rightarrow> Some (handle_fill env s l v submit c)
      | Fill_element_step _ _ _ _ _ \<Rightarrow> Some (handle_fill_element env s c)
      | Extract_step l schema alias \<Rightarrow> Some (handle_extract env s l schema alias c)
      | Wait_for_step l state timeout \<Rightarrow> handle_wait_for n env s l state timeout c
      | Assert_step l condition \<Rightarrow> Some (handle_assert env s l condition c)
      | Branch_step b t e \<Rightarrow> Some (handle_branch b t e c)
      | Loop_step l \<Rightarrow> handle_loop (dispatch n env) (xe_plan env) s l c
      | Call_workflow_step w _ _ \<Rightarrow> Some (handle_call_workflow s w c)
      | Llm_summarize_step r prompt out \<Rightarrow> Some (handle_llm_summarize env s r prompt out c))"

section \<open>Lemmas\<close>

subsection \<open>What a handler leaves alone\<close>

text \<open>Everything but the captures, the evidence and the world, with a log extended only by actions in a given set.\<close>

definition quiet :: "exec_action set \<Rightarrow> 'w exec_ctx \<Rightarrow> 'w exec_ctx \<Rightarrow> bool" where
  "quiet A c c' \<longleftrightarrow> xc_budgets c' = xc_budgets c \<and> xc_closed c' = xc_closed c \<and> xc_page c' = xc_page c \<and>
     xc_host c' = xc_host c \<and> xc_idx c' = xc_idx c \<and> (\<exists>l. xc_log c' = xc_log c @ l \<and> set l \<subseteq> A)"

definition skip_events :: "exec_action set" where
  "skip_events = {a. \<exists>i out reason. a = Emitted (Ev_llm_step_skipped i out reason)}"

definition loop_body_ids :: "plan \<Rightarrow> jstext set" where
  "loop_body_ids p = {i. \<exists>s \<in> set (pl_steps p). \<exists>l. st_body s = Loop_step l \<and> i \<in> set (lp_body l)}"

definition body_actions :: "plan \<Rightarrow> exec_action set" where
  "body_actions p = skip_events \<union> Dispatched ` loop_body_ids p"

lemma quiet_refl [simp]: "quiet A c c"
  by (auto simp: quiet_def)

lemma quiet_trans: "quiet A c c' \<Longrightarrow> quiet A c' c'' \<Longrightarrow> quiet A c c''"
  by (auto simp: quiet_def)

lemma quiet_mono: "quiet A c c' \<Longrightarrow> A \<subseteq> B \<Longrightarrow> quiet B c c'"
  by (fastforce simp: quiet_def)

lemma quiet_world [simp]: "quiet A c (c\<lparr>xc_world := w\<rparr>)"
  by (auto simp: quiet_def)

lemma quiet_world_right [simp]: "quiet A c (c'\<lparr>xc_world := w\<rparr>) = quiet A c c'"
  by (auto simp: quiet_def)

lemma quiet_capture [simp]: "quiet A c (set_capture k v c') = quiet A c c'"
  by (auto simp: quiet_def set_capture_def)

lemma quiet_log: "a \<in> A \<Longrightarrow> quiet A c (log_action a c)"
  by (auto simp: quiet_def log_action_def)

lemma quiet_publish: "Emitted e \<in> A \<Longrightarrow> quiet A c (publish e c)"
  by (simp add: publish_def quiet_log)

lemma resolve_locator_chain_quiet:
  "resolve_locator_chain env l i need t c = (r, c') \<Longrightarrow> quiet A c c'"
  by (auto simp: resolve_locator_chain_def split: if_splits sum.splits option.splits prod.splits)

lemma fill_text_quiet: "fill_text env v c = (r, c') \<Longrightarrow> quiet A c c'"
  by (auto simp: fill_text_def split: value_ref.splits option.splits prod.splits)

lemma record_evidence_quiet: "quiet A c (record_evidence env s raw rows c') = quiet A c c'"
  by (auto simp: record_evidence_def quiet_def Let_def split: option.splits prod.splits)

lemma needs_browser_quiet: "needs_browser n c = (r, c') \<Longrightarrow> quiet A c c'"
  by (auto simp: needs_browser_def)

lemma retry_or_fail_ctx: "retry_or_fail reason n k d c = (r, c') \<Longrightarrow> c' = c"
  by (auto simp: retry_or_fail_def)

lemma handle_click_quiet: "handle_click env s l m c = (r, c') \<Longrightarrow> quiet A c c'"
  by (auto simp: handle_click_def dest: needs_browser_quiet resolve_locator_chain_quiet retry_or_fail_ctx
      split: if_splits prod.splits sum.splits located.splits)

lemma handle_fill_quiet: "handle_fill env s l v b c = (r, c') \<Longrightarrow> quiet A c c'"
  by (auto simp: handle_fill_def dest: needs_browser_quiet resolve_locator_chain_quiet retry_or_fail_ctx
      intro: quiet_trans [OF resolve_locator_chain_quiet fill_text_quiet]
      split: if_splits prod.splits sum.splits located.splits)

lemma check_assert_quiet: "check_assert env s cnd loc c = (r, c') \<Longrightarrow> quiet A c c'"
  by (auto simp: check_assert_def assert_text_def split: assert_condition.splits located.splits prod.splits sum.splits if_splits)

lemma handle_assert_quiet:
  assumes "handle_assert env s l cnd c = (r, c')"
  shows "quiet A c c'"
proof (cases "browser_ready c")
  case True
  obtain x c1 where loc: "resolve_locator_chain env l (st_id s) Need_visible DEFAULT_ACTIONABLE_TIMEOUT_MS
      (c\<lparr>xc_world := xe_settle_read env (xc_world c)\<rparr>) = (x, c1)" by fastforce
  have "quiet A c c1" using quiet_trans [OF quiet_world resolve_locator_chain_quiet [OF loc]] .
  then show ?thesis
    using assms True loc check_assert_quiet quiet_trans
    by (cases x) (auto simp: handle_assert_def intro: quiet_trans [OF _ check_assert_quiet])
qed (use assms in \<open>simp add: handle_assert_def needs_browser_quiet\<close>)

lemma navigated_quiet: "navigated env url r c = (x, c') \<Longrightarrow> quiet A c c'"
  by (auto simp: navigated_def Let_def split: goto_outcome.splits option.splits if_splits)

lemma handle_navigate_quiet: "handle_navigate env v c = (r, c') \<Longrightarrow> quiet A c c'"
  by (auto simp: handle_navigate_def intro: quiet_trans [OF quiet_world navigated_quiet]
      split: sum.splits prod.splits ethics_verdict.splits if_splits)

lemma handle_extract_quiet:
  assumes "handle_extract env s l schema alias c = (r, c')"
  shows "quiet A c c'"
proof (cases "browser_ready c")
  case True
  obtain x c1 where loc: "resolve_locator_chain env l (st_id s) Need_visible DEFAULT_ACTIONABLE_TIMEOUT_MS
      (c\<lparr>xc_world := xe_settle_read env (xc_world c)\<rparr>) = (x, c1)" by fastforce
  have "quiet A c c1" using quiet_trans [OF quiet_world resolve_locator_chain_quiet [OF loc]] .
  then show ?thesis
    using assms True loc
    by (auto simp: handle_extract_def record_evidence_quiet Let_def dest: retry_or_fail_ctx
        split: sum.splits located.splits prod.splits)
qed (use assms in \<open>simp add: handle_extract_def needs_browser_quiet\<close>)

lemma handle_llm_summarize_quiet:
  assumes "handle_llm_summarize env s i p out c = (r, c')" and "skip_events \<subseteq> A"
  shows "quiet A c c'"
proof -
  have skip: "quiet A c (publish (Ev_llm_step_skipped a b d) (set_capture k v c))" for a b d k v
    using assms(2) by (intro quiet_trans [OF _ quiet_publish]) (auto simp: skip_events_def)
  show ?thesis
    using assms(1) skip
    by (auto simp: handle_llm_summarize_def pass_through_def split: option.splits sum.splits prod.splits)
qed

lemma poll_gone_quiet: "poll_gone n env s l need t late c = Some (r, c') \<Longrightarrow> quiet A c c'"
proof (induction n arbitrary: c)
  case (Suc n)
  obtain x c1 where loc: "resolve_locator_chain env l (st_id s) need PROBE_TIMEOUT_MS c = (x, c1)" by fastforce
  note q = resolve_locator_chain_quiet [OF loc, of A]
  have "quiet A c c'" if "poll_gone n env s l need t late (c1\<lparr>xc_world := w\<rparr>) = Some (r, c')" for w
    using quiet_trans [OF _ Suc.IH [OF that], of c] q by simp
  then show ?case using Suc.prems loc q by (auto split: if_splits sum.splits located.splits)
qed simp

lemma handle_wait_for_quiet:
  assumes "handle_wait_for n env s l state t c = Some (r, c')"
  shows "quiet A c c'"
proof (cases "browser_ready c \<and> (state = Wait_visible \<or> state = Wait_attached)")
  case True
  obtain x c1 where loc: "resolve_locator_chain env l (st_id s) (if state = Wait_visible then Need_visible else Need_attached)
      (case t of Some t \<Rightarrow> t | None \<Rightarrow> 30000) c = (x, c1)" by fastforce
  then show ?thesis using assms True resolve_locator_chain_quiet [OF loc, of A]
    by (auto simp: handle_wait_for_def Let_def split: sum.splits located.splits)
next
  case False
  then show ?thesis using assms poll_gone_quiet needs_browser_quiet
    by (auto simp: handle_wait_for_def Let_def needs_browser_def split: if_splits)
qed

subsection \<open>Steps by id\<close>

lemma index_fold_Some:
  "map_get (foldl (\<lambda>m (i, s). map_set (st_id s) i m) m (enumerate n ss)) k = Some i \<Longrightarrow>
     map_get m k = Some i \<or> (\<exists>j < length ss. i = n + j \<and> st_id (ss ! j) = k)"
proof (induction ss arbitrary: n m)
  case (Cons s ss)
  from Cons.IH [of "map_set (st_id s) n m" "Suc n"] Cons.prems
  consider "map_get (map_set (st_id s) n m) k = Some i"
    | j where "j < length ss" "i = Suc n + j" "st_id (ss ! j) = k" by auto
  then show ?case
  proof cases
    case 1
    then show ?thesis by (cases "k = st_id s") auto
  next
    case 2
    then show ?thesis by (intro disjI2 exI [of _ "Suc j"]) auto
  qed
qed simp

lemma index_fold_None:
  "map_get (foldl (\<lambda>m (i, s). map_set (st_id s) i m) m (enumerate n ss)) k = None \<longleftrightarrow>
     map_get m k = None \<and> k \<notin> st_id ` set ss"
  by (induction ss arbitrary: n m) auto

lemma plan_index_Some: "plan_index p k = Some i \<Longrightarrow> i < length (pl_steps p) \<and> st_id (pl_steps p ! i) = k"
  using index_fold_Some [of "[]" 0 "pl_steps p" k i] by (auto simp: plan_index_def)

lemma plan_index_None: "plan_index p k = None \<longleftrightarrow> k \<notin> st_id ` set (pl_steps p)"
  using index_fold_None [of "[]" 0 "pl_steps p" k] by (simp add: plan_index_def)

lemma step_by_id_Some: "step_by_id p k = Some s \<Longrightarrow> s \<in> set (pl_steps p) \<and> st_id s = k"
  using plan_index_Some by (fastforce simp: step_by_id_def bind_eq_Some_conv)

lemma step_by_id_known: "k \<in> st_id ` set (pl_steps p) \<Longrightarrow> step_by_id p k \<noteq> None"
  using plan_index_None plan_index_Some by (fastforce simp: step_by_id_def nth_opt_def split: option.splits)

subsection \<open>Dispatch\<close>

lemma run_body_quiet:
  assumes step: "\<And>s c r c'. s \<in> set (pl_steps p) \<Longrightarrow> st_id s \<in> set is \<Longrightarrow> d s c = Some (r, c') \<Longrightarrow> quiet A c c'"
    and run: "run_body d p is c = Some (r, c')"
  shows "quiet A c c'"
  using assms
proof (induction "is" arbitrary: c)
  case (Cons i "is")
  have rest: "quiet A c1 c'" if "run_body d p is c1 = Some (r, c')" for c1
    using Cons.IH [OF Cons.prems(1) that] by simp
  show ?case
  proof (cases "step_by_id p i")
    case None
    then show ?thesis using rest Cons.prems(2) by simp
  next
    case (Some s)
    obtain x c1 where d: "d s c = Some (x, c1)" using Cons.prems(2) Some by (auto split: option.splits)
    have "quiet A c c1" using Cons.prems(1) [OF _ _ d] step_by_id_Some [OF Some] by simp
    then show ?thesis
      using Cons.prems(2) Some d rest by (auto intro: quiet_trans split: sum.splits step_result.splits)
  qed
qed simp

lemma run_items_quiet:
  assumes step: "\<And>s c r c'. s \<in> set (pl_steps p) \<Longrightarrow> st_id s \<in> set (lp_body l) \<Longrightarrow> d s c = Some (r, c') \<Longrightarrow> quiet A c c'"
    and run: "run_items d p l vs c = Some (r, c')"
  shows "quiet A c c'"
  using run
proof (induction vs arbitrary: c)
  case (Cons v vs)
  obtain x c1 where body: "run_body d p (lp_body l) (set_capture (lp_as l) v c) = Some (x, c1)"
    using Cons.prems by (auto split: option.splits)
  have "quiet A (set_capture (lp_as l) v c) c1" by (rule run_body_quiet [OF step body])
  then have "quiet A c c1" by (auto simp: quiet_def set_capture_def)
  then show ?case using Cons.prems body Cons.IH
    by (auto intro: quiet_trans split: sum.splits step_result.splits)
qed simp

lemma handle_loop_quiet:
  assumes "\<And>s c r c'. s \<in> set (pl_steps p) \<Longrightarrow> st_id s \<in> set (lp_body l) \<Longrightarrow> d s c = Some (r, c') \<Longrightarrow> quiet A c c'"
    and "handle_loop d p s l c = Some (r, c')"
  shows "quiet A c c'"
  using assms(2) run_items_quiet [OF assms(1)]
  by (auto simp: handle_loop_def split: sum.splits option.splits json.splits if_splits)

text \<open>A dispatched step invokes only steps of loop bodies, publishes only skip notices and spends no retries.\<close>

lemma dispatch_quiet:
  "s \<in> set (pl_steps (xe_plan env)) \<Longrightarrow> dispatch n env s c = Some (r, c') \<Longrightarrow>
     quiet (body_actions (xe_plan env)) (log_action (Dispatched (st_id s)) c) c'"
proof (induction n arbitrary: s c r c')
  case (Suc n)
  let ?A = "body_actions (xe_plan env)"
  have loop: "quiet ?A c1 c'" if l: "st_body s = Loop_step l" and h: "handle_loop (dispatch n env) (xe_plan env) s l c1 = Some (r, c')" for l c1
  proof (rule handle_loop_quiet [OF _ h])
    fix s' c2 r2 c3
    assume s': "s' \<in> set (pl_steps (xe_plan env))" "st_id s' \<in> set (lp_body l)" "dispatch n env s' c2 = Some (r2, c3)"
    have "Dispatched (st_id s') \<in> ?A"
      using Suc.prems(1) l s'(2) by (auto simp: body_actions_def loop_body_ids_def)
    then show "quiet ?A c2 c3" using quiet_trans [OF quiet_log Suc.IH [OF s'(1,3)]] by blast
  qed
  have skip: "skip_events \<subseteq> ?A" by (simp add: body_actions_def)
  show ?case
    using Suc.prems(2) loop handle_llm_summarize_quiet [OF _ skip]
    by (cases "st_body s")
      (auto simp: Let_def handle_branch_def handle_call_workflow_def handle_fill_element_def
        intro: handle_navigate_quiet handle_click_quiet handle_fill_quiet handle_extract_quiet
          handle_wait_for_quiet handle_assert_quiet split: prod.splits)
qed simp

subsection \<open>Dispatch returns\<close>

text \<open>Every poll of a wait, the probe and the sleep, takes at least a millisecond on the run's clock.\<close>

definition clock_advances :: "'w exec_env \<Rightarrow> bool" where
  "clock_advances env \<longleftrightarrow>
     (\<forall>chain need t w. xe_now env w < xe_now env (xe_sleep env 100 (snd (xe_resolve env chain need t w))))"

text \<open>Loops nest: the steps of a loop's body rank below the loop.\<close>

definition loops_ranked :: "(jstext \<Rightarrow> nat) \<Rightarrow> plan \<Rightarrow> bool" where
  "loops_ranked rank p \<longleftrightarrow> (\<forall>s \<in> set (pl_steps p). \<forall>l. st_body s = Loop_step l \<longrightarrow>
     (\<forall>i \<in> set (lp_body l). rank i < rank (st_id s)))"

definition timeout_ms :: "plan_step \<Rightarrow> nat" where
  "timeout_ms s = (case st_body s of
     Wait_for_step _ _ t \<Rightarrow> (case t of Some ms \<Rightarrow> ms | None \<Rightarrow> 30000) | _ \<Rightarrow> 0)"

lemma found_world:
  assumes "resolve_locator_chain env l i need t c = (Inr (Found n h), c')"
  shows "\<exists>chain. xc_world c' = snd (xe_resolve env chain need t (xc_world c))"
  using assms
  by (auto simp: resolve_locator_chain_def split: if_splits sum.splits option.splits prod.splits resolve_outcome.splits)
    (metis snd_conv)

lemma poll_gone_returns:
  "clock_advances env \<Longrightarrow> deadline - xe_now env (xc_world c) < n \<Longrightarrow> poll_gone n env s l need deadline late c \<noteq> None"
proof (induction n arbitrary: c)
  case (Suc n)
  obtain x c1 where loc: "resolve_locator_chain env l (st_id s) need PROBE_TIMEOUT_MS c = (x, c1)" by fastforce
  have "poll_gone n env s l need deadline late (c1\<lparr>xc_world := xe_sleep env 100 (xc_world c1)\<rparr>) \<noteq> None"
    if before: "xe_now env (xc_world c) < deadline" and found: "x = Inr (Found k h)" for k h
  proof (rule Suc.IH [OF Suc.prems(1)])
    obtain chain where "xc_world c1 = snd (xe_resolve env chain need PROBE_TIMEOUT_MS (xc_world c))"
      using found_world loc found by blast
    then have "xe_now env (xc_world c) < xe_now env (xe_sleep env 100 (xc_world c1))"
      using Suc.prems(1) by (simp add: clock_advances_def)
    then show "deadline - xe_now env (xc_world (c1\<lparr>xc_world := xe_sleep env 100 (xc_world c1)\<rparr>)) < n"
      using Suc.prems(2) before by simp
  qed
  then show ?case using loc by (auto split: sum.splits located.splits)
qed simp

lemma handle_wait_for_returns:
  assumes "clock_advances env" and "st_body s = Wait_for_step l state t" and "timeout_ms s < n"
  shows "handle_wait_for n env s l state t c \<noteq> None"
  using assms poll_gone_returns [OF assms(1)] by (auto simp: handle_wait_for_def Let_def timeout_ms_def)

lemma run_body_returns:
  assumes "\<And>s c. s \<in> set (pl_steps p) \<Longrightarrow> st_id s \<in> set is \<Longrightarrow> d s c \<noteq> None"
  shows "run_body d p is c \<noteq> None"
  using assms
proof (induction "is" arbitrary: c)
  case (Cons i "is")
  have rest: "run_body d p is c1 \<noteq> None" for c1 using Cons.IH Cons.prems by simp
  show ?case
  proof (cases "step_by_id p i")
    case (Some s)
    have "d s c \<noteq> None" using Cons.prems step_by_id_Some [OF Some] by simp
    then show ?thesis using Some rest by (auto split: option.splits sum.splits step_result.splits)
  qed (use rest in simp)
qed simp

lemma run_items_returns:
  assumes "\<And>s c. s \<in> set (pl_steps p) \<Longrightarrow> st_id s \<in> set (lp_body l) \<Longrightarrow> d s c \<noteq> None"
  shows "run_items d p l vs c \<noteq> None"
proof (induction vs arbitrary: c)
  case (Cons v vs)
  have "run_body d p (lp_body l) (set_capture (lp_as l) v c) \<noteq> None"
    by (rule run_body_returns) (rule assms)
  then obtain x c1 where "run_body d p (lp_body l) (set_capture (lp_as l) v c) = Some (x, c1)" by force
  then show ?case using Cons by (auto split: sum.splits step_result.splits)
qed simp

lemma handle_loop_returns:
  assumes "\<And>s c. s \<in> set (pl_steps p) \<Longrightarrow> st_id s \<in> set (lp_body l) \<Longrightarrow> d s c \<noteq> None"
  shows "handle_loop d p s l c \<noteq> None"
proof -
  have "run_items d p l vs c \<noteq> None" for vs c by (rule run_items_returns) (rule assms)
  then show ?thesis by (auto simp: handle_loop_def split: sum.splits option.splits json.splits)
qed

lemma dispatch_returns:
  assumes "clock_advances env" and "loops_ranked rank (xe_plan env)"
    and waits: "\<And>s. s \<in> set (pl_steps (xe_plan env)) \<Longrightarrow> timeout_ms s \<le> wl"
  shows "s \<in> set (pl_steps (xe_plan env)) \<Longrightarrow> rank (st_id s) + wl + 1 < n \<Longrightarrow> dispatch n env s c \<noteq> None"
proof (induction n arbitrary: s c)
  case (Suc n)
  have loop: "handle_loop (dispatch n env) (xe_plan env) s l c1 \<noteq> None" if l: "st_body s = Loop_step l" for l c1
  proof (rule handle_loop_returns)
    fix s' c2
    assume s': "s' \<in> set (pl_steps (xe_plan env))" "st_id s' \<in> set (lp_body l)"
    then have "rank (st_id s') < rank (st_id s)"
      using assms(2) Suc.prems(1) l by (auto simp: loops_ranked_def)
    then show "dispatch n env s' c2 \<noteq> None" using Suc.IH [OF s'(1)] Suc.prems(2) by simp
  qed
  have "timeout_ms s < n" using waits [OF Suc.prems(1)] Suc.prems(2) by simp
  then show ?case
    using loop handle_wait_for_returns [OF assms(1)] by (cases "st_body s") (simp_all add: Let_def)
qed simp

text \<open>A loop that lists itself in its body never returns, although the validator accepts it.\<close>

lemma self_loop_never_returns:
  assumes "st_body s = Loop_step l" and "lp_body l = [st_id s]" and "step_by_id (xe_plan env) (st_id s) = Some s"
    and "lp_over l = Over_capture r" and "cr_field r = None" and "lp_as l \<noteq> cr_step r" and "0 < lp_max l"
    and "vs \<noteq> []" and "length vs \<le> 1000"
  shows "map_get (xc_captures c) (cr_step r) = Some (J_arr vs) \<Longrightarrow> dispatch n env s c = None"
proof (induction n arbitrary: c)
  case (Suc n)
  obtain v vs' where vs: "vs = v # vs'" using assms(8) by (cases vs) auto
  let ?k = "min (length vs) (min (lp_max l) PROTOCOL_MAX_LOOP_ITERATIONS)"
  let ?c = "log_action (Dispatched (st_id s)) c"
  have take: "take ?k vs = v # take (?k - 1) vs'"
    using assms(7) by (simp add: vs PROTOCOL_MAX_LOOP_ITERATIONS_def take_Cons' )
  have "dispatch n env s (set_capture (lp_as l) v ?c) = None"
    using assms(6) Suc.prems by (intro Suc.IH) (simp add: set_capture_def log_action_def)
  then have "run_items (dispatch n env) (xe_plan env) l (take ?k vs) ?c = None"
    using assms(2,3) by (simp add: take)
  moreover have "find (\<lambda>i. plan_index (xe_plan env) i = None) (lp_body l) = None"
    using assms(2,3) by (cases "plan_index (xe_plan env) (st_id s)") (auto simp: step_by_id_def)
  moreover have "resolve_collection (lp_over l) (xc_captures ?c) = Ok (Some (J_arr vs))"
    using assms(4,5) Suc.prems by (simp add: resolve_collection_def log_action_def)
  ultimately show ?case
    using assms(1,9) by (simp add: handle_loop_def PROTOCOL_MAX_LOOP_ITERATIONS_def)
qed simp

subsection \<open>Captured fields\<close>

text \<open>
  The stored envelope has the members \<open>rows\<close> and \<open>metadata\<close> only, so a field of the extraction schema,
  which is what the validator asks for, is never found in it.
\<close>

lemma envelope_members:
  "json_member (extraction_envelope rows) f \<noteq> None \<longleftrightarrow> f = ''rows'' \<or> f = ''metadata''"
  by (auto simp: extraction_envelope_def json_member_def Let_def)

lemma schema_field_never_resolves:
  assumes "map_get store (cr_step r) = Some (extraction_envelope rows)" and "cr_field r = Some f"
    and "f \<noteq> ''rows''" and "f \<noteq> ''metadata''"
  shows "resolve_capture r store = Err (''Capture field '' @ quoted f @ '' not found in step '' @ quoted (cr_step r) @ ''.'')"
proof -
  have "json_member (extraction_envelope rows) f = None" using envelope_members assms(3,4) by blast
  moreover have "is_object (extraction_envelope rows)" by (simp add: extraction_envelope_def is_object_def Let_def)
  ultimately show ?thesis using assms(1,2) by (simp add: resolve_capture_def)
qed

end
