(* ===== verification/Executor.thy ===== *)
theory Executor
  imports StepHandlers
begin

text \<open>
  The plan executor, \<open>packages/core/src/executor/executor.ts\<close>, with the creation and the restoration of its
  context (\<open>execution-context.ts\<close>): the walk over the steps, the consent checkpoint before a flagged step,
  retries, jumps, checkpoints, the terminal events and the outputs.

  A run is \<open>None\<close> when a handler has not returned within the fuel of \<open>dispatch\<close>; the cap on step executions
  is the code's own. The report file is left out.
\<close>

section \<open>Definitions\<close>

datatype plan_outcome =
    Plan_completed "jstext list"
  | Plan_failed failure_class
  | Plan_handoff
  | Plan_threw jstext

definition MAX_TOTAL_STEP_EXECUTIONS :: nat where
  "MAX_TOTAL_STEP_EXECUTIONS = 1000"

subsection \<open>The context\<close>

text \<open>The context is refused for an empty plan and for a repeated step id.\<close>

definition create_context ::
  "plan \<Rightarrow> nat option \<Rightarrow> nat option \<Rightarrow> nat option \<Rightarrow> bool \<Rightarrow> bool \<Rightarrow> evidence_ledger option \<Rightarrow> 'w \<Rightarrow> jstext + 'w exec_ctx" where
  "create_context p locator step workflow page host evidence w =
     (if pl_steps p = [] then Err (''Plan '' @ quoted (pl_id p) @ '' has no steps.'')
      else (case first_repeat st_id [] (pl_steps p) of
          Some s \<Rightarrow> Err (''Duplicate step ID '' @ quoted (st_id s) @ '' in plan '' @ quoted (pl_id p) @ ''.'')
        | None \<Rightarrow> Ok \<lparr>xc_idx = 0, xc_captures = [], xc_budgets = new_retry_budget locator step workflow,
            xc_page = page, xc_host = page \<and> host, xc_evidence = evidence, xc_closed = False, xc_log = [], xc_world = w\<rparr>))"

definition restore_context :: "run_checkpoint \<Rightarrow> 'w exec_ctx \<Rightarrow> 'w exec_ctx" where
  "restore_context cp c = c\<lparr>xc_idx := cp_idx cp + 1, xc_captures := restore_captures (cp_captures cp),
     xc_budgets := new_retry_budget (Some (lv_locator (cp_budgets cp))) (Some (lv_step (cp_budgets cp)))
       (Some (lv_workflow (cp_budgets cp))),
     xc_page := False, xc_host := False\<rparr>"

text \<open>The page is opened once, before the first step; \<open>Inl\<close> is what opening it throws.\<close>

definition ensure_browser :: "'w exec_env \<Rightarrow> 'w exec_ctx \<Rightarrow> jstext + 'w exec_ctx" where
  "ensure_browser env c =
     (if xc_page c then Ok (c\<lparr>xc_host := xc_host c \<or> xe_page_has_host env\<rparr>)
      else (case xe_browser env of
          None \<Rightarrow> Ok c
        | Some new_page \<Rightarrow> (case new_page (xc_world c) of
            (Inl msg, w) \<Rightarrow> Err msg
          | (Inr has_host, w) \<Rightarrow> Ok (c\<lparr>xc_page := True, xc_host := has_host, xc_world := w\<rparr>))))"

subsection \<open>Consent\<close>

definition hints_of :: "step_body \<Rightarrow> confirmation_hints option" where
  "hints_of b = (case b of
     Navigate_step h _ \<Rightarrow> Some h | Click_step h _ _ \<Rightarrow> Some h | Fill_step h _ _ _ \<Rightarrow> Some h
   | Fill_element_step h _ _ _ _ \<Rightarrow> Some h | _ \<Rightarrow> None)"

definition host_or_url :: "'w exec_env \<Rightarrow> jstext \<Rightarrow> jstext" where
  "host_or_url env url = (case xe_url_host env url of Some h \<Rightarrow> h | None \<Rightarrow> url)"

definition resolve_host_for_step :: "'w exec_env \<Rightarrow> plan_step \<Rightarrow> 'w exec_ctx \<Rightarrow> jstext" where
  "resolve_host_for_step env s c =
     (let page_host = (if xc_page c \<and> xe_page_url env (xc_world c) \<noteq> []
                       then host_or_url env (xe_page_url env (xc_world c)) else ''unknown'')
      in case st_body s of
        Navigate_step _ (Literal_value (J_str url)) \<Rightarrow> host_or_url env url
      | _ \<Rightarrow> page_host)"

definition build_request :: "'w exec_env \<Rightarrow> plan_step \<Rightarrow> 'w exec_ctx \<Rightarrow> confirmation_request \<times> 'w exec_ctx" where
  "build_request env s c =
     (let host = resolve_host_for_step env s c; hints = hints_of (st_body s) in
      case xe_ulid env (xc_world c) of (i, w) \<Rightarrow>
        (\<lparr>cq_id = i, cq_run = xe_run env, cq_step = st_id s, cq_verb = st_verb s, cq_host = host,
          cq_description = (case Option.bind hints ch_description of
             Some d \<Rightarrow> d | None \<Rightarrow> ''Execute '' @ verb_name (st_verb s) @ '' on '' @ host),
          cq_cost = Option.bind hints ch_cost,
          cq_consequence = (case Option.bind hints ch_consequence of
             Some l \<Rightarrow> l | None \<Rightarrow> Consequence_unknown)\<rparr>, c\<lparr>xc_world := w\<rparr>))"

definition store_entry :: "'w exec_env \<Rightarrow> confirmation_entry \<Rightarrow> 'w exec_ctx \<Rightarrow> 'w exec_ctx" where
  "store_entry env e c = (if xe_store env then log_action (Logged e) c else c)"

text \<open>What the gateway answers; a gateway that throws counts as a denial.\<close>

definition gateway_answer ::
  "(confirmation_request \<Rightarrow> 'w \<Rightarrow> (jstext + gateway_outcome) \<times> 'w) \<Rightarrow> confirmation_request \<Rightarrow> 'w exec_ctx \<Rightarrow>
   gateway_outcome \<times> 'w exec_ctx" where
  "gateway_answer g r c = (case g r (xc_world c) of
     (Inl msg, w) \<Rightarrow> (Decision \<lparr>cd_id = cq_id r, cd_verdict = Denied, cd_by = By_timeout\<rparr>, c\<lparr>xc_world := w\<rparr>)
   | (Inr answer, w) \<Rightarrow> (answer, c\<lparr>xc_world := w\<rparr>))"

text \<open>Whether the step may be dispatched. Without a gateway it may not.\<close>

definition confirmation_checkpoint :: "'w exec_env \<Rightarrow> plan_step \<Rightarrow> 'w exec_ctx \<Rightarrow> bool \<times> 'w exec_ctx" where
  "confirmation_checkpoint env s c = (case xe_gateway env of
     None \<Rightarrow> (False, c)
   | Some g \<Rightarrow> (case build_request env s c of (r, c1) \<Rightarrow>
       (case gateway_answer g r (publish (Ev_confirmation_requested r) (store_entry env (Requested r) c1)) of
          (Parked, c2) \<Rightarrow> (False, publish (Ev_human_handoff (st_id s) Handoff_other) c2)
        | (Decision d, c2) \<Rightarrow>
            (let c3 = publish (Ev_confirmation_resolved (cd_id d) (cd_verdict d) (cd_by d))
                   (store_entry env (Decided d) c2)
             in if cd_verdict d = Granted then (True, c3)
                else (False, publish (Ev_human_handoff (st_id s) Handoff_other) c3)))))"

subsection \<open>Steps\<close>

definition emit_failure :: "failure_class \<Rightarrow> 'w exec_ctx \<Rightarrow> 'w exec_ctx" where
  "emit_failure cls c = close_bus (publish (Ev_task_failed cls) c)"

text \<open>The handler again while it asks for a retry and the step budget lasts.\<close>

fun attempts :: "nat \<Rightarrow> nat \<Rightarrow> 'w exec_env \<Rightarrow> plan_step \<Rightarrow> nat \<Rightarrow> 'w exec_ctx \<Rightarrow> 'w handled option" where
  "attempts n 0 env s a c = None"
| "attempts n (Suc k) env s a c = (case dispatch n env s c of
     None \<Rightarrow> None
   | Some (Inr (Retried reason), c') \<Rightarrow>
       (if \<not> can_retry Retry_step (xc_budgets c') then
          Some (Ok (Step_failed Budget_exhausted
            (''Step retry budget exhausted after '' @ show_nat (Suc a) @ '' attempt(s).'')), c')
        else (case consume_retry Retry_step (xc_budgets c') of
            Inl (l, initial) \<Rightarrow> Some (Err ''Budget exhausted'', c')
          | Inr b \<Rightarrow> attempts n k env s (Suc a)
              (publish (Ev_step_retry (st_id s) (Suc a) reason) (c'\<lparr>xc_budgets := b\<rparr>))))
   | Some (r, c') \<Rightarrow> Some (r, c'))"

definition checkpoint_of :: "'w exec_env \<Rightarrow> plan_step \<Rightarrow> nat \<Rightarrow> 'w exec_ctx \<Rightarrow> run_checkpoint" where
  "checkpoint_of env s i c =
     \<lparr>cp_step = st_id s, cp_idx = i,
      cp_url = (if xc_page c then Some (xe_page_url env (xc_world c)) else None),
      cp_captures = capture_snapshot_of DEFAULT_INLINE_LIMIT_BYTES (xc_captures c),
      cp_scopes = xe_scopes env, cp_budgets = ry_remaining (xc_budgets c)\<rparr>"

text \<open>What a result does: the run ends with an outcome, or goes on at an index.\<close>

definition settle_step ::
  "'w exec_env \<Rightarrow> plan_step \<Rightarrow> nat \<Rightarrow> step_result \<Rightarrow> 'w exec_ctx \<Rightarrow> (plan_outcome + nat) \<times> 'w exec_ctx" where
  "settle_step env s i r c = (case r of
     Completed keys \<Rightarrow>
       (Inr (i + 1), publish (Ev_checkpoint_saved (st_id s))
          (log_action (Saved (checkpoint_of env s i c)) (publish (Ev_step_completed (st_id s) keys) c)))
   | Jump t \<Rightarrow>
       (let c' = publish (Ev_step_completed (st_id s) []) c in
        case plan_index (xe_plan env) t of
          None \<Rightarrow> (Inl (Plan_failed Unexpected), emit_failure Unexpected c')
        | Some j \<Rightarrow> (Inr j, c'))
   | Ethics_refusal _ _ _ \<Rightarrow>
       (Inl (Plan_failed Ethics_refused), emit_failure Ethics_refused
          (publish (Ev_scope_violation (case nth_opt (xe_scopes env) i of
             Some sc \<Rightarrow> sc | None \<Rightarrow> pl_default_scope (xe_plan env)) (st_verb s) (st_id s)) c))
   | Handoff_requested reason \<Rightarrow> (Inl Plan_handoff, publish (Ev_human_handoff (st_id s) reason) c)
   | Step_failed cls _ \<Rightarrow> (Inl (Plan_failed cls), emit_failure cls c)
   | Retried _ \<Rightarrow> (Inr i, c))"

definition run_step_handler :: "nat \<Rightarrow> 'w exec_env \<Rightarrow> plan_step \<Rightarrow> nat \<Rightarrow> 'w exec_ctx \<Rightarrow>
    ((plan_outcome + nat) \<times> 'w exec_ctx) option" where
  "run_step_handler n env s i c =
     (case attempts n (Suc (lv_step (ry_remaining (xc_budgets c)))) env s 0 c of
        None \<Rightarrow> None
      | Some (Inl msg, c') \<Rightarrow> Some (Inl (Plan_threw msg), c')
      | Some (Inr r, c') \<Rightarrow> Some (settle_step env s i r c'))"

definition execute_step :: "nat \<Rightarrow> 'w exec_env \<Rightarrow> nat \<Rightarrow> 'w exec_ctx \<Rightarrow>
    ((plan_outcome + nat) \<times> 'w exec_ctx) option" where
  "execute_step n env i c =
     (let s = pl_steps (xe_plan env) ! i;
          c1 = publish (Ev_step_started (st_id s) (st_verb s)) (c\<lparr>xc_idx := i\<rparr>)
      in if st_confirm s then (case confirmation_checkpoint env s c1 of
             (False, c2) \<Rightarrow> Some (Inl Plan_handoff, c2)
           | (True, c2) \<Rightarrow> run_step_handler n env s i c2)
         else run_step_handler n env s i c1)"

subsection \<open>Runs\<close>

definition output_keys :: "plan \<Rightarrow> capture_store \<Rightarrow> jstext list" where
  "output_keys p store = map ob_name (filter (\<lambda>o'. map_has store (cr_step (ob_from o'))) (pl_outputs p))"

text \<open>An output whose field the capture lacks is left out of the file.\<close>

definition output_values :: "plan \<Rightarrow> capture_store \<Rightarrow> (jstext, json) jsmap" where
  "output_values p store = foldl (\<lambda>m o'. case map_get store (cr_step (ob_from o')) of
       None \<Rightarrow> m
     | Some v \<Rightarrow> (case cr_field (ob_from o') of
         None \<Rightarrow> map_set (ob_name o') v m
       | Some f \<Rightarrow> if is_object v
           then (case json_member v f of Some x \<Rightarrow> map_set (ob_name o') x m | None \<Rightarrow> AList.delete (ob_name o') m)
           else map_set (ob_name o') J_null m)) [] (pl_outputs p)"

definition finish_run :: "'w exec_env \<Rightarrow> 'w exec_ctx \<Rightarrow> plan_outcome \<times> 'w exec_ctx" where
  "finish_run env c = (let keys = output_keys (xe_plan env) (xc_captures c) in
     (Plan_completed keys, close_bus (publish (Ev_task_completed keys)
        (log_action (Wrote_outputs (output_values (xe_plan env) (xc_captures c))) c))))"

fun execute_loop :: "nat \<Rightarrow> 'w exec_env \<Rightarrow> nat \<Rightarrow> nat \<Rightarrow> 'w exec_ctx \<Rightarrow> (plan_outcome \<times> 'w exec_ctx) option" where
  "execute_loop n env 0 i c =
     (if length (pl_steps (xe_plan env)) \<le> i then Some (finish_run env c)
      else Some (Plan_failed Budget_exhausted, emit_failure Budget_exhausted c))"
| "execute_loop n env (Suc left) i c =
     (if length (pl_steps (xe_plan env)) \<le> i then Some (finish_run env c)
      else (case execute_step n env i c of
          None \<Rightarrow> None
        | Some (Inl out, c') \<Rightarrow> Some (out, c')
        | Some (Inr j, c') \<Rightarrow> execute_loop n env left j c'))"

definition run_plan :: "nat \<Rightarrow> 'w exec_env \<Rightarrow> 'w exec_ctx \<Rightarrow> (plan_outcome \<times> 'w exec_ctx) option" where
  "run_plan n env c = (case validate_scope_violations (xe_url_hostname env) (xe_plan env) of
     v # _ \<Rightarrow> Some (Plan_failed Scope_violated, publish (Ev_task_failed Scope_violated)
       (publish (Ev_scope_violation (sv_scope v) (sv_verb v) (sv_step v)) c))
   | [] \<Rightarrow> (case ensure_browser env c of
       Inl msg \<Rightarrow> Some (Plan_threw msg, c)
     | Inr c' \<Rightarrow> execute_loop n env MAX_TOTAL_STEP_EXECUTIONS 0 (publish Ev_task_started c')))"

definition resume_from :: "nat \<Rightarrow> 'w exec_env \<Rightarrow> run_checkpoint \<Rightarrow> 'w exec_ctx \<Rightarrow> (plan_outcome \<times> 'w exec_ctx) option" where
  "resume_from n env cp c = execute_loop n env MAX_TOTAL_STEP_EXECUTIONS (cp_idx cp + 1) c"

section \<open>Reading the log\<close>

text \<open>A grant is good for the step it was asked for: it lapses when the next step starts.\<close>

definition consent_step :: "bool \<Rightarrow> exec_action \<Rightarrow> bool" where
  "consent_step g a = (case a of
     Emitted (Ev_step_started _ _) \<Rightarrow> False
   | Emitted (Ev_confirmation_resolved _ v _) \<Rightarrow> v = Granted
   | _ \<Rightarrow> g)"

text \<open>No step of \<open>F\<close> is dispatched without a grant that still holds.\<close>

fun consented :: "jstext set \<Rightarrow> bool \<Rightarrow> exec_action list \<Rightarrow> bool" where
  "consented F g [] = True"
| "consented F g (a # l) =
     ((case a of Dispatched k \<Rightarrow> k \<in> F \<longrightarrow> g | _ \<Rightarrow> True) \<and> consented F (consent_step g a) l)"

definition flagged_ids :: "plan \<Rightarrow> jstext set" where
  "flagged_ids p = st_id ` {s \<in> set (pl_steps p). st_confirm s}"

fun ends_plan :: "exec_action \<Rightarrow> bool" where
  "ends_plan (Emitted (Ev_task_failed _)) = True"
| "ends_plan (Emitted (Ev_task_completed _)) = True"
| "ends_plan _ = False"

fun step_start :: "exec_action \<Rightarrow> bool" where
  "step_start (Emitted (Ev_step_started _ _)) = True"
| "step_start _ = False"

fun retry_event :: "exec_action \<Rightarrow> bool" where
  "retry_event (Emitted (Ev_step_retry _ _ _)) = True"
| "retry_event _ = False"

text \<open>The flagged steps that are in no loop's body; a loop runs its body steps without asking.\<close>

definition guarded_ids :: "plan \<Rightarrow> jstext set" where
  "guarded_ids p = flagged_ids p - loop_body_ids p"

text \<open>The terminal events an outcome stands for: one for a completed or failed run, none for the others.\<close>

definition outcome_events :: "plan_outcome \<Rightarrow> exec_action list" where
  "outcome_events r = (case r of
     Plan_completed keys \<Rightarrow> [Emitted (Ev_task_completed keys)]
   | Plan_failed cls \<Rightarrow> [Emitted (Ev_task_failed cls)]
   | Plan_handoff \<Rightarrow> [] | Plan_threw _ \<Rightarrow> [])"

lemma consented_append:
  "consented F g (l @ l') \<longleftrightarrow> consented F g l \<and> consented F (foldl consent_step g l) l'"
  by (induction l arbitrary: g) auto

text \<open>Actions that neither ask nor answer for consent, nor start or end anything.\<close>

fun grant_event :: "exec_action \<Rightarrow> bool" where
  "grant_event (Emitted (Ev_confirmation_resolved _ v _)) = (v = Granted)"
| "grant_event _ = False"

definition step_actions :: "plan \<Rightarrow> jstext \<Rightarrow> exec_action set" where
  "step_actions p k = insert (Dispatched k) (body_actions p \<union> {a. \<exists>x r. a = Emitted (Ev_step_retry k x r)})"

lemma step_actions_consented:
  assumes "set l \<subseteq> step_actions p k" and "k \<in> guarded_ids p \<longrightarrow> g"
  shows "consented (guarded_ids p) g l \<and> foldl consent_step g l = g"
  using assms(1)
proof (induction l)
  case (Cons a l)
  then have a: "a \<in> step_actions p k" by simp
  then have "consent_step g a = g" "case a of Dispatched j \<Rightarrow> j \<in> guarded_ids p \<longrightarrow> g | _ \<Rightarrow> True"
    using assms(2) by (auto simp: step_actions_def guarded_ids_def body_actions_def skip_events_def consent_step_def)
  with Cons show ?case by simp
qed simp

lemma step_actions_silent:
  assumes "set l \<subseteq> step_actions p k"
  shows "filter ends_plan l = []" "filter step_start l = []" "filter grant_event l = []"
  using assms by (auto simp: filter_empty_conv step_actions_def body_actions_def skip_events_def)

lemma body_actions_no_retry: "set l \<subseteq> body_actions p \<Longrightarrow> filter retry_event l = []"
  by (auto simp: filter_empty_conv body_actions_def skip_events_def)

lemma log_publish: "\<not> xc_closed c \<Longrightarrow> xc_log (publish e c) = xc_log c @ [Emitted e]"
  by (simp add: publish_def log_action_def)

lemma publish_fields [simp]:
  "xc_closed (publish e c) = xc_closed c" "xc_budgets (publish e c) = xc_budgets c"
  "xc_captures (publish e c) = xc_captures c" "xc_page (publish e c) = xc_page c"
  "xc_world (publish e c) = xc_world c" "xc_host (publish e c) = xc_host c"
  by (simp_all add: publish_def log_action_def)

lemma log_action_fields [simp]:
  "xc_closed (log_action a c) = xc_closed c" "xc_budgets (log_action a c) = xc_budgets c"
  "xc_captures (log_action a c) = xc_captures c" "xc_page (log_action a c) = xc_page c"
  "xc_log (log_action a c) = xc_log c @ [a]"
  by (simp_all add: log_action_def)

text \<open>A context that went from one to another without closing the bus, and what was logged in between.\<close>

definition went_on :: "(exec_action list \<Rightarrow> bool) \<Rightarrow> 'w exec_ctx \<Rightarrow> 'w exec_ctx \<Rightarrow> bool" where
  "went_on P c c' \<longleftrightarrow> \<not> xc_closed c' \<and> (\<exists>l. xc_log c' = xc_log c @ l \<and> P l)"

section \<open>Lemmas\<close>

lemma dispatch_log:
  assumes "s \<in> set (pl_steps (xe_plan env))" and "dispatch n env s c = Some (r, c')" and "\<not> xc_closed c"
  shows "went_on (\<lambda>l. set l \<subseteq> step_actions (xe_plan env) (st_id s) \<and> filter retry_event l = []) c c' \<and>
    xc_budgets c' = xc_budgets c"
proof -
  note q = dispatch_quiet [OF assms(1,2)]
  then obtain l where l: "xc_log c' = xc_log c @ Dispatched (st_id s) # l" "set l \<subseteq> body_actions (xe_plan env)"
    by (auto simp: quiet_def)
  have "set (Dispatched (st_id s) # l) \<subseteq> step_actions (xe_plan env) (st_id s)"
    using l(2) by (auto simp: step_actions_def)
  moreover have "filter retry_event (Dispatched (st_id s) # l) = []"
    using body_actions_no_retry [OF l(2)] by simp
  ultimately show ?thesis using l(1) q assms(3) by (auto simp: went_on_def quiet_def)
qed

lemma consume_step:
  "consume_retry Retry_step b = Ok b' \<Longrightarrow> lv_step (ry_remaining b) = Suc (lv_step (ry_remaining b'))"
  using consume_retry_Ok(1) [of Retry_step b b'] by (simp add: level_of_def)

text \<open>The attempts at a step log only its own actions, one retry event per retry spent.\<close>

lemma attempts_log:
  assumes s: "s \<in> set (pl_steps (xe_plan env))"
  shows "attempts n k env s a c = Some (r, c') \<Longrightarrow> \<not> xc_closed c \<Longrightarrow>
    went_on (\<lambda>l. set l \<subseteq> step_actions (xe_plan env) (st_id s) \<and>
      length (filter retry_event l) + lv_step (ry_remaining (xc_budgets c')) = lv_step (ry_remaining (xc_budgets c))) c c'"
proof (induction k arbitrary: a c)
  case (Suc k)
  obtain x c1 where d: "dispatch n env s c = Some (x, c1)" using Suc.prems(1) by (auto split: option.splits)
  obtain l where l: "\<not> xc_closed c1" "xc_log c1 = xc_log c @ l" "set l \<subseteq> step_actions (xe_plan env) (st_id s)"
      "filter retry_event l = []" "xc_budgets c1 = xc_budgets c"
    using dispatch_log [OF s d Suc.prems(2)] by (auto simp: went_on_def)
  show ?case
  proof (cases "\<exists>reason b. x = Inr (Retried reason) \<and> consume_retry Retry_step (xc_budgets c1) = Ok b")
    case True
    then obtain reason b where x: "x = Inr (Retried reason)" and b: "consume_retry Retry_step (xc_budgets c1) = Ok b" by blast
    let ?c2 = "publish (Ev_step_retry (st_id s) (Suc a) reason) (c1\<lparr>xc_budgets := b\<rparr>)"
    have "attempts n k env s (Suc a) ?c2 = Some (r, c')"
      using Suc.prems(1) d x b can_retry_consume [of Retry_step "xc_budgets c1"] by simp
    from Suc.IH [OF this] l(1) obtain l' where l': "\<not> xc_closed c'" "xc_log c' = xc_log ?c2 @ l'"
        "set l' \<subseteq> step_actions (xe_plan env) (st_id s)"
        "length (filter retry_event l') + lv_step (ry_remaining (xc_budgets c')) = lv_step (ry_remaining b)"
      by (auto simp: went_on_def)
    have log: "xc_log c' = xc_log c @ (l @ Emitted (Ev_step_retry (st_id s) (Suc a) reason) # l')"
      using l' l by (simp add: publish_def log_action_def)
    have "set (l @ Emitted (Ev_step_retry (st_id s) (Suc a) reason) # l') \<subseteq> step_actions (xe_plan env) (st_id s)"
      using l(3) l'(3) by (auto simp: step_actions_def)
    moreover have "length (filter retry_event (l @ Emitted (Ev_step_retry (st_id s) (Suc a) reason) # l')) +
        lv_step (ry_remaining (xc_budgets c')) = lv_step (ry_remaining (xc_budgets c))"
      using l'(4) l(4,5) consume_step [OF b] by simp
    ultimately show ?thesis using log l'(1) unfolding went_on_def by blast
  next
    case False
    then have "c' = c1"
      using Suc.prems(1) d can_retry_consume [of Retry_step "xc_budgets c1"]
      by (auto split: sum.splits step_result.splits if_splits)
    then show ?thesis using l by (auto simp: went_on_def)
  qed
qed simp

text \<open>What the consent checkpoint logs; when it lets the step through, the last answer is a grant.\<close>

fun consent_action :: "exec_action \<Rightarrow> bool" where
  "consent_action (Emitted (Ev_confirmation_requested _)) = True"
| "consent_action (Emitted (Ev_confirmation_resolved _ _ _)) = True"
| "consent_action (Emitted (Ev_human_handoff _ _)) = True"
| "consent_action (Logged _) = True"
| "consent_action _ = False"

definition consent_actions :: "exec_action set" where
  "consent_actions = {a. consent_action a}"

text \<open>A gateway that may grant, and the event that tells of a grant.\<close>

definition may_grant :: "'w exec_env \<Rightarrow> bool" where
  "may_grant env \<longleftrightarrow> (\<exists>g q w d. xe_gateway env = Some g \<and> fst (g q w) = Inr (Decision d) \<and> cd_verdict d = Granted)"

lemma consent_action_silent:
  assumes "consent_action a"
  shows "\<not> ends_plan a" "\<not> step_start a" "\<not> retry_event a" "\<And>k. a \<noteq> Dispatched k"
  using assms by (cases a rule: consent_action.cases; simp)+

lemma consent_actions_silent:
  assumes "set l \<subseteq> consent_actions"
  shows "consented F g l" "filter ends_plan l = []" "filter step_start l = []" "filter retry_event l = []"
proof -
  show "filter ends_plan l = []" "filter step_start l = []" "filter retry_event l = []"
    using assms consent_action_silent by (auto simp: filter_empty_conv consent_actions_def)
  show "consented F g l" using assms
  proof (induction l arbitrary: g)
    case (Cons a l)
    then show ?case
      using consent_action_silent(4) [of a] by (auto simp: consent_actions_def split: exec_action.splits)
  qed simp
qed

lemma store_entry_log: "\<exists>l. xc_log (store_entry env e c) = xc_log c @ l \<and> set l \<subseteq> {Logged e}"
  by (simp add: store_entry_def)

lemma store_entry_fields [simp]:
  "xc_closed (store_entry env e c) = xc_closed c" "xc_budgets (store_entry env e c) = xc_budgets c"
  by (simp_all add: store_entry_def)

lemma gateway_answer_fields:
  "gateway_answer g r c = (x, c') \<Longrightarrow> xc_closed c' = xc_closed c \<and> xc_budgets c' = xc_budgets c \<and> xc_log c' = xc_log c"
  by (auto simp: gateway_answer_def split: prod.splits sum.splits)

lemma gateway_answer_grant:
  "gateway_answer g r c = (Decision d, c') \<Longrightarrow> cd_verdict d = Granted \<Longrightarrow> \<exists>w. fst (g r w) = Inr (Decision d)"
  by (auto simp: gateway_answer_def intro!: exI [of _ "xc_world c"] split: prod.splits sum.splits)

lemma build_request_fields:
  "build_request env s c = (r, c') \<Longrightarrow> xc_closed c' = xc_closed c \<and> xc_budgets c' = xc_budgets c \<and>
     xc_log c' = xc_log c \<and> cq_step r = st_id s"
  by (auto simp: build_request_def Let_def split: prod.splits)

lemma confirmation_checkpoint_log:
  assumes "confirmation_checkpoint env s c = (b, c')" and open_bus: "\<not> xc_closed c"
  shows "went_on (\<lambda>l. set l \<subseteq> consent_actions \<and> (b \<longrightarrow> (\<forall>g. foldl consent_step g l)) \<and>
      (filter grant_event l \<noteq> [] \<longrightarrow> may_grant env)) c c' \<and>
    xc_budgets c' = xc_budgets c"
proof (cases "xe_gateway env")
  case None
  then show ?thesis using assms by (auto simp: confirmation_checkpoint_def went_on_def)
next
  case (Some g)
  obtain r c1 where req: "build_request env s c = (r, c1)" by fastforce
  let ?c1 = "publish (Ev_confirmation_requested r) (store_entry env (Requested r) c1)"
  obtain x c2 where ans: "gateway_answer g r ?c1 = (x, c2)" by fastforce
  note f = build_request_fields [OF req] gateway_answer_fields [OF ans]
  obtain l1 where l1: "xc_log (store_entry env (Requested r) c1) = xc_log c @ l1" "set l1 \<subseteq> {Logged (Requested r)}"
    using store_entry_log [of env "Requested r" c1] f by auto
  have log2: "xc_log c2 = xc_log c @ l1 @ [Emitted (Ev_confirmation_requested r)]" "\<not> xc_closed c2"
      "xc_budgets c2 = xc_budgets c"
    using f open_bus l1 by (simp_all add: log_publish)
  have sub1: "set (l1 @ [Emitted (Ev_confirmation_requested r)]) \<subseteq> consent_actions" "filter grant_event l1 = []"
    using l1(2) by (auto simp: consent_actions_def filter_empty_conv)
  show ?thesis
  proof (cases x)
    case Parked
    then have "b = False" "c' = publish (Ev_human_handoff (st_id s) Handoff_other) c2"
      using assms(1) Some req ans by (simp_all add: confirmation_checkpoint_def)
    moreover have "set (l1 @ [Emitted (Ev_confirmation_requested r), Emitted (Ev_human_handoff (st_id s) Handoff_other)])
        \<subseteq> consent_actions" using sub1 by (auto simp: consent_actions_def)
    ultimately show ?thesis using log2 sub1(2) by (auto simp: went_on_def log_publish)
  next
    case (Decision d)
    let ?e = "Emitted (Ev_confirmation_resolved (cd_id d) (cd_verdict d) (cd_by d))"
    obtain l3 where l3: "xc_log (store_entry env (Decided d) c2) = xc_log c2 @ l3" "set l3 \<subseteq> {Logged (Decided d)}"
      using store_entry_log by blast
    let ?l = "l1 @ [Emitted (Ev_confirmation_requested r)] @ l3 @ [?e]"
    have sub: "set ?l \<subseteq> consent_actions" using sub1(1) l3(2) by (auto simp: consent_actions_def)
    have granted: "filter grant_event ?l = (if cd_verdict d = Granted then [?e] else [])"
      using sub1(2) l3(2) by (auto simp: filter_empty_conv)
    have c3: "xc_log (publish (Ev_confirmation_resolved (cd_id d) (cd_verdict d) (cd_by d)) (store_entry env (Decided d) c2)) =
        xc_log c @ ?l" using log2 l3(1) by (simp add: log_publish)
    show ?thesis
    proof (cases "cd_verdict d = Granted")
      case True
      have "foldl consent_step h ?l" for h using True by (simp add: consent_step_def)
      moreover have "may_grant env"
        using gateway_answer_grant [OF ans [unfolded Decision] True] Some True by (auto simp: may_grant_def)
      ultimately show ?thesis
        using assms(1) Some req ans Decision True c3 sub log2
        by (auto simp: confirmation_checkpoint_def went_on_def Let_def)
    next
      case False
      have "set (?l @ [Emitted (Ev_human_handoff (st_id s) Handoff_other)]) \<subseteq> consent_actions"
        using sub by (auto simp: consent_actions_def)
      then show ?thesis
        using assms(1) Some req ans Decision False c3 log2 granted
        by (auto simp: confirmation_checkpoint_def went_on_def Let_def log_publish)
    qed
  qed
qed

text \<open>What a part of a run logs: its dispatches are consented to, its terminal events are those of its outcome.\<close>

definition part_log :: "bool \<Rightarrow> jstext set \<Rightarrow> plan_outcome + nat \<Rightarrow> nat \<Rightarrow> exec_action list \<Rightarrow> bool" where
  "part_log G F x starts l \<longleftrightarrow> (\<forall>g. consented F g l) \<and> (filter grant_event l \<noteq> [] \<longrightarrow> G) \<and> length (filter step_start l) = starts \<and>
     filter ends_plan l = (case x of Inl out \<Rightarrow> outcome_events out | Inr _ \<Rightarrow> [])"

definition still_open :: "plan_outcome + nat \<Rightarrow> 'w exec_ctx \<Rightarrow> bool" where
  "still_open x c \<longleftrightarrow> (case x of Inl _ \<Rightarrow> True | Inr _ \<Rightarrow> \<not> xc_closed c)"

definition step_retries :: "'w exec_ctx \<Rightarrow> nat" where
  "step_retries c = lv_step (ry_remaining (xc_budgets c))"

lemma emit_failure_log:
  "\<not> xc_closed c \<Longrightarrow> xc_log (emit_failure cls c) = xc_log c @ [Emitted (Ev_task_failed cls)]"
  by (simp add: emit_failure_def close_bus_def log_publish)

lemma emit_failure_budgets [simp]: "xc_budgets (emit_failure cls c) = xc_budgets c"
  by (simp add: emit_failure_def close_bus_def)

lemma settle_step_log:
  assumes "settle_step env s i r c = (x, c')" and "\<not> xc_closed c"
  shows "still_open x c' \<and> xc_budgets c' = xc_budgets c \<and>
    (\<exists>l. xc_log c' = xc_log c @ l \<and> part_log G F x 0 l \<and> filter retry_event l = [])"
  using assms
  by (cases r) (auto simp: settle_step_def still_open_def part_log_def consent_step_def Let_def emit_failure_log log_publish
      outcome_events_def split: option.splits)

lemma run_step_handler_log:
  assumes s: "s \<in> set (pl_steps (xe_plan env))" and run: "run_step_handler n env s i c = Some (x, c')"
    and "\<not> xc_closed c"
    and g: "st_id s \<in> guarded_ids (xe_plan env) \<longrightarrow> g"
  shows "still_open x c' \<and> (\<exists>l. xc_log c' = xc_log c @ l \<and> consented (guarded_ids (xe_plan env)) g l \<and>
    filter step_start l = [] \<and> filter grant_event l = [] \<and> filter ends_plan l = (case x of Inl out \<Rightarrow> outcome_events out | Inr _ \<Rightarrow> []) \<and>
    length (filter retry_event l) + step_retries c' = step_retries c)"
proof -
  let ?F = "guarded_ids (xe_plan env)"
  obtain r c1 where att: "attempts n (Suc (lv_step (ry_remaining (xc_budgets c)))) env s 0 c = Some (r, c1)"
    using run by (auto simp: run_step_handler_def split: option.splits)
  obtain l where l: "\<not> xc_closed c1" "xc_log c1 = xc_log c @ l" "set l \<subseteq> step_actions (xe_plan env) (st_id s)"
      "length (filter retry_event l) + step_retries c1 = step_retries c"
    using attempts_log [OF s att assms(3)] by (auto simp: went_on_def step_retries_def)
  note ok = step_actions_consented [OF l(3) g] and silent = step_actions_silent [OF l(3)]
  show ?thesis
  proof (cases r)
    case (Inl msg)
    then have "x = Inl (Plan_threw msg)" "c' = c1" using run att by (simp_all add: run_step_handler_def)
    then show ?thesis using l ok silent by (auto simp: still_open_def outcome_events_def)
  next
    case (Inr res)
    then have settle: "settle_step env s i res c1 = (x, c')" using run att by (simp add: run_step_handler_def)
    obtain l' where l': "xc_log c' = xc_log c1 @ l'" "part_log False ?F x 0 l'" "filter retry_event l' = []"
        "still_open x c'" "xc_budgets c' = xc_budgets c1"
      using settle_step_log [OF settle l(1), of False ?F] by blast
    have "consented ?F g (l @ l')" using ok l'(2) by (simp add: consented_append part_log_def)
    then show ?thesis using l l' silent by (auto simp: part_log_def step_retries_def)
  qed
qed

text \<open>One step of the plan: started once, dispatched only with consent if it is flagged.\<close>

lemma execute_step_log:
  assumes i: "i < length (pl_steps (xe_plan env))" and run: "execute_step n env i c = Some (x, c')"
    and "\<not> xc_closed c"
    and distinct: "distinct (map st_id (pl_steps (xe_plan env)))"
  shows "still_open x c' \<and> (\<exists>l. xc_log c' = xc_log c @ l \<and> part_log (may_grant env) (guarded_ids (xe_plan env)) x 1 l \<and>
    length (filter retry_event l) + step_retries c' = step_retries c)"
proof -
  let ?F = "guarded_ids (xe_plan env)"
  define s where "s = pl_steps (xe_plan env) ! i"
  let ?e = "Emitted (Ev_step_started (st_id s) (st_verb s))"
  define c1 where "c1 = publish (Ev_step_started (st_id s) (st_verb s)) (c\<lparr>xc_idx := i\<rparr>)"
  have s: "s \<in> set (pl_steps (xe_plan env))" using i by (simp add: s_def)
  have c1: "\<not> xc_closed c1" "xc_log c1 = xc_log c @ [?e]" "step_retries c1 = step_retries c"
    using assms(3) by (simp_all add: c1_def log_publish step_retries_def)
  have flagged: "st_id s \<in> ?F \<Longrightarrow> st_confirm s"
    using s distinct by (auto simp: guarded_ids_def flagged_ids_def distinct_map inj_on_def)
  have started: "consented ?F g (?e # l) = consented ?F False l" for g l by (simp add: consent_step_def)
  have ?thesis if h: "run_step_handler n env s i c2 = Some (x, c')" and c2: "\<not> xc_closed c2"
      "xc_log c2 = xc_log c1 @ lc" "set lc \<subseteq> consent_actions" "step_retries c2 = step_retries c1"
      and g: "st_confirm s \<longrightarrow> (\<forall>g. foldl consent_step g lc)" "filter grant_event lc \<noteq> [] \<longrightarrow> may_grant env" for c2 lc
  proof -
    obtain l where l: "still_open x c'" "xc_log c' = xc_log c2 @ l"
        "consented ?F (foldl consent_step False lc) l" "filter step_start l = []" "filter grant_event l = []"
        "filter ends_plan l = (case x of Inl out \<Rightarrow> outcome_events out | Inr _ \<Rightarrow> [])"
        "length (filter retry_event l) + step_retries c' = step_retries c2"
      using run_step_handler_log [OF s h c2(1)] flagged g(1) by blast
    have "consented ?F g (?e # lc @ l)" for g
      unfolding started using l(3) consent_actions_silent(1) [OF c2(3)] by (simp add: consented_append)
    then show ?thesis
      using l c1 c2 g(2) consent_actions_silent [OF c2(3)] by (auto simp: part_log_def)
  qed
  note go = this
  show ?thesis
  proof (cases "st_confirm s")
    case False
    then show ?thesis using go [of c1 "[]"] run c1 by (simp add: execute_step_def Let_def flip: s_def c1_def)
  next
    case True
    obtain b c2 where cp: "confirmation_checkpoint env s c1 = (b, c2)" by fastforce
    obtain lc where lc: "\<not> xc_closed c2" "xc_log c2 = xc_log c1 @ lc" "set lc \<subseteq> consent_actions"
        "b \<longrightarrow> (\<forall>g. foldl consent_step g lc)" "filter grant_event lc \<noteq> [] \<longrightarrow> may_grant env" "step_retries c2 = step_retries c1"
      using confirmation_checkpoint_log [OF cp c1(1)] by (auto simp: went_on_def step_retries_def)
    show ?thesis
    proof (cases b)
      case True
      then show ?thesis using go [OF _ lc(1-3,6)] lc(4,5) run cp \<open>st_confirm s\<close>
        by (simp add: execute_step_def Let_def flip: s_def c1_def)
    next
      case False
      then have "x = Inl Plan_handoff" "c' = c2"
        using run cp True by (simp_all add: execute_step_def Let_def flip: s_def c1_def)
      moreover have "part_log (may_grant env) ?F (Inl Plan_handoff) 1 (?e # lc)"
        using consent_actions_silent [OF lc(3)] started lc(5) by (simp add: part_log_def outcome_events_def)
      ultimately show ?thesis using lc c1 consent_actions_silent(4) [OF lc(3)]
        by (auto simp: still_open_def)
    qed
  qed
qed

lemma part_log_append:
  "part_log G F (Inr j) k l \<Longrightarrow> part_log G F x k' l' \<Longrightarrow> part_log G F x (k + k') (l @ l')"
  by (auto simp add: part_log_def consented_append)

lemma finish_run_log:
  assumes "finish_run env c = (out, c')" and "\<not> xc_closed c"
  shows "part_log G F (Inl out) 0 (drop (length (xc_log c)) (xc_log c'))" "step_retries c' = step_retries c"
    "filter retry_event (drop (length (xc_log c)) (xc_log c')) = []" "\<exists>l. xc_log c' = xc_log c @ l"
  using assms
  by (auto simp: finish_run_def Let_def close_bus_def log_publish part_log_def outcome_events_def step_retries_def)

lemma execute_loop_log:
  assumes distinct: "distinct (map st_id (pl_steps (xe_plan env)))"
  shows "execute_loop n env left i c = Some (out, c') \<Longrightarrow> \<not> xc_closed c \<Longrightarrow>
    \<exists>l k. xc_log c' = xc_log c @ l \<and> k \<le> left \<and> part_log (may_grant env) (guarded_ids (xe_plan env)) (Inl out) k l \<and>
      length (filter retry_event l) + step_retries c' = step_retries c"
proof (induction left arbitrary: i c)
  case 0
  show ?case
  proof (cases "length (pl_steps (xe_plan env)) \<le> i")
    case True
    with 0 have "finish_run env c = (out, c')" by simp
    note f = finish_run_log [OF this 0(2)]
    then obtain l where l: "xc_log c' = xc_log c @ l" by blast
    with f show ?thesis by (intro exI [of _ l] exI [of _ 0]) simp
  next
    case False
    with 0 show ?thesis
      by (auto simp: emit_failure_log part_log_def outcome_events_def step_retries_def)
  qed
next
  case (Suc left)
  show ?case
  proof (cases "length (pl_steps (xe_plan env)) \<le> i")
    case True
    with Suc have "finish_run env c = (out, c')" by simp
    note f = finish_run_log [OF this Suc.prems(2)]
    then obtain l where l: "xc_log c' = xc_log c @ l" by blast
    with f show ?thesis by (intro exI [of _ l] exI [of _ 0]) simp
  next
    case False
    then have i: "i < length (pl_steps (xe_plan env))" by simp
    obtain x c1 where step: "execute_step n env i c = Some (x, c1)"
      using Suc.prems(1) False by (auto split: option.splits)
    obtain l where l: "still_open x c1" "xc_log c1 = xc_log c @ l" "part_log (may_grant env) (guarded_ids (xe_plan env)) x 1 l"
        "length (filter retry_event l) + step_retries c1 = step_retries c"
      using execute_step_log [OF i step Suc.prems(2) distinct] by blast
    show ?thesis
    proof (cases x)
      case (Inl o')
      then have "out = o'" "c' = c1" using Suc.prems(1) False step by simp_all
      then show ?thesis using l Inl by fastforce
    next
      case (Inr j)
      then have "execute_loop n env left j c1 = Some (out, c')" using Suc.prems(1) False step by simp
      moreover have "\<not> xc_closed c1" using l(1) Inr by (simp add: still_open_def)
      ultimately obtain l' k where l': "xc_log c' = xc_log c1 @ l'" "k \<le> left"
          "part_log (may_grant env) (guarded_ids (xe_plan env)) (Inl out) k l'"
          "length (filter retry_event l') + step_retries c' = step_retries c1"
        using Suc.IH by blast
      have "part_log (may_grant env) (guarded_ids (xe_plan env)) (Inl out) (1 + k) (l @ l')"
        using part_log_append l(3) l'(3) Inr by blast
      then show ?thesis using l l' by (intro exI [of _ "l @ l'"] exI [of _ "1 + k"]) auto
    qed
  qed
qed

lemma ensure_browser_fields:
  "ensure_browser env c = Inr c' \<Longrightarrow> xc_log c' = xc_log c \<and> xc_closed c' = xc_closed c \<and> xc_budgets c' = xc_budgets c"
  by (auto simp: ensure_browser_def split: if_splits option.splits prod.splits sum.splits)

lemma create_context_Ok:
  assumes "create_context p l s w page host ev w0 = Inr c"
  shows "distinct (map st_id (pl_steps p))" "xc_log c = []" "\<not> xc_closed c"
    "xc_budgets c = new_retry_budget l s w" "xc_captures c = []" "pl_steps p \<noteq> []"
  using assms by (auto simp: create_context_def first_repeat_None split: if_splits option.splits)

text \<open>Both ways to start a run, from the first step and from a checkpoint.\<close>

definition start_or_resume ::
  "nat \<Rightarrow> 'w exec_env \<Rightarrow> run_checkpoint option \<Rightarrow> 'w exec_ctx \<Rightarrow> (plan_outcome \<times> 'w exec_ctx) option" where
  "start_or_resume n env cp c = (case cp of None \<Rightarrow> run_plan n env c | Some cp' \<Rightarrow> resume_from n env cp' c)"

lemma run_plan_log:
  assumes "start_or_resume n env cp c = Some (out, c')" and "\<not> xc_closed c"
    and "distinct (map st_id (pl_steps (xe_plan env)))"
  shows "\<exists>l k. xc_log c' = xc_log c @ l \<and> k \<le> MAX_TOTAL_STEP_EXECUTIONS \<and>
    part_log (may_grant env) (guarded_ids (xe_plan env)) (Inl out) k l \<and> length (filter retry_event l) + step_retries c' = step_retries c"
proof (cases cp)
  case (Some cp')
  then show ?thesis
    using execute_loop_log [OF assms(3)] assms(1,2) by (simp add: start_or_resume_def resume_from_def)
next
  case None
  then have run: "run_plan n env c = Some (out, c')" using assms(1) by (simp add: start_or_resume_def)
  show ?thesis
  proof (cases "validate_scope_violations (xe_url_hostname env) (xe_plan env)")
    case (Cons v vs)
    then show ?thesis using run assms(2)
      by (auto simp: run_plan_def log_publish part_log_def outcome_events_def step_retries_def consent_step_def)
  next
    case Nil
    show ?thesis
    proof (cases "ensure_browser env c")
      case (Inl msg)
      then show ?thesis using run Nil
        by (auto simp: run_plan_def part_log_def outcome_events_def)
    next
      case (Inr c1)
      note f = ensure_browser_fields [OF Inr]
      have loop: "execute_loop n env MAX_TOTAL_STEP_EXECUTIONS 0 (publish Ev_task_started c1) = Some (out, c')"
        using run Nil Inr by (simp add: run_plan_def)
      obtain l k where l: "xc_log c' = xc_log (publish Ev_task_started c1) @ l" "k \<le> MAX_TOTAL_STEP_EXECUTIONS"
          "part_log (may_grant env) (guarded_ids (xe_plan env)) (Inl out) k l"
          "length (filter retry_event l) + step_retries c' = step_retries (publish Ev_task_started c1)"
        using execute_loop_log [OF assms(3) loop] f assms(2) by auto
      have "part_log (may_grant env) (guarded_ids (xe_plan env)) (Inl out) k (Emitted Ev_task_started # l)"
        using l(3) by (simp add: part_log_def consent_step_def)
      moreover have "xc_log c' = xc_log c @ Emitted Ev_task_started # l" using l(1) f assms(2) by (simp add: log_publish)
      ultimately show ?thesis using l(2,4) f
        by (intro exI [of _ "Emitted Ev_task_started # l"] exI [of _ k]) (simp add: step_retries_def)
    qed
  qed
qed

section \<open>Runs return\<close>

lemma attempts_returns:
  assumes "\<And>c. dispatch n env s c \<noteq> None" and s: "s \<in> set (pl_steps (xe_plan env))"
  shows "step_retries c < k \<Longrightarrow> attempts n k env s a c \<noteq> None"
proof (induction k arbitrary: a c)
  case (Suc k)
  obtain x c1 where d: "dispatch n env s c = Some (x, c1)" using assms(1) [of c] by fastforce
  have keep: "xc_budgets c1 = xc_budgets c" using dispatch_quiet [OF s d] by (simp add: quiet_def log_action_def)
  have again: "attempts n k env s (Suc a) (publish e (c1\<lparr>xc_budgets := b\<rparr>)) \<noteq> None"
    if "consume_retry Retry_step (xc_budgets c1) = Ok b" for b e
    using Suc consume_step [OF that] keep by (intro Suc.IH) (simp add: step_retries_def)
  show ?case using d again by (auto split: sum.splits step_result.splits)
qed simp

lemma execute_loop_returns:
  assumes "\<And>s c. s \<in> set (pl_steps (xe_plan env)) \<Longrightarrow> dispatch n env s c \<noteq> None"
  shows "execute_loop n env left i c \<noteq> None"
proof (induction left arbitrary: i c)
  case (Suc left)
  show ?case
  proof (cases "length (pl_steps (xe_plan env)) \<le> i")
    case False
    define s where "s = pl_steps (xe_plan env) ! i"
    have s: "s \<in> set (pl_steps (xe_plan env))" using False by (simp add: s_def)
    have "run_step_handler n env s i c1 \<noteq> None" for c1
      using attempts_returns [OF assms [OF s] s, of c1 "Suc (lv_step (ry_remaining (xc_budgets c1)))" 0]
      by (auto simp: run_step_handler_def step_retries_def split: sum.splits)
    then have "execute_step n env i c \<noteq> None"
      by (auto simp: execute_step_def Let_def simp flip: s_def split: prod.splits bool.splits)
    then show ?thesis using Suc False by (auto split: sum.splits)
  qed simp
qed simp

lemma start_or_resume_returns:
  assumes "\<And>s c. s \<in> set (pl_steps (xe_plan env)) \<Longrightarrow> dispatch n env s c \<noteq> None"
  shows "start_or_resume n env cp c \<noteq> None"
proof -
  have "execute_loop n env left i c \<noteq> None" for left i c by (rule execute_loop_returns) (rule assms)
  then show ?thesis
    by (auto simp: start_or_resume_def run_plan_def resume_from_def split: option.splits list.splits sum.splits)
qed

lemma execute_loop_end: "length (pl_steps (xe_plan env)) \<le> i \<Longrightarrow> execute_loop n env left i c = Some (finish_run env c)"
  by (cases left) auto

lemma execute_loop_next:
  "i < length (pl_steps (xe_plan env)) \<Longrightarrow> 0 < left \<Longrightarrow> execute_loop n env left i c =
    (case execute_step n env i c of None \<Rightarrow> None | Some (Inl out, c') \<Rightarrow> Some (out, c')
     | Some (Inr j, c') \<Rightarrow> execute_loop n env (left - 1) j c')"
  using execute_loop.simps(2) [of n env "left - 1" i c] by simp

section \<open>What the code does not do\<close>

text \<open>
  A loop dispatches its body itself: a body step that is flagged runs, and nothing asks for it
  (\<open>loop.ts\<close>, \<open>handleLoop\<close>).
\<close>

lemma loop_bypasses_consent:
  assumes "st_body s = Loop_step l" and "lp_body l = [st_id t]" and "step_by_id (xe_plan env) (st_id t) = Some t"
    and "lp_over l = Over_capture r" and "cr_field r = None" and "0 < lp_max l"
    and capture: "map_get (xc_captures c) (cr_step r) = Some (J_arr [v])"
    and s: "s \<in> set (pl_steps (xe_plan env))" and run: "dispatch (Suc (Suc n)) env s c = Some (x, c')"
  shows "\<exists>log. xc_log c' = xc_log c @ Dispatched (st_id s) # Dispatched (st_id t) # log \<and>
    (\<forall>q. Emitted (Ev_confirmation_requested q) \<notin> set log)"
proof -
  let ?c = "set_capture (lp_as l) v (log_action (Dispatched (st_id s)) c)"
  have t: "t \<in> set (pl_steps (xe_plan env))" using step_by_id_Some [OF assms(3)] by blast
  have body: "find (\<lambda>i. plan_index (xe_plan env) i = None) (lp_body l) = None"
    using assms(2,3) by (cases "plan_index (xe_plan env) (st_id t)") (auto simp: step_by_id_def)
  have vs: "resolve_collection (lp_over l) (xc_captures (log_action (Dispatched (st_id s)) c)) = Ok (Some (J_arr [v]))"
    using assms(4,5) capture by (simp add: resolve_collection_def)
  have "take (min (length [v]) (min (lp_max l) PROTOCOL_MAX_LOOP_ITERATIONS)) [v] = [v]"
    using assms(6) by (simp add: PROTOCOL_MAX_LOOP_ITERATIONS_def)
  then have "dispatch (Suc (Suc n)) env s c =
      (case dispatch (Suc n) env t ?c of None \<Rightarrow> None | Some (Inr (Completed _), c1) \<Rightarrow> Some (Ok (Completed []), c1)
       | Some (r, c1) \<Rightarrow> Some (r, c1))"
    using assms(1,2,3) body vs unfolding dispatch.simps(2) [of "Suc n" env s c]
    by (simp add: handle_loop_def PROTOCOL_MAX_LOOP_ITERATIONS_def Let_def del: dispatch.simps
        split: option.splits sum.splits step_result.splits prod.splits)
  then obtain y where "dispatch (Suc n) env t ?c = Some (y, c')"
    using run by (auto simp del: dispatch.simps split: option.splits sum.splits step_result.splits)
  from dispatch_quiet [OF t this] obtain log
    where log: "xc_log c' = xc_log ?c @ Dispatched (st_id t) # log" "set log \<subseteq> body_actions (xe_plan env)"
    by (auto simp: quiet_def)
  have "Emitted (Ev_confirmation_requested q) \<notin> set log" for q
    using log(2) by (auto simp: body_actions_def skip_events_def)
  then show ?thesis using log(1) by (simp add: set_capture_def)
qed

text \<open>
  A resumed run has no page unless the caller opened one: its first navigation fails
  (\<open>executor.ts\<close>, \<open>resumeFrom\<close> calls no \<open>ensureExecutionBrowser\<close>).
\<close>

lemma resume_has_no_page:
  assumes "\<not> xc_page c" and i: "Suc (cp_idx cp) < length (pl_steps (xe_plan env))"
    and s: "pl_steps (xe_plan env) ! Suc (cp_idx cp) = s" "st_body s = Navigate_step h (Literal_value (J_str url))" "\<not> st_confirm s"
    and "\<And>w. xe_ethics env url w = (Ethics_passed, w)"
  shows "\<exists>c'. resume_from (Suc n) env cp c = Some (Plan_failed Unexpected, c')"
proof -
  have "\<exists>c'. dispatch (Suc n) env s c1 = Some (Ok (Step_failed Unexpected ''No active page in ExecutionContext.''), c')"
    if "\<not> xc_page c1" for c1
    using that s(2) assms(6) by (simp add: handle_navigate_def resolve_to_string_def value_to_string_def Let_def)
  moreover have "\<not> xc_page (publish (Ev_step_started (st_id s) (st_verb s)) (c\<lparr>xc_idx := Suc (cp_idx cp)\<rparr>))"
    using assms(1) by simp
  ultimately obtain c2 where "dispatch (Suc n) env s (publish (Ev_step_started (st_id s) (st_verb s))
        (c\<lparr>xc_idx := Suc (cp_idx cp)\<rparr>)) = Some (Ok (Step_failed Unexpected ''No active page in ExecutionContext.''), c2)"
    by blast
  then have "\<exists>c'. execute_step (Suc n) env (Suc (cp_idx cp)) c = Some (Inl (Plan_failed Unexpected), c')"
    using s by (simp add: execute_step_def Let_def run_step_handler_def settle_step_def del: dispatch.simps)
  then show ?thesis using i by (auto simp: resume_from_def execute_loop_next MAX_TOTAL_STEP_EXECUTIONS_def)
qed

text \<open>Runs that return, and runs whose gateway never grants.\<close>

lemma plan_run_returns:
  assumes "xe_plan env = p" and "clock_advances env" and "loops_ranked rank p"
    and "\<forall>s \<in> set (pl_steps p). timeout_ms s \<le> wl \<and> rank (st_id s) + wl + 1 < n"
  shows "\<exists>out c'. start_or_resume n env cp c = Some (out, c')"
proof -
  have "dispatch n env s c1 \<noteq> None" if "s \<in> set (pl_steps (xe_plan env))" for s c1
    using dispatch_returns [of env rank wl s n c1] assms that by auto
  then show ?thesis using start_or_resume_returns [of env n cp c] by fastforce
qed

lemma consented_without_grants:
  "consented F False l \<Longrightarrow> filter grant_event l = [] \<Longrightarrow> k \<in> F \<Longrightarrow> Dispatched k \<notin> set l"
proof (induction l)
  case (Cons a l)
  then have "\<not> grant_event a" by (auto split: if_splits)
  then have "consent_step False a = False" by (cases a rule: grant_event.cases) (simp_all add: consent_step_def)
  with Cons show ?case by (auto split: if_splits)
qed simp

lemma consent_of_run:
  assumes "create_context p lb sb wb page host ev w = Ok c" and "xe_plan env = p"
    and "start_or_resume n env cp c = Some (out, c')"
  shows "consented (guarded_ids p) False (xc_log c')" "\<not> may_grant env \<Longrightarrow> filter grant_event (xc_log c') = []"
proof -
  note c = create_context_Ok [OF assms(1)]
  obtain i where "part_log (may_grant env) (guarded_ids p) (Inl out) i (xc_log c')"
    using run_plan_log [OF assms(3) c(3)] c(1,2) assms(2) by auto
  then show "consented (guarded_ids p) False (xc_log c')" "\<not> may_grant env \<Longrightarrow> filter grant_event (xc_log c') = []"
    by (auto simp: part_log_def)
qed

lemma ungranted_run:
  assumes "create_context p lb sb wb page host ev w = Ok c" and "xe_plan env = p"
    and "start_or_resume n env cp c = Some (out, c')" and "\<not> may_grant env" and "k \<in> guarded_ids p"
  shows "Dispatched k \<notin> set (xc_log c')"
  using consented_without_grants [OF consent_of_run(1) [OF assms(1-3)] consent_of_run(2) [OF assms(1-4)] assms(5)] .

section \<open>Properties\<close>

text \<open>Two steps on a page of the world of numbers: a navigation, then a click the gateway is asked about.\<close>

definition sample_hints :: confirmation_hints where
  "sample_hints = \<lparr>ch_description = None, ch_cost = None, ch_consequence = Some Irreversible\<rparr>"

definition sample_plan :: plan where
  "sample_plan = \<lparr>pl_task = ''t'', pl_id = ''p'', pl_default_scope = Scope_authenticated,
     pl_steps = [\<lparr>st_id = ''go'', st_scope = None, st_confirm = False,
         st_body = Navigate_step sample_hints (Literal_value (J_str ''https://a.b''))\<rparr>,
       \<lparr>st_id = ''pay'', st_scope = None, st_confirm = True,
         st_body = Click_step sample_hints (Workflow_locator ''pay'') None\<rparr>],
     pl_outputs = []\<rparr>"

definition sample_run_env :: "confirmation_verdict \<Rightarrow> nat exec_env" where
  "sample_run_env v = \<lparr>xe_plan = sample_plan, xe_run = ''r'', xe_scopes = [Scope_authenticated, Scope_authenticated],
     xe_params = [], xe_url_host = (\<lambda>_. Some ''a.b''), xe_url_hostname = (\<lambda>_. Some ''a.b''),
     xe_valid_regex = (\<lambda>_ _. True), xe_regex_test = (\<lambda>_ _ _. False),
     xe_locators = Some (\<lambda>_. Some \<lparr>ec_name = ''pay'', ec_candidates = [Css_intent ''#pay'']\<rparr>),
     xe_secret = None, xe_browser = Some (\<lambda>w. (Ok True, w)), xe_page_has_host = True,
     xe_page_url = (\<lambda>_. ''https://a.b''), xe_page_title = (\<lambda>w. (None, w)),
     xe_ethics = (\<lambda>_ w. (Ethics_passed, w)), xe_goto = (\<lambda>_ w. (Response_with 200 None, w)),
     xe_settle_navigation = Suc, xe_settle_read = Suc, xe_resolve = (\<lambda>_ _ _ w. (Resolved_handle 7, w)),
     xe_click = (\<lambda>_ w. (Ok (), w)), xe_fill = (\<lambda>_ _ _ w. (Ok (), w)), xe_element_text = (\<lambda>_ w. (Ok ''x'', w)),
     xe_read_element = (\<lambda>_ _ w. (Ok None, w)), xe_now = (\<lambda>w. w), xe_sleep = (\<lambda>ms w. w + ms),
     xe_sanitize = None, xe_summarize = None,
     xe_fill_element = (\<lambda>_ _ _ w. (Ok (Completed []), w)),
     xe_gateway = Some (\<lambda>q w. (Ok (Decision \<lparr>cd_id = cq_id q, cd_verdict = v, cd_by = By_user_cli\<rparr>), w)),
     xe_store = True, xe_ulid = (\<lambda>w. (show_nat w, Suc w))\<rparr>"

definition sample_start :: "nat exec_ctx" where
  "sample_start = \<lparr>xc_idx = 0, xc_captures = [], xc_budgets = new_retry_budget None None None, xc_page = False,
     xc_host = False, xc_evidence = None, xc_closed = False, xc_log = [], xc_world = 0\<rparr>"

lemma sample_start_created: "create_context sample_plan None None None False False None 0 = Ok sample_start"
  by (simp add: create_context_def sample_plan_def sample_start_def)

lemma sample_run_env_fields:
  "xe_plan (sample_run_env v) = sample_plan" "xe_ethics (sample_run_env v) url w = (Ethics_passed, w)"
  "xe_goto (sample_run_env v) url w = (Response_with 200 None, w)"
  "xe_locators (sample_run_env v) = Some (\<lambda>_. Some \<lparr>ec_name = ''pay'', ec_candidates = [Css_intent ''#pay'']\<rparr>)"
  "xe_resolve (sample_run_env v) ch need t w = (Resolved_handle 7, w)" "xe_click (sample_run_env v) h w = (Ok (), w)"
  "xe_gateway (sample_run_env v) =
     Some (\<lambda>q w. (Ok (Decision \<lparr>cd_id = cq_id q, cd_verdict = v, cd_by = By_user_cli\<rparr>), w))"
  by (simp_all add: sample_run_env_def)

lemma completes_at_once:
  "dispatch n env s c = Some (Ok (Completed ks), c') \<Longrightarrow>
    run_step_handler n env s i c = Some (settle_step env s i (Completed ks) c')"
  by (simp add: run_step_handler_def)

lemma settle_completed:
  "\<exists>c'. settle_step env s i (Completed ks) c = (Inr (i + 1), c') \<and> xc_page c' = xc_page c \<and> xc_host c' = xc_host c"
  by (simp add: settle_step_def publish_def log_action_def)

lemma checkpoint_follows_verdict:
  assumes "xe_gateway env = Some (\<lambda>q w. (Ok (Decision \<lparr>cd_id = cq_id q, cd_verdict = v, cd_by = b\<rparr>), w))"
  shows "\<exists>c'. confirmation_checkpoint env s c = (v = Granted, c') \<and> xc_page c' = xc_page c \<and> xc_host c' = xc_host c"
proof -
  have store: "xc_page (store_entry env e c) = xc_page c" "xc_host (store_entry env e c) = xc_host c" for e and c :: "'a exec_ctx"
    by (simp_all add: store_entry_def log_action_def)
  obtain r c1 where r: "build_request env s c = (r, c1)" by fastforce
  then have "xc_page c1 = xc_page c" "xc_host c1 = xc_host c" by (auto simp: build_request_def Let_def split: prod.splits)
  then show ?thesis using assms r
    by (cases "v = Granted") (simp_all add: confirmation_checkpoint_def gateway_answer_def store Let_def)
qed

lemma sample_runs:
  "\<exists>c'. start_or_resume 2 (sample_run_env v) None sample_start =
     Some (if v = Granted then Plan_completed [] else Plan_handoff, c')"
proof -
  have two: "dispatch 2 = (dispatch (Suc 1) :: nat exec_env \<Rightarrow> nat dispatcher)" by (simp add: numeral_2_eq_2)
  let ?s0 = "pl_steps sample_plan ! 0" and ?s1 = "pl_steps sample_plan ! 1"
  let ?c = "publish Ev_task_started (sample_start\<lparr>xc_page := True, xc_host := True\<rparr>)"
  have scope: "validate_scope_violations (xe_url_hostname (sample_run_env v)) (xe_plan (sample_run_env v)) = []"
    using scope_gates_agree [of "xe_url_hostname (sample_run_env v)" "xe_plan (sample_run_env v)"]
    by (simp add: sample_run_env_def sample_plan_def out_of_scope_def effective_scope_def ALLOWED_VERBS_BY_SCOPE_def
        STEP_VERBS_def)
  have "\<exists>c'. dispatch 2 (sample_run_env v) ?s0 c = Some (Ok (Completed []), c') \<and> xc_page c' \<and> xc_host c' = xc_host c"
    if "xc_page c" for c
    using that by (simp add: two sample_plan_def handle_navigate_def navigated_def resolve_to_string_def
        value_to_string_def log_action_def sample_run_env_fields)
  from this [of "publish (Ev_step_started (st_id ?s0) (st_verb ?s0)) (?c\<lparr>xc_idx := 0\<rparr>)"]
  obtain c' where c': "dispatch 2 (sample_run_env v) ?s0 (publish (Ev_step_started (st_id ?s0) (st_verb ?s0)) (?c\<lparr>xc_idx := 0\<rparr>)) =
      Some (Ok (Completed []), c')" "xc_page c'" "xc_host c'"
    by (auto simp: sample_start_def)
  have "execute_step 2 (sample_run_env v) 0 ?c = Some (settle_step (sample_run_env v) ?s0 0 (Completed []) c')"
    using completes_at_once [OF c'(1)] by (simp add: execute_step_def Let_def sample_run_env_fields) (simp add: sample_plan_def)
  then have go: "\<exists>c1. execute_step 2 (sample_run_env v) 0 ?c = Some (Inr 1, c1) \<and> xc_page c1 \<and> xc_host c1"
    using settle_completed [of "sample_run_env v" ?s0 0 "[]" c'] c'(2,3) by auto
  have pay: "\<exists>c2. execute_step 2 (sample_run_env v) 1 c1 = Some (if v = Granted then Inr 2 else Inl Plan_handoff, c2)"
    if c1: "xc_page c1" "xc_host c1" for c1
  proof -
    have click: "\<exists>c'. dispatch 2 (sample_run_env v) ?s1 c = Some (Ok (Completed []), c')" if "xc_page c" "xc_host c" for c
    proof -
      have body: "st_body ?s1 = Click_step sample_hints (Workflow_locator ''pay'') None" by (simp add: sample_plan_def)
      have "\<exists>c'. handle_click (sample_run_env v) s (Workflow_locator ''pay'') m c = (Ok (Completed []), c')"
        if "xc_page c" "xc_host c" for s m c
        using that by (simp add: handle_click_def browser_ready_def resolve_locator_chain_def build_engine_chain_def
            sample_run_env_fields)
      then show ?thesis using that body by (simp add: two Let_def log_action_def)
    qed
    let ?c1 = "publish (Ev_step_started (st_id ?s1) (st_verb ?s1)) (c1\<lparr>xc_idx := 1\<rparr>)"
    obtain c2 where c2: "confirmation_checkpoint (sample_run_env v) ?s1 ?c1 = (v = Granted, c2)" "xc_page c2" "xc_host c2"
      using checkpoint_follows_verdict [OF sample_run_env_fields(7), of v ?s1 ?c1] c1 by auto
    obtain c3 where "dispatch 2 (sample_run_env v) ?s1 c2 = Some (Ok (Completed []), c3)" using click [OF c2(2,3)] by blast
    from completes_at_once [OF this] have "\<exists>c4. run_step_handler 2 (sample_run_env v) ?s1 1 c2 = Some (Inr 2, c4)"
      using settle_completed [of "sample_run_env v" ?s1 1 "[]" c3] by auto
    moreover have "st_confirm ?s1" by (simp add: sample_plan_def)
    ultimately show ?thesis using c2(1)
      by (auto simp: execute_step_def Let_def sample_run_env_fields split: prod.splits bool.splits)
  qed
  have browser: "ensure_browser (sample_run_env v) sample_start = Ok (sample_start\<lparr>xc_page := True, xc_host := True\<rparr>)"
    by (simp add: ensure_browser_def sample_run_env_def sample_start_def)
  have steps: "length (pl_steps (xe_plan (sample_run_env u))) = 2" for u by (simp add: sample_run_env_def sample_plan_def)
  obtain c1 where c1: "execute_step 2 (sample_run_env v) 0 ?c = Some (Inr 1, c1)" "xc_page c1" "xc_host c1" using go by blast
  obtain c2 where c2: "execute_step 2 (sample_run_env v) 1 c1 = Some (if v = Granted then Inr 2 else Inl Plan_handoff, c2)"
    using pay [OF c1(2,3)] by blast
  have "start_or_resume 2 (sample_run_env v) None sample_start =
      (case (if v = Granted then Inr 2 else Inl Plan_handoff) of Inl out \<Rightarrow> Some (out, c2)
       | Inr j \<Rightarrow> execute_loop 2 (sample_run_env v) (1000 - 1 - 1) j c2)"
    using c1(1) c2 scope browser steps
    by (simp add: start_or_resume_def run_plan_def execute_loop_next MAX_TOTAL_STEP_EXECUTIONS_def)
  also have "\<dots> = (if v = Granted then Some (finish_run (sample_run_env v) c2) else Some (Plan_handoff, c2))"
    using steps by (simp add: execute_loop_end)
  also have "finish_run (sample_run_env v) c2 = (Plan_completed [], snd (finish_run (sample_run_env v) c2))"
    by (simp add: finish_run_def Let_def output_keys_def sample_run_env_def sample_plan_def)
  finally show ?thesis by (metis (full_types))
qed

lemma sample_confirms: "guarded_ids sample_plan = {''pay''}"
proof -
  have "{s \<in> set (pl_steps sample_plan). st_confirm s} = {pl_steps sample_plan ! 1}" by (auto simp: sample_plan_def)
  then have "flagged_ids sample_plan = {''pay''}" by (simp add: flagged_ids_def) (simp add: sample_plan_def)
  moreover have "loop_body_ids sample_plan = {}" by (simp add: loop_body_ids_def sample_plan_def)
  ultimately show ?thesis by (simp add: guarded_ids_def)
qed

text \<open>C21. Whatever the page, the models and the gateway do, and whether the run starts or resumes, a step that is flagged for
  confirmation, and is in no loop's body, is only ever dispatched while a grant given after that step last started holds.\<close>

theorem flagged_steps_need_consent:
  assumes "create_context p lb sb wb page host ev w = Ok c" and "xe_plan env = p"
    and "start_or_resume n env cp c = Some (out, c')"
  shows "consented (flagged_ids p - loop_body_ids p) False (xc_log c')"
  using consent_of_run(1) [OF assms] by (simp add: guarded_ids_def)

theorem flagged_steps_need_consent_witness:
  "\<exists>out c'. start_or_resume 2 (sample_run_env Granted) None sample_start = Some (out, c') \<and> out = Plan_completed [] \<and>
     flagged_ids sample_plan - loop_body_ids sample_plan = {''pay''} \<and>
     consented (flagged_ids sample_plan - loop_body_ids sample_plan) False (xc_log c')"
proof -
  obtain c' where run: "start_or_resume 2 (sample_run_env Granted) None sample_start = Some (Plan_completed [], c')"
    using sample_runs [of Granted] by auto
  have "xe_plan (sample_run_env Granted) = sample_plan" by (simp add: sample_run_env_def)
  from flagged_steps_need_consent [OF sample_start_created this run] run sample_confirms show ?thesis
    by (auto simp: guarded_ids_def)
qed

text \<open>C22. When the clock advances and loops nest, every run returns: it starts at most a thousand steps, publishes one terminal
  event for a completed or failed run and none otherwise, and spends one unit of the step budget for each retry it reports.\<close>

theorem runs_return_within_bounds:
  assumes "create_context p lb sb wb page host ev w = Ok c" and "xe_plan env = p"
    and "clock_advances env" and "loops_ranked rank p"
    and "\<forall>s \<in> set (pl_steps p). timeout_ms s \<le> wl \<and> rank (st_id s) + wl + 1 < n"
  shows "\<exists>out c'. start_or_resume n env cp c = Some (out, c') \<and>
    length (filter step_start (xc_log c')) \<le> 1000 \<and>
    filter ends_plan (xc_log c') = (case out of
        Plan_completed keys \<Rightarrow> [Emitted (Ev_task_completed keys)] | Plan_failed cls \<Rightarrow> [Emitted (Ev_task_failed cls)] | _ \<Rightarrow> []) \<and>
    length (filter retry_event (xc_log c')) + lv_step (ry_remaining (xc_budgets c')) = lv_step (ry_remaining (xc_budgets c))"
proof -
  note c = create_context_Ok [OF assms(1)]
  obtain out c' where run: "start_or_resume n env cp c = Some (out, c')" using plan_run_returns [OF assms(2-5)] by blast
  show ?thesis
    using run_plan_log [OF run c(3)] c(1,2) assms(2) run
    by (auto simp: part_log_def step_retries_def outcome_events_def MAX_TOTAL_STEP_EXECUTIONS_def)
qed

theorem runs_return_within_bounds_witness:
  "\<exists>out c'. start_or_resume 2 (sample_run_env Denied) None sample_start = Some (out, c') \<and>
    length (filter step_start (xc_log c')) \<le> 1000 \<and>
    length (filter retry_event (xc_log c')) + lv_step (ry_remaining (xc_budgets c')) = 3"
proof -
  have plan: "xe_plan (sample_run_env Denied) = sample_plan" by (simp add: sample_run_env_def)
  have clock: "clock_advances (sample_run_env Denied)" by (simp add: clock_advances_def sample_run_env_def)
  have ranked: "loops_ranked (\<lambda>_. 0) sample_plan" by (auto simp: loops_ranked_def sample_plan_def)
  have bounded: "\<forall>s \<in> set (pl_steps sample_plan). timeout_ms s \<le> 0 \<and> 0 + 0 + 1 < (2::nat)"
    by (simp add: sample_plan_def timeout_ms_def)
  have three: "lv_step (ry_remaining (xc_budgets sample_start)) = 3"
    by (simp add: sample_start_def new_retry_budget_def DEFAULT_BUDGETS_def Let_def)
  show ?thesis
    using runs_return_within_bounds [OF sample_start_created plan clock ranked, of 0 2 None] bounded three by auto
qed

text \<open>C23. A checkpoint that is saved, loaded and restored brings back the position after its step, the budgets as they stood,
  and every capture that is small and does not look like a reference to a file; the others, and the page, are lost.\<close>

theorem checkpoint_roundtrip:
  assumes "distinct (map fst (xc_captures c))"
    and "load_checkpoint (st_id s) (save_checkpoint (checkpoint_of env s i c) d) = Some cp"
  shows "xc_idx (restore_context cp c0) = i + 1 \<and>
    ry_remaining (xc_budgets (restore_context cp c0)) = ry_remaining (xc_budgets c) \<and>
    xc_captures (restore_context cp c0) =
      filter (\<lambda>(k, v). utf8_length (json_text v) \<le> DEFAULT_INLINE_LIMIT_BYTES \<and> \<not> is_sidecar_ref v) (xc_captures c) \<and>
    \<not> xc_page (restore_context cp c0)"
proof -
  have "cp_step (checkpoint_of env s i c) = st_id s" by (simp add: checkpoint_of_def)
  then have "cp = checkpoint_of env s i c" using assms(2) load_saved [of "checkpoint_of env s i c" d] by simp
  then show ?thesis
    using restore_snapshot [OF assms(1), of DEFAULT_INLINE_LIMIT_BYTES]
    by (simp add: restore_context_def checkpoint_of_def new_retry_budget_def oversized_def not_less Let_def)
qed

theorem checkpoint_roundtrip_witness:
  "xc_captures (restore_context (checkpoint_of (sample_run_env Granted) (pl_steps sample_plan ! 0) 0
     (sample_start\<lparr>xc_captures := [(''a'', J_bool True), (''b'', J_obj [(''$ref'', J_str ''x'')])]\<rparr>)) sample_start) = [(''a'', J_bool True)]"
proof -
  let ?s = "pl_steps sample_plan ! 0"
  let ?c = "sample_start\<lparr>xc_captures := [(''a'', J_bool True), (''b'', J_obj [(''$ref'', J_str ''x'')])]\<rparr>"
  let ?cp = "checkpoint_of (sample_run_env Granted) ?s 0 ?c"
  have "distinct (map fst (xc_captures ?c))" by simp
  moreover have "load_checkpoint (st_id ?s) (save_checkpoint ?cp []) = Some ?cp"
    using load_saved [of ?cp "[]"] by (simp add: checkpoint_of_def)
  ultimately have "xc_captures (restore_context ?cp sample_start) =
      filter (\<lambda>(k, v). utf8_length (json_text v) \<le> DEFAULT_INLINE_LIMIT_BYTES \<and> \<not> is_sidecar_ref v) (xc_captures ?c)"
    using checkpoint_roundtrip [of ?c ?s "sample_run_env Granted" 0 "[]" ?cp sample_start] by blast
  moreover have "utf8_length (json_text (J_bool True)) \<le> DEFAULT_INLINE_LIMIT_BYTES" "\<not> is_sidecar_ref (J_bool True)"
    by (simp_all add: utf8_length_def char_bytes_def DEFAULT_INLINE_LIMIT_BYTES_def is_sidecar_ref_def is_object_def)
  ultimately show ?thesis by (simp del: json_text.simps)
qed

end
