(* ===== verification/Scheduler.thy ===== *)
theory Scheduler
  imports Executor
begin

text \<open>
  Unattended runs, \<open>packages/core/src/scheduler/\<close> over \<open>packages/core/src/index-db/schedule-store.ts\<close>:
  the table of schedules, the daemon that polls it (\<open>daemon.ts\<close>), the settling of one fire
  (\<open>fire-runner.ts\<close>, \<open>notify.ts\<close>), the pick-up of parked runs (\<open>parked-resolver.ts\<close>) and
  the two gateways an unattended run is given (\<open>daemon-confirmation-gateway.ts\<close>,
  \<open>pregranted-confirmation-gateway.ts\<close>).

  The cron library is an argument: \<open>croner e\<close> is \<open>None\<close> when \<open>e\<close> does not parse, otherwise the
  function from an instant to the next one. Instants are milliseconds; their ISO texts are left out, as is the
  column \<open>on_confirm\<close>, which has one value. Every write of the store takes a flag, whether SQLite carried it out.

  The daemon is a step relation. One poll is one step: the store answers at once, so the loop that follows
  the listing runs before any timer or settled run. A fire is two steps, its dispatch and its settling, and
  between them the table can be edited by the command line, other fires settle, the process can be told to stop, or die.
\<close>

section \<open>Definitions\<close>

subsection \<open>The table of schedules\<close>

datatype notify_target = Notify_desktop | Notify_file | Notify_none

datatype fire_status = Fire_succeeded | Fire_failed | Fire_handoff | Fire_pending | Fire_missed

record schedule =
  sc_id :: jstext
  sc_workflow :: jstext
  sc_cron :: jstext
  sc_params :: "(jstext, jstext) jsmap"
  sc_notify :: notify_target
  sc_enabled :: bool
  sc_created :: nat
  sc_last_fire :: "nat option"
  sc_next_fire :: "nat option"
  sc_last_run :: "jstext option"
  sc_last_status :: "fire_status option"

record schedule_input =
  si_workflow :: jstext
  si_cron :: jstext
  si_params :: "(jstext, jstext) jsmap option"
  si_notify :: "notify_target option"
  si_next_fire :: "nat option"

record fire_patch =
  fp_last_fire :: nat
  fp_last_run :: "jstext option"
  fp_last_status :: fire_status
  fp_next_fire :: "nat option"

type_synonym schedule_table = "schedule list"

text \<open>The insertion fails when SQLite fails or the id is taken (it is the primary key).\<close>

definition new_schedule :: "jstext \<Rightarrow> nat \<Rightarrow> schedule_input \<Rightarrow> schedule" where
  "new_schedule i now inp = \<lparr>sc_id = i, sc_workflow = si_workflow inp, sc_cron = si_cron inp,
     sc_params = (case si_params inp of Some ps \<Rightarrow> ps | None \<Rightarrow> []),
     sc_notify = (case si_notify inp of Some n \<Rightarrow> n | None \<Rightarrow> Notify_desktop), sc_enabled = True,
     sc_created = now, sc_last_fire = None, sc_next_fire = si_next_fire inp, sc_last_run = None, sc_last_status = None\<rparr>"

definition register_schedule ::
  "bool \<Rightarrow> jstext \<Rightarrow> nat \<Rightarrow> schedule_input \<Rightarrow> schedule_table \<Rightarrow> (jstext + schedule) \<times> schedule_table" where
  "register_schedule db_ok i now inp rows =
     (if db_ok \<and> i \<notin> sc_id ` set rows then (Ok (new_schedule i now inp), rows @ [new_schedule i now inp])
      else (Err ''failed to register schedule'', rows))"

definition list_schedules :: "schedule_table \<Rightarrow> schedule list" where
  "list_schedules rows = sort_key (\<lambda>s. - int (sc_created s)) rows"

definition list_enabled :: "schedule_table \<Rightarrow> schedule list" where
  "list_enabled rows = list_schedules (filter sc_enabled rows)"

definition get_schedule :: "jstext \<Rightarrow> schedule_table \<Rightarrow> schedule option" where
  "get_schedule i rows = find (\<lambda>s. sc_id s = i) rows"

definition remove_schedule :: "jstext \<Rightarrow> schedule_table \<Rightarrow> bool \<times> schedule_table" where
  "remove_schedule i rows = (i \<in> sc_id ` set rows, filter (\<lambda>s. sc_id s \<noteq> i) rows)"

definition set_enabled :: "jstext \<Rightarrow> bool \<Rightarrow> schedule_table \<Rightarrow> bool \<times> schedule_table" where
  "set_enabled i b rows = (i \<in> sc_id ` set rows, map (\<lambda>s. if sc_id s = i then s\<lparr>sc_enabled := b\<rparr> else s) rows)"

definition mark_fire :: "jstext \<Rightarrow> fire_patch \<Rightarrow> schedule_table \<Rightarrow> schedule_table" where
  "mark_fire i p rows = map (\<lambda>s. if sc_id s = i
     then s\<lparr>sc_last_fire := Some (fp_last_fire p), sc_last_run := fp_last_run p,
            sc_last_status := Some (fp_last_status p), sc_next_fire := fp_next_fire p\<rparr> else s) rows"

text \<open>Params are stored as JSON and read defensively: what is not an object is empty, what is not a text is dropped.\<close>

definition params_json :: "(jstext, jstext) jsmap \<Rightarrow> json" where
  "params_json ps = J_obj (map (\<lambda>(k, v). (k, J_str v)) ps)"

definition parse_params :: "json option \<Rightarrow> (jstext, jstext) jsmap" where
  "parse_params j = (case j of
     Some (J_obj kvs) \<Rightarrow> List.map_filter (\<lambda>(k, v). case v of J_str t \<Rightarrow> Some (k, t) | _ \<Rightarrow> None) kvs
   | _ \<Rightarrow> [])"

subsection \<open>Cron\<close>

type_synonym cron_library = "jstext \<Rightarrow> (nat \<Rightarrow> nat option) option"

definition validate_cron :: "cron_library \<Rightarrow> jstext \<Rightarrow> jstext + unit" where
  "validate_cron croner e =
     (if trim e = [] then Err ''cron expression is empty''
      else if croner (trim e) = None then Err ''invalid cron expression'' else Ok ())"

text \<open>An expression that does not parse makes the call throw.\<close>

definition next_fire :: "cron_library \<Rightarrow> jstext \<Rightarrow> nat \<Rightarrow> jstext + nat option" where
  "next_fire croner e t = (case croner (trim e) of None \<Rightarrow> Err ''invalid cron expression'' | Some nxt \<Rightarrow> Ok (nxt t))"

subsection \<open>One fire\<close>

datatype abort_reason = User_handoff | User_abort | Abort_scope | Abort_ethics

datatype run_kind = Run_success | Run_failure | Run_aborted "abort_reason option"

record fire_result =
  fr_run :: "jstext option"
  fr_status :: fire_status

definition classify_fire :: "run_kind \<Rightarrow> bool \<Rightarrow> fire_status" where
  "classify_fire k parked = (case k of
     Run_success \<Rightarrow> Fire_succeeded
   | Run_aborted r \<Rightarrow> (if parked then Fire_pending
       else if r = Some User_handoff \<or> r = Some User_abort then Fire_handoff else Fire_failed)
   | Run_failure \<Rightarrow> Fire_failed)"

datatype notification_kind = Note_completed | Note_failed | Note_confirmation

record notification =
  nt_schedule :: jstext
  nt_run :: "jstext option"
  nt_kind :: notification_kind
  nt_title :: jstext
  nt_body :: jstext

record notification_input =
  ni_schedule :: jstext
  ni_run :: "jstext option"
  ni_workflow :: jstext
  ni_kind :: notification_kind
  ni_artifact :: "jstext option"
  ni_confirm :: "jstext option"

definition title_for :: "notification_kind \<Rightarrow> jstext \<Rightarrow> jstext" where
  "title_for k w = ''Yantra: '' @ quoted w @ (case k of
     Note_completed \<Rightarrow> '' completed'' | Note_failed \<Rightarrow> '' failed'' | Note_confirmation \<Rightarrow> '' needs your confirmation'')"

text \<open>An empty path or command counts as none.\<close>

definition body_for :: "notification_input \<Rightarrow> jstext" where
  "body_for i = (let given = (\<lambda>x. case x of None \<Rightarrow> None | Some t \<Rightarrow> if t = [] then None else Some t) in
     case ni_kind i of
       Note_completed \<Rightarrow> (case given (ni_artifact i) of
           Some p \<Rightarrow> ''Scheduled run finished. Brief: '' @ p | None \<Rightarrow> ''Scheduled run finished.'')
     | Note_failed \<Rightarrow> (case given (ni_artifact i) of
           Some p \<Rightarrow> ''Scheduled run failed. Report: '' @ p | None \<Rightarrow> ''Scheduled run failed.'')
     | Note_confirmation \<Rightarrow> (case given (ni_confirm i) of
           Some c \<Rightarrow> ''A scheduled run is paused for consent. Resolve with: '' @ c
         | None \<Rightarrow> ''A scheduled run is paused, awaiting your confirmation.''))"

definition build_notification :: "notification_input \<Rightarrow> notification" where
  "build_notification i = \<lparr>nt_schedule = ni_schedule i, nt_run = ni_run i, nt_kind = ni_kind i,
     nt_title = title_for (ni_kind i) (ni_workflow i), nt_body = body_for i\<rparr>"

definition fire_note :: "schedule \<Rightarrow> jstext option \<Rightarrow> notification_kind \<Rightarrow> notification" where
  "fire_note s run k = build_notification \<lparr>ni_schedule = sc_id s, ni_run = run, ni_workflow = sc_workflow s,
     ni_kind = k, ni_artifact = None, ni_confirm = None\<rparr>"

record schedule_link =
  sl_schedule :: jstext
  sl_workflow :: jstext
  sl_cron :: jstext
  sl_fired :: nat
  sl_status :: fire_status

text \<open>
  What the driver of a run answers: it throws, or the run ended with a kind and an id, and its gateway had
  parked it or not. The result, the notifications sent and the sidecars written are what a fire leaves.
\<close>

definition run_scheduled_fire ::
  "schedule \<Rightarrow> nat \<Rightarrow> jstext + run_kind \<times> jstext \<Rightarrow> bool \<Rightarrow> fire_result \<times> notification list \<times> (jstext \<times> schedule_link) list" where
  "run_scheduled_fire s fired out parked = (case out of
     Inl _ \<Rightarrow> (\<lparr>fr_run = None, fr_status = Fire_failed\<rparr>, [fire_note s None Note_failed], [])
   | Inr (k, run) \<Rightarrow>
       (let st = classify_fire k parked in
        (\<lparr>fr_run = Some run, fr_status = st\<rparr>,
         (if st = Fire_succeeded then [fire_note s (Some run) Note_completed]
          else if st = Fire_failed \<or> st = Fire_handoff then [fire_note s (Some run) Note_failed] else []),
         (if run \<noteq> [] then [(run, \<lparr>sl_schedule = sc_id s, sl_workflow = sc_workflow s, sl_cron = sc_cron s,
            sl_fired = fired, sl_status = st\<rparr>)] else []))))"

subsection \<open>Desktop notifications\<close>

datatype platform = Darwin | Linux | Win32 | Other_platform

definition sanitize_for_shell :: "jstext \<Rightarrow> jstext" where
  "sanitize_for_shell t = take 200 (map (\<lambda>c.
     if c \<in> {CHR 0x22, CHR 0x27, CHR 0x60, CHR 0x0D, CHR 0x0A} then CHR '' '' else c) t)"

definition powershell_toast :: "jstext \<Rightarrow> jstext \<Rightarrow> jstext" where
  "powershell_toast title body = join '' '' [
     ''$ErrorActionPreference = '' @ quoted ''SilentlyContinue'' @ '';'',
     ''[Windows.UI.Notifications.ToastNotificationManager, Windows.UI.Notifications, ContentType=WindowsRuntime] | Out-Null;'',
     ''$template = [Windows.UI.Notifications.ToastNotificationManager]::GetTemplateContent([Windows.UI.Notifications.ToastTemplateType]::ToastText02);'',
     ''$texts = $template.GetElementsByTagName('' @ quoted ''text'' @ '');'',
     ''$texts.Item(0).AppendChild($template.CreateTextNode('' @ quoted title @ '')) | Out-Null;'',
     ''$texts.Item(1).AppendChild($template.CreateTextNode('' @ quoted body @ '')) | Out-Null;'',
     ''$toast = [Windows.UI.Notifications.ToastNotification]::new($template);'',
     ''[Windows.UI.Notifications.ToastNotificationManager]::CreateToastNotifier('' @ quoted ''Yantra'' @ '').Show($toast);'']"

definition desktop_command :: "platform \<Rightarrow> notification \<Rightarrow> (jstext \<times> jstext list) option" where
  "desktop_command p n = (let title = sanitize_for_shell (nt_title n); body = sanitize_for_shell (nt_body n) in
     case p of
       Darwin \<Rightarrow> Some (''osascript'', [''-e'', ''display notification '' @ quoted body @ '' with title '' @ quoted title])
     | Linux \<Rightarrow> Some (''notify-send'', [title, body])
     | Win32 \<Rightarrow> Some (''powershell'', [''-NoProfile'', ''-NonInteractive'', ''-Command'', powershell_toast title body])
     | Other_platform \<Rightarrow> None)"

text \<open>The durable record first, then a toast when asked for: the file and the commands spawned.\<close>

definition sink_notify ::
  "platform \<Rightarrow> bool \<Rightarrow> notification \<Rightarrow> notify_target \<Rightarrow> notification list \<Rightarrow>
   notification list \<times> (jstext \<times> jstext list) option" where
  "sink_notify p append_ok n target file =
     ((if append_ok then file @ [n] else file),
      (if target = Notify_desktop then desktop_command p n else None))"

subsection \<open>Gateways\<close>

text \<open>The gateway of an unattended run: it notes that it was asked and parks. It never answers with a decision.\<close>

definition daemon_gateway ::
  "schedule \<Rightarrow> confirmation_request \<Rightarrow> bool \<times> notification list \<Rightarrow> (jstext + gateway_outcome) \<times> bool \<times> notification list" where
  "daemon_gateway s q w = (Ok Parked, True, snd w @ [build_notification \<lparr>ni_schedule = sc_id s, ni_run = Some (cq_run q),
     ni_workflow = sc_workflow s, ni_kind = Note_confirmation, ni_artifact = None,
     ni_confirm = Some (''yantra confirm '' @ cq_run q @ '' grant'')\<rparr>])"

text \<open>The gateway as a part of the world of a run: where its own state is kept there is an argument.\<close>

definition unattended_gateway ::
  "('w \<Rightarrow> bool \<times> notification list) \<Rightarrow> (bool \<times> notification list \<Rightarrow> 'w \<Rightarrow> 'w) \<Rightarrow> schedule \<Rightarrow>
   confirmation_request \<Rightarrow> 'w \<Rightarrow> (jstext + gateway_outcome) \<times> 'w" where
  "unattended_gateway get put s q w = (case daemon_gateway s q (get w) of (answer, x) \<Rightarrow> (answer, put x w))"

text \<open>The gateway of a resumed run: the first request is granted, every later one denied.\<close>

definition pregranted_gateway :: "confirmation_request \<Rightarrow> bool \<Rightarrow> (jstext + gateway_outcome) \<times> bool" where
  "pregranted_gateway q consumed =
     (Ok (Decision \<lparr>cd_id = cq_id q, cd_verdict = (if consumed then Denied else Granted), cd_by = By_user_cli\<rparr>), True)"

subsection \<open>Parked runs\<close>

text \<open>Nothing yet, a resumption, or the handoff status for a decision that was not a grant.\<close>

definition resolve_parked_run ::
  "jstext option \<Rightarrow> (jstext \<Rightarrow> confirmation_entry list) \<Rightarrow> (jstext \<Rightarrow> jstext + fire_result) \<Rightarrow> jstext + fire_result option" where
  "resolve_parked_run run logs resume = (case run of
     None \<Rightarrow> Ok None
   | Some r \<Rightarrow> if r = [] then Ok None
       else (case latest_decision r (logs r) of
           None \<Rightarrow> Ok None
         | Some d \<Rightarrow> if cd_verdict d = Granted
             then (case resume r of Inl msg \<Rightarrow> Err msg | Inr out \<Rightarrow> Ok (Some out))
             else Ok (Some \<lparr>fr_run = Some r, fr_status = Fire_handoff\<rparr>)))"

text \<open>The status of a schedule whose parked run was resumed.\<close>

definition map_resume_status :: "run_kind \<Rightarrow> fire_status" where
  "map_resume_status k = (case k of
     Run_success \<Rightarrow> Fire_succeeded
   | Run_aborted r \<Rightarrow> (if r = Some User_handoff \<or> r = Some User_abort then Fire_handoff else Fire_failed)
   | Run_failure \<Rightarrow> Fire_failed)"

subsection \<open>The daemon\<close>

datatype daemon_phase = Daemon_down | Daemon_up | Daemon_stopping

datatype job_kind = Firing nat | Resuming

text \<open>A run under way keeps the row it was started for as it was listed then.\<close>

record job =
  jb_schedule :: schedule
  jb_kind :: job_kind

text \<open>The log is a history of the model: instants dispatched and missed, rows added, writes lost, processes killed.\<close>

datatype daemon_entry =
    Registered jstext | Fired jstext nat | Resumed jstext | Missed jstext nat | Write_lost jstext | Killed

record daemon =
  dm_rows :: schedule_table
  dm_phase :: daemon_phase
  dm_in_flight :: "jstext list"
  dm_jobs :: "job list"
  dm_log :: "daemon_entry list"

definition lower_bound :: "schedule \<Rightarrow> nat" where
  "lower_bound s = (case sc_last_fire s of Some t \<Rightarrow> t | None \<Rightarrow> sc_created s)"

definition due_time :: "cron_library \<Rightarrow> jstext list \<Rightarrow> schedule \<Rightarrow> nat \<Rightarrow> jstext + nat option" where
  "due_time croner busy s now =
     (if sc_id s \<in> set busy then Ok None
      else case next_fire croner (sc_cron s) (lower_bound s) of
        Inl msg \<Rightarrow> Err msg
      | Inr None \<Rightarrow> Ok None
      | Inr (Some t) \<Rightarrow> Ok (if now < t then None else Some t))"

definition note_entry :: "daemon_entry \<Rightarrow> daemon \<Rightarrow> daemon" where
  "note_entry e d = d\<lparr>dm_log := dm_log d @ [e]\<rparr>"

definition enter_flight :: "schedule \<Rightarrow> job_kind \<Rightarrow> daemon \<Rightarrow> daemon" where
  "enter_flight s k d = d\<lparr>dm_in_flight := dm_in_flight d @ [sc_id s],
     dm_jobs := dm_jobs d @ [\<lparr>jb_schedule = s, jb_kind = k\<rparr>]\<rparr>"

definition leave_flight :: "jstext \<Rightarrow> daemon \<Rightarrow> daemon" where
  "leave_flight i d = d\<lparr>dm_in_flight := filter (\<lambda>j. j \<noteq> i) (dm_in_flight d),
     dm_jobs := filter (\<lambda>j. sc_id (jb_schedule j) \<noteq> i) (dm_jobs d)\<rparr>"

definition dispatch_fire :: "schedule \<Rightarrow> nat \<Rightarrow> daemon \<Rightarrow> daemon" where
  "dispatch_fire s t d = (if sc_id s \<in> set (dm_in_flight d) then d
     else note_entry (Fired (sc_id s) t) (enter_flight s (Firing t) d))"

text \<open>Whether the daemon was built with a resumer is an argument.\<close>

definition resume_if_granted :: "bool \<Rightarrow> schedule \<Rightarrow> daemon \<Rightarrow> daemon" where
  "resume_if_granted resumer s d = (if \<not> resumer \<or> sc_id s \<in> set (dm_in_flight d) then d
     else note_entry (Resumed (sc_id s)) (enter_flight s Resuming d))"

text \<open>A poll over the listed rows; an expression that does not parse ends it.\<close>

fun tick_rows :: "cron_library \<Rightarrow> bool \<Rightarrow> nat \<Rightarrow> schedule list \<Rightarrow> daemon \<Rightarrow> jstext option \<times> daemon" where
  "tick_rows croner resumer now [] d = (None, d)"
| "tick_rows croner resumer now (s # ss) d =
     (if sc_last_status s = Some Fire_pending then tick_rows croner resumer now ss (resume_if_granted resumer s d)
      else case due_time croner (dm_in_flight d) s now of
        Inl msg \<Rightarrow> (Some msg, d)
      | Inr None \<Rightarrow> tick_rows croner resumer now ss d
      | Inr (Some t) \<Rightarrow> tick_rows croner resumer now ss (dispatch_fire s t d))"

definition tick :: "cron_library \<Rightarrow> bool \<Rightarrow> bool \<Rightarrow> nat \<Rightarrow> daemon \<Rightarrow> jstext option \<times> daemon" where
  "tick croner resumer list_ok now d =
     (if dm_phase d = Daemon_stopping \<or> \<not> list_ok then (None, d)
      else tick_rows croner resumer now (list_enabled (dm_rows d)) d)"

text \<open>Writing the outcome of a fire on its row; the next instant is advisory.\<close>

definition write_fire :: "bool \<Rightarrow> jstext \<Rightarrow> fire_patch \<Rightarrow> daemon \<Rightarrow> daemon" where
  "write_fire write_ok i p d =
     (if write_ok then d\<lparr>dm_rows := mark_fire i p (dm_rows d)\<rparr> else note_entry (Write_lost i) d)"

definition record_fire ::
  "cron_library \<Rightarrow> bool \<Rightarrow> schedule \<Rightarrow> nat \<Rightarrow> fire_status \<Rightarrow> jstext option \<Rightarrow> daemon \<Rightarrow> jstext + daemon" where
  "record_fire croner write_ok s t st run d = (case next_fire croner (sc_cron s) t of
     Inl msg \<Rightarrow> Err msg
   | Inr nxt \<Rightarrow> Ok (write_fire write_ok (sc_id s)
       \<lparr>fp_last_fire = t, fp_last_run = run, fp_last_status = st, fp_next_fire = nxt\<rparr> d))"

text \<open>What a dispatched fire does once the runner has answered, or thrown.\<close>

definition settle_fire ::
  "cron_library \<Rightarrow> bool \<Rightarrow> schedule \<Rightarrow> nat \<Rightarrow> jstext + fire_result \<Rightarrow> daemon \<Rightarrow> jstext option \<times> daemon" where
  "settle_fire croner write_ok s t out d =
     (case (case out of Inl msg \<Rightarrow> Err msg | Inr r \<Rightarrow> record_fire croner write_ok s t (fr_status r) (fr_run r) d) of
        Inr d' \<Rightarrow> (None, leave_flight (sc_id s) d')
      | Inl _ \<Rightarrow> (case record_fire croner write_ok s t Fire_failed None d of
          Inr d' \<Rightarrow> (None, leave_flight (sc_id s) d')
        | Inl msg \<Rightarrow> (Some msg, leave_flight (sc_id s) d)))"

definition settle_resume ::
  "cron_library \<Rightarrow> bool \<Rightarrow> nat \<Rightarrow> schedule \<Rightarrow> jstext + fire_result option \<Rightarrow> daemon \<Rightarrow> daemon" where
  "settle_resume croner write_ok now s out d = (case out of
     Inr (Some r) \<Rightarrow>
       (let last_fire = (case sc_last_fire s of Some t \<Rightarrow> t | None \<Rightarrow> now) in
        case record_fire croner write_ok s last_fire (fr_status r) (fr_run r) d of
          Inr d' \<Rightarrow> leave_flight (sc_id s) d' | Inl _ \<Rightarrow> leave_flight (sc_id s) d)
   | _ \<Rightarrow> leave_flight (sc_id s) d)"

text \<open>Starting: what fell due while no daemon ran is recorded as missed, at the instant of the start.\<close>

fun mark_missed ::
  "cron_library \<Rightarrow> (jstext \<Rightarrow> bool) \<Rightarrow> nat \<Rightarrow> schedule list \<Rightarrow> daemon \<Rightarrow> jstext option \<times> daemon" where
  "mark_missed croner write_ok now [] d = (None, d)"
| "mark_missed croner write_ok now (s # ss) d = (case due_time croner (dm_in_flight d) s now of
     Inl msg \<Rightarrow> (Some msg, d)
   | Inr None \<Rightarrow> mark_missed croner write_ok now ss d
   | Inr (Some t) \<Rightarrow> (case record_fire croner (write_ok (sc_id s)) s now Fire_missed None (note_entry (Missed (sc_id s) t) d) of
       Inl msg \<Rightarrow> (Some msg, d) | Inr d' \<Rightarrow> mark_missed croner write_ok now ss d'))"

definition start_daemon ::
  "cron_library \<Rightarrow> bool \<Rightarrow> (jstext \<Rightarrow> bool) \<Rightarrow> nat \<Rightarrow> daemon \<Rightarrow> jstext option \<times> daemon" where
  "start_daemon croner list_ok write_ok now d =
     (case (if list_ok then mark_missed croner write_ok now (list_enabled (dm_rows d)) d else (None, d)) of
        (None, d') \<Rightarrow> (None, d'\<lparr>dm_phase := Daemon_up\<rparr>)
      | (Some msg, d') \<Rightarrow> (Some msg, d'))"

text \<open>Stopping: no more polls, and the lock is given back once nothing is in flight.\<close>

definition stop_daemon :: "daemon \<Rightarrow> daemon" where
  "stop_daemon d = d\<lparr>dm_phase := Daemon_stopping\<rparr>"

definition release_daemon :: "daemon \<Rightarrow> daemon option" where
  "release_daemon d = (if dm_phase d = Daemon_stopping \<and> dm_in_flight d = []
     then Some (d\<lparr>dm_phase := Daemon_down\<rparr>) else None)"

text \<open>The process dies: what was in flight is gone, the table stays.\<close>

definition kill_daemon :: "daemon \<Rightarrow> daemon" where
  "kill_daemon d = note_entry Killed (d\<lparr>dm_phase := Daemon_down, dm_in_flight := [], dm_jobs := []\<rparr>)"

definition after_tick :: "jstext option \<times> daemon \<Rightarrow> daemon" where
  "after_tick r = (case r of (None, d) \<Rightarrow> d | (Some _, d) \<Rightarrow> kill_daemon d)"

record daemon_status =
  ds_running :: bool
  ds_pid :: "nat option"
  ds_loaded :: nat
  ds_next :: "(jstext \<times> nat option) list"
  ds_pending :: nat

fun next_fires :: "cron_library \<Rightarrow> nat \<Rightarrow> schedule list \<Rightarrow> jstext + (jstext \<times> nat option) list" where
  "next_fires croner now [] = Ok []"
| "next_fires croner now (s # ss) =
     (case (if sc_enabled s then next_fire croner (sc_cron s) now else Ok None) of
        Inl msg \<Rightarrow> Err msg
      | Inr t \<Rightarrow> map_sum id (\<lambda>rest. (sc_id s, t) # rest) (next_fires croner now ss))"

definition daemon_report :: "cron_library \<Rightarrow> nat option option \<Rightarrow> bool \<Rightarrow> nat \<Rightarrow> daemon \<Rightarrow> jstext + daemon_status" where
  "daemon_report croner probed list_ok now d =
     (let rows = (if list_ok then list_schedules (dm_rows d) else []) in
      map_sum id (\<lambda>nexts. \<lparr>ds_running = probed \<noteq> None, ds_pid = Option.bind probed (\<lambda>p. p), ds_loaded = length rows,
          ds_next = nexts, ds_pending = length (filter (\<lambda>s. sc_last_status s = Some Fire_pending) rows)\<rparr>)
        (next_fires croner now rows))"

subsection \<open>Steps\<close>

inductive daemon_step :: "cron_library \<Rightarrow> bool \<Rightarrow> daemon \<Rightarrow> daemon \<Rightarrow> bool" for croner resumer where
  Register: "Registered i \<notin> set (dm_log d) \<Longrightarrow> register_schedule db_ok i now inp (dm_rows d) = (Inr s, rows) \<Longrightarrow>
    daemon_step croner resumer d (note_entry (Registered i) (d\<lparr>dm_rows := rows\<rparr>))"
| Remove: "daemon_step croner resumer d (d\<lparr>dm_rows := snd (remove_schedule i (dm_rows d))\<rparr>)"
| Enable: "daemon_step croner resumer d (d\<lparr>dm_rows := snd (set_enabled i b (dm_rows d))\<rparr>)"
| Start: "dm_phase d = Daemon_down \<Longrightarrow> daemon_step croner resumer d (snd (start_daemon croner list_ok write_ok now d))"
| Poll: "dm_phase d \<noteq> Daemon_down \<Longrightarrow> daemon_step croner resumer d (after_tick (tick croner resumer list_ok now d))"
| Settle_fire: "j \<in> set (dm_jobs d) \<Longrightarrow> jb_kind j = Firing t \<Longrightarrow>
    daemon_step croner resumer d (after_tick (settle_fire croner write_ok (jb_schedule j) t out d))"
| Settle_resume: "j \<in> set (dm_jobs d) \<Longrightarrow> jb_kind j = Resuming \<Longrightarrow>
    daemon_step croner resumer d (settle_resume croner write_ok now (jb_schedule j) res d)"
| Stop: "dm_phase d = Daemon_up \<Longrightarrow> daemon_step croner resumer d (stop_daemon d)"
| Release: "release_daemon d = Some d' \<Longrightarrow> daemon_step croner resumer d d'"
| Kill: "daemon_step croner resumer d (kill_daemon d)"

definition no_daemon :: daemon where
  "no_daemon = \<lparr>dm_rows = [], dm_phase = Daemon_down, dm_in_flight = [], dm_jobs = [], dm_log = []\<rparr>"

definition daemon_reachable :: "cron_library \<Rightarrow> bool \<Rightarrow> daemon \<Rightarrow> bool" where
  "daemon_reachable croner resumer d \<longleftrightarrow> (daemon_step croner resumer)\<^sup>*\<^sup>* no_daemon d"

lemma daemon_reachable_induct [consumes 1, case_names Init Step]:
  assumes "daemon_reachable croner resumer d" and "P no_daemon"
    and "\<And>d d'. daemon_reachable croner resumer d \<Longrightarrow> P d \<Longrightarrow> daemon_step croner resumer d d' \<Longrightarrow> P d'"
  shows "P d"
  using assms(1) unfolding daemon_reachable_def
proof (induction rule: rtranclp_induct)
  case base
  then show ?case using assms(2) .
next
  case (step y z)
  then show ?case using assms(3) by (auto simp: daemon_reachable_def)
qed

section \<open>One run at a time\<close>

text \<open>The shape of a daemon: rows have keys, runs under way are those in flight, each schedule once, none while it is down.\<close>

definition job_id :: "job \<Rightarrow> jstext" where
  "job_id j = sc_id (jb_schedule j)"

definition daemon_shape :: "daemon \<Rightarrow> bool" where
  "daemon_shape d \<longleftrightarrow> distinct (map sc_id (dm_rows d)) \<and> dm_in_flight d = map job_id (dm_jobs d) \<and>
     distinct (map job_id (dm_jobs d)) \<and> (dm_phase d = Daemon_down \<longrightarrow> dm_jobs d = [])"

lemma mark_fire_ids [simp]: "map sc_id (mark_fire i p rows) = map sc_id rows"
  by (simp add: mark_fire_def)

lemma set_enabled_ids [simp]: "map sc_id (snd (set_enabled i b rows)) = map sc_id rows"
  by (simp add: set_enabled_def)

lemma set_list_enabled: "set (list_enabled rows) = {s \<in> set rows. sc_enabled s}"
  by (simp add: list_enabled_def list_schedules_def)

lemma dispatch_fire_shape:
  "daemon_shape d \<Longrightarrow> dm_phase d \<noteq> Daemon_down \<Longrightarrow> daemon_shape (dispatch_fire s t d)"
  by (auto simp: daemon_shape_def dispatch_fire_def note_entry_def enter_flight_def job_id_def)

lemma resume_if_granted_shape:
  "daemon_shape d \<Longrightarrow> dm_phase d \<noteq> Daemon_down \<Longrightarrow> daemon_shape (resume_if_granted b s d)"
  by (auto simp: daemon_shape_def resume_if_granted_def note_entry_def enter_flight_def job_id_def)

lemma poll_frame [simp]:
  "dm_phase (dispatch_fire s t d) = dm_phase d" "dm_rows (dispatch_fire s t d) = dm_rows d"
  "dm_phase (resume_if_granted b s d) = dm_phase d" "dm_rows (resume_if_granted b s d) = dm_rows d"
  by (simp_all add: dispatch_fire_def resume_if_granted_def note_entry_def enter_flight_def)

text \<open>What a poll, or the scan of a start, keeps if each of its single actions keeps it.\<close>

lemma tick_rows_keeps:
  assumes "P d"
    and fire: "\<And>d s t. P d \<Longrightarrow> s \<in> set ss \<Longrightarrow> due_time croner (dm_in_flight d) s now = Inr (Some t) \<Longrightarrow> P (dispatch_fire s t d)"
    and pick: "\<And>d s. P d \<Longrightarrow> s \<in> set ss \<Longrightarrow> sc_last_status s = Some Fire_pending \<Longrightarrow> P (resume_if_granted resumer s d)"
  shows "P (snd (tick_rows croner resumer now ss d))"
  using assms
proof (induction ss arbitrary: d)
  case (Cons s ss)
  have rest: "P d' \<Longrightarrow> P (snd (tick_rows croner resumer now ss d'))" for d'
    using Cons.IH Cons.prems(2,3) by simp
  show ?case
  proof (cases "sc_last_status s = Some Fire_pending")
    case True
    then show ?thesis using rest Cons.prems(1,3) by simp
  next
    case False
    note here = rest [OF Cons.prems(1)] Cons.prems(2) [OF Cons.prems(1), of s, THEN rest]
    show ?thesis using False here Cons.prems(1)
      by (cases "due_time croner (dm_in_flight d) s now"; cases "projr (due_time croner (dm_in_flight d) s now)") simp_all
  qed
qed simp

lemma mark_missed_keeps:
  assumes "P d"
    and mark: "\<And>d s t d'. P d \<Longrightarrow> s \<in> set ss \<Longrightarrow> due_time croner (dm_in_flight d) s now = Inr (Some t) \<Longrightarrow>
      record_fire croner (write_ok (sc_id s)) s now Fire_missed None (note_entry (Missed (sc_id s) t) d) = Inr d' \<Longrightarrow> P d'"
  shows "P (snd (mark_missed croner write_ok now ss d))"
  using assms
proof (induction ss arbitrary: d)
  case (Cons s ss)
  have rest: "P d' \<Longrightarrow> P (snd (mark_missed croner write_ok now ss d'))" for d'
    by (erule Cons.IH) (erule Cons.prems(2) [OF _ list.set_intros(2)], assumption+)
  show ?case
  proof (cases "due_time croner (dm_in_flight d) s now")
    case (Inr t)
    show ?thesis
    proof (cases t)
      case (Some t')
      let ?r = "record_fire croner (write_ok (sc_id s)) s now Fire_missed None (note_entry (Missed (sc_id s) t') d)"
      have "P (snd (mark_missed croner write_ok now ss d'))" if "?r = Inr d'" for d'
        using rest [OF Cons.prems(2) [OF Cons.prems(1) _ Inr [unfolded Some] that]] by simp
      then show ?thesis using Inr Some Cons.prems(1) by (cases ?r) simp_all
    qed (use Inr rest [OF Cons.prems(1)] in simp)
  qed (use Cons.prems(1) in simp)
qed simp

lemma record_fire_frame:
  assumes "record_fire croner w s t st run d = Inr d'"
  shows "dm_phase d' = dm_phase d" "dm_in_flight d' = dm_in_flight d" "dm_jobs d' = dm_jobs d"
    "map sc_id (dm_rows d') = map sc_id (dm_rows d)"
  using assms by (auto simp: record_fire_def write_fire_def note_entry_def split: sum.splits)

lemma leave_flight_shape: "daemon_shape d \<Longrightarrow> daemon_shape (leave_flight i d)"
  by (auto simp: daemon_shape_def leave_flight_def filter_map o_def job_id_def distinct_map intro: inj_on_subset)

lemma record_fire_shape:
  assumes "record_fire croner w s t st run d = Inr d'" and "daemon_shape d"
  shows "daemon_shape d'"
  using assms(2) unfolding daemon_shape_def record_fire_frame [OF assms(1)] .

lemma kill_daemon_shape: "daemon_shape d \<Longrightarrow> daemon_shape (kill_daemon d)"
  by (simp add: daemon_shape_def kill_daemon_def note_entry_def)

lemma after_tick_keeps:
  "P (snd r) \<Longrightarrow> (P (snd r) \<Longrightarrow> P (kill_daemon (snd r))) \<Longrightarrow> P (after_tick r)"
  by (auto simp: after_tick_def split: prod.splits option.splits)

lemma settle_fire_keeps:
  assumes "\<And>r d'. out = Inr r \<Longrightarrow> record_fire croner w s t (fr_status r) (fr_run r) d = Inr d' \<Longrightarrow> P (leave_flight (sc_id s) d')"
    and "\<And>d'. record_fire croner w s t Fire_failed None d = Inr d' \<Longrightarrow> P (leave_flight (sc_id s) d')"
    and "P (leave_flight (sc_id s) d)"
  shows "P (snd (settle_fire croner w s t out d))"
  using assms by (auto simp: settle_fire_def split: sum.splits)

lemma settle_resume_keeps:
  assumes "\<And>r d'. res = Inr (Some r) \<Longrightarrow>
      record_fire croner w s (case sc_last_fire s of Some t \<Rightarrow> t | None \<Rightarrow> now) (fr_status r) (fr_run r) d = Inr d' \<Longrightarrow>
      P (leave_flight (sc_id s) d')"
    and "P (leave_flight (sc_id s) d)"
  shows "P (settle_resume croner w now s res d)"
  using assms by (auto simp: settle_resume_def Let_def split: sum.splits option.splits)

lemma start_daemon_keeps:
  assumes "P d" and "P (snd (mark_missed croner w now (list_enabled (dm_rows d)) d))"
    and "\<And>d. P d \<Longrightarrow> P (d\<lparr>dm_phase := Daemon_up\<rparr>)"
  shows "P (snd (start_daemon croner l w now d))"
  using assms by (cases "mark_missed croner w now (list_enabled (dm_rows d)) d")
    (auto simp: start_daemon_def split: option.splits)

lemma daemon_step_shape:
  assumes "daemon_step croner resumer d d'" and "daemon_shape d"
  shows "daemon_shape d'"
  using assms
proof (cases rule: daemon_step.cases)
  case (Register i db_ok now inp rows s)
  then show ?thesis using assms(2)
    by (auto simp: register_schedule_def new_schedule_def daemon_shape_def note_entry_def split: if_splits)
next
  case (Start list_ok write_ok now)
  have missed: "daemon_shape (snd (mark_missed croner write_ok now ss d))" for ss
    by (rule mark_missed_keeps [where P = daemon_shape, OF assms(2)])
       (auto dest!: record_fire_shape simp: daemon_shape_def note_entry_def)
  show ?thesis unfolding Start(1)
    by (rule start_daemon_keeps [where P = daemon_shape, OF assms(2) missed]) (unfold daemon_shape_def, simp)
next
  case (Poll list_ok now)
  have "daemon_shape (snd (tick_rows croner resumer now ss d)) \<and> dm_phase (snd (tick_rows croner resumer now ss d)) \<noteq> Daemon_down" for ss
    by (rule tick_rows_keeps [where P = "\<lambda>d. daemon_shape d \<and> dm_phase d \<noteq> Daemon_down"])
       (use assms(2) Poll in \<open>auto intro: dispatch_fire_shape resume_if_granted_shape\<close>)
  then show ?thesis unfolding Poll(1)
    by (intro after_tick_keeps [where P = daemon_shape] kill_daemon_shape) (use assms(2) in \<open>auto simp: tick_def\<close>)
next
  case (Settle_fire j t write_ok out)
  show ?thesis unfolding Settle_fire(1)
    by (intro after_tick_keeps [where P = daemon_shape] kill_daemon_shape settle_fire_keeps [where P = daemon_shape])
       (use assms(2) in \<open>auto intro: leave_flight_shape record_fire_shape\<close>)
next
  case (Settle_resume j write_ok now res)
  show ?thesis unfolding Settle_resume(1)
    by (intro settle_resume_keeps [where P = daemon_shape]) (use assms(2) in \<open>auto intro: leave_flight_shape record_fire_shape\<close>)
next
  case Release
  then show ?thesis using assms(2) by (auto simp: release_daemon_def daemon_shape_def split: if_splits)
qed (auto simp: daemon_shape_def stop_daemon_def kill_daemon_def note_entry_def remove_schedule_def distinct_map_filter)

lemma daemon_reachable_shape: "daemon_reachable croner resumer d \<Longrightarrow> daemon_shape d"
proof (induction rule: daemon_reachable_induct)
  case Init
  then show ?case by (simp add: no_daemon_def daemon_shape_def)
next
  case (Step d d')
  then show ?case by (blast intro: daemon_step_shape)
qed

section \<open>Instants go up\<close>

definition fired_at :: "jstext \<Rightarrow> daemon_entry list \<Rightarrow> nat list" where
  "fired_at i l = List.map_filter (\<lambda>e. case e of Fired j t \<Rightarrow> if j = i then Some t else None | _ \<Rightarrow> None) l"

text \<open>No process was killed and no outcome of this schedule was lost.\<close>

definition undisturbed :: "jstext \<Rightarrow> daemon_entry list \<Rightarrow> bool" where
  "undisturbed i l \<longleftrightarrow> Killed \<notin> set l \<and> Write_lost i \<notin> set l"

text \<open>A cron library answers with later instants.\<close>

definition cron_advances :: "cron_library \<Rightarrow> bool" where
  "cron_advances croner \<longleftrightarrow> (\<forall>e nxt t t'. croner e = Some nxt \<longrightarrow> nxt t = Some t' \<longrightarrow> t < t')"

text \<open>
  What holds of the order of instants: rows are registered, a parked row has fired; a run under way knows the instant its row had
  when it was listed, and no one has written it since; an instant dispatched is at or before the row's bound, or under way.
\<close>

definition jobs_of :: "jstext \<Rightarrow> daemon \<Rightarrow> job list" where
  "jobs_of i d = filter (\<lambda>j. job_id j = i) (dm_jobs d)"

definition row_order :: "daemon \<Rightarrow> schedule \<Rightarrow> bool" where
  "row_order d s \<longleftrightarrow> Registered (sc_id s) \<in> set (dm_log d) \<and> (sc_last_status s \<noteq> None \<longrightarrow> sc_last_fire s \<noteq> None) \<and>
     (\<forall>j \<in> set (jobs_of (sc_id s) d).
        sc_last_fire s = sc_last_fire (jb_schedule j) \<and> sc_created s = sc_created (jb_schedule j)) \<and>
     (undisturbed (sc_id s) (dm_log d) \<longrightarrow>
        (\<forall>t \<in> set (fired_at (sc_id s) (dm_log d)). t \<le> lower_bound s \<or> (\<exists>j \<in> set (jobs_of (sc_id s) d). jb_kind j = Firing t)))"

definition job_order :: "job \<Rightarrow> bool" where
  "job_order j \<longleftrightarrow> (case jb_kind j of Resuming \<Rightarrow> sc_last_fire (jb_schedule j) \<noteq> None | Firing t \<Rightarrow> lower_bound (jb_schedule j) < t)"

definition daemon_order :: "daemon \<Rightarrow> bool" where
  "daemon_order d \<longleftrightarrow> (\<forall>s \<in> set (dm_rows d). row_order d s) \<and>
     (\<forall>j \<in> set (dm_jobs d). job_order j \<and> Registered (job_id j) \<in> set (dm_log d)) \<and>
     (\<forall>i t. Fired i t \<in> set (dm_log d) \<longrightarrow> Registered i \<in> set (dm_log d)) \<and>
     (\<forall>i. undisturbed i (dm_log d) \<longrightarrow> sorted_wrt (<) (fired_at i (dm_log d)))"

lemma fired_at_append [simp]: "fired_at i (l @ l') = fired_at i l @ fired_at i l'"
  by (simp add: fired_at_def map_filter_def)

lemma fired_at_entry [simp]:
  "fired_at i [] = []" "fired_at i (Fired j t # l) = (if j = i then [t] else []) @ fired_at i l"
  "fired_at i (Registered j # l) = fired_at i l" "fired_at i (Resumed j # l) = fired_at i l"
  "fired_at i (Missed j t # l) = fired_at i l" "fired_at i (Write_lost j # l) = fired_at i l" "fired_at i (Killed # l) = fired_at i l"
  by (simp_all add: fired_at_def map_filter_def)

lemma lower_bound_cong:
  "sc_last_fire s = sc_last_fire s' \<Longrightarrow> sc_created s = sc_created s' \<Longrightarrow> lower_bound s = lower_bound s'"
  by (simp add: lower_bound_def split: option.split)

lemma lower_bound_enabled [simp]: "lower_bound (s\<lparr>sc_enabled := b\<rparr>) = lower_bound s"
  by (rule lower_bound_cong) simp_all

lemma in_fired_at: "t \<in> set (fired_at i l) \<longleftrightarrow> Fired i t \<in> set l"
  by (induction l) (auto simp: fired_at_def map_filter_simps split: daemon_entry.splits)

lemma undisturbed_append [simp]:
  "undisturbed i (l @ [e]) \<longleftrightarrow> undisturbed i l \<and> e \<noteq> Killed \<and> e \<noteq> Write_lost i"
  by (auto simp: undisturbed_def)

lemma due_time_later:
  assumes "cron_advances croner" and "due_time croner busy s now = Inr (Some t)"
  shows "lower_bound s < t" "t \<le> now" "sc_id s \<notin> set busy"
  using assms
  by (auto simp: due_time_def next_fire_def cron_advances_def split: if_splits sum.splits option.splits)

lemma dispatch_fire_order:
  assumes "daemon_order d" and "s \<in> set (dm_rows d)" and "cron_advances croner"
    and due: "due_time croner (dm_in_flight d) s now = Inr (Some t)" and shape: "daemon_shape d"
  shows "daemon_order (dispatch_fire s t d)"
proof -
  note later = due_time_later [OF assms(3) due]
  let ?d = "dispatch_fire s t d"
  have d': "dm_jobs ?d = dm_jobs d @ [\<lparr>jb_schedule = s, jb_kind = Firing t\<rparr>]" "dm_log ?d = dm_log d @ [Fired (sc_id s) t]"
    using later(3) by (simp_all add: dispatch_fire_def note_entry_def enter_flight_def)
  have free: "job_id j \<noteq> sc_id s" if "j \<in> set (dm_jobs d)" for j
    using that later(3) shape by (metis daemon_shape_def image_eqI set_map)
  have row: "row_order d r" if "r \<in> set (dm_rows d)" for r using that assms(1) by (simp add: daemon_order_def)
  have before: "\<forall>t' \<in> set (fired_at (sc_id s) (dm_log d)). t' < t" if "undisturbed (sc_id s) (dm_log d)"
    using row [OF assms(2)] free that later(1) by (force simp: row_order_def jobs_of_def)
  have same: "r = s" if "r \<in> set (dm_rows d)" "sc_id r = sc_id s" for r
    using that assms(2) shape by (auto simp: daemon_shape_def distinct_map dest: inj_onD)
  have "row_order ?d r" if r: "r \<in> set (dm_rows d)" for r
  proof (cases "sc_id r = sc_id s")
    case True
    then show ?thesis using row [OF r] same [OF r True] by (auto simp: row_order_def d' jobs_of_def job_id_def)
  next
    case False
    then show ?thesis using row [OF r] by (auto simp: row_order_def d' jobs_of_def job_id_def)
  qed
  moreover have "Registered (sc_id s) \<in> set (dm_log d)" using row [OF assms(2)] by (simp add: row_order_def)
  ultimately show ?thesis
    using assms(1) before later(1) by (auto simp: daemon_order_def d' job_order_def job_id_def sorted_wrt_append)
qed

lemma resume_if_granted_order:
  assumes "daemon_order d" and "s \<in> set (dm_rows d)" and "sc_last_status s = Some Fire_pending" and shape: "daemon_shape d"
  shows "daemon_order (resume_if_granted resumer s d)"
proof (cases "\<not> resumer \<or> sc_id s \<in> set (dm_in_flight d)")
  case False
  let ?d = "resume_if_granted resumer s d"
  have d': "dm_jobs ?d = dm_jobs d @ [\<lparr>jb_schedule = s, jb_kind = Resuming\<rparr>]" "dm_log ?d = dm_log d @ [Resumed (sc_id s)]"
    using False by (simp_all add: resume_if_granted_def note_entry_def enter_flight_def)
  have row: "row_order d r" if "r \<in> set (dm_rows d)" for r using that assms(1) by (simp add: daemon_order_def)
  have same: "r = s" if "r \<in> set (dm_rows d)" "sc_id r = sc_id s" for r
    using that assms(2) shape by (auto simp: daemon_shape_def distinct_map dest: inj_onD)
  have "row_order ?d r" if r: "r \<in> set (dm_rows d)" for r
  proof (cases "sc_id r = sc_id s")
    case True
    then show ?thesis using row [OF r] same [OF r True] by (auto simp: row_order_def d' jobs_of_def job_id_def)
  next
    case False
    then show ?thesis using row [OF r] by (auto simp: row_order_def d' jobs_of_def job_id_def)
  qed
  moreover have "sc_last_fire s \<noteq> None" "Registered (sc_id s) \<in> set (dm_log d)"
    using row [OF assms(2)] assms(3) by (simp_all add: row_order_def)
  ultimately show ?thesis
    using assms(1) by (auto simp: daemon_order_def d' job_order_def job_id_def)
qed (use assms(1) in \<open>simp add: resume_if_granted_def\<close>)

text \<open>Leaving flight, after the outcome was written or lost, and without a write.\<close>

lemma leave_flight_fields [simp]:
  "jobs_of k (leave_flight i d) = (if k = i then [] else jobs_of k d)" "dm_log (leave_flight i d) = dm_log d"
  "dm_rows (leave_flight i d) = dm_rows d" "set (dm_jobs (leave_flight i d)) = {j \<in> set (dm_jobs d). job_id j \<noteq> i}"
  by (auto simp: leave_flight_def jobs_of_def job_id_def intro: filter_cong)

lemma write_fire_fields [simp]:
  "dm_jobs (write_fire w i p d) = dm_jobs d" "dm_rows (write_fire w i p d) = (if w then mark_fire i p (dm_rows d) else dm_rows d)"
  "dm_log (write_fire w i p d) = (if w then dm_log d else dm_log d @ [Write_lost i])" "jobs_of k (write_fire w i p d) = jobs_of k d"
  by (simp_all add: write_fire_def note_entry_def jobs_of_def)

lemma row_order_other:
  assumes "row_order d s" and "jobs_of (sc_id s) d' = jobs_of (sc_id s) d"
    and "dm_log d' = dm_log d \<or> dm_log d' = dm_log d @ [Write_lost i] \<and> sc_id s \<noteq> i"
  shows "row_order d' s"
  using assms(3,1) by (elim disjE conjE) (simp_all add: row_order_def assms(2))

lemma leave_order:
  assumes "daemon_order d"
    and bound: "\<And>s t. s \<in> set (dm_rows d) \<Longrightarrow> sc_id s = i \<Longrightarrow> undisturbed i (dm_log d) \<Longrightarrow> t \<in> set (fired_at i (dm_log d)) \<Longrightarrow>
      t \<le> lower_bound s"
  shows "daemon_order (leave_flight i d)"
proof -
  have "row_order (leave_flight i d) s" if s: "s \<in> set (dm_rows d)" for s
  proof (cases "sc_id s = i")
    case True
    have "row_order d s" using assms(1) s by (simp add: daemon_order_def)
    moreover have "\<forall>t \<in> set (fired_at i (dm_log d)). t \<le> lower_bound s" if "undisturbed i (dm_log d)"
      using bound [OF s True that] by blast
    ultimately show ?thesis using True by (simp add: row_order_def)
  next
    case False
    then show ?thesis using assms(1) s by (simp add: daemon_order_def row_order_other [of d])
  qed
  then show ?thesis using assms(1) by (simp add: daemon_order_def)
qed

lemma write_order:
  assumes "daemon_order d"
    and bound: "\<And>s t. s \<in> set (dm_rows d) \<Longrightarrow> sc_id s = i \<Longrightarrow> undisturbed i (dm_log d) \<Longrightarrow> t \<in> set (fired_at i (dm_log d)) \<Longrightarrow>
      t \<le> fp_last_fire p"
  shows "daemon_order (leave_flight i (write_fire write_ok i p d))" (is "daemon_order ?d")
proof -
  have "row_order ?d r" if r: "r \<in> set (dm_rows ?d)" for r
  proof -
    obtain s where s: "s \<in> set (dm_rows d)" "sc_id r = sc_id s"
      "if write_ok \<and> sc_id s = i then sc_last_fire r = Some (fp_last_fire p) else r = s"
      using r by (auto simp: mark_fire_def split: if_splits)
    have old: "row_order d s" using s(1) assms(1) by (simp add: daemon_order_def)
    show ?thesis
    proof (cases "sc_id s = i")
      case True
      have reg: "Registered i \<in> set (dm_log d)" using old True by (simp add: row_order_def)
      have le: "\<forall>t \<in> set (fired_at i (dm_log d)). t \<le> fp_last_fire p" if "undisturbed i (dm_log d)"
        using bound [OF s(1) True that] by blast
      show ?thesis
      proof (cases write_ok)
        case w: True
        then have "sc_last_fire r = Some (fp_last_fire p)" "sc_id r = i" using s True by simp_all
        then show ?thesis using reg le w by (simp add: row_order_def lower_bound_def)
      next
        case False
        then have "r = s" using s(3) by simp
        then show ?thesis using old True False by (simp add: row_order_def)
      qed
    next
      case False
      then have "r = s" using s(3) by simp
      show ?thesis unfolding \<open>r = s\<close> using False by (intro row_order_other [OF old, where i = i]) simp_all
    qed
  qed
  moreover have "sorted_wrt (<) (fired_at k (dm_log ?d))" if "undisturbed k (dm_log ?d)" for k
    using assms(1) that by (cases write_ok) (simp_all add: daemon_order_def)
  moreover have "Registered k \<in> set (dm_log ?d) \<longleftrightarrow> Registered k \<in> set (dm_log d)"
      "Fired k t \<in> set (dm_log ?d) \<longleftrightarrow> Fired k t \<in> set (dm_log d)" for k t by simp_all
  ultimately show ?thesis using assms(1) by (simp add: daemon_order_def)
qed

lemma phase_order [simp]: "daemon_order (d\<lparr>dm_phase := x\<rparr>) = daemon_order d"
  by (simp add: daemon_order_def row_order_def jobs_of_def)

lemma kill_order: "daemon_order d \<Longrightarrow> daemon_order (kill_daemon d)"
  by (simp add: daemon_order_def row_order_def kill_daemon_def note_entry_def jobs_of_def)

lemma kill_after_leaving: "kill_daemon (leave_flight i d) = kill_daemon d"
  by (simp add: kill_daemon_def leave_flight_def note_entry_def)

lemma job_bound:
  assumes "daemon_order d" and "daemon_shape d" and j: "j \<in> set (dm_jobs d)"
    and s: "s \<in> set (dm_rows d)" "sc_id s = job_id j" and "undisturbed (job_id j) (dm_log d)" "t \<in> set (fired_at (job_id j) (dm_log d))"
  shows "t \<le> lower_bound (jb_schedule j) \<or> jb_kind j = Firing t"
proof -
  have row: "row_order d s" using assms(1) s(1) by (simp add: daemon_order_def)
  have j': "j \<in> set (jobs_of (sc_id s) d)" using j s(2) by (simp add: jobs_of_def)
  have same: "k = j" if "k \<in> set (jobs_of (sc_id s) d)" for k
    using that j s(2) assms(2) by (auto simp: jobs_of_def daemon_shape_def distinct_map dest: inj_onD)
  have "lower_bound s = lower_bound (jb_schedule j)" using row j' by (intro lower_bound_cong) (simp_all add: row_order_def)
  moreover have "t \<le> lower_bound s \<or> (\<exists>k \<in> set (jobs_of (sc_id s) d). jb_kind k = Firing t)"
    using row assms(6,7) s(2) by (simp add: row_order_def)
  ultimately show ?thesis using same by metis
qed

lemma record_fire_Ok:
  assumes "record_fire croner w s t st run d = Inr d'"
  obtains nxt where "d' = write_fire w (sc_id s) \<lparr>fp_last_fire = t, fp_last_run = run, fp_last_status = st, fp_next_fire = nxt\<rparr> d"
  using assms by (auto simp: record_fire_def split: sum.splits)

lemma settled_order:
  assumes "daemon_order d" and "daemon_shape d" and "j \<in> set (dm_jobs d)"
    and "record_fire croner w (jb_schedule j) t st run d = Inr d'"
    and "jb_kind j = Firing t \<or> jb_kind j = Resuming \<and> lower_bound (jb_schedule j) = t"
  shows "daemon_order (leave_flight (sc_id (jb_schedule j)) d')"
proof -
  obtain nxt where d': "d' = write_fire w (sc_id (jb_schedule j))
      \<lparr>fp_last_fire = t, fp_last_run = run, fp_last_status = st, fp_next_fire = nxt\<rparr> d"
    using record_fire_Ok [OF assms(4)] .
  have "job_order j" using assms(1,3) by (simp add: daemon_order_def)
  then show ?thesis unfolding d'
    using job_bound [OF assms(1-3)] assms(5) by (intro write_order [OF assms(1)]) (fastforce simp: job_id_def job_order_def)
qed

lemma missed_order:
  assumes "daemon_order d" and "dm_jobs d = []" "dm_in_flight d = []"
    and "record_fire croner w s now Fire_missed None (note_entry (Missed (sc_id s) t) d) = Inr d'"
    and bound: "\<And>t. undisturbed (sc_id s) (dm_log d) \<Longrightarrow> t \<in> set (fired_at (sc_id s) (dm_log d)) \<Longrightarrow> t \<le> now"
  shows "daemon_order d'" "dm_jobs d' = []" "dm_in_flight d' = []" "fired_at i (dm_log d') = fired_at i (dm_log d)"
    "undisturbed i (dm_log d') \<Longrightarrow> undisturbed i (dm_log d)"
proof -
  let ?d = "note_entry (Missed (sc_id s) t) d"
  have "row_order ?d r" if "row_order d r" for r using that by (simp add: row_order_def note_entry_def jobs_of_def)
  then have "daemon_order ?d" using assms(1) by (simp add: daemon_order_def note_entry_def)
  moreover obtain nxt where d': "d' = write_fire w (sc_id s)
      \<lparr>fp_last_fire = now, fp_last_run = None, fp_last_status = Fire_missed, fp_next_fire = nxt\<rparr> ?d"
    using record_fire_Ok [OF assms(4)] .
  ultimately have "daemon_order (leave_flight (sc_id s) d')"
    unfolding d' using bound by (intro write_order) (simp_all add: note_entry_def)
  moreover have "leave_flight (sc_id s) d' = d'"
    unfolding d' using assms(2,3) by (simp add: leave_flight_def write_fire_def note_entry_def)
  ultimately show "daemon_order d'" by simp
  show "dm_jobs d' = []" "dm_in_flight d' = []" "fired_at i (dm_log d') = fired_at i (dm_log d)"
    "undisturbed i (dm_log d') \<Longrightarrow> undisturbed i (dm_log d)"
    using assms(2,3) by (auto simp: d' note_entry_def write_fire_def undisturbed_def split: if_splits)
qed

lemma daemon_step_order:
  assumes "daemon_step croner resumer d d'" and "daemon_shape d" and "daemon_order d" and "cron_advances croner"
  shows "daemon_order d'"
  using assms(1)
proof (cases rule: daemon_step.cases)
  case (Register i db_ok now inp s rows)
  have s: "s = new_schedule i now inp" "rows = dm_rows d @ [s]" "i \<notin> sc_id ` set (dm_rows d)"
    using Register(3) by (auto simp: register_schedule_def split: if_splits)
  have none: "Fired i t \<notin> set (dm_log d)" "jobs_of i d = []" for t
    using assms(3) Register(2) by (auto simp: daemon_order_def jobs_of_def filter_empty_conv)
  have "fired_at i (dm_log d) = []" using none(1) in_fired_at [of _ i "dm_log d"] by (cases "fired_at i (dm_log d)") auto
  then have "row_order d' s"
    unfolding Register(1) using none(2) s by (simp add: row_order_def note_entry_def new_schedule_def jobs_of_def)
  moreover have "row_order d' r" if "row_order d r" for r
    using that unfolding Register(1) by (simp add: row_order_def note_entry_def jobs_of_def)
  ultimately show ?thesis
    using assms(3) s(2) unfolding Register(1) by (simp add: daemon_order_def note_entry_def)
next
  case (Remove i)
  then show ?thesis using assms(3) by (simp add: daemon_order_def row_order_def jobs_of_def remove_schedule_def)
next
  case (Enable i b)
  have "row_order d' (s\<lparr>sc_enabled := b\<rparr>)" "row_order d' s" if "row_order d s" for s
    using that unfolding Enable by (simp_all add: row_order_def jobs_of_def)
  then show ?thesis using assms(3) unfolding Enable by (auto simp: daemon_order_def set_enabled_def)
next
  case (Start list_ok write_ok now)
  let ?P = "\<lambda>x. daemon_order x \<and> dm_jobs x = [] \<and> dm_in_flight x = [] \<and>
    (\<forall>i. fired_at i (dm_log x) = fired_at i (dm_log d) \<and> (undisturbed i (dm_log x) \<longrightarrow> undisturbed i (dm_log d)))"
  have idle: "dm_jobs d = []" using Start(2) assms(2) by (simp add: daemon_shape_def)
  have start: "?P d" using idle assms(2,3) by (simp add: daemon_shape_def)
  have "?P (snd (mark_missed croner write_ok now (list_enabled (dm_rows d)) d))"
  proof (rule mark_missed_keeps [where P = ?P, OF start])
    fix x s t x' assume x: "?P x" "s \<in> set (list_enabled (dm_rows d))" "due_time croner (dm_in_flight x) s now = Inr (Some t)"
      "record_fire croner (write_ok (sc_id s)) s now Fire_missed None (note_entry (Missed (sc_id s) t) x) = Inr x'"
    have "row_order d s" using x(2) assms(3) by (simp add: daemon_order_def set_list_enabled)
    then have "t' \<le> now" if "undisturbed (sc_id s) (dm_log x)" "t' \<in> set (fired_at (sc_id s) (dm_log x))" for t'
      using that x(1) due_time_later [OF assms(4) x(3)] idle by (force simp: row_order_def jobs_of_def)
    then show "?P x'" using missed_order [OF _ _ _ x(4)] x(1) by simp
  qed
  then have "daemon_order (snd (mark_missed croner write_ok now (list_enabled (dm_rows d)) d))" by simp
  then show ?thesis unfolding Start(1)
    by (rule start_daemon_keeps [where P = daemon_order, OF assms(3)]) simp
next
  case (Poll list_ok now)
  let ?P = "\<lambda>x. daemon_order x \<and> daemon_shape x \<and> dm_phase x \<noteq> Daemon_down \<and> dm_rows x = dm_rows d"
  have "?P (snd (tick_rows croner resumer now (list_enabled (dm_rows d)) d))"
  proof (rule tick_rows_keeps [where P = ?P])
    show "?P d" using assms(2,3) Poll by simp
  next
    fix x s t assume x: "?P x" "s \<in> set (list_enabled (dm_rows d))" "due_time croner (dm_in_flight x) s now = Inr (Some t)"
    then show "?P (dispatch_fire s t x)"
      using dispatch_fire_order [OF _ _ assms(4) x(3)] by (simp add: dispatch_fire_shape set_list_enabled)
  next
    fix x s assume x: "?P x" "s \<in> set (list_enabled (dm_rows d))" "sc_last_status s = Some Fire_pending"
    then show "?P (resume_if_granted resumer s x)"
      by (simp add: resume_if_granted_shape resume_if_granted_order set_list_enabled)
  qed
  then show ?thesis unfolding Poll(1)
    by (intro after_tick_keeps [where P = daemon_order] kill_order) (use assms(3) in \<open>auto simp: tick_def\<close>)
next
  case (Settle_fire j t write_ok out)
  note settled = settled_order [OF assms(3,2) Settle_fire(2)] Settle_fire(3)
  show ?thesis
  proof (cases "fst (settle_fire croner write_ok (jb_schedule j) t out d)")
    case None
    then show ?thesis unfolding Settle_fire(1) using settled
      by (auto simp: after_tick_def settle_fire_def split: sum.splits)
  next
    case (Some msg)
    then have "after_tick (settle_fire croner write_ok (jb_schedule j) t out d) = kill_daemon d"
      by (auto simp: after_tick_def settle_fire_def kill_after_leaving split: sum.splits)
    then show ?thesis unfolding Settle_fire(1) using kill_order [OF assms(3)] by simp
  qed
next
  case (Settle_resume j write_ok now res)
  have "job_order j" using assms(3) Settle_resume(2) by (simp add: daemon_order_def)
  then obtain t where t: "sc_last_fire (jb_schedule j) = Some t" "lower_bound (jb_schedule j) = t"
    using Settle_resume(3) by (auto simp: job_order_def lower_bound_def)
  show ?thesis unfolding Settle_resume(1)
  proof (rule settle_resume_keeps [where P = daemon_order])
    fix r d' assume "record_fire croner write_ok (jb_schedule j)
      (case sc_last_fire (jb_schedule j) of Some t \<Rightarrow> t | None \<Rightarrow> now) (fr_status r) (fr_run r) d = Inr d'"
    then show "daemon_order (leave_flight (sc_id (jb_schedule j)) d')"
      using settled_order [OF assms(3,2) Settle_resume(2)] t Settle_resume(3) by simp
  next
    show "daemon_order (leave_flight (sc_id (jb_schedule j)) d)"
    proof (rule leave_order [OF assms(3)])
      fix s t' assume s: "s \<in> set (dm_rows d)" "sc_id s = sc_id (jb_schedule j)" "undisturbed (sc_id (jb_schedule j)) (dm_log d)"
        "t' \<in> set (fired_at (sc_id (jb_schedule j)) (dm_log d))"
      have "row_order d s" "j \<in> set (jobs_of (sc_id s) d)"
        using s(1,2) assms(3) Settle_resume(2) by (simp_all add: daemon_order_def jobs_of_def job_id_def)
      then have "lower_bound s = lower_bound (jb_schedule j)" by (intro lower_bound_cong) (simp_all add: row_order_def)
      then show "t' \<le> lower_bound s"
        using job_bound [OF assms(3,2) Settle_resume(2) s(1)] s Settle_resume(3) by (auto simp: job_id_def)
    qed
  qed
next
  case Stop
  then show ?thesis using assms(3) by (simp add: stop_daemon_def)
next
  case Release
  then show ?thesis using assms(3) by (auto simp: release_daemon_def split: if_splits)
next
  case Kill
  then show ?thesis using kill_order [OF assms(3)] by simp
qed

lemma daemon_reachable_order:
  "daemon_reachable croner resumer d \<Longrightarrow> cron_advances croner \<Longrightarrow> daemon_order d"
proof (induction rule: daemon_reachable_induct)
  case Init
  then show ?case by (simp add: no_daemon_def daemon_order_def)
next
  case (Step d d')
  then show ?case by (blast intro: daemon_step_order daemon_reachable_shape)
qed

section \<open>What the daemon does not do\<close>

text \<open>The instant that is due is the oldest one after the row's bound: what fell due in between is run later, one instant a poll.\<close>

lemma daemon_reachable_step:
  "daemon_reachable croner resumer d \<Longrightarrow> daemon_step croner resumer d d' \<Longrightarrow> daemon_reachable croner resumer d'"
  by (simp add: daemon_reachable_def)

definition sample_cron :: cron_library where
  "sample_cron e = Some (\<lambda>t. Some (t + 60))"

definition sample_input :: schedule_input where
  "sample_input = \<lparr>si_workflow = ''w'', si_cron = ''* * * * *'', si_params = None, si_notify = None, si_next_fire = Some 60\<rparr>"

definition sample_row :: schedule where
  "sample_row = new_schedule ''a'' 0 sample_input"

definition sample_up :: "schedule \<Rightarrow> daemon_entry list \<Rightarrow> daemon" where
  "sample_up s l = \<lparr>dm_rows = [s], dm_phase = Daemon_up, dm_in_flight = [], dm_jobs = [], dm_log = l\<rparr>"

lemma sample_cron_advances: "cron_advances sample_cron"
  by (simp add: sample_cron_def cron_advances_def)

lemma sample_next: "next_fire sample_cron e t = Ok (Some (t + 60))"
  by (simp add: next_fire_def sample_cron_def)

lemma sample_registered: "daemon_reachable sample_cron b (no_daemon\<lparr>dm_rows := [sample_row], dm_log := [Registered ''a'']\<rparr>)"
proof -
  have "register_schedule True ''a'' 0 sample_input (dm_rows no_daemon) = (Ok sample_row, [sample_row])"
    by (simp add: register_schedule_def no_daemon_def sample_row_def)
  from Register [OF _ this, of sample_cron b]
  have "daemon_step sample_cron b no_daemon (note_entry (Registered ''a'') (no_daemon\<lparr>dm_rows := [sample_row]\<rparr>))"
    by (simp add: no_daemon_def)
  then show ?thesis by (simp add: daemon_reachable_def note_entry_def no_daemon_def)
qed

lemma list_one: "list_enabled [s] = (if sc_enabled s then [s] else [])"
  by (simp add: list_enabled_def list_schedules_def)

lemma sample_started: "daemon_reachable sample_cron b (sample_up sample_row [Registered ''a''])"
proof -
  let ?d = "no_daemon\<lparr>dm_rows := [sample_row], dm_log := [Registered ''a'']\<rparr>"
  have "snd (start_daemon sample_cron True w 0 ?d) = sample_up sample_row [Registered ''a'']" for w
    by (simp add: start_daemon_def no_daemon_def list_one due_time_def sample_next sample_up_def sample_row_def new_schedule_def
        lower_bound_def)
  then show ?thesis
    using daemon_reachable_step [OF sample_registered Start [of ?d sample_cron b True _ 0]] by (simp add: no_daemon_def)
qed

text \<open>One poll and the settling of the fire it dispatched.\<close>

lemma sample_fire:
  assumes reach: "daemon_reachable sample_cron b (sample_up s l)"
    and s: "sc_enabled s" "sc_last_status s \<noteq> Some Fire_pending" and due: "lower_bound s + 60 \<le> now"
  shows "\<exists>s'. daemon_reachable sample_cron b (sample_up s' (l @ [Fired (sc_id s) (lower_bound s + 60)])) \<and>
    sc_id s' = sc_id s \<and> sc_enabled s' \<and> sc_last_status s' = Some Fire_succeeded \<and> lower_bound s' = lower_bound s + 60"
proof -
  let ?t = "lower_bound s + 60"
  let ?l = "l @ [Fired (sc_id s) ?t]"
  define d where "d = (sample_up s ?l)\<lparr>dm_in_flight := [sc_id s], dm_jobs := [\<lparr>jb_schedule = s, jb_kind = Firing ?t\<rparr>]\<rparr>"
  have "after_tick (tick sample_cron b True now (sample_up s l)) = d"
    using s due by (simp add: tick_def sample_up_def list_one due_time_def sample_next dispatch_fire_def note_entry_def
        enter_flight_def after_tick_def d_def)
  then have "daemon_reachable sample_cron b d"
    using daemon_reachable_step [OF reach Poll [of "sample_up s l" sample_cron b True now]] by (simp add: sample_up_def)
  moreover define s' where "s' = s\<lparr>sc_last_fire := Some ?t, sc_last_run := Some ''r'', sc_last_status := Some Fire_succeeded,
    sc_next_fire := Some (?t + 60)\<rparr>"
  have "after_tick (settle_fire sample_cron True s ?t (Inr \<lparr>fr_run = Some ''r'', fr_status = Fire_succeeded\<rparr>) d) = sample_up s' ?l"
    by (simp add: settle_fire_def record_fire_def sample_next write_fire_def mark_fire_def leave_flight_def after_tick_def
        d_def sample_up_def s'_def)
  ultimately have "daemon_reachable sample_cron b (sample_up s' ?l)"
    using daemon_reachable_step [OF _ Settle_fire [of "\<lparr>jb_schedule = s, jb_kind = Firing ?t\<rparr>" d ?t sample_cron b True
        "Inr \<lparr>fr_run = Some ''r'', fr_status = Fire_succeeded\<rparr>"]] by (simp add: d_def)
  then show ?thesis using s(1) by (intro exI [of _ s']) (simp add: s'_def lower_bound_def)
qed

lemma late_instants_run_one_by_one:
  "\<exists>d. daemon_reachable sample_cron b d \<and> dm_log d = [Registered ''a'', Fired ''a'' 60, Fired ''a'' 120]"
proof -
  have row: "sc_enabled sample_row" "sc_last_status sample_row = None" "lower_bound sample_row = 0" "sc_id sample_row = ''a''"
    by (simp_all add: sample_row_def new_schedule_def lower_bound_def)
  obtain s where s: "daemon_reachable sample_cron b (sample_up s [Registered ''a'', Fired ''a'' 60])" "sc_id s = ''a''" "sc_enabled s"
      "sc_last_status s = Some Fire_succeeded" "lower_bound s = 60"
    using sample_fire [OF sample_started, of 600] row by auto
  obtain s' where "daemon_reachable sample_cron b (sample_up s' [Registered ''a'', Fired ''a'' 60, Fired ''a'' 120])"
    using sample_fire [OF s(1), of 600] s(2-5) by auto
  then show ?thesis by (intro exI [of _ "sample_up s' [Registered ''a'', Fired ''a'' 60, Fired ''a'' 120]"]) (simp add: sample_up_def)
qed

text \<open>A parked run is forgotten when its next instant passes while no daemon runs.\<close>

lemma missed_forgets_parked:
  assumes "dm_rows d = [s]" "dm_in_flight d = []" and "sc_enabled s" and "sc_last_status s = Some Fire_pending"
    and "next_fire croner (sc_cron s) (lower_bound s) = Ok (Some t)" "t \<le> now" and "next_fire croner (sc_cron s) now = Ok nxt"
  shows "\<exists>s'. dm_rows (snd (start_daemon croner True (\<lambda>_. True) now d)) = [s'] \<and>
    sc_last_status s' = Some Fire_missed \<and> sc_last_run s' = None"
  using assms by (simp add: start_daemon_def list_one due_time_def record_fire_def write_fire_def mark_fire_def note_entry_def)

text \<open>An outcome that could not be written makes the next poll run the same instant again.\<close>

lemma lost_write_fires_again:
  assumes "dm_rows d = [s]" "dm_in_flight d = [sc_id s]" "dm_jobs d = [\<lparr>jb_schedule = s, jb_kind = Firing t\<rparr>]"
    and "dm_phase d = Daemon_up" and "sc_enabled s" "sc_last_status s \<noteq> Some Fire_pending"
    and "next_fire croner (sc_cron s) (lower_bound s) = Ok (Some t)" "t \<le> now" and "next_fire croner (sc_cron s) t = Ok nxt"
  shows "last (dm_log (snd (tick croner b True now (snd (settle_fire croner False s t (Inr r) d))))) = Fired (sc_id s) t"
  using assms by (simp add: settle_fire_def record_fire_def write_fire_def note_entry_def leave_flight_def tick_def list_one
      due_time_def dispatch_fire_def enter_flight_def)

text \<open>The gateway of a resumed run answers the second request with a denial: the run ends there, it is not parked again.\<close>

lemma second_request_denied:
  "fst (pregranted_gateway q (snd (pregranted_gateway q' False))) = Ok (Decision \<lparr>cd_id = cq_id q, cd_verdict = Denied, cd_by = By_user_cli\<rparr>)"
  by (simp add: pregranted_gateway_def)

text \<open>What PowerShell expands inside double quotes goes through.\<close>

lemma powershell_expansions_survive:
  "sanitize_for_shell (title_for Note_failed ''$(calc)'') = ''Yantra:  $(calc)  failed''"
  by (simp add: sanitize_for_shell_def title_for_def quoted_def)

text \<open>What is stored is read back.\<close>

lemma params_roundtrip: "parse_params (Some (params_json ps)) = ps"
  by (induction ps) (auto simp: parse_params_def params_json_def map_filter_simps)

section \<open>Properties\<close>

text \<open>C26. A schedule never has two runs under way: the runs under way are of different schedules, they are the ones the overlap
  guard holds, and while no daemon runs there are none.\<close>

theorem one_run_per_schedule:
  assumes "daemon_reachable croner resumer d"
  shows "distinct (map job_id (dm_jobs d)) \<and> dm_in_flight d = map job_id (dm_jobs d) \<and>
    (dm_phase d = Daemon_down \<longrightarrow> dm_jobs d = [])"
  using daemon_reachable_shape [OF assms] by (simp add: daemon_shape_def)

theorem one_run_per_schedule_witness:
  "distinct (map job_id (dm_jobs (sample_up sample_row [Registered ''a'']))) \<and>
   dm_in_flight (sample_up sample_row [Registered ''a'']) = map job_id (dm_jobs (sample_up sample_row [Registered ''a'']))"
  using one_run_per_schedule [OF sample_started [of True]] by simp

text \<open>C25. With a cron library that answers with later instants, the instants a schedule is fired for go up, over restarts, edits
  and resumed runs, unless a process was killed or an outcome of this schedule could not be written: no instant is run twice.\<close>

theorem fired_instants_increase:
  assumes "daemon_reachable croner resumer d" and "cron_advances croner" and "undisturbed i (dm_log d)"
  shows "sorted_wrt (<) (fired_at i (dm_log d))"
  using daemon_reachable_order [OF assms(1,2)] assms(3) by (simp add: daemon_order_def)

theorem fired_instants_increase_witness:
  "\<exists>d :: daemon. fired_at ''a'' (dm_log d) = [60, 120] \<and> sorted_wrt (<) (fired_at ''a'' (dm_log d))"
proof -
  obtain d where d: "daemon_reachable sample_cron True d" "dm_log d = [Registered ''a'', Fired ''a'' 60, Fired ''a'' 120]"
    using late_instants_run_one_by_one by blast
  have "undisturbed ''a'' (dm_log d)" using d(2) by (simp add: undisturbed_def)
  note fired_instants_increase [OF d(1) sample_cron_advances this]
  moreover have "fired_at ''a'' (dm_log d) = [60, 120]" using d(2) by simp
  ultimately show ?thesis by blast
qed

text \<open>C24. A scheduled run never dispatches a step that is flagged for confirmation and is in no loop's body: its gateway parks.\<close>

theorem unattended_runs_stop_at_flagged_steps:
  assumes "create_context p lb sb wb page host ev w = Ok c" and "xe_plan env = p"
    and "xe_gateway env = Some (unattended_gateway get put s)"
    and "start_or_resume n env cp c = Some (out, c')" and "k \<in> flagged_ids p - loop_body_ids p"
  shows "Dispatched k \<notin> set (xc_log c')"
proof -
  have "\<not> may_grant env" using assms(3) by (simp add: may_grant_def unattended_gateway_def daemon_gateway_def)
  then show ?thesis using ungranted_run [OF assms(1,2,4)] assms(5) by (simp add: guarded_ids_def)
qed

theorem unattended_runs_stop_at_flagged_steps_witness:
  "\<exists>env out c'. xe_gateway env = Some (unattended_gateway (\<lambda>w. (False, [])) (\<lambda>_ w. w) sample_row) \<and>
     start_or_resume 2 env None sample_start = Some (out, c') \<and> Dispatched ''pay'' \<notin> set (xc_log c')"
proof -
  let ?env = "(sample_run_env Denied)\<lparr>xe_gateway := Some (unattended_gateway (\<lambda>w. (False, [])) (\<lambda>_ w. w) sample_row)\<rparr>"
  have env: "xe_plan ?env = sample_plan" "clock_advances ?env"
    "xe_gateway ?env = Some (unattended_gateway (\<lambda>w. (False, [])) (\<lambda>_ w. w) sample_row)"
    by (simp_all add: clock_advances_def sample_run_env_def)
  have ranked: "loops_ranked (\<lambda>_. 0) sample_plan" by (auto simp: loops_ranked_def sample_plan_def)
  have bounded: "\<forall>s \<in> set (pl_steps sample_plan). timeout_ms s \<le> 0 \<and> 0 + 0 + 1 < (2::nat)"
    by (simp add: sample_plan_def timeout_ms_def)
  obtain out c' where run: "start_or_resume 2 ?env None sample_start = Some (out, c')"
    using plan_run_returns [OF env(1,2) ranked bounded] by blast
  have "''pay'' \<in> flagged_ids sample_plan - loop_body_ids sample_plan" using sample_confirms by (simp add: guarded_ids_def)
  from unattended_runs_stop_at_flagged_steps [OF sample_start_created env(1,3) run this] run env(3) show ?thesis by blast
qed

text \<open>What is spliced into a notification command holds no quote, backtick or line break, and at most 200 characters.\<close>

theorem sanitized_text_is_safe:
  "length (sanitize_for_shell t) \<le> 200 \<and>
   set (sanitize_for_shell t) \<inter> {CHR 0x22, CHR 0x27, CHR 0x60, CHR 0x0D, CHR 0x0A} = {}"
proof -
  have swept: "set (take n (map (\<lambda>c. if c \<in> B then x else c) t)) \<inter> B = {}" if "x \<notin> B" for B and x :: char and n
    using that by (auto dest: in_set_takeD)
  have "CHR '' '' \<notin> {CHR 0x22, CHR 0x27, CHR 0x60, CHR 0x0D, CHR 0x0A}" by simp
  from swept [OF this, of 200] show ?thesis unfolding sanitize_for_shell_def by simp
qed

end
