(* ===== verification/Workflow.thy ===== *)
theory Workflow
  imports Executor
begin

text \<open>
  Saved workflows and their translation to plans: the shape of a workflow file
  (\<open>packages/protocol/src/schemas/workflow.ts\<close>) and \<open>packages/core/src/workflow/replay/workflow-to-plan.ts\<close>
  with \<open>cookies-mode.ts\<close>: the reference expressions in its texts, its steps, its locators, its outputs.

  The schema's patterns of names and ids are not part of the shape. \<open>new RegExp\<close> of an authored pattern is
  known by whether it compiles, an argument. The two fresh identifiers of a plan are arguments. A step without
  an id is kept, as the translation provides for it.
\<close>

section \<open>Definitions\<close>

subsection \<open>Workflow files\<close>

datatype wf_candidate =
    Cand_role aria_role name_match
  | Cand_testid jstext
  | Cand_label jstext
  | Cand_placeholder jstext
  | Cand_css jstext
  | Cand_xpath jstext

datatype param_type = Param_string | Param_number | Param_boolean | Param_date

record param_decl =
  pd_type :: param_type
  pd_example :: "jstext option"
  pd_required :: bool

text \<open>A value is a text, possibly with references in it, or a scalar.\<close>

datatype wf_body =
    Wf_navigate confirmation_hints json
  | Wf_click confirmation_hints jstext
  | Wf_fill confirmation_hints jstext json bool
  | Wf_fill_element confirmation_hints jstext "label_origin option" jstext json
  | Wf_extract jstext extraction_schema jstext
  | Wf_wait_for jstext wait_state "nat option"
  | Wf_assert jstext assert_condition
  | Wf_branch jstext jstext "jstext option"
  | Wf_loop jstext jstext "jstext list" nat
  | Wf_call_workflow jstext "(jstext, json) jsmap" "jstext option"
  | Wf_llm_summarize jstext jstext jstext

record wf_step =
  wf_id :: "jstext option"
  wf_scope :: "security_scope option"
  wf_confirm :: bool
  wf_body :: wf_body

definition wf_verb :: "wf_body \<Rightarrow> step_verb" where
  "wf_verb b = (case b of
     Wf_navigate _ _ \<Rightarrow> V_navigate | Wf_click _ _ \<Rightarrow> V_click | Wf_fill _ _ _ _ \<Rightarrow> V_fill
   | Wf_fill_element _ _ _ _ _ \<Rightarrow> V_fill_element | Wf_extract _ _ _ \<Rightarrow> V_extract | Wf_wait_for _ _ _ \<Rightarrow> V_wait_for
   | Wf_assert _ _ \<Rightarrow> V_assert | Wf_branch _ _ _ \<Rightarrow> V_branch | Wf_loop _ _ _ _ \<Rightarrow> V_loop
   | Wf_call_workflow _ _ _ \<Rightarrow> V_call_workflow | Wf_llm_summarize _ _ _ \<Rightarrow> V_llm_summarize)"

definition CONFIRMABLE_WORKFLOW_VERBS :: "step_verb set" where
  "CONFIRMABLE_WORKFLOW_VERBS = {V_navigate, V_click, V_fill, V_fill_element}"

record wf_output =
  wo_name :: jstext
  wo_from :: jstext

datatype synthesis_length = Synthesis_short | Synthesis_medium | Synthesis_long

datatype synthesis_detail = Detail_overview | Detail_standard | Detail_full

record synthesis_spec =
  sy_goal :: jstext
  sy_length :: synthesis_length
  sy_detail :: synthesis_detail
  sy_use_llm :: bool

record recorded_with =
  rw_chrome :: nat
  rw_yantra :: jstext

record workflow_file =
  wk_name :: jstext
  wk_description :: "jstext option"
  wk_class :: security_scope
  wk_recorded :: "recorded_with option"
  wk_params :: "(jstext, param_decl) jsmap"
  wk_secrets :: "jstext list"
  wk_cookies :: jstext
  wk_steps :: "wf_step list"
  wk_outputs :: "wf_output list"
  wk_synthesis :: "synthesis_spec option"
  wk_unredacted :: bool
  wk_frames :: "jstext list"
  wk_locators :: "(jstext, wf_candidate list) jsmap"

subsection \<open>Reference expressions\<close>

text \<open>
  The patterns are deterministic: a lower-case letter starts an identifier, identifier characters, dots, spaces and
  braces exclude one another. Each function answers with what it read and the rest of the text.
\<close>

definition open_braces :: jstext where
  "open_braces = [CHR 0x7B, CHR 0x7B]"

definition close_braces :: jstext where
  "close_braces = [CHR 0x7D, CHR 0x7D]"

definition after_prefix :: "jstext \<Rightarrow> jstext \<Rightarrow> jstext option" where
  "after_prefix p s = (if starts_with p s then Some (drop (length p) s) else None)"

definition ident_char :: "char \<Rightarrow> bool" where
  "ident_char c \<longleftrightarrow> is_lower c \<or> is_digit c \<or> c = CHR ''_''"

definition take_ident :: "jstext \<Rightarrow> (jstext \<times> jstext) option" where
  "take_ident s = (case s of [] \<Rightarrow> None
   | c # cs \<Rightarrow> if is_lower c then Some (c # takeWhile ident_char cs, dropWhile ident_char cs) else None)"

definition take_reference :: "jstext \<Rightarrow> ((jstext \<times> jstext option) \<times> jstext) option" where
  "take_reference s = (case take_ident s of None \<Rightarrow> None
   | Some (a, r) \<Rightarrow> (case after_prefix ''.'' r of None \<Rightarrow> Some ((a, None), r)
     | Some r' \<Rightarrow> (case take_ident r' of None \<Rightarrow> Some ((a, None), r) | Some (b, r'') \<Rightarrow> Some ((a, Some b), r''))))"

definition open_reference :: "jstext \<Rightarrow> jstext \<Rightarrow> jstext option" where
  "open_reference kind s = Option.bind (after_prefix open_braces s) (\<lambda>r. after_prefix (kind @ '':'') (dropWhile is_space r))"

definition close_reference :: "jstext \<Rightarrow> jstext option" where
  "close_reference s = after_prefix close_braces (dropWhile is_space s)"

definition reference_at :: "jstext \<Rightarrow> jstext \<Rightarrow> ((jstext \<times> jstext option) \<times> jstext) option" where
  "reference_at kind s = Option.bind (open_reference kind s) (\<lambda>r. Option.bind (take_reference r)
     (\<lambda>(k, r'). map_option (\<lambda>rest. (k, rest)) (close_reference r')))"

definition reference_text :: "jstext \<times> jstext option \<Rightarrow> jstext" where
  "reference_text k = fst k @ (case snd k of None \<Rightarrow> [] | Some f \<Rightarrow> ''.'' @ f)"

definition capture_at :: "jstext \<times> jstext option \<Rightarrow> capture_ref" where
  "capture_at k = \<lparr>cr_step = fst k, cr_field = snd k\<rparr>"

definition SECRET_EXPR :: "jstext \<Rightarrow> jstext option" where
  "SECRET_EXPR s = (case reference_at ''secret'' s of
     Some ((a, Some b), []) \<Rightarrow> Some (reference_text (a, Some b)) | _ \<Rightarrow> None)"

definition PARAM_EXPR :: "jstext \<Rightarrow> jstext option" where
  "PARAM_EXPR s = (case reference_at ''param'' s of Some ((a, None), []) \<Rightarrow> Some a | _ \<Rightarrow> None)"

definition CAPTURE_EXPR :: "jstext \<Rightarrow> capture_ref option" where
  "CAPTURE_EXPR s = (case reference_at ''capture'' s of Some (k, []) \<Rightarrow> Some (capture_at k) | _ \<Rightarrow> None)"

definition EMBEDDED_REF :: "jstext \<Rightarrow> (value_ref \<times> jstext) option" where
  "EMBEDDED_REF s = (case reference_at ''param'' s of
     Some (k, rest) \<Rightarrow> Some (Param_value (reference_text k), rest)
   | None \<Rightarrow> map_option (\<lambda>(k, rest). (Capture_value (capture_at k), rest)) (reference_at ''capture'' s))"

lemma after_prefix_length: "after_prefix p s = Some r \<Longrightarrow> length s = length p + length r"
  by (auto simp: after_prefix_def prefix_def split: if_splits)

lemma take_ident_length: "take_ident s = Some (a, r) \<Longrightarrow> length r < length s"
  by (auto simp: take_ident_def le_imp_less_Suc length_dropWhile_le split: list.splits if_splits)

lemma take_reference_length: "take_reference s = Some (k, r) \<Longrightarrow> length r < length s"
  by (auto simp: take_reference_def dest!: take_ident_length after_prefix_length split: option.splits)

lemma reference_at_length:
  assumes "reference_at kind s = Some (k, rest)"
  shows "length rest < length s"
proof -
  obtain r1 r2 r3 where r: "after_prefix open_braces s = Some r1" "after_prefix (kind @ '':'') (dropWhile is_space r1) = Some r2"
      "take_reference r2 = Some (k, r3)" "after_prefix close_braces (dropWhile is_space r3) = Some rest"
    using assms by (auto simp: reference_at_def open_reference_def close_reference_def Option.bind_eq_Some_conv)
  show ?thesis
    using after_prefix_length [OF r(1)] after_prefix_length [OF r(2)] take_reference_length [OF r(3)] after_prefix_length [OF r(4)]
      length_dropWhile_le [of is_space r1] length_dropWhile_le [of is_space r3] by linarith
qed

lemma EMBEDDED_REF_length: "EMBEDDED_REF s = Some (v, rest) \<Longrightarrow> length rest < length s"
  by (auto simp: EMBEDDED_REF_def dest: reference_at_length split: option.splits)

text \<open>Every embedded reference, left to right, becomes a numbered placeholder of a template.\<close>

definition binding_key :: "nat \<Rightarrow> jstext" where
  "binding_key i = ''value_'' @ show_nat i"

function embedded_refs :: "nat \<Rightarrow> jstext \<Rightarrow> jstext \<times> (jstext \<times> value_ref) list" where
  "embedded_refs i s = (case EMBEDDED_REF s of
     Some (v, rest) \<Rightarrow> (case embedded_refs (Suc i) rest of
       (t, bs) \<Rightarrow> (placeholder (binding_key i) @ t, (binding_key i, v) # bs))
   | None \<Rightarrow> (case s of [] \<Rightarrow> ([], [])
     | c # cs \<Rightarrow> (case embedded_refs i cs of (t, bs) \<Rightarrow> (c # t, bs))))"
  by pat_completeness auto

termination
  by (relation "measure (\<lambda>(i, s). length s)") (auto dest: EMBEDDED_REF_length)

declare embedded_refs.simps [simp del]

definition expr_to_value_ref :: "json \<Rightarrow> value_ref" where
  "expr_to_value_ref raw = (case raw of
     J_str s \<Rightarrow> (case SECRET_EXPR s of Some k \<Rightarrow> Secret_value k None
       | None \<Rightarrow> (case PARAM_EXPR s of Some k \<Rightarrow> Param_value k
       | None \<Rightarrow> (case CAPTURE_EXPR s of Some c \<Rightarrow> Capture_value c
       | None \<Rightarrow> (case embedded_refs 0 s of
           (t, []) \<Rightarrow> Literal_value (J_str s) | (t, b # bs) \<Rightarrow> Template_value t (b # bs)))))
   | _ \<Rightarrow> Literal_value raw)"

record translation_error =
  te_code :: jstext
  te_message :: jstext

definition translation_failure :: "jstext \<Rightarrow> jstext \<Rightarrow> translation_error" where
  "translation_failure c m = \<lparr>te_code = c, te_message = m\<rparr>"

definition expr_to_capture_ref :: "jstext \<Rightarrow> jstext \<Rightarrow> translation_error + capture_ref" where
  "expr_to_capture_ref raw context = (case CAPTURE_EXPR raw of Some c \<Rightarrow> Ok c
   | None \<Rightarrow> Err (translation_failure ''INVALID_CAPTURE_REF''
       (context @ '': expected a {{ capture:... }} expression but got '' @ quoted raw @ ''.'')))"

definition expr_to_collection_ref :: "jstext \<Rightarrow> jstext \<Rightarrow> translation_error + collection_ref" where
  "expr_to_collection_ref raw context = (case CAPTURE_EXPR raw of Some c \<Rightarrow> Ok (Over_capture c)
   | None \<Rightarrow> (case PARAM_EXPR raw of Some k \<Rightarrow> Ok (Over_param k)
   | None \<Rightarrow> Err (translation_failure ''INVALID_COLLECTION_REF''
       (context @ '': expected a {{ capture:... }} or {{ param:... }} expression but got '' @ quoted raw @ ''.''))))"

definition expr_to_branch_condition :: "jstext \<Rightarrow> jstext \<Rightarrow> translation_error + branch_condition" where
  "expr_to_branch_condition raw context = (if raw = ''always'' then Ok Branch_always
     else (case CAPTURE_EXPR raw of Some c \<Rightarrow> Ok (Branch_capture_exists c)
   | None \<Rightarrow> Err (translation_failure ''INVALID_BRANCH_CONDITION''
       (context @ '': unsupported branch condition '' @ quoted raw @ ''. '' @
        ''Use '' @ quoted ''always'' @ '' or {{ capture:stepId }} / {{ capture:stepId.field }}.''))))"

subsection \<open>Locators\<close>

text \<open>A blank text constrains nothing: a role keeps no name, another candidate is dropped.\<close>

definition workflow_candidate_to_engine ::
  "(jstext \<Rightarrow> jstext \<Rightarrow> bool) \<Rightarrow> wf_candidate \<Rightarrow> translation_error + locator_intent option" where
  "workflow_candidate_to_engine valid c = (case c of
     Cand_role r (Name_exact n) \<Rightarrow> Ok (Some (Role_intent (role_name r) (if trim n = [] then None else Some (Matcher_text n))))
   | Cand_role r (Name_regex p f) \<Rightarrow>
       if valid p f then Ok (Some (Role_intent (role_name r) (Some (Matcher_regex p f))))
       else Err (translation_failure ''SyntaxError'' ''Invalid regular expression'')
   | Cand_testid v \<Rightarrow> Ok (if v = [] then None else Some (Testid_intent v))
   | Cand_label v \<Rightarrow> Ok (if trim v = [] then None else Some (Label_intent (Matcher_text v)))
   | Cand_placeholder v \<Rightarrow> Ok (if trim v = [] then None else Some (Placeholder_intent (Matcher_text v)))
   | Cand_css v \<Rightarrow> Ok (if trim v = [] then None else Some (Css_intent v))
   | Cand_xpath v \<Rightarrow> Ok (if trim v = [] then None else Some (Xpath_intent v)))"

fun engine_candidates ::
  "(jstext \<Rightarrow> jstext \<Rightarrow> bool) \<Rightarrow> wf_candidate list \<Rightarrow> translation_error + locator_intent list" where
  "engine_candidates valid [] = Ok []"
| "engine_candidates valid (c # cs) = (case workflow_candidate_to_engine valid c of
     Inl e \<Rightarrow> Err e
   | Inr x \<Rightarrow> map_sum id (\<lambda>rest. (case x of None \<Rightarrow> rest | Some i \<Rightarrow> i # rest)) (engine_candidates valid cs))"

fun build_locator_table ::
  "(jstext \<Rightarrow> jstext \<Rightarrow> bool) \<Rightarrow> (jstext, wf_candidate list) jsmap \<Rightarrow> translation_error + (jstext, engine_chain) jsmap" where
  "build_locator_table valid [] = Ok []"
| "build_locator_table valid ((n, cs) # rest) = (case engine_candidates valid cs of
     Inl e \<Rightarrow> Err e
   | Inr xs \<Rightarrow> map_sum id (\<lambda>table. (n, \<lparr>ec_name = n, ec_candidates = xs\<rparr>) # table) (build_locator_table valid rest))"

subsection \<open>Steps\<close>

definition translate_body :: "wf_body \<Rightarrow> jstext \<Rightarrow> translation_error + step_body" where
  "translate_body b i = (let context = ''step '' @ i in case b of
     Wf_navigate h url \<Rightarrow> Ok (Navigate_step h (expr_to_value_ref url))
   | Wf_click h l \<Rightarrow> Ok (Click_step h (Workflow_locator l) None)
   | Wf_fill h l v submit \<Rightarrow> Ok (Fill_step h (Workflow_locator l) (expr_to_value_ref v) submit)
   | Wf_fill_element h name origin l v \<Rightarrow>
       Ok (Fill_element_step h name origin (Workflow_locator l) (expr_to_value_ref v))
   | Wf_extract l schema alias \<Rightarrow> Ok (Extract_step (Workflow_locator l) schema alias)
   | Wf_wait_for l state t \<Rightarrow> Ok (Wait_for_step (Workflow_locator l) state t)
   | Wf_assert l c \<Rightarrow> Ok (Assert_step (Workflow_locator l) c)
   | Wf_branch c t e \<Rightarrow> map_sum id (\<lambda>c'. Branch_step c' t e) (expr_to_branch_condition c context)
   | Wf_loop over v body n \<Rightarrow>
       map_sum id (\<lambda>o'. Loop_step \<lparr>lp_over = o', lp_as = v, lp_body = body, lp_max = n\<rparr>)
         (expr_to_collection_ref over (context @ '' over''))
   | Wf_call_workflow name ps alias \<Rightarrow>
       Ok (Call_workflow_step name (map (\<lambda>(k, v). (k, expr_to_value_ref v)) ps) alias)
   | Wf_llm_summarize input prompt out \<Rightarrow>
       map_sum id (\<lambda>c. Llm_summarize_step c prompt out) (expr_to_capture_ref input (context @ '' input'')))"

definition translate_step :: "wf_step \<Rightarrow> jstext \<Rightarrow> translation_error + plan_step" where
  "translate_step s i = map_sum id
     (\<lambda>b. \<lparr>st_id = i, st_scope = wf_scope s, st_confirm = wf_confirm s, st_body = b\<rparr>) (translate_body (wf_body s) i)"

definition step_id :: "nat \<Rightarrow> wf_step \<Rightarrow> jstext" where
  "step_id i s = (case wf_id s of Some k \<Rightarrow> k | None \<Rightarrow> ''s'' @ show_nat (i + 1))"

fun translate_steps :: "jstext \<Rightarrow> nat \<Rightarrow> jstext list \<Rightarrow> wf_step list \<Rightarrow> translation_error + plan_step list" where
  "translate_steps name i seen [] = Ok []"
| "translate_steps name i seen (s # ss) =
     (if step_id i s \<in> set seen then Err (translation_failure ''DUPLICATE_STEP_ID''
        (''Duplicate step id '' @ quoted (step_id i s) @ '' in workflow '' @ quoted name @ ''. Each step must have a unique id.''))
      else (case translate_step s (step_id i s) of
          Inl e \<Rightarrow> Err e
        | Inr p \<Rightarrow> map_sum id (\<lambda>ps. p # ps) (translate_steps name (Suc i) (seen @ [step_id i s]) ss)))"

subsection \<open>Outputs and the whole file\<close>

text \<open>
  \<open>/^\{\{\s*(.+?)\s*\}\}$/\<close>: what stands between the braces without the spaces around it, when it has no
  line break; if there is nothing but spaces, the last of them that is no line break.
\<close>

definition line_break :: "char \<Rightarrow> bool" where
  "line_break c \<longleftrightarrow> code c = 10 \<or> code c = 13"

definition OUTPUT_EXPR :: "jstext \<Rightarrow> jstext option" where
  "OUTPUT_EXPR s =
     (if starts_with open_braces s \<and> ends_with close_braces (drop 2 s)
      then (let inner = take (length s - 4) (drop 2 s); core = trim inner in
        if core \<noteq> [] then (if \<exists>c \<in> set core. line_break c then None else Some core)
        else map_option (\<lambda>c. [c]) (last_opt (filter (\<lambda>c. \<not> line_break c) inner)))
      else None)"

datatype output_retention = Retain_transient | Retain_persisted

record wf_binding =
  wb_name :: jstext
  wb_expression :: jstext
  wb_retention :: output_retention

definition parse_output_binding :: "jstext \<Rightarrow> jstext \<Rightarrow> output_retention \<Rightarrow> wf_binding" where
  "parse_output_binding name from_expr r = \<lparr>wb_name = name,
     wb_expression = (case OUTPUT_EXPR from_expr of Some e \<Rightarrow> e | None \<Rightarrow> from_expr), wb_retention = r\<rparr>"

datatype profile_spec = Profile_workflow jstext | Profile_ephemeral

definition cookie_mode_to_profile_spec :: "jstext \<Rightarrow> jstext \<Rightarrow> translation_error + profile_spec" where
  "cookie_mode_to_profile_spec mode name =
     (if mode = ''auto'' then Ok (Profile_workflow name)
      else if mode = ''none'' then Ok Profile_ephemeral
      else Err (translation_failure ''UNKNOWN_COOKIE_MODE'' (''Unknown workflow cookies mode '' @ quoted mode @
        ''. Expected '' @ quoted ''auto'' @ '' or '' @ quoted ''none'' @ ''.'')))"

record translated_workflow =
  tw_plan :: plan
  tw_locators :: "(jstext, engine_chain) jsmap"
  tw_profile :: profile_spec
  tw_outputs :: "wf_binding list"
  tw_secrets :: "jstext list"
  tw_synthesis :: "synthesis_spec option"

definition no_context :: semantic_context where
  "no_context = \<lparr>sx_secrets = None, sx_locators = None\<rparr>"

definition semantic_failure :: "jstext \<Rightarrow> validation_error list \<Rightarrow> translation_error" where
  "semantic_failure name es = translation_failure ''SEMANTIC_VALIDATION_FAILED''
     (''Workflow '' @ quoted name @ '' failed semantic validation after translation:'' @ [CHR 0x0A] @
      join [CHR 0x0A] (map (\<lambda>e. ''  '' @ ve_path e @ '': '' @ ve_message e) es) @ [CHR 0x0A] @
      ''This may indicate the workflow was modified between save and run. Run '' @ quoted (''yantra lint '' @ name) @
      '' to diagnose.'')"

definition translate ::
  "(jstext \<Rightarrow> jstext \<Rightarrow> bool) \<Rightarrow> jstext \<Rightarrow> jstext \<Rightarrow> workflow_file \<Rightarrow> translation_error + translated_workflow" where
  "translate valid task pid w = (case translate_steps (wk_name w) 0 [] (wk_steps w) of
     Inl e \<Rightarrow> Err e
   | Inr ss \<Rightarrow> (case cookie_mode_to_profile_spec (wk_cookies w) (wk_name w) of
     Inl e \<Rightarrow> Err e
   | Inr prof \<Rightarrow> (case build_locator_table valid (wk_locators w) of
     Inl e \<Rightarrow> Err e
   | Inr table \<Rightarrow>
       (let p = \<lparr>pl_task = task, pl_id = pid, pl_default_scope = wk_class w, pl_steps = ss, pl_outputs = []\<rparr> in
        case validate_semantics no_context p of
          Inl es \<Rightarrow> Err (semantic_failure (wk_name w) es)
        | Inr _ \<Rightarrow> Ok \<lparr>tw_plan = p, tw_locators = table, tw_profile = prof,
            tw_outputs = map (\<lambda>x. parse_output_binding (wo_name x) (wo_from x) Retain_persisted) (wk_outputs w),
            tw_secrets = wk_secrets w, tw_synthesis = wk_synthesis w\<rparr>))))"

section \<open>Texts and the values they stand for\<close>

text \<open>How a reference is written, and what a well-formed one is.\<close>

definition ident_ok :: "jstext \<Rightarrow> bool" where
  "ident_ok a \<longleftrightarrow> a \<noteq> [] \<and> is_lower (hd a) \<and> (\<forall>c \<in> set a. ident_char c)"

definition reference_ok :: "jstext \<times> jstext option \<Rightarrow> bool" where
  "reference_ok k \<longleftrightarrow> ident_ok (fst k) \<and> (case snd k of None \<Rightarrow> True | Some f \<Rightarrow> ident_ok f)"

definition write_reference :: "jstext \<Rightarrow> jstext \<times> jstext option \<Rightarrow> jstext" where
  "write_reference kind k = open_braces @ '' '' @ kind @ '':'' @ reference_text k @ '' '' @ close_braces"

lemma ident_chars:
  "\<not> ident_char (CHR ''.'')" "\<not> ident_char (CHR '' '')" "\<not> ident_char (CHR 0x7D)" "\<not> ident_char (CHR 0x7B)"
  "is_space (CHR '' '')" "\<not> is_space (CHR 0x7D)" "\<not> is_space (CHR ''s'')" "\<not> is_space (CHR ''p'')" "\<not> is_space (CHR ''c'')"
  by (simp_all add: ident_char_def is_lower_def is_digit_def is_space_def code_def)

lemma after_prefix_append [simp]: "after_prefix p (p @ s) = Some s"
  by (simp add: after_prefix_def)

lemma take_ident_append:
  assumes "ident_ok a" and "r = [] \<or> \<not> ident_char (hd r)"
  shows "take_ident (a @ r) = Some (a, r)"
proof -
  obtain c cs where a: "a = c # cs" using assms(1) by (cases a) (auto simp: ident_ok_def)
  have cs: "\<forall>x \<in> set cs. ident_char x" "is_lower c" using assms(1) a by (auto simp: ident_ok_def)
  have "takeWhile ident_char (cs @ r) = cs" "dropWhile ident_char (cs @ r) = r"
    using cs(1) assms(2) by (cases r; simp add: takeWhile_append dropWhile_append)+
  then show ?thesis using a cs(2) by (simp add: take_ident_def)
qed

lemma take_reference_append:
  assumes "reference_ok k" and "r = [] \<or> \<not> ident_char (hd r) \<and> hd r \<noteq> CHR ''.''"
  shows "take_reference (reference_text k @ r) = Some (k, r)"
proof (cases "snd k")
  case None
  then have "take_ident (reference_text k @ r) = Some (fst k, r)"
    using assms by (auto simp: reference_text_def reference_ok_def intro: take_ident_append)
  moreover have "after_prefix ''.'' r = None" using assms(2) by (cases r) (auto simp: after_prefix_def)
  ultimately show ?thesis using None by (simp add: take_reference_def prod_eq_iff)
next
  case (Some f)
  have ok: "ident_ok (fst k)" "ident_ok f" using assms(1) Some by (simp_all add: reference_ok_def)
  have "take_ident (reference_text k @ r) = Some (fst k, ''.'' @ f @ r)"
    using take_ident_append [OF ok(1), of "''.'' @ f @ r"] Some ident_chars(1) by (simp add: reference_text_def)
  moreover have "take_ident (f @ r) = Some (f, r)" using take_ident_append [OF ok(2)] assms(2) by blast
  ultimately show ?thesis
    using Some after_prefix_append [of "''.''" "f @ r"] by (simp add: take_reference_def prod_eq_iff)
qed

lemma open_reference_append:
  "c # cs = kind \<Longrightarrow> \<not> is_space c \<Longrightarrow> open_reference kind (open_braces @ '' '' @ kind @ '':'' @ s) = Some s"
  using ident_chars(5) after_prefix_append [of "kind @ '':''" s] by (auto simp: open_reference_def)

lemma close_reference_append: "close_reference ('' '' @ close_braces @ s) = Some s"
  using ident_chars(5,6) after_prefix_append [of close_braces s] by (simp add: close_reference_def close_braces_def)

lemma reference_at_written:
  assumes "kind \<in> {''secret'', ''param'', ''capture''}" and "reference_ok k"
  shows "reference_at kind (write_reference kind k @ s) = Some (k, s)"
proof -
  have "open_reference kind (write_reference kind k @ s) = Some (reference_text k @ '' '' @ close_braces @ s)"
    using assms(1) open_reference_append [of "hd kind" "tl kind" kind] ident_chars by (auto simp: write_reference_def)
  moreover have "take_reference (reference_text k @ '' '' @ close_braces @ s) = Some (k, '' '' @ close_braces @ s)"
    using ident_chars(2) by (intro take_reference_append [OF assms(2)]) simp
  ultimately show ?thesis using close_reference_append [of s] by (simp add: reference_at_def)
qed

lemma reference_at_other:
  assumes "kind \<in> {''secret'', ''param'', ''capture''}" "kind' \<in> {''secret'', ''param'', ''capture''}" "kind \<noteq> kind'"
  shows "reference_at kind' (write_reference kind k @ s) = None"
  using assms ident_chars
  by (auto simp: reference_at_def open_reference_def write_reference_def after_prefix_def open_braces_def)

lemma reference_at_no_brace: "hd s \<noteq> CHR 0x7B \<Longrightarrow> reference_at kind s = None"
  by (cases s) (auto simp: reference_at_def open_reference_def after_prefix_def open_braces_def)

lemma EMBEDDED_REF_no_brace: "hd s \<noteq> CHR 0x7B \<Longrightarrow> EMBEDDED_REF s = None"
  by (simp add: EMBEDDED_REF_def reference_at_no_brace)

text \<open>A text as a sequence of plain pieces and references, and the template it becomes.\<close>

datatype piece = Piece_text jstext | Piece_param jstext | Piece_capture capture_ref

definition write_piece :: "piece \<Rightarrow> jstext" where
  "write_piece p = (case p of
     Piece_text t \<Rightarrow> t | Piece_param k \<Rightarrow> write_reference ''param'' (k, None)
   | Piece_capture c \<Rightarrow> write_reference ''capture'' (cr_step c, cr_field c))"

definition write_text :: "piece list \<Rightarrow> jstext" where
  "write_text ps = concat (map write_piece ps)"

definition piece_ok :: "piece \<Rightarrow> bool" where
  "piece_ok p = (case p of
     Piece_text t \<Rightarrow> t \<noteq> [] \<and> CHR 0x7B \<notin> set t | Piece_param k \<Rightarrow> ident_ok k
   | Piece_capture c \<Rightarrow> reference_ok (cr_step c, cr_field c))"

definition piece_ref :: "piece \<Rightarrow> value_ref" where
  "piece_ref p = (case p of
     Piece_text t \<Rightarrow> Literal_value (J_str t) | Piece_param k \<Rightarrow> Param_value k | Piece_capture c \<Rightarrow> Capture_value c)"

definition is_reference :: "piece \<Rightarrow> bool" where
  "is_reference p = (case p of Piece_text t \<Rightarrow> False | _ \<Rightarrow> True)"

fun template_of :: "nat \<Rightarrow> piece list \<Rightarrow> jstext" where
  "template_of i [] = []"
| "template_of i (p # ps) = (if is_reference p then placeholder (binding_key i) @ template_of (Suc i) ps
     else write_piece p @ template_of i ps)"

fun bindings_of :: "nat \<Rightarrow> piece list \<Rightarrow> (jstext \<times> value_ref) list" where
  "bindings_of i [] = []"
| "bindings_of i (p # ps) = (if is_reference p then (binding_key i, piece_ref p) # bindings_of (Suc i) ps else bindings_of i ps)"

lemma embedded_refs_skip:
  "CHR 0x7B \<notin> set t \<Longrightarrow> embedded_refs i (t @ s) = (case embedded_refs i s of (u, bs) \<Rightarrow> (t @ u, bs))"
proof (induction t)
  case (Cons c t)
  then have "EMBEDDED_REF (c # t @ s) = None" by (intro EMBEDDED_REF_no_brace) auto
  then have "embedded_refs i (c # t @ s) = (case embedded_refs i (t @ s) of (u, bs) \<Rightarrow> (c # u, bs))"
    by (subst embedded_refs.simps) simp
  then show ?case using Cons by (simp split: prod.split)
qed (simp split: prod.split)

lemma EMBEDDED_REF_written:
  assumes "piece_ok p" and "is_reference p"
  shows "EMBEDDED_REF (write_piece p @ s) = Some (piece_ref p, s)"
proof (cases p)
  case (Piece_param k)
  then have "reference_at ''param'' (write_reference ''param'' (k, None) @ s) = Some ((k, None), s)"
    using assms by (intro reference_at_written) (auto simp: piece_ok_def reference_ok_def)
  then show ?thesis using Piece_param by (simp add: EMBEDDED_REF_def write_piece_def piece_ref_def reference_text_def)
next
  case (Piece_capture c)
  have "reference_at ''param'' (write_reference ''capture'' (cr_step c, cr_field c) @ s) = None"
    by (intro reference_at_other) auto
  moreover have "reference_at ''capture'' (write_reference ''capture'' (cr_step c, cr_field c) @ s) = Some ((cr_step c, cr_field c), s)"
    using assms Piece_capture by (intro reference_at_written) (auto simp: piece_ok_def)
  ultimately show ?thesis using Piece_capture by (simp add: EMBEDDED_REF_def write_piece_def piece_ref_def capture_at_def)
qed (use assms in \<open>simp add: is_reference_def\<close>)

lemma embedded_refs_written:
  "\<forall>p \<in> set ps. piece_ok p \<Longrightarrow> embedded_refs i (write_text ps) = (template_of i ps, bindings_of i ps)"
proof (induction ps arbitrary: i)
  case Nil
  have "EMBEDDED_REF [] = None" by (simp add: EMBEDDED_REF_def reference_at_def open_reference_def after_prefix_def open_braces_def)
  then show ?case by (subst embedded_refs.simps) (simp add: write_text_def)
next
  case (Cons p ps)
  have written: "write_text (p # ps) = write_piece p @ write_text ps" by (simp add: write_text_def)
  show ?case
  proof (cases "is_reference p")
    case True
    then have "EMBEDDED_REF (write_text (p # ps)) = Some (piece_ref p, write_text ps)"
      using EMBEDDED_REF_written Cons.prems written by simp
    then show ?thesis using Cons True by (subst embedded_refs.simps) simp
  next
    case False
    then have "CHR 0x7B \<notin> set (write_piece p)"
      using Cons.prems by (cases p) (auto simp: piece_ok_def write_piece_def is_reference_def)
    then show ?thesis using Cons False embedded_refs_skip written by simp
  qed
qed

text \<open>Filling in the placeholders one binding after the other.\<close>

lemma expand_dollars_plain: "CHR ''$'' \<notin> set r \<Longrightarrow> expand_dollars hit before after r = r"
  by (induction hit before after r rule: expand_dollars.induct) auto

lemma replace_placeholder_skip:
  "CHR 0x7B \<notin> set u \<Longrightarrow> replace_placeholder k r b (u @ s) = u @ replace_placeholder k r (b @ u) s"
proof (induction u arbitrary: b)
  case (Cons c u)
  then have "\<not> starts_with (placeholder k) (c # u @ s)" by (auto simp: placeholder_def)
  then have "replace_placeholder k r b (c # u @ s) = c # replace_placeholder k r (b @ [c]) (u @ s)"
    by (subst replace_placeholder.simps) simp
  then show ?case using Cons by simp
qed simp

lemma replace_placeholder_hit:
  assumes "CHR ''$'' \<notin> set r"
  shows "replace_placeholder k r b (placeholder k @ s) = r @ replace_placeholder k r (b @ placeholder k) s"
proof -
  have "length (placeholder k) = length k + 4" by (simp add: placeholder_def)
  then have "drop (length k + 4) (placeholder k @ s) = s" by (metis append_eq_conv_conj)
  moreover obtain c cs where "placeholder k @ s = c # cs" by (simp add: placeholder_def)
  moreover have "starts_with (placeholder k) (placeholder k @ s)" by simp
  ultimately show ?thesis using assms by (subst replace_placeholder.simps) (simp add: expand_dollars_plain Let_def)
qed

definition braceless :: "jstext \<Rightarrow> bool" where
  "braceless s \<longleftrightarrow> CHR 0x7B \<notin> set s \<and> CHR 0x7D \<notin> set s"

lemma braceless_key: "braceless (binding_key i)"
proof -
  have "\<not> is_digit (CHR 0x7B)" "\<not> is_digit (CHR 0x7D)" by (simp_all add: is_digit_def code_def)
  then have "CHR 0x7B \<notin> set (show_nat i)" "CHR 0x7D \<notin> set (show_nat i)" using show_nat_digits by blast+
  then show ?thesis by (simp add: braceless_def binding_key_def)
qed

lemma binding_key_inject: "binding_key i = binding_key j \<longleftrightarrow> i = j"
  by (simp add: binding_key_def)

lemma placeholder_other:
  assumes "braceless k" "braceless k'" "k \<noteq> k'"
  shows "\<not> prefix (placeholder k) (placeholder k' @ s)"
proof
  assume "prefix (placeholder k) (placeholder k' @ s)"
  then obtain r where "k @ CHR 0x7D # r = k' @ CHR 0x7D # CHR 0x7D # s" by (auto simp: placeholder_def prefix_def)
  then show False using assms by (auto simp: braceless_def append_eq_append_conv2 append_eq_Cons_conv Cons_eq_append_conv)
qed

lemma replace_placeholder_other:
  assumes "braceless k" "braceless k'" "k \<noteq> k'"
  shows "replace_placeholder k r b (placeholder k' @ s) = placeholder k' @ replace_placeholder k r (b @ placeholder k') s"
proof -
  let ?o = "CHR 0x7B"
  have one: "replace_placeholder k r b (placeholder k' @ s) =
      ?o # replace_placeholder k r (b @ [?o]) (?o # k' @ [CHR 0x7D, CHR 0x7D] @ s)"
    using placeholder_other [OF assms, of s] by (subst replace_placeholder.simps) (simp add: placeholder_def)
  have "\<not> prefix (placeholder k) (?o # k' @ [CHR 0x7D, CHR 0x7D] @ s)"
    using assms(2) by (cases k') (auto simp: placeholder_def braceless_def)
  then have two: "replace_placeholder k r b' (?o # k' @ [CHR 0x7D, CHR 0x7D] @ s) =
      ?o # replace_placeholder k r (b' @ [?o]) ((k' @ [CHR 0x7D, CHR 0x7D]) @ s)" for b'
    by (subst replace_placeholder.simps) simp
  show ?thesis unfolding one two
    using assms(2) by (subst replace_placeholder_skip) (auto simp: braceless_def placeholder_def)
qed

lemma replace_placeholder_template:
  assumes "\<forall>p \<in> set ps. piece_ok p" and "i < j"
  shows "replace_placeholder (binding_key i) r b (template_of j ps) = template_of j ps"
  using assms
proof (induction ps arbitrary: j b)
  case Nil
  then show ?case by (subst replace_placeholder.simps) simp
next
  case (Cons p ps)
  show ?case
  proof (cases "is_reference p")
    case True
    then show ?thesis
      using Cons replace_placeholder_other [OF braceless_key braceless_key, of i j] by (simp add: binding_key_inject)
  next
    case False
    then have "CHR 0x7B \<notin> set (write_piece p)"
      using Cons.prems by (cases p) (auto simp: piece_ok_def write_piece_def is_reference_def)
    then show ?thesis using Cons False by (simp add: replace_placeholder_skip)
  qed
qed

definition plain :: "jstext \<Rightarrow> bool" where
  "plain v \<longleftrightarrow> CHR 0x7B \<notin> set v \<and> CHR ''$'' \<notin> set v"

text \<open>What a piece stands for in a run, and that its value is there and cannot be taken for a placeholder.\<close>

definition piece_value :: "resolver \<Rightarrow> piece \<Rightarrow> jstext" where
  "piece_value rv p = (case resolve_value rv (piece_ref p) of Inr j \<Rightarrow> value_to_string j | Inl _ \<Rightarrow> [])"

definition piece_resolves :: "resolver \<Rightarrow> piece \<Rightarrow> bool" where
  "piece_resolves rv p \<longleftrightarrow> is_ok (resolve_value rv (piece_ref p)) \<and> (is_reference p \<longrightarrow> plain (piece_value rv p))"

lemma piece_value_text: "\<not> is_reference p \<Longrightarrow> piece_value rv p = write_piece p"
  by (cases p) (simp_all add: is_reference_def piece_value_def piece_ref_def write_piece_def value_to_string_def)

lemma fill_pieces:
  assumes "\<forall>p \<in> set ps. piece_ok p \<and> piece_resolves rv p" and "CHR 0x7B \<notin> set u"
  shows "fill_bindings rv (bindings_of i ps) (u @ template_of i ps) = Ok (u @ concat (map (piece_value rv) ps))"
  using assms
proof (induction ps arbitrary: i u)
  case (Cons p ps)
  show ?case
  proof (cases "is_reference p")
    case True
    obtain j where j: "resolve_value rv (piece_ref p) = Ok j" "piece_value rv p = value_to_string j" "plain (value_to_string j)"
      using Cons.prems(1) True by (auto simp: piece_resolves_def piece_value_def split: sum.splits)
    have "replace_placeholder (binding_key i) (value_to_string j) [] (u @ placeholder (binding_key i) @ template_of (Suc i) ps) =
        (u @ value_to_string j) @ template_of (Suc i) ps"
      using Cons.prems j(3) replace_placeholder_template [of ps i "Suc i"]
      by (simp add: replace_placeholder_skip replace_placeholder_hit plain_def)
    moreover have "CHR 0x7B \<notin> set (u @ value_to_string j)" using Cons.prems(2) j(3) by (simp add: plain_def)
    moreover have "\<not> (\<exists>k hs. piece_ref p = Secret_value k hs)" by (cases p) (simp_all add: piece_ref_def)
    ultimately show ?thesis
      using Cons.IH [of "u @ value_to_string j" "Suc i"] Cons.prems(1) True j(1,2)
      by (cases "piece_ref p") (simp_all del: resolve_value.simps)
  next
    case False
    then have "CHR 0x7B \<notin> set (u @ write_piece p)"
      using Cons.prems by (cases p) (auto simp: piece_ok_def write_piece_def is_reference_def)
    then show ?thesis using Cons.IH [of "u @ write_piece p" i] Cons.prems(1) False by (simp add: piece_value_text)
  qed
qed simp

lemma remove_placeholders_none: "CHR 0x7B \<notin> set s \<Longrightarrow> remove_placeholders s = s"
proof (induction s)
  case Nil
  then show ?case by (subst remove_placeholders.simps) (simp add: placeholder_rest_def)
next
  case (Cons c s)
  then have "placeholder_rest (c # s) = None" by (auto simp: placeholder_rest_def Let_def)
  then show ?case using Cons by (subst remove_placeholders.simps) simp
qed

lemma reference_at_Nil: "reference_at kind [] = None"
  by (simp add: reference_at_def open_reference_def after_prefix_def open_braces_def)

lemma write_piece_Nil: "piece_ok p \<Longrightarrow> write_piece p \<noteq> []"
  by (cases p) (simp_all add: piece_ok_def write_piece_def write_reference_def open_braces_def)

lemma write_text_Nil: "\<forall>p \<in> set ps. piece_ok p \<Longrightarrow> write_text ps = [] \<longleftrightarrow> ps = []"
  using write_piece_Nil by (cases ps) (auto simp: write_text_def)

text \<open>A text that is one reference.\<close>

lemma whole_reference:
  assumes ok: "\<forall>p \<in> set ps. piece_ok p"
  shows "SECRET_EXPR (write_text ps) = None"
    and "PARAM_EXPR (write_text ps) = (case ps of [Piece_param k] \<Rightarrow> Some k | _ \<Rightarrow> None)"
    and "CAPTURE_EXPR (write_text ps) = (case ps of [Piece_capture c] \<Rightarrow> Some c | _ \<Rightarrow> None)"
proof -
  have "SECRET_EXPR (write_text ps) = None \<and>
    PARAM_EXPR (write_text ps) = (case ps of [Piece_param k] \<Rightarrow> Some k | _ \<Rightarrow> None) \<and>
    CAPTURE_EXPR (write_text ps) = (case ps of [Piece_capture c] \<Rightarrow> Some c | _ \<Rightarrow> None)"
  proof (cases ps)
    case Nil
    then show ?thesis by (simp add: SECRET_EXPR_def PARAM_EXPR_def CAPTURE_EXPR_def write_text_def reference_at_Nil)
  next
    case (Cons p qs)
    have written: "write_text ps = write_piece p @ write_text qs" using Cons by (simp add: write_text_def)
    have rest: "write_text qs = [] \<longleftrightarrow> qs = []" using ok Cons write_text_Nil [of qs] by simp
    have p: "piece_ok p" using ok Cons by simp
    show ?thesis
    proof (cases p)
      case (Piece_text t)
      then have "hd (write_text ps) \<noteq> CHR 0x7B" using p written by (cases t) (auto simp: piece_ok_def write_piece_def)
      then show ?thesis using Cons Piece_text
        by (simp add: SECRET_EXPR_def PARAM_EXPR_def CAPTURE_EXPR_def reference_at_no_brace split: list.split)
    next
      case (Piece_param k)
      have "reference_at ''param'' (write_text ps) = Some ((k, None), write_text qs)"
        using p written Piece_param reference_at_written [of "''param''" "(k, None)"] by (simp add: piece_ok_def reference_ok_def write_piece_def)
      moreover have "reference_at kind (write_text ps) = None" if "kind \<in> {''secret'', ''capture''}" for kind
        using that written Piece_param reference_at_other [of "''param''" kind "(k, None)"] by (auto simp: write_piece_def)
      ultimately show ?thesis using Cons Piece_param rest
        by (cases qs; cases "write_text qs") (simp_all add: SECRET_EXPR_def PARAM_EXPR_def CAPTURE_EXPR_def)
    next
      case (Piece_capture c)
      have "reference_at ''capture'' (write_text ps) = Some ((cr_step c, cr_field c), write_text qs)"
        using p written Piece_capture reference_at_written [of "''capture''" "(cr_step c, cr_field c)"]
        by (simp add: piece_ok_def write_piece_def)
      moreover have "reference_at kind (write_text ps) = None" if "kind \<in> {''secret'', ''param''}" for kind
        using that written Piece_capture reference_at_other [of "''capture''" kind "(cr_step c, cr_field c)"] by (auto simp: write_piece_def)
      ultimately show ?thesis using Cons Piece_capture rest
        by (cases qs; cases "write_text qs") (simp_all add: SECRET_EXPR_def PARAM_EXPR_def CAPTURE_EXPR_def capture_at_def)
    qed
  qed
  then show "SECRET_EXPR (write_text ps) = None"
    "PARAM_EXPR (write_text ps) = (case ps of [Piece_param k] \<Rightarrow> Some k | _ \<Rightarrow> None)"
    "CAPTURE_EXPR (write_text ps) = (case ps of [Piece_capture c] \<Rightarrow> Some c | _ \<Rightarrow> None)" by blast+
qed

text \<open>A reference that is written is read back, whole.\<close>

lemma written_references_read_back:
  "ident_ok k \<Longrightarrow> expr_to_value_ref (J_str (write_reference ''param'' (k, None))) = Param_value k"
  "reference_ok (a, f) \<Longrightarrow>
    expr_to_value_ref (J_str (write_reference ''capture'' (a, f))) = Capture_value \<lparr>cr_step = a, cr_field = f\<rparr>"
  "ident_ok a \<Longrightarrow> ident_ok b \<Longrightarrow>
    expr_to_value_ref (J_str (write_reference ''secret'' (a, Some b))) = Secret_value (a @ ''.'' @ b) None"
proof -
  show "ident_ok k \<Longrightarrow> expr_to_value_ref (J_str (write_reference ''param'' (k, None))) = Param_value k"
    using whole_reference [of "[Piece_param k]"] by (simp add: expr_to_value_ref_def write_text_def write_piece_def piece_ok_def)
  show "reference_ok (a, f) \<Longrightarrow>
      expr_to_value_ref (J_str (write_reference ''capture'' (a, f))) = Capture_value \<lparr>cr_step = a, cr_field = f\<rparr>"
    using whole_reference [of "[Piece_capture \<lparr>cr_step = a, cr_field = f\<rparr>]"]
    by (simp add: expr_to_value_ref_def write_text_def write_piece_def piece_ok_def)
  assume "ident_ok a" "ident_ok b"
  then have "reference_at ''secret'' (write_reference ''secret'' (a, Some b) @ []) = Some ((a, Some b), [])"
    by (intro reference_at_written) (simp_all add: reference_ok_def)
  then show "expr_to_value_ref (J_str (write_reference ''secret'' (a, Some b))) = Secret_value (a @ ''.'' @ b) None"
    by (simp add: expr_to_value_ref_def SECRET_EXPR_def reference_text_def)
qed

lemma bindings_of_Nil: "bindings_of i ps = [] \<longleftrightarrow> (\<forall>p \<in> set ps. \<not> is_reference p)"
  by (induction ps arbitrary: i) auto

lemma template_value:
  assumes "\<forall>p \<in> set ps. piece_ok p \<and> piece_resolves rv p"
  shows "resolve_value rv (Template_value (template_of i ps) (bindings_of i ps)) =
    Ok (Some (J_str (concat (map (piece_value rv) ps))))"
proof -
  have "CHR 0x7B \<notin> set (piece_value rv p)" if "p \<in> set ps" for p
    using assms that by (cases "is_reference p"; cases p)
      (auto simp: piece_resolves_def plain_def piece_value_text piece_ok_def write_piece_def is_reference_def)
  then have "remove_placeholders (concat (map (piece_value rv) ps)) = concat (map (piece_value rv) ps)"
    by (intro remove_placeholders_none) auto
  then show ?thesis using fill_pieces [OF assms, of "[]" i] by simp
qed

section \<open>What the translation keeps\<close>

lemma translate_step_fields:
  assumes "translate_step s i = Ok p"
  shows "st_id p = i" "st_scope p = wf_scope s" "st_confirm p = wf_confirm s" "st_verb p = wf_verb (wf_body s)"
proof -
  obtain b where b: "translate_body (wf_body s) i = Ok b"
    "p = \<lparr>st_id = i, st_scope = wf_scope s, st_confirm = wf_confirm s, st_body = b\<rparr>"
    using assms by (auto simp: translate_step_def map_sum_def split: sum.splits)
  then show "st_id p = i" "st_scope p = wf_scope s" "st_confirm p = wf_confirm s" by simp_all
  show "st_verb p = wf_verb (wf_body s)"
    using b by (cases "wf_body s") (auto simp: translate_body_def Let_def wf_verb_def verb_of_def map_sum_def split: sum.splits)
qed

lemma translate_steps_Ok:
  assumes "translate_steps name i seen ss = Ok ps"
  shows "length ps = length ss \<and> (\<forall>k < length ss. translate_step (ss ! k) (step_id (i + k) (ss ! k)) = Ok (ps ! k)) \<and>
    distinct (map st_id ps) \<and> set (map st_id ps) \<inter> set seen = {}"
  using assms
proof (induction ss arbitrary: i seen ps)
  case (Cons s ss)
  then obtain p qs where p: "step_id i s \<notin> set seen" "translate_step s (step_id i s) = Ok p"
      "translate_steps name (Suc i) (seen @ [step_id i s]) ss = Ok qs" "ps = p # qs"
    by (auto simp: map_sum_def split: if_splits sum.splits)
  note ih = Cons.IH [OF p(3)] translate_step_fields(1) [OF p(2)]
  have "translate_step ((s # ss) ! k) (step_id (i + k) ((s # ss) ! k)) = Ok (ps ! k)" if "k < length (s # ss)" for k
    using that p ih by (cases k) auto
  then show ?case using p ih by auto
qed simp

lemma translate_Ok:
  assumes "translate valid task pid w = Ok t"
  shows "translate_steps (wk_name w) 0 [] (wk_steps w) = Ok (pl_steps (tw_plan t))" "plan_valid no_context (tw_plan t)"
    "build_locator_table valid (wk_locators w) = Ok (tw_locators t)" "tw_secrets t = wk_secrets w"
    "pl_default_scope (tw_plan t) = wk_class w"
proof -
  have valid: "p' = p" if "validate_semantics no_context p = Inr p'" for p p'
    using that by (auto simp: validate_semantics_def Let_def split: prod.splits if_splits)
  show "translate_steps (wk_name w) 0 [] (wk_steps w) = Ok (pl_steps (tw_plan t))" "plan_valid no_context (tw_plan t)"
    "build_locator_table valid (wk_locators w) = Ok (tw_locators t)" "tw_secrets t = wk_secrets w"
    "pl_default_scope (tw_plan t) = wk_class w"
    using assms by (auto simp: translate_def Let_def validate_semantics_iff [symmetric] dest: valid split: sum.splits)
qed

lemma translated_step:
  assumes "translate valid task pid w = Ok t" and "k < length (wk_steps w)"
  shows "translate_step (wk_steps w ! k) (step_id k (wk_steps w ! k)) = Ok (pl_steps (tw_plan t) ! k)"
  using translate_steps_Ok [OF translate_Ok(1) [OF assms(1)]] assms(2) by simp

text \<open>The ids of the steps a workflow flags.\<close>

definition flagged_in_file :: "workflow_file \<Rightarrow> jstext set" where
  "flagged_in_file w = {step_id k (wk_steps w ! k) | k. k < length (wk_steps w) \<and> wf_confirm (wk_steps w ! k)}"

lemma translated_flags:
  assumes "translate valid task pid w = Ok t"
  shows "flagged_ids (tw_plan t) = flagged_in_file w"
proof -
  note ok = translate_steps_Ok [OF translate_Ok(1) [OF assms]]
  have step: "st_id (pl_steps (tw_plan t) ! k) = step_id k (wk_steps w ! k)"
      "st_confirm (pl_steps (tw_plan t) ! k) = wf_confirm (wk_steps w ! k)" if "k < length (wk_steps w)" for k
    using translate_step_fields [OF translated_step [OF assms that]] by simp_all
  show ?thesis
  proof (intro set_eqI iffI)
    fix i assume "i \<in> flagged_ids (tw_plan t)"
    then obtain k where "k < length (wk_steps w)" "st_confirm (pl_steps (tw_plan t) ! k)" "i = st_id (pl_steps (tw_plan t) ! k)"
      using ok by (auto simp: flagged_ids_def in_set_conv_nth)
    then show "i \<in> flagged_in_file w" using step by (auto simp: flagged_in_file_def)
  next
    fix i assume "i \<in> flagged_in_file w"
    then obtain k where "k < length (wk_steps w)" "wf_confirm (wk_steps w ! k)" "i = step_id k (wk_steps w ! k)"
      by (auto simp: flagged_in_file_def)
    then show "i \<in> flagged_ids (tw_plan t)"
      using step ok unfolding flagged_ids_def by (intro image_eqI [of _ _ "pl_steps (tw_plan t) ! k"]) auto
  qed
qed

section \<open>What a text does not stand for\<close>

lemma plain_text_is_literal: "t \<noteq> [] \<Longrightarrow> CHR 0x7B \<notin> set t \<Longrightarrow> expr_to_value_ref (J_str t) = Literal_value (J_str t)"
  using whole_reference [of "[Piece_text t]"] embedded_refs_written [of "[Piece_text t]" 0]
  by (simp add: expr_to_value_ref_def write_text_def write_piece_def piece_ok_def is_reference_def)

text \<open>A secret inside a longer text is no reference: the text is kept as it stands.\<close>

lemma embedded_secret_is_literal:
  assumes "u \<noteq> []" "CHR 0x7B \<notin> set u" and ok: "ident_ok a" "ident_ok b"
  shows "expr_to_value_ref (J_str (u @ write_reference ''secret'' (a, Some b))) =
    Literal_value (J_str (u @ write_reference ''secret'' (a, Some b)))"
proof -
  let ?k = "(a, Some b)" and ?o = "CHR 0x7B"
  let ?rest = "'' secret:'' @ reference_text ?k @ '' '' @ close_braces"
  have w: "write_reference ''secret'' ?k = ?o # ?o # ?rest" by (simp add: write_reference_def open_braces_def)
  have "?o \<notin> set a" "?o \<notin> set b" using ok ident_chars(4) by (auto simp: ident_ok_def)
  then have free: "?o \<notin> set ?rest" by (simp add: reference_text_def close_braces_def)
  have "EMBEDDED_REF (write_reference ''secret'' ?k) = None"
    using reference_at_other [of "''secret''" "''param''" ?k "[]"] reference_at_other [of "''secret''" "''capture''" ?k "[]"]
    by (simp add: EMBEDDED_REF_def)
  moreover have "EMBEDDED_REF (?o # ?rest) = None"
    by (simp add: EMBEDDED_REF_def reference_at_def open_reference_def after_prefix_def open_braces_def)
  moreover have "embedded_refs 0 (?rest @ []) = (?rest, [])"
    using embedded_refs_skip [OF free, of 0 "[]"] embedded_refs_written [of "[]" 0] by (simp add: write_text_def)
  ultimately have "embedded_refs 0 (write_reference ''secret'' ?k) = (write_reference ''secret'' ?k, [])"
    unfolding w by (subst embedded_refs.simps, subst embedded_refs.simps) simp
  then have "embedded_refs 0 (u @ write_reference ''secret'' ?k) = (u @ write_reference ''secret'' ?k, [])"
    using embedded_refs_skip [OF assms(2)] by simp
  moreover have "hd (u @ write_reference ''secret'' ?k) \<noteq> ?o" using assms(1,2) by (cases u) auto
  ultimately show ?thesis
    by (simp add: expr_to_value_ref_def SECRET_EXPR_def PARAM_EXPR_def CAPTURE_EXPR_def reference_at_no_brace)
qed

text \<open>A text that spells a placeholder of its own shares it with the first reference.\<close>

lemma spelled_placeholder_is_shared:
  assumes "ident_ok k"
  shows "expr_to_value_ref (J_str (''see '' @ placeholder (binding_key 0) @ '' '' @ write_reference ''param'' (k, None))) =
    Template_value (''see '' @ placeholder (binding_key 0) @ '' '' @ placeholder (binding_key 0)) [(binding_key 0, Param_value k)]"
proof -
  let ?r = "write_reference ''param'' (k, None)" and ?o = "CHR 0x7B" and ?tail = "''value_'' @ show_nat 0 @ ''}} ''"
  have key: "placeholder (binding_key 0) @ '' '' @ s = ?o # ?o # ?tail @ s" for s
    by (simp add: placeholder_def binding_key_def)
  have free: "?o \<notin> set ?tail" using braceless_key [of 0] by (simp add: braceless_def binding_key_def)
  have ref: "embedded_refs 0 ?r = (placeholder (binding_key 0), [(binding_key 0, Param_value k)])"
    using embedded_refs_written [of "[Piece_param k]" 0] assms
    by (simp add: write_text_def write_piece_def piece_ok_def is_reference_def piece_ref_def)
  have "EMBEDDED_REF (?o # ?o # ?tail @ ?r) = None" "EMBEDDED_REF (?o # ?tail @ ?r) = None"
    using ident_chars by (simp_all add: EMBEDDED_REF_def reference_at_def open_reference_def after_prefix_def open_braces_def
        is_space_def code_def)
  moreover have "embedded_refs 0 (?tail @ ?r) = (?tail @ placeholder (binding_key 0), [(binding_key 0, Param_value k)])"
    using embedded_refs_skip [OF free, of 0 ?r] ref by simp
  ultimately have "embedded_refs 0 (placeholder (binding_key 0) @ '' '' @ ?r) =
      (placeholder (binding_key 0) @ '' '' @ placeholder (binding_key 0), [(binding_key 0, Param_value k)])"
    unfolding key by (subst embedded_refs.simps, subst embedded_refs.simps) simp
  then have "embedded_refs 0 (''see '' @ placeholder (binding_key 0) @ '' '' @ ?r) =
      (''see '' @ placeholder (binding_key 0) @ '' '' @ placeholder (binding_key 0), [(binding_key 0, Param_value k)])"
    using embedded_refs_skip [of "''see ''" 0] by simp
  then show ?thesis
    by (simp add: expr_to_value_ref_def SECRET_EXPR_def PARAM_EXPR_def CAPTURE_EXPR_def reference_at_no_brace)
qed

section \<open>Properties\<close>

definition sample_workflow :: workflow_file where
  "sample_workflow = \<lparr>wk_name = ''w'', wk_description = None, wk_class = Scope_authenticated, wk_recorded = None, wk_params = [],
     wk_secrets = [], wk_cookies = ''none'',
     wk_steps = [\<lparr>wf_id = Some ''go'', wf_scope = None, wf_confirm = False,
         wf_body = Wf_navigate sample_hints (J_str ''https://a.b'')\<rparr>,
       \<lparr>wf_id = Some ''pay'', wf_scope = None, wf_confirm = True, wf_body = Wf_click sample_hints ''pay''\<rparr>],
     wk_outputs = [], wk_synthesis = None, wk_unredacted = False, wk_frames = [],
     wk_locators = [(''pay'', [Cand_css ''#pay''])]\<rparr>"

lemma sample_plan_valid: "plan_valid no_context sample_plan"
  by (auto simp: plan_valid_def no_context_def sample_plan_def out_of_scope_def effective_scope_def less_Suc_eq target_ids_def
      body_value_refs_def Let_def)

lemma sample_translated:
  "\<exists>t. translate (\<lambda>_ _. True) ''t'' ''p'' sample_workflow = Ok t \<and> tw_plan t = sample_plan"
proof -
  have "translate_steps ''w'' 0 [] (wk_steps sample_workflow) = Ok (pl_steps sample_plan)"
    by (simp add: sample_workflow_def sample_plan_def step_id_def translate_step_def translate_body_def Let_def plain_text_is_literal)
  moreover have "\<lparr>pl_task = ''t'', pl_id = ''p'', pl_default_scope = Scope_authenticated, pl_steps = pl_steps sample_plan,
      pl_outputs = []\<rparr> = sample_plan" by (simp add: sample_plan_def)
  moreover have "validate_semantics no_context sample_plan = Ok sample_plan"
    using sample_plan_valid validate_semantics_iff by blast
  moreover have "build_locator_table (\<lambda>_ _. True) (wk_locators sample_workflow) =
      Ok [(''pay'', \<lparr>ec_name = ''pay'', ec_candidates = [Css_intent ''#pay'']\<rparr>)]"
    by (simp add: sample_workflow_def workflow_candidate_to_engine_def trim_def is_space_def code_def)
  moreover have "wk_name sample_workflow = ''w''" "wk_cookies sample_workflow = ''none''" "wk_class sample_workflow = Scope_authenticated"
    by (simp_all add: sample_workflow_def)
  ultimately show ?thesis by (simp add: translate_def cookie_mode_to_profile_spec_def Let_def)
qed

text \<open>A translated plan is valid, and it has the steps of the file: as many, in their order, each with its id, scope, consent
  flag and verb.\<close>

theorem translation_keeps_steps:
  assumes "translate valid task pid w = Ok t"
  shows "plan_valid no_context (tw_plan t) \<and> length (pl_steps (tw_plan t)) = length (wk_steps w) \<and>
    (\<forall>k < length (wk_steps w). let s = wk_steps w ! k; p = pl_steps (tw_plan t) ! k in
       st_id p = step_id k s \<and> st_scope p = wf_scope s \<and> st_confirm p = wf_confirm s \<and> st_verb p = wf_verb (wf_body s))"
  using translate_Ok [OF assms] translate_steps_Ok [OF translate_Ok(1) [OF assms]] translate_step_fields [OF translated_step [OF assms]]
  by (simp add: Let_def)

theorem translation_keeps_steps_witness:
  "\<exists>t. translate (\<lambda>_ _. True) ''t'' ''p'' sample_workflow = Ok t \<and> plan_valid no_context (tw_plan t) \<and> length (pl_steps (tw_plan t)) = 2"
proof -
  obtain t where t: "translate (\<lambda>_ _. True) ''t'' ''p'' sample_workflow = Ok t" using sample_translated by blast
  moreover have "length (wk_steps sample_workflow) = 2" by (simp add: sample_workflow_def)
  ultimately show ?thesis using translation_keeps_steps [OF t] by auto
qed

text \<open>C27. In every run of a translated workflow, started or resumed, a step the file flags for confirmation, and no loop has in
  its body, is only dispatched while a grant given after that step last started holds.\<close>

theorem flagged_workflow_steps_need_consent:
  assumes "translate valid task pid w = Ok t" and "create_context (tw_plan t) lb sb wb page host ev w0 = Ok c"
    and "xe_plan env = tw_plan t" and "start_or_resume n env cp c = Some (out, c')"
  shows "consented (flagged_in_file w - loop_body_ids (tw_plan t)) False (xc_log c')"
  using consent_of_run(1) [OF assms(2-4)] by (simp add: guarded_ids_def translated_flags [OF assms(1)])

theorem flagged_workflow_steps_need_consent_witness:
  "\<exists>t out c'. translate (\<lambda>_ _. True) ''t'' ''p'' sample_workflow = Ok t \<and> ''pay'' \<in> flagged_in_file sample_workflow \<and>
     start_or_resume 2 (sample_run_env Granted) None sample_start = Some (out, c') \<and>
     consented (flagged_in_file sample_workflow - loop_body_ids (tw_plan t)) False (xc_log c')"
proof -
  obtain t where t: "translate (\<lambda>_ _. True) ''t'' ''p'' sample_workflow = Ok t" "tw_plan t = sample_plan" using sample_translated by blast
  obtain out c' where run: "start_or_resume 2 (sample_run_env Granted) None sample_start = Some (out, c')"
    using sample_runs [of Granted] by auto
  have "create_context (tw_plan t) None None None False False None 0 = Ok sample_start" "xe_plan (sample_run_env Granted) = tw_plan t"
    using t(2) sample_start_created sample_run_env_fields(1) by simp_all
  from flagged_workflow_steps_need_consent [OF t(1) this run]
  have "consented (flagged_in_file sample_workflow - loop_body_ids (tw_plan t)) False (xc_log c')" .
  moreover have "''pay'' \<in> flagged_in_file sample_workflow"
    using translated_flags [OF t(1)] sample_confirms t(2) by (auto simp: guarded_ids_def)
  ultimately show ?thesis using t(1) run by blast
qed



end
