(* ===== verification/WorkflowLint.thy ===== *)
theory WorkflowLint
  imports Workflow UrlPolicy
begin

text \<open>
  The lint of workflow files (\<open>packages/core/src/workflow/lint/index.ts\<close> and its fourteen rules) and what a file
  without an error guarantees of the plan it is translated to.

  A finding has its code, severity, path and message; the suggestion, a fixed text per code, is left out. Two things
  are arguments: the message of the JSONata parser for an expression it refuses, and the protocol of a text that is an
  absolute URL. A rule that scans a text for a pattern takes the matches from left to right, each starting where the
  one before ended, as a global regular expression does.
\<close>

section \<open>Definitions\<close>

subsection \<open>Findings and reports\<close>

datatype lint_severity = Lint_error | Lint_warning | Lint_info

record lint_finding =
  lf_code :: jstext
  lf_severity :: lint_severity
  lf_path :: jstext
  lf_message :: jstext

definition finding :: "jstext \<Rightarrow> lint_severity \<Rightarrow> jstext \<Rightarrow> jstext \<Rightarrow> lint_finding" where
  "finding c s p m = \<lparr>lf_code = c, lf_severity = s, lf_path = p, lf_message = m\<rparr>"

record lint_report =
  lr_errors :: "lint_finding list"
  lr_warnings :: "lint_finding list"
  lr_infos :: "lint_finding list"

definition wf_path :: "nat \<Rightarrow> jstext" where
  "wf_path i = ''steps['' @ show_nat i @ '']''"

definition id_shown :: "jstext option \<Rightarrow> jstext" where
  "id_shown i = (case i of Some k \<Rightarrow> k | None \<Rightarrow> ''undefined'')"

definition scope_text :: "security_scope \<Rightarrow> jstext" where
  "scope_text s = (case s of
     Scope_public \<Rightarrow> ''public'' | Scope_read_only \<Rightarrow> ''read-only-data'' | Scope_authenticated \<Rightarrow> ''authenticated'')"

definition per_step :: "(nat \<Rightarrow> wf_step \<Rightarrow> 'a list) \<Rightarrow> workflow_file \<Rightarrow> 'a list" where
  "per_step f w = concat (map (\<lambda>(i, s). f i s) (enumerate 0 (wk_steps w)))"

subsection \<open>Scanning\<close>

function scan_all :: "(jstext \<Rightarrow> ('a \<times> jstext) option) \<Rightarrow> jstext \<Rightarrow> 'a list" where
  "scan_all m s = (case m s of
     Some (a, rest) \<Rightarrow> if length rest < length s then a # scan_all m rest else [a]
   | None \<Rightarrow> (case s of [] \<Rightarrow> [] | c # cs \<Rightarrow> scan_all m cs))"
  by pat_completeness auto

termination
  by (relation "measure (\<lambda>(m, s). length s)") auto

declare scan_all.simps [simp del]

definition secret_char :: "char \<Rightarrow> bool" where
  "secret_char c \<longleftrightarrow> ident_char c \<or> c = CHR ''.''"

definition opaque_char :: "char \<Rightarrow> bool" where
  "opaque_char c \<longleftrightarrow> secret_char c \<or> c = CHR ''-''"

text \<open>\<open>{{ kind:key }}\<close> with a key of the given characters.\<close>

definition keyed_at :: "jstext \<Rightarrow> (char \<Rightarrow> bool) \<Rightarrow> jstext \<Rightarrow> (jstext \<times> jstext) option" where
  "keyed_at kind P s = Option.bind (open_reference kind s) (\<lambda>r.
     if takeWhile P r = [] then None else map_option (\<lambda>rest. (takeWhile P r, rest)) (close_reference (dropWhile P r)))"

definition extract_secret_refs :: "jstext \<Rightarrow> jstext list" where
  "extract_secret_refs = scan_all (keyed_at ''secret'' secret_char)"

definition extract_param_refs :: "jstext \<Rightarrow> jstext list" where
  "extract_param_refs = scan_all (keyed_at ''param'' ident_char)"

text \<open>\<open>/\{\{(.+?)\}\}/\<close>: at least one character, no line break, up to the first closing braces.\<close>

fun lazy_until_close :: "jstext \<Rightarrow> (jstext \<times> jstext) option" where
  "lazy_until_close [] = None"
| "lazy_until_close (c # cs) = (if line_break c then None
     else if starts_with close_braces cs then Some ([c], drop 2 cs)
     else map_option (\<lambda>(a, rest). (c # a, rest)) (lazy_until_close cs))"

definition expression_at :: "jstext \<Rightarrow> (jstext \<times> jstext) option" where
  "expression_at s = Option.bind (after_prefix open_braces s) lazy_until_close"

definition REF_KINDS :: "jstext list" where
  "REF_KINDS = [''secret'', ''param'', ''capture'']"

definition starts_as_ref :: "jstext \<Rightarrow> bool" where
  "starts_as_ref t \<longleftrightarrow> list_ex (\<lambda>k. starts_with (k @ '':'') t) REF_KINDS"

definition is_opaque_ref :: "jstext \<Rightarrow> bool" where
  "is_opaque_ref t \<longleftrightarrow> list_ex (\<lambda>k. case after_prefix (k @ '':'') (trim t) of
     Some r \<Rightarrow> r \<noteq> [] \<and> list_all opaque_char r | None \<Rightarrow> False) REF_KINDS"

definition extract_jsonata_expressions :: "jstext \<Rightarrow> jstext list" where
  "extract_jsonata_expressions s = map trim (filter (\<lambda>e. \<not> is_opaque_ref e) (scan_all expression_at s))"

subsection \<open>The texts of a workflow\<close>

definition text_of :: "jstext \<Rightarrow> json \<Rightarrow> (jstext \<times> jstext) list" where
  "text_of path j = (case j of J_str s \<Rightarrow> [(path, s)] | _ \<Rightarrow> [])"

definition step_texts :: "nat \<Rightarrow> wf_step \<Rightarrow> (jstext \<times> jstext) list" where
  "step_texts i s = (case wf_body s of
     Wf_fill _ _ v _ \<Rightarrow> text_of (wf_path i @ ''.value'') v
   | Wf_fill_element _ _ _ _ v \<Rightarrow> text_of (wf_path i @ ''.value'') v
   | Wf_navigate _ url \<Rightarrow> text_of (wf_path i @ ''.url'') url
   | Wf_call_workflow _ ps _ \<Rightarrow> concat (map (\<lambda>(k, v). text_of (wf_path i @ ''.params.'' @ k) v) ps)
   | _ \<Rightarrow> [])"

definition output_texts :: "workflow_file \<Rightarrow> (jstext \<times> jstext) list" where
  "output_texts w = map (\<lambda>(i, o'). (''outputs['' @ show_nat i @ ''].from'', wo_from o')) (enumerate 0 (wk_outputs w))"

definition collect_all_string_values :: "workflow_file \<Rightarrow> (jstext \<times> jstext) list" where
  "collect_all_string_values w = per_step step_texts w @ output_texts w"

definition jsonata_texts :: "nat \<Rightarrow> wf_step \<Rightarrow> (jstext \<times> jstext) list" where
  "jsonata_texts i s = step_texts i s @ (case wf_body s of
     Wf_branch c _ _ \<Rightarrow> [(wf_path i @ ''.condition'', c)] | Wf_loop over _ _ _ \<Rightarrow> [(wf_path i @ ''.over'', over)] | _ \<Rightarrow> [])"

definition step_locator :: "wf_body \<Rightarrow> jstext option" where
  "step_locator b = (case b of
     Wf_click _ l \<Rightarrow> Some l | Wf_fill _ l _ _ \<Rightarrow> Some l | Wf_fill_element _ _ _ l _ \<Rightarrow> Some l | Wf_extract l _ _ \<Rightarrow> Some l
   | Wf_wait_for l _ _ \<Rightarrow> Some l | Wf_assert l _ \<Rightarrow> Some l | _ \<Rightarrow> None)"

subsection \<open>The rules\<close>

definition RAW_CSS_PATTERN :: "jstext \<Rightarrow> bool" where
  "RAW_CSS_PATTERN s \<longleftrightarrow> starts_with ''.'' s \<or> starts_with ''#'' s \<or> starts_with ''*'' s \<or>
     takeWhile is_lower s \<noteq> [] \<and> starts_with ''['' (dropWhile is_lower s)"

definition no_raw_css_at_step :: "workflow_file \<Rightarrow> lint_finding list" where
  "no_raw_css_at_step = per_step (\<lambda>i s. case step_locator (wf_body s) of
     Some l \<Rightarrow> if RAW_CSS_PATTERN l then [finding ''NoRawCssAtStep'' Lint_warning (wf_path i @ ''.locator'')
       (''Step '' @ quoted (id_shown (wf_id s)) @ '' uses a raw CSS-like locator '' @ quoted l @ '' instead of a named _locators key.'')] else []
   | None \<Rightarrow> [])"

definition MAX_DEPTH :: nat where
  "MAX_DEPTH = 3"

definition steps_by_id :: "workflow_file \<Rightarrow> (jstext option, wf_body) jsmap" where
  "steps_by_id w = fold (\<lambda>s m. map_set (wf_id s) (wf_body s) m) (wk_steps w) []"

lemma unvisited_decreases:
  "map_get table i = Some b \<Longrightarrow> i \<notin> set visited \<Longrightarrow>
   card (set (map fst table) - insert i (set visited)) < card (set (map fst table) - set visited)"
  by (rule psubset_card_mono) (force dest: map_of_SomeD)+

function depth_from :: "(jstext option, wf_body) jsmap \<Rightarrow> jstext option list \<Rightarrow> jstext option \<Rightarrow> nat" where
  "depth_from table visited i = (if i \<in> set visited then 0 else (case map_get table i of
     None \<Rightarrow> 0
   | Some b \<Rightarrow> (case b of
       Wf_branch _ t e \<Rightarrow> 1 + max (depth_from table (i # visited) (Some t))
         (case e of None \<Rightarrow> 0 | Some e' \<Rightarrow> if e' = [] then 0 else depth_from table (i # visited) (Some e'))
     | Wf_loop _ _ body _ \<Rightarrow> 1 + foldr max (map (\<lambda>k. depth_from table (i # visited) (Some k)) body) 0
     | _ \<Rightarrow> 1)))"
  by pat_completeness auto

termination
  by (relation "measure (\<lambda>(table, visited, i). card (set (map fst table) - set visited))")
    (auto dest: unvisited_decreases)

declare depth_from.simps [simp del]

definition compute_max_nesting_depth :: "workflow_file \<Rightarrow> nat" where
  "compute_max_nesting_depth w = foldr max (per_step (\<lambda>_ s. if wf_verb (wf_body s) \<in> {V_branch, V_loop}
     then [depth_from (steps_by_id w) [] (wf_id s)] else []) w) 0"

definition deeply_nested_step :: "workflow_file \<Rightarrow> lint_finding list" where
  "deeply_nested_step w = (let depth = compute_max_nesting_depth w in
     if MAX_DEPTH < depth then [finding ''DeeplyNestedStep'' Lint_warning ''steps''
       (''Workflow has branch/loop nesting depth of '' @ show_nat depth @ '', which exceeds the maximum of '' @ show_nat MAX_DEPTH @ ''.'')]
     else [])"

definition is_generic_name :: "jstext \<Rightarrow> bool" where
  "is_generic_name s \<longleftrightarrow>
     list_ex (\<lambda>p. case after_prefix p s of Some r \<Rightarrow> r \<noteq> [] \<and> list_all is_digit r | None \<Rightarrow> False) [''locator_'', ''loc_'', ''elem_''] \<or>
     8 \<le> length s \<and> list_all (\<lambda>c. is_digit c \<or> 97 \<le> code c \<and> code c \<le> 102) s"

definition locator_path :: "jstext \<Rightarrow> jstext" where
  "locator_path k = ''_locators['' @ quoted k @ '']''"

definition missing_intent_name :: "workflow_file \<Rightarrow> lint_finding list" where
  "missing_intent_name w = map (\<lambda>k. finding ''MissingIntentName'' Lint_warning (locator_path k)
       (''Locator key '' @ quoted k @ '' looks auto-generated. Give it a descriptive, human-readable name.''))
     (filter is_generic_name (map fst (wk_locators w)))"

definition has_upper_lower_digit_special :: "jstext \<Rightarrow> nat" where
  "has_upper_lower_digit_special s = length (filter (\<lambda>P. list_ex P s) [is_upper, is_lower, is_digit, \<lambda>c. \<not> is_alnum c])"

definition is_high_entropy :: "jstext \<Rightarrow> bool" where
  "is_high_entropy s \<longleftrightarrow> 24 \<le> length s \<and> 12 \<le> length (remdups s) \<and> 3 \<le> has_upper_lower_digit_special s"

definition lint_sk_key_at :: "jstext \<Rightarrow> bool" where
  "lint_sk_key_at s \<longleftrightarrow> starts_with ''sk-'' s \<and> repeats 20 is_alnum (drop 3 s)"

definition CREDENTIAL_PATTERNS :: "jstext \<Rightarrow> bool" where
  "CREDENTIAL_PATTERNS s \<longleftrightarrow>
     list_ex (\<lambda>t. lint_sk_key_at t \<or> ghp_key_at t \<or> aws_key_at t \<or> jwt_at t) (map (\<lambda>n. drop n s) [0..<length s])"

definition OPAQUE_REF_PATTERN :: "jstext \<Rightarrow> bool" where
  "OPAQUE_REF_PATTERN s \<longleftrightarrow> list_ex (\<lambda>k. case keyed_at k opaque_char s of Some (_, []) \<Rightarrow> True | _ \<Rightarrow> False) REF_KINDS"

definition is_absolute_http_url :: "(jstext \<Rightarrow> jstext option) \<Rightarrow> jstext \<Rightarrow> bool" where
  "is_absolute_http_url url_protocol s \<longleftrightarrow> url_protocol s \<in> {Some ''http:'', Some ''https:''}"

definition looks_like_credential :: "(jstext \<Rightarrow> jstext option) \<Rightarrow> jstext \<Rightarrow> bool" where
  "looks_like_credential url_protocol s \<longleftrightarrow> \<not> OPAQUE_REF_PATTERN s \<and>
     (CREDENTIAL_PATTERNS s \<or> \<not> is_absolute_http_url url_protocol s \<and> is_high_entropy s)"

definition secret_shaped_literal :: "(jstext \<Rightarrow> jstext option) \<Rightarrow> workflow_file \<Rightarrow> lint_finding list" where
  "secret_shaped_literal url_protocol w = map (\<lambda>(p, _). finding ''SecretShapedLiteralInValue'' Lint_error p
       (''Value at '' @ quoted p @ '' looks like a secret or credential literal.''))
     (filter (\<lambda>(_, s). looks_like_credential url_protocol s) (per_step step_texts w))"

definition undeclared_secret_ref :: "workflow_file \<Rightarrow> lint_finding list" where
  "undeclared_secret_ref w = concat (map (\<lambda>(p, s). map (\<lambda>r. finding ''UndeclaredSecretRef'' Lint_error p
       (''Secret ref '' @ quoted (''{{ secret:'' @ r @ '' }}'') @ '' is not declared in the workflow's secrets array.''))
     (filter (\<lambda>r. r \<notin> set (wk_secrets w)) (extract_secret_refs s))) (collect_all_string_values w))"

definition undeclared_param_ref :: "workflow_file \<Rightarrow> lint_finding list" where
  "undeclared_param_ref w = concat (map (\<lambda>(p, s). map (\<lambda>r. finding ''UndeclaredParamRef'' Lint_error p
       (''Param ref '' @ quoted (''{{ param:'' @ r @ '' }}'') @ '' is not declared in the workflow's params.''))
     (filter (\<lambda>r. \<not> map_has (wk_params w) r) (extract_param_refs s))) (collect_all_string_values w))"

definition collect_referenced_locators :: "workflow_file \<Rightarrow> jstext list" where
  "collect_referenced_locators w = List.map_filter (\<lambda>s. step_locator (wf_body s)) (wk_steps w)"

definition orphaned_locator :: "workflow_file \<Rightarrow> lint_finding list" where
  "orphaned_locator w = map (\<lambda>k. finding ''OrphanedLocator'' Lint_warning (locator_path k)
       (''Locator '' @ quoted k @ '' is defined in _locators but not referenced by any step.''))
     (filter (\<lambda>k. k \<notin> set (collect_referenced_locators w)) (map fst (wk_locators w)))"

definition jsonata_expression_invalid :: "(jstext \<Rightarrow> jstext option) \<Rightarrow> workflow_file \<Rightarrow> lint_finding list" where
  "jsonata_expression_invalid jsonata_error w = concat (map (\<lambda>(p, s). List.map_filter (\<lambda>e. map_option
       (\<lambda>m. finding ''JSONataExpressionInvalid'' Lint_error p
         (''JSONata expression '' @ quoted (''{{ '' @ e @ '' }}'') @ '' is invalid: '' @ m)) (jsonata_error e))
     (extract_jsonata_expressions s)) (per_step jsonata_texts w @ output_texts w))"

definition lint_scope :: "workflow_file \<Rightarrow> wf_step \<Rightarrow> security_scope option" where
  "lint_scope w s = (case wf_scope s of Some sc \<Rightarrow> Some sc
   | None \<Rightarrow> if wk_class w = Scope_read_only then Some Scope_read_only else None)"

definition scope_mutating_verb :: "workflow_file \<Rightarrow> lint_finding list" where
  "scope_mutating_verb w = per_step (\<lambda>i s.
     if lint_scope w s = Some Scope_read_only \<and> wf_verb (wf_body s) \<notin> {V_extract, V_wait_for, V_llm_summarize}
     then [finding ''ScopeMutatingVerbInReadOnlyData'' Lint_error (wf_path i)
       (''Step '' @ quoted (id_shown (wf_id s)) @ '' (verb: '' @ verb_name (wf_verb (wf_body s)) @
        '') is a mutating verb but has scope '' @ quoted ''read-only-data'' @ ''.'')]
     else []) w"

definition has_mixed_expressions :: "jstext \<Rightarrow> bool" where
  "has_mixed_expressions s \<longleftrightarrow> list_ex is_opaque_ref (scan_all expression_at s) \<and>
     list_ex (\<lambda>e. \<not> is_opaque_ref e) (scan_all expression_at s)"

definition is_opaque_ref_with_jsonata_inside :: "jstext \<Rightarrow> bool" where
  "is_opaque_ref_with_jsonata_inside s \<longleftrightarrow>
     list_ex (\<lambda>e. starts_as_ref (trim e) \<and> \<not> is_opaque_ref e) (scan_all expression_at s)"

definition mixed_expression_forms :: "workflow_file \<Rightarrow> lint_finding list" where
  "mixed_expression_forms w = map (\<lambda>(p, _). finding ''MixedExpressionForms'' Lint_error p
       (''Value at '' @ quoted p @ '' mixes opaque refs (secret/param/capture) with JSONata expressions in the same string.''))
     (filter (\<lambda>(_, s). has_mixed_expressions s \<or> is_opaque_ref_with_jsonata_inside s) (collect_all_string_values w))"

definition outputs_unredacted_without_read_only :: "workflow_file \<Rightarrow> lint_finding list" where
  "outputs_unredacted_without_read_only w =
     (if wk_unredacted w \<and> \<not> list_ex (\<lambda>s. wf_scope s = Some Scope_read_only) (wk_steps w)
      then [finding ''OutputsUnredactedWithoutReadOnly'' Lint_warning ''outputs_unredacted''
        (''outputs_unredacted is true but no step has scope '' @ quoted ''read-only-data'' @
         ''. This flag is typically used to allow unredacted output from read-only steps.'')]
      else [])"

definition unrecorded_frames_on_authenticated :: "workflow_file \<Rightarrow> lint_finding list" where
  "unrecorded_frames_on_authenticated w = (if wk_frames w \<noteq> [] \<and> wk_class w \<noteq> Scope_public
     then [finding ''UnrecordedFramesOnAuthenticated'' Lint_warning ''_unrecorded_frames''
       (''Workflow has '' @ show_nat (length (wk_frames w)) @ '' unrecorded cross-origin frame(s) but security_class is '' @
        quoted (scope_text (wk_class w)) @ ''. Unrecorded frames may contain sensitive interactions.'')]
     else [])"

text \<open>
  The purchase words, each between word boundaries. The two phrases of the pattern are matched with any run of spaces.
  The pattern ignores case; the text is taken in lower case.
\<close>

definition PURCHASE_WORDS :: "jstext list" where
  "PURCHASE_WORDS = [''buy'', ''pay'', ''book'', ''order'', ''submit'', ''purchase'', ''checkout'', ''confirm'']"

definition phrase_rest :: "jstext \<Rightarrow> jstext \<Rightarrow> jstext \<Rightarrow> jstext option" where
  "phrase_rest a b s = Option.bind (after_prefix a s) (\<lambda>r.
     if takeWhile is_space r = [] then None else after_prefix b (dropWhile is_space r))"

definition purchase_word_at :: "jstext \<Rightarrow> bool" where
  "purchase_word_at s \<longleftrightarrow> list_ex (\<lambda>r. case r of Some [] \<Rightarrow> True | Some (c # _) \<Rightarrow> \<not> is_word_char c | None \<Rightarrow> False)
     (map (\<lambda>p. after_prefix p s) PURCHASE_WORDS @ [phrase_rest ''place'' ''order'' s, phrase_rest ''complete'' ''purchase'' s])"

fun purchase_shaped_from :: "bool \<Rightarrow> jstext \<Rightarrow> bool" where
  "purchase_shaped_from after_word [] = False"
| "purchase_shaped_from after_word (c # s) =
     (\<not> after_word \<and> purchase_word_at (c # s) \<or> purchase_shaped_from (is_word_char c) s)"

definition PURCHASE_SHAPED_PATTERN :: "jstext \<Rightarrow> bool" where
  "PURCHASE_SHAPED_PATTERN s \<longleftrightarrow> purchase_shaped_from False (to_lower s)"

definition accessible_name :: "wf_candidate \<Rightarrow> jstext" where
  "accessible_name c = (case c of Cand_role _ (Name_exact n) \<Rightarrow> n | Cand_label v \<Rightarrow> v | Cand_testid v \<Rightarrow> v | _ \<Rightarrow> [])"

definition text_to_check :: "workflow_file \<Rightarrow> jstext \<Rightarrow> jstext" where
  "text_to_check w l = l @ '' '' @ join '' ''
     (map accessible_name (case map_get (wk_locators w) l of Some cs \<Rightarrow> cs | None \<Rightarrow> []))"

definition critical_action_without_confirmation :: "workflow_file \<Rightarrow> lint_finding list" where
  "critical_action_without_confirmation w = per_step (\<lambda>i s.
     if wf_verb (wf_body s) \<notin> {V_click, V_fill, V_fill_element} \<or> wf_confirm s then []
     else (let l = (case step_locator (wf_body s) of Some l \<Rightarrow> l | None \<Rightarrow> []) in
       if PURCHASE_SHAPED_PATTERN (text_to_check w l)
       then [finding ''CriticalActionWithoutConfirmation'' Lint_warning (wf_path i)
         (''Step '' @ quoted (id_shown (wf_id s)) @ '' (verb: '' @ verb_name (wf_verb (wf_body s)) @ '', locator: '' @ quoted l @
          '') looks like a purchase/submit action but does not have requires_confirmation set.'')]
       else [])) w"

definition synthesis_without_extract :: "workflow_file \<Rightarrow> lint_finding list" where
  "synthesis_without_extract w =
     (if wk_synthesis w = None \<or> list_ex (\<lambda>s. wf_verb (wf_body s) = V_extract) (wk_steps w) then []
      else [finding ''SynthesisWithoutExtract'' Lint_warning ''synthesis''
        ''synthesis is declared but this workflow has no extract step, so the Brief would have no sources to cite.''])"

subsection \<open>The report\<close>

record lint_env =
  le_jsonata :: "jstext \<Rightarrow> jstext option"
  le_protocol :: "jstext \<Rightarrow> jstext option"

definition DEFAULT_RULES :: "lint_env \<Rightarrow> (workflow_file \<Rightarrow> lint_finding list) list" where
  "DEFAULT_RULES env = [no_raw_css_at_step, deeply_nested_step, missing_intent_name, secret_shaped_literal (le_protocol env),
     undeclared_secret_ref, undeclared_param_ref, orphaned_locator, jsonata_expression_invalid (le_jsonata env),
     scope_mutating_verb, mixed_expression_forms, outputs_unredacted_without_read_only, unrecorded_frames_on_authenticated,
     critical_action_without_confirmation, synthesis_without_extract]"

definition promote :: "bool \<Rightarrow> lint_finding \<Rightarrow> lint_finding" where
  "promote strict f = f\<lparr>lf_severity := (if strict \<and> lf_severity f = Lint_warning then Lint_error else lf_severity f)\<rparr>"

definition lint_with :: "(workflow_file \<Rightarrow> lint_finding list) list \<Rightarrow> bool \<Rightarrow> workflow_file \<Rightarrow> lint_report" where
  "lint_with rules strict w = (let fs = map (promote strict) (concat (map (\<lambda>r. r w) rules)) in
     \<lparr>lr_errors = filter (\<lambda>f. lf_severity f = Lint_error) fs, lr_warnings = filter (\<lambda>f. lf_severity f = Lint_warning) fs,
      lr_infos = filter (\<lambda>f. lf_severity f = Lint_info) fs\<rparr>)"

definition lint :: "lint_env \<Rightarrow> bool \<Rightarrow> workflow_file \<Rightarrow> lint_report" where
  "lint env = lint_with (DEFAULT_RULES env)"

section \<open>What a scan finds\<close>

text \<open>
  A scan finds every match of a pattern whose matches cannot overlap: a match that starts before another one ends before
  it starts.
\<close>

lemma scan_all_finds:
  assumes hit: "m t = Some (a, r)"
    and apart: "\<And>q b rest. m (q @ t) = Some (b, rest) \<Longrightarrow> q \<noteq> [] \<Longrightarrow> \<exists>q'. rest = q' @ t \<and> length q' < length q"
  shows "a \<in> set (scan_all m (p @ t))"
proof (induction p rule: length_induct)
  case (1 p)
  show ?case
  proof (cases p)
    case Nil
    then show ?thesis using hit by (subst scan_all.simps) simp
  next
    case (Cons c cs)
    show ?thesis
    proof (cases "m (p @ t)")
      case None
      then show ?thesis using 1 Cons by (subst scan_all.simps) simp
    next
      case (Some x)
      obtain b rest where x: "x = (b, rest)" by (cases x)
      obtain q' where "rest = q' @ t" "length q' < length p" using apart [of p b rest] Some x Cons by auto
      then show ?thesis using 1 Some x by (subst scan_all.simps) simp
    qed
  qed
qed

lemma after_prefix_Some: "after_prefix p s = Some r \<longleftrightarrow> s = p @ r"
  by (auto simp: after_prefix_def prefix_def)

lemma space_brace: "\<not> is_space (CHR 0x7B)"
  by (simp add: is_space_def code_def)

lemma keyed_at_shape:
  assumes "keyed_at kind P s = Some (k, rest)" and "CHR 0x7B \<notin> set kind" and "\<not> P (CHR 0x7B)"
  shows "\<exists>n. s = open_braces @ n @ rest \<and> CHR 0x7B \<notin> set n \<and> n \<noteq> []"
proof -
  obtain r1 r where r: "s = open_braces @ r1" "dropWhile is_space r1 = (kind @ '':'') @ r"
      "dropWhile is_space (dropWhile P r) = close_braces @ rest"
    using assms(1) by (auto simp: keyed_at_def open_reference_def close_reference_def Option.bind_eq_Some_conv after_prefix_Some split: if_splits)
  let ?n = "takeWhile is_space r1 @ (kind @ '':'') @ takeWhile P r @ takeWhile is_space (dropWhile P r) @ close_braces"
  have "r1 = ?n @ rest" using r(2,3) by (metis append.assoc takeWhile_dropWhile_id)
  moreover have "CHR 0x7B \<notin> set ?n"
    using assms(2,3) space_brace by (auto simp: close_braces_def dest!: set_takeWhileD)
  ultimately show ?thesis using r(1) by (intro exI [of _ ?n]) simp
qed

lemma braces_apart:
  assumes "q @ t = open_braces @ n @ rest" and "starts_with open_braces t" and "q \<noteq> []" and "CHR 0x7B \<notin> set n" and "n \<noteq> []"
  shows "\<exists>q'. rest = q' @ t \<and> length q' < length q"
proof -
  obtain t' where t: "t = CHR 0x7B # CHR 0x7B # t'" using assms(2) by (auto simp: open_braces_def prefix_def)
  have "q @ t = (open_braces @ n) @ rest" using assms(1) by simp
  then obtain us where "q = (open_braces @ n) @ us \<and> us @ t = rest \<or> q @ us = open_braces @ n \<and> t = us @ rest"
    unfolding append_eq_append_conv2 by blast
  then show ?thesis
  proof
    assume "q = (open_braces @ n) @ us \<and> us @ t = rest"
    then show ?thesis using assms(5) by (intro exI [of _ us]) auto
  next
    assume *: "q @ us = open_braces @ n \<and> t = us @ rest"
    obtain c q1 where q: "q = c # q1" using assms(3) by (cases q) auto
    have us: "q1 @ us = CHR 0x7B # n" using * q by (simp add: open_braces_def)
    show ?thesis
    proof (cases us)
      case Nil
      then show ?thesis using * q us assms(5) t by (intro exI [of _ "[]"]) (simp add: open_braces_def)
    next
      case (Cons d us')
      then have "d = CHR 0x7B" using * t by simp
      then have "q1 = []" using us Cons assms(4) by (cases q1) auto
      then have "hd n = CHR 0x7B" using us Cons * t assms(5) by (cases n) auto
      then show ?thesis using assms(4,5) by (metis hd_in_set)
    qed
  qed
qed

lemma keyed_scan_finds:
  assumes "keyed_at kind P t = Some (k, r)" and "CHR 0x7B \<notin> set kind" and "\<not> P (CHR 0x7B)"
  shows "k \<in> set (scan_all (keyed_at kind P) (p @ t))"
proof (rule scan_all_finds [where m = "keyed_at kind P", OF assms(1)])
  fix q b rest
  assume m: "keyed_at kind P (q @ t) = Some (b, rest)" "q \<noteq> []"
  obtain n where n: "q @ t = open_braces @ n @ rest" "CHR 0x7B \<notin> set n" "n \<noteq> []" using keyed_at_shape [OF m(1) assms(2,3)] by blast
  have "starts_with open_braces t" using keyed_at_shape [OF assms] by auto
  then show "\<exists>q'. rest = q' @ t \<and> length q' < length q" using braces_apart n m(2) by blast
qed

section \<open>References of a plan\<close>

text \<open>A reference the translation reads is one a rule sees.\<close>

lemma lower_ident: "is_lower c \<Longrightarrow> ident_char c"
  by (simp add: ident_char_def)

lemma secret_char_simps [simp]: "ident_char c \<Longrightarrow> secret_char c" "secret_char (CHR ''.'')" "is_space c \<Longrightarrow> \<not> secret_char c"
  "is_space c \<Longrightarrow> \<not> ident_char c" "\<not> secret_char (CHR 0x7D)" "\<not> secret_char (CHR 0x7B)"
  "\<not> ident_char (CHR 0x7D)" "\<not> ident_char (CHR 0x7B)"
  by (auto simp: secret_char_def ident_char_def is_lower_def is_digit_def is_space_def code_def)

lemma reference_key:
  assumes "reference_at kind s = Some (k, rest)" and "\<And>c. ident_char c \<Longrightarrow> P c" and "snd k \<noteq> None \<Longrightarrow> P (CHR ''.'')"
    and "\<And>c. is_space c \<Longrightarrow> \<not> P c" and "\<not> P (CHR 0x7D)"
  shows "keyed_at kind P s = Some (reference_text k, rest)"
proof -
  obtain r r' where r: "open_reference kind s = Some r" "take_reference r = Some (k, r')" "close_reference r' = Some rest"
    using assms(1) by (auto simp: reference_at_def Option.bind_eq_Some_conv)
  have ident: "x = a @ y \<and> a \<noteq> [] \<and> (\<forall>c \<in> set a. ident_char c)" if "take_ident x = Some (a, y)" for x a y
    using that lower_ident by (auto simp: take_ident_def split: list.splits if_splits dest: set_takeWhileD)
  have key: "r = reference_text k @ r' \<and> reference_text k \<noteq> [] \<and> (\<forall>c \<in> set (reference_text k). P c)"
    using r(2) assms(2,3)
    by (auto simp: take_reference_def reference_text_def after_prefix_Some dest!: ident split: option.splits)
  have "r' \<noteq> [] \<and> \<not> P (hd r')"
    using r(3) assms(4,5) by (cases r') (auto simp: close_reference_def after_prefix_Some close_braces_def split: if_splits)
  then have "takeWhile P r = reference_text k" "dropWhile P r = r'"
    using key by (cases r'; simp add: takeWhile_append dropWhile_append)+
  then show ?thesis using r key by (simp add: keyed_at_def)
qed

lemma secret_keyed: "reference_at kind s = Some (k, rest) \<Longrightarrow> keyed_at kind secret_char s = Some (reference_text k, rest)"
  by (rule reference_key) simp_all

lemma param_keyed:
  "reference_at kind s = Some (k, rest) \<Longrightarrow> snd k = None \<Longrightarrow> keyed_at kind ident_char s = Some (reference_text k, rest)"
  by (rule reference_key) simp_all

lemma EMBEDDED_REF_suffix:
  assumes "EMBEDDED_REF s = Some (v, rest)"
  shows "\<exists>q. s = q @ rest"
proof -
  obtain kind k where k: "reference_at kind s = Some (k, rest)" "kind = ''param'' \<or> kind = ''capture''"
    using assms by (auto simp: EMBEDDED_REF_def split: option.splits)
  then have "CHR 0x7B \<notin> set kind" by auto
  from keyed_at_shape [OF secret_keyed [OF k(1)] this] show ?thesis by (metis append.assoc secret_char_simps(6))
qed

lemma embedded_param:
  assumes "(b, v) \<in> set (snd (embedded_refs i s))"
  shows "(\<exists>c. v = Capture_value c) \<or>
    (\<exists>p t k rest. s = p @ t \<and> reference_at ''param'' t = Some (k, rest) \<and> v = Param_value (reference_text k))"
  using assms
proof (induction i s rule: embedded_refs.induct)
  case (1 i s)
  show ?case
  proof (cases "EMBEDDED_REF s")
    case None
    obtain c cs where s: "s = c # cs" using 1(3) None by (subst (asm) embedded_refs.simps) (cases s; simp)
    have "(b, v) \<in> set (snd (embedded_refs i cs))"
      using 1(3) None s by (subst (asm) embedded_refs.simps) (simp split: prod.splits)
    from 1(1) [OF None s this] show ?thesis unfolding s by (metis append_Cons)
  next
    case (Some x)
    obtain u rest where x: "x = (u, rest)" by (cases x)
    have "(b, v) = (binding_key i, u) \<or> (b, v) \<in> set (snd (embedded_refs (Suc i) rest))"
      using 1(3) Some x by (subst (asm) embedded_refs.simps) (auto split: prod.splits)
    then show ?thesis
    proof
      assume "(b, v) = (binding_key i, u)"
      then have "(\<exists>c. v = Capture_value c) \<or> (\<exists>k. reference_at ''param'' s = Some (k, rest) \<and> v = Param_value (reference_text k))"
        using Some x by (auto simp: EMBEDDED_REF_def split: option.splits)
      then show ?thesis by (metis append_Nil)
    next
      assume "(b, v) \<in> set (snd (embedded_refs (Suc i) rest))"
      from 1(2) [OF Some x [symmetric] this] show ?thesis
        using EMBEDDED_REF_suffix [OF Some [unfolded x]] by (metis append.assoc)
    qed
  qed
qed

definition dotless :: "jstext \<Rightarrow> bool" where
  "dotless k \<longleftrightarrow> CHR ''.'' \<notin> set k"

lemma dotless_reference: "dotless (reference_text k) \<Longrightarrow> snd k = None"
  by (cases k; cases "snd k") (auto simp: dotless_def reference_text_def)

lemma binding_subrefs_in: "v \<in> set (binding_subrefs bs) \<Longrightarrow> \<exists>(b, u) \<in> set bs. v \<in> set (subrefs u)"
  by (induction bs) (auto simp del: subrefs.simps)

lemma text_refs_cases:
  assumes "v \<in> set (subrefs (expr_to_value_ref (J_str s)))" and "\<nexists>c. v = Capture_value c" and "\<nexists>l. v = Literal_value l"
    and "\<nexists>t bs. v = Template_value t bs"
  shows "(\<exists>k. v = Secret_value k None \<and> SECRET_EXPR s = Some k) \<or> (\<exists>k. v = Param_value k \<and> PARAM_EXPR s = Some k) \<or>
    v \<in> snd ` set (snd (embedded_refs 0 s))"
proof -
  let ?e = "expr_to_value_ref (J_str s)" and ?bs = "snd (embedded_refs 0 s)"
  have bs: "v \<in> snd ` set ?bs" if inside: "v \<in> set (binding_subrefs ?bs)"
  proof -
    obtain b u where u: "(b, u) \<in> set ?bs" "v \<in> set (subrefs u)" using binding_subrefs_in [OF inside] by blast
    then have "v = u" using embedded_param [of b u 0 s] by auto
    then show ?thesis using u(1) by force
  qed
  have "(\<exists>k. SECRET_EXPR s = Some k \<and> ?e = Secret_value k None) \<or> (\<exists>k. PARAM_EXPR s = Some k \<and> ?e = Param_value k) \<or>
    (\<exists>c. ?e = Capture_value c) \<or> (\<exists>l. ?e = Literal_value l) \<or> (\<exists>t. ?e = Template_value t ?bs)"
    by (auto simp: expr_to_value_ref_def split: option.splits prod.splits list.splits)
  then show ?thesis using assms bs by auto
qed

lemma text_refs:
  assumes "v \<in> set (subrefs (expr_to_value_ref j))"
  shows "v = Secret_value k hs \<Longrightarrow> \<exists>s. j = J_str s \<and> k \<in> set (extract_secret_refs s)"
    and "v = Param_value k \<Longrightarrow> dotless k \<Longrightarrow> \<exists>s. j = J_str s \<and> k \<in> set (extract_param_refs s)"
proof -
  have str: "\<exists>s. j = J_str s" if "\<nexists>l. v = Literal_value l"
    using assms that by (cases j) (auto simp: expr_to_value_ref_def)
  have scan: "k \<in> set (extract_param_refs (p @ t))"
    if "reference_at ''param'' t = Some (k', rest)" "k = reference_text k'" "dotless k" for k k' p t rest
    using keyed_scan_finds [OF param_keyed [OF that(1)], of p] that(2,3) dotless_reference [of k'] by (simp add: extract_param_refs_def)
  show "\<exists>s. j = J_str s \<and> k \<in> set (extract_secret_refs s)" if v: "v = Secret_value k hs"
  proof -
    obtain s where s: "j = J_str s" using str v by auto
    have "v \<notin> snd ` set (snd (embedded_refs 0 s))" using embedded_param [of _ v 0 s] v by force
    then have "SECRET_EXPR s = Some k" using text_refs_cases [OF assms [unfolded s]] v by auto
    then obtain k' where "reference_at ''secret'' s = Some (k', [])" "k = reference_text k'"
      by (auto simp: SECRET_EXPR_def split: option.splits list.splits)
    then show ?thesis using keyed_scan_finds [OF secret_keyed, of "''secret''" s k' "[]" "[]"] s by (simp add: extract_secret_refs_def)
  qed
  show "\<exists>s. j = J_str s \<and> k \<in> set (extract_param_refs s)" if v: "v = Param_value k" "dotless k"
  proof -
    obtain s where s: "j = J_str s" using str v by auto
    consider "PARAM_EXPR s = Some k" | b where "(b, v) \<in> set (snd (embedded_refs 0 s))"
      using text_refs_cases [OF assms [unfolded s]] v by auto
    then show ?thesis
    proof cases
      case 1
      then have "reference_at ''param'' s = Some ((k, None), [])" by (auto simp: PARAM_EXPR_def split: option.splits list.splits)
      from scan [OF this, of k "[]"] show ?thesis using s v(2) by (simp add: reference_text_def)
    next
      case (2 b)
      then obtain p t k' rest where "s = p @ t" "reference_at ''param'' t = Some (k', rest)" "k = reference_text k'"
        using embedded_param [OF 2] v(1) by auto
      then show ?thesis using scan v(2) s by blast
    qed
  qed
qed

lemma no_error_from:
  assumes "lr_errors (lint env strict w) = []" and "r \<in> set (DEFAULT_RULES env)" and "f \<in> set (r w)"
  shows "lf_severity f \<noteq> Lint_error"
proof
  assume "lf_severity f = Lint_error"
  then have "lf_severity (promote strict f) = Lint_error" by (simp add: promote_def)
  then have "promote strict f \<in> set (lr_errors (lint env strict w))"
    using assms(2,3) by (auto simp: lint_def lint_with_def Let_def)
  then show False using assms(1) by simp
qed

lemma clean_texts:
  assumes "lr_errors (lint env strict w) = []" and "(p, s) \<in> set (collect_all_string_values w)"
  shows "k \<in> set (extract_secret_refs s) \<Longrightarrow> k \<in> set (wk_secrets w)"
    and "k \<in> set (extract_param_refs s) \<Longrightarrow> map_has (wk_params w) k"
proof -
  have "undeclared_secret_ref w = []" "undeclared_param_ref w = []"
    using no_error_from [OF assms(1), of undeclared_secret_ref] no_error_from [OF assms(1), of undeclared_param_ref]
    by (fastforce simp: DEFAULT_RULES_def undeclared_secret_ref_def undeclared_param_ref_def finding_def filter_empty_conv)+
  then show "k \<in> set (extract_secret_refs s) \<Longrightarrow> k \<in> set (wk_secrets w)"
    and "k \<in> set (extract_param_refs s) \<Longrightarrow> map_has (wk_params w) k"
    using assms(2) by (auto simp: undeclared_secret_ref_def undeclared_param_ref_def filter_empty_conv)
qed

lemma per_step_in: "x \<in> set (per_step f w) \<longleftrightarrow> (\<exists>i < length (wk_steps w). x \<in> set (f i (wk_steps w ! i)))"
  by (force simp: per_step_def in_set_enumerate_eq)

lemma clean_scope:
  assumes "lr_errors (lint env strict w) = []" and "i < length (wk_steps w)" and "lint_scope w (wk_steps w ! i) = Some Scope_read_only"
  shows "wf_verb (wf_body (wk_steps w ! i)) \<in> {V_extract, V_wait_for, V_llm_summarize}"
proof (rule ccontr)
  assume "\<not> ?thesis"
  then obtain f where "f \<in> set (scope_mutating_verb w)" "lf_severity f = Lint_error"
    using assms(2,3) by (fastforce simp: scope_mutating_verb_def per_step_in finding_def)
  then show False using no_error_from [OF assms(1), of scope_mutating_verb] by (simp add: DEFAULT_RULES_def)
qed

text \<open>The references of a translated step come from the texts of the step.\<close>

lemma body_refs_texts:
  assumes "translate_step s i = Ok p" and "v \<in> set (body_value_refs (st_body p))" and "\<nexists>c. v = Capture_value c"
  shows "\<exists>j. v \<in> set (subrefs (expr_to_value_ref j)) \<and> (\<forall>u. j = J_str u \<longrightarrow> (\<exists>path. (path, u) \<in> set (step_texts n s)))"
proof -
  have b: "translate_body (wf_body s) i = Ok (st_body p)"
    using assms(1) by (auto simp: translate_step_def map_sum_def split: sum.splits)
  have params: "\<exists>j. v \<in> set (subrefs (expr_to_value_ref j)) \<and>
      (\<forall>u. j = J_str u \<longrightarrow> (\<exists>path. \<exists>(k, x) \<in> set ps. (path, u) \<in> set (text_of (wf_path n @ ''.params.'' @ k) x)))"
    if inside: "v \<in> set (binding_subrefs (map (\<lambda>(k, x). (k, expr_to_value_ref x)) ps))" for ps
  proof -
    obtain k x where "(k, x) \<in> set ps" "v \<in> set (subrefs (expr_to_value_ref x))" using binding_subrefs_in [OF inside] by auto
    then show ?thesis by (intro exI [of _ x]) (auto simp: text_of_def simp del: subrefs.simps intro!: bexI [of _ "(k, x)"])
  qed
  have single: ?thesis if "v \<in> set (subrefs (expr_to_value_ref j))" "set (step_texts n s) = set (text_of path j)" for j path
    using that by (auto simp: text_of_def simp del: subrefs.simps)
  note eqs = translate_body_def body_value_refs_def step_texts_def Let_def
  show ?thesis
  proof (cases "wf_body s")
    case (Wf_call_workflow name ps al)
    then have "v \<in> set (binding_subrefs (map (\<lambda>(k, x). (k, expr_to_value_ref x)) ps))"
      using b [symmetric] assms(2) by (simp add: eqs)
    from params [OF this] obtain j where j: "v \<in> set (subrefs (expr_to_value_ref j))"
      "\<forall>u. j = J_str u \<longrightarrow> (\<exists>path. \<exists>(k, x) \<in> set ps. (path, u) \<in> set (text_of (wf_path n @ ''.params.'' @ k) x))" by blast
    have "y \<in> set (step_texts n s) \<longleftrightarrow> (\<exists>(k, x) \<in> set ps. y \<in> set (text_of (wf_path n @ ''.params.'' @ k) x))" for y
      using Wf_call_workflow by (auto simp: step_texts_def)
    then show ?thesis using j by (simp only: simp_thms) blast
  next
    case (Wf_navigate h url)
    then show ?thesis using b [symmetric] assms(2) by (intro single [of url]) (simp_all add: eqs del: subrefs.simps)
  next
    case (Wf_fill h l x sub)
    then show ?thesis using b [symmetric] assms(2) by (intro single [of x]) (simp_all add: eqs del: subrefs.simps)
  next
    case (Wf_fill_element h m og l x)
    then show ?thesis using b [symmetric] assms(2) by (intro single [of x]) (simp_all add: eqs del: subrefs.simps)
  next
    case (Wf_branch c t e)
    then obtain c' where "st_body p = Branch_step c' t e" using b [symmetric] by (auto simp: eqs map_sum_def split: sum.splits)
    then show ?thesis using assms(2,3) by (cases c') (auto simp: body_value_refs_def)
  next
    case (Wf_loop over x body k)
    then obtain l where "st_body p = Loop_step l" using b [symmetric] by (auto simp: eqs map_sum_def split: sum.splits)
    then show ?thesis using assms(2,3) by (cases "lp_over l") (auto simp: body_value_refs_def)
  next
    case (Wf_llm_summarize a m og)
    then obtain c where "st_body p = Llm_summarize_step c m og" using b [symmetric] by (auto simp: eqs map_sum_def split: sum.splits)
    then show ?thesis using assms(2,3) by (auto simp: body_value_refs_def)
  qed (use b [symmetric] assms(2) in \<open>simp_all add: eqs\<close>)
qed

lemma step_text_collected: "n < length (wk_steps w) \<Longrightarrow> x \<in> set (step_texts n (wk_steps w ! n)) \<Longrightarrow> x \<in> set (collect_all_string_values w)"
  by (auto simp: collect_all_string_values_def per_step_in)

section \<open>What a clean file guarantees\<close>

lemma clean_plan_closed:
  assumes "lr_errors (lint env strict w) = []" and "translate valid task pid w = Ok t" and "p \<in> set (pl_steps (tw_plan t))"
  shows "(\<forall>k hs. Secret_value k hs \<in> set (body_value_refs (st_body p)) \<longrightarrow> k \<in> set (tw_secrets t)) \<and>
    (\<forall>k. Param_value k \<in> set (body_value_refs (st_body p)) \<and> dotless k \<longrightarrow> map_has (wk_params w) k) \<and>
    st_verb p \<in> set (ALLOWED_VERBS_BY_SCOPE (effective_scope (tw_plan t) p))"
proof -
  obtain n where n: "n < length (wk_steps w)" "translate_step (wk_steps w ! n) (step_id n (wk_steps w ! n)) = Ok p"
    using assms(3) translated_step [OF assms(2)] translate_steps_Ok [OF translate_Ok(1) [OF assms(2)]]
    by (auto simp: in_set_conv_nth)
  note fields = translate_step_fields [OF n(2)] translate_Ok [OF assms(2)]
  have texts: "\<exists>path. (path, u) \<in> set (collect_all_string_values w)"
    if "\<forall>u. j = J_str u \<longrightarrow> (\<exists>path. (path, u) \<in> set (step_texts n (wk_steps w ! n)))" "j = J_str u" for j u
    using that step_text_collected [OF n(1)] by blast
  have "k \<in> set (tw_secrets t)" if v: "Secret_value k hs \<in> set (body_value_refs (st_body p))" for k hs
  proof -
    obtain j where j: "Secret_value k hs \<in> set (subrefs (expr_to_value_ref j))"
      "\<forall>u. j = J_str u \<longrightarrow> (\<exists>path. (path, u) \<in> set (step_texts n (wk_steps w ! n)))" using body_refs_texts [OF n(2) v] by blast
    obtain u where u: "j = J_str u" "k \<in> set (extract_secret_refs u)" using text_refs(1) [OF j(1)] by blast
    then show ?thesis using texts [OF j(2) u(1)] clean_texts(1) [OF assms(1)] fields by auto
  qed
  moreover have "map_has (wk_params w) k" if v: "Param_value k \<in> set (body_value_refs (st_body p))" "dotless k" for k
  proof -
    obtain j where j: "Param_value k \<in> set (subrefs (expr_to_value_ref j))"
      "\<forall>u. j = J_str u \<longrightarrow> (\<exists>path. (path, u) \<in> set (step_texts n (wk_steps w ! n)))" using body_refs_texts [OF n(2) v(1)] by blast
    obtain u where u: "j = J_str u" "k \<in> set (extract_param_refs u)" using text_refs(2) [OF j(1)] v(2) by blast
    then show ?thesis using texts [OF j(2) u(1)] clean_texts(2) [OF assms(1)] by auto
  qed
  moreover have "st_verb p \<in> set (ALLOWED_VERBS_BY_SCOPE (effective_scope (tw_plan t) p))"
    using clean_scope [OF assms(1) n(1)] fields(2,4) fields(9)
    by (cases "st_verb p"; auto simp: ALLOWED_VERBS_BY_SCOPE_def effective_scope_def lint_scope_def STEP_VERBS_def
        split: security_scope.splits option.splits if_splits)
  ultimately show ?thesis by blast
qed

text \<open>C30. In the plan of a workflow that lints without an error, strict or not, every secret a value refers to is in the list of
  secrets the run is prepared with, every parameter without a dot that a value refers to is declared in the file, and no
  step has a verb its scope forbids.\<close>

theorem clean_workflow_plan_is_closed:
  assumes "lr_errors (lint env strict w) = []" and "translate valid task pid w = Ok t" and "p \<in> set (pl_steps (tw_plan t))"
  shows "(\<forall>k hs. Secret_value k hs \<in> set (body_value_refs (st_body p)) \<longrightarrow> k \<in> set (tw_secrets t)) \<and>
    (\<forall>k. Param_value k \<in> set (body_value_refs (st_body p)) \<and> dotless k \<longrightarrow> map_has (wk_params w) k) \<and>
    st_verb p \<in> set (ALLOWED_VERBS_BY_SCOPE (effective_scope (tw_plan t) p))"
  using clean_plan_closed [OF assms] .

definition sample_lint_env :: lint_env where
  "sample_lint_env = \<lparr>le_jsonata = (\<lambda>_. None), le_protocol = (\<lambda>_. Some ''https:'')\<rparr>"

lemma sample_is_clean: "lr_errors (lint sample_lint_env False sample_workflow) = []"
  by code_simp

theorem clean_workflow_plan_is_closed_witness:
  "\<exists>t. translate (\<lambda>_ _. True) ''t'' ''p'' sample_workflow = Ok t \<and> pl_steps (tw_plan t) \<noteq> [] \<and>
     (\<forall>p \<in> set (pl_steps (tw_plan t)). st_verb p \<in> set (ALLOWED_VERBS_BY_SCOPE (effective_scope (tw_plan t) p)))"
proof -
  obtain t where t: "translate (\<lambda>_ _. True) ''t'' ''p'' sample_workflow = Ok t" "tw_plan t = sample_plan" using sample_translated by blast
  have "pl_steps (tw_plan t) \<noteq> []" using t(2) by (simp add: sample_plan_def)
  then show ?thesis using t(1) clean_workflow_plan_is_closed [OF sample_is_clean t(1)] by blast
qed

section \<open>What the rules let through\<close>

text \<open>
  A reference with a dot, or to an undeclared collection, is one no rule looks at: the pattern of parameter references
  takes no dot, although the pattern the translation replaces references by does, and the collection of a loop is not
  among the texts that are scanned.
\<close>

lemma dotted_parameter_escapes:
  "expr_to_value_ref (J_str ''go {{ param:a.b }}'') = Template_value (''go '' @ placeholder ''value_0'') [(''value_0'', Param_value ''a.b'')] \<and>
   extract_param_refs ''go {{ param:a.b }}'' = []"
  by (rule conjI; code_simp)

lemma loop_collection_escapes:
  "expr_to_collection_ref ''{{ param:nowhere }}'' c = Ok (Over_param ''nowhere'') \<and>
   step_texts i \<lparr>wf_id = x, wf_scope = y, wf_confirm = z, wf_body = Wf_loop ''{{ param:nowhere }}'' v body n\<rparr> = []"
  by (rule conjI) (simp_all add: step_texts_def expr_to_collection_ref_def CAPTURE_EXPR_def PARAM_EXPR_def reference_at_def
      open_reference_def open_braces_def after_prefix_def is_space_def code_def take_reference_def take_ident_def ident_char_def
      is_lower_def is_digit_def close_reference_def close_braces_def)

text \<open>The nesting depth is at most the number of steps, however the branches jump.\<close>

lemma depth_at_most_steps: "depth_from table visited i \<le> card (set (map fst table) - set visited)"
proof (induction table visited i rule: depth_from.induct)
  case (1 table visited i)
  show ?case
  proof (cases "i \<in> set visited \<or> map_get table i = None")
    case True
    then show ?thesis by (subst depth_from.simps) auto
  next
    case False
    then obtain b where b: "i \<notin> set visited" "map_get table i = Some b" by auto
    let ?k = "card (set (map fst table) - set (i # visited))"
    have less: "Suc ?k \<le> card (set (map fst table) - set visited)" using unvisited_decreases [OF b(2,1)] by simp
    have lp: "foldr max (map f xs) 0 \<le> ?k" if "\<forall>x \<in> set xs. f x \<le> ?k" for f :: "'z \<Rightarrow> nat" and xs
      using that by (induction xs) auto
    have "depth_from table visited i \<le> Suc ?k"
    proof (cases b)
      case (Wf_branch c t e)
      then show ?thesis using b 1(1,2) by (subst depth_from.simps) (auto split: option.splits)
    next
      case (Wf_loop over v body n)
      then have "\<forall>x \<in> set body. depth_from table (i # visited) (Some x) \<le> ?k" using b 1(3) by simp
      from lp [OF this] show ?thesis using b Wf_loop by (subst depth_from.simps) simp
    qed (use b in \<open>subst depth_from.simps, simp\<close>)+
    then show ?thesis using less by simp
  qed
qed

end
