(* ===== verification/WorkflowStore.thy ===== *)
theory WorkflowStore
  imports Workflow "HOL-Library.List_Lexorder" "HOL-Library.Char_ord"
begin

text \<open>
  Workflows on disk: the short forms of steps (\<open>packages/core/src/workflow/yaml/short-form.ts\<close>), what is written
  (\<open>yaml/emitter.ts\<close>), what is read (\<open>yaml/parser.ts\<close>), the store over them (\<open>store.ts\<close>) and the projection an agent
  sees (\<open>catalog.ts\<close>).

  A document is the tree the YAML library writes and reads back, with its keys present or absent; the text, the order of
  the keys and the comments are left out. Of the schema the model has the defaults, the keys a step must have, the
  bounds on the number of steps and the verbs that may ask for consent, not the patterns of names.
\<close>

section \<open>Definitions\<close>

subsection \<open>Steps in a document\<close>

text \<open>
  A node is a short form, or has a verb with its fields. The scope is absent, null or given. The fields of a verb carry
  the defaults of the schema already.
\<close>

datatype node_body =
    Short_navigate json
  | Short_click jstext
  | Short_fill jstext "json option"
  | Short_wait_for jstext
  | Canonical wf_body

record step_node =
  sn_id :: "jstext option"
  sn_scope :: "security_scope option option"
  sn_confirm :: "bool option"
  sn_body :: node_body

definition no_hints :: confirmation_hints where
  "no_hints = \<lparr>ch_description = None, ch_cost = None, ch_consequence = None\<rparr>"

definition step_to_canonical :: "wf_step \<Rightarrow> step_node" where
  "step_to_canonical s = \<lparr>sn_id = wf_id s, sn_scope = Some (wf_scope s), sn_confirm = Some (wf_confirm s),
     sn_body = Canonical (wf_body s)\<rparr>"

definition short_node :: "wf_step \<Rightarrow> node_body \<Rightarrow> step_node" where
  "short_node s b = \<lparr>sn_id = wf_id s, sn_scope = None, sn_confirm = None, sn_body = b\<rparr>"

definition to_short_form :: "wf_step \<Rightarrow> step_node" where
  "to_short_form s = (if wf_scope s \<noteq> None then step_to_canonical s
     else (case wf_body s of
         Wf_navigate _ url \<Rightarrow> short_node s (Short_navigate url)
       | Wf_click _ l \<Rightarrow> short_node s (Short_click l)
       | Wf_fill _ l v submit \<Rightarrow> if submit then step_to_canonical s else short_node s (Short_fill l (Some v))
       | Wf_wait_for l state t \<Rightarrow> if state \<noteq> Wait_visible \<or> t \<noteq> None then step_to_canonical s else short_node s (Short_wait_for l)
       | _ \<Rightarrow> step_to_canonical s))"

definition expand_node :: "step_node \<Rightarrow> jstext \<Rightarrow> wf_body \<Rightarrow> step_node" where
  "expand_node n auto_id b = \<lparr>sn_id = Some (case sn_id n of Some i \<Rightarrow> i | None \<Rightarrow> auto_id), sn_scope = Some None, sn_confirm = None,
     sn_body = Canonical b\<rparr>"

definition from_short_form :: "step_node \<Rightarrow> nat \<Rightarrow> step_node" where
  "from_short_form n index = (let auto_id = ''s'' @ show_nat (index + 1) in case sn_body n of
     Short_navigate url \<Rightarrow> expand_node n auto_id (Wf_navigate no_hints url)
   | Short_click l \<Rightarrow> expand_node n auto_id (Wf_click no_hints l)
   | Short_fill l v \<Rightarrow> expand_node n auto_id (Wf_fill no_hints l (case v of Some j \<Rightarrow> j | None \<Rightarrow> J_null) False)
   | Short_wait_for l \<Rightarrow> expand_node n auto_id (Wf_wait_for l Wait_visible None)
   | Canonical b \<Rightarrow> if sn_id n = None then n\<lparr>sn_id := Some auto_id\<rparr> else n)"

subsection \<open>Documents\<close>

record workflow_doc =
  dc_name :: jstext
  dc_description :: "jstext option"
  dc_class :: "security_scope option"
  dc_recorded :: "recorded_with option"
  dc_params :: "(jstext, param_decl) jsmap option"
  dc_secrets :: "jstext list option"
  dc_cookies :: "jstext option"
  dc_steps :: "step_node list"
  dc_outputs :: "wf_output list option"
  dc_synthesis :: "synthesis_spec option"
  dc_unredacted :: "bool option"
  dc_frames :: "jstext list option"
  dc_locators :: "(jstext, wf_candidate list) jsmap option"
  dc_locators_ref :: "jstext option"

definition DEFAULT_SIDECAR_THRESHOLD :: nat where
  "DEFAULT_SIDECAR_THRESHOLD = 50"

type_synonym sidecar = "(jstext, wf_candidate list) jsmap"

definition given_list :: "'a list \<Rightarrow> 'a list option" where
  "given_list xs = (if xs = [] then None else Some xs)"

definition emit_workflow :: "nat \<Rightarrow> workflow_file \<Rightarrow> workflow_doc \<times> sidecar option" where
  "emit_workflow threshold w = (let use_sidecar = threshold < length (wk_locators w) in
     (\<lparr>dc_name = wk_name w, dc_description = wk_description w, dc_class = Some (wk_class w), dc_recorded = wk_recorded w,
        dc_params = given_list (wk_params w), dc_secrets = given_list (wk_secrets w),
        dc_cookies = (if wk_cookies w = ''none'' then None else Some (wk_cookies w)),
        dc_steps = map to_short_form (wk_steps w), dc_outputs = given_list (wk_outputs w), dc_synthesis = wk_synthesis w,
        dc_unredacted = (if wk_unredacted w then Some True else None), dc_frames = None,
        dc_locators = (if use_sidecar then None else given_list (wk_locators w)),
        dc_locators_ref = (if use_sidecar then Some (''./'' @ wk_name w @ ''.locators.json'') else None)\<rparr>,
      if use_sidecar then Some (wk_locators w) else None))"

text \<open>What the schema says of one desugared step: the step, or the path of what is wrong.\<close>

definition read_step :: "step_node \<Rightarrow> jstext + wf_step" where
  "read_step n = (case (sn_body n, sn_scope n, sn_id n) of
     (Canonical b, Some sc, Some i) \<Rightarrow>
       (let confirm = (case sn_confirm n of Some c \<Rightarrow> c | None \<Rightarrow> False) in
        if confirm \<and> wf_verb b \<notin> CONFIRMABLE_WORKFLOW_VERBS then Err ''requires_confirmation''
        else Ok \<lparr>wf_id = Some i, wf_scope = sc, wf_confirm = confirm, wf_body = b\<rparr>)
   | (Canonical b, None, _) \<Rightarrow> Err ''scope''
   | (Canonical b, _, None) \<Rightarrow> Err ''id''
   | _ \<Rightarrow> Err ''verb'')"

definition MAX_WORKFLOW_STEPS :: nat where
  "MAX_WORKFLOW_STEPS = 64"

definition step_issues :: "(jstext + wf_step) list \<Rightarrow> jstext list" where
  "step_issues rs = concat (map (\<lambda>(i, r). case r of
     Inl field \<Rightarrow> [''steps.'' @ show_nat i @ ''.'' @ field] | Inr _ \<Rightarrow> []) (enumerate 0 rs))"

definition schema_issues :: "workflow_doc \<Rightarrow> (jstext + wf_step) list \<Rightarrow> jstext list" where
  "schema_issues d rs =
     (if dc_cookies d \<in> {None, Some ''auto'', Some ''none''} then [] else [''cookies'']) @ step_issues rs @
     (if rs = [] \<or> MAX_WORKFLOW_STEPS < length rs then [''steps''] else [])"

definition or_default :: "'a \<Rightarrow> 'a option \<Rightarrow> 'a" where
  "or_default x v = (case v of Some y \<Rightarrow> y | None \<Rightarrow> x)"

definition parse_workflow :: "workflow_doc \<Rightarrow> jstext list + workflow_file" where
  "parse_workflow d =
     (let rs = map (\<lambda>(i, n). read_step (from_short_form n i)) (enumerate 0 (dc_steps d)) in
      if schema_issues d rs \<noteq> [] then Err (schema_issues d rs)
      else Ok \<lparr>wk_name = dc_name d, wk_description = dc_description d, wk_class = or_default Scope_public (dc_class d),
        wk_recorded = dc_recorded d, wk_params = or_default [] (dc_params d), wk_secrets = or_default [] (dc_secrets d),
        wk_cookies = or_default ''none'' (dc_cookies d), wk_steps = map projr rs, wk_outputs = or_default [] (dc_outputs d),
        wk_synthesis = dc_synthesis d, wk_unredacted = or_default False (dc_unredacted d), wk_frames = or_default [] (dc_frames d),
        wk_locators = or_default [] (dc_locators d)\<rparr>)"

subsection \<open>The store\<close>

text \<open>A directory of workflow files and one of locator files. What the disk does of a save is an argument.\<close>

record workflow_dir =
  wd_docs :: "(jstext, workflow_doc) jsmap"
  wd_sidecars :: "(jstext, sidecar) jsmap"

datatype save_io = Save_done | Save_failed | Sidecar_failed

datatype store_error = Store_collision jstext | Store_failed jstext jstext

definition workflow_exists :: "jstext \<Rightarrow> workflow_dir \<Rightarrow> bool" where
  "workflow_exists name d \<longleftrightarrow> map_has (wd_docs d) name"

definition save_workflow ::
  "nat \<Rightarrow> bool \<Rightarrow> save_io \<Rightarrow> workflow_file \<Rightarrow> workflow_dir \<Rightarrow> (store_error + unit) \<times> workflow_dir" where
  "save_workflow threshold force io w d =
     (if \<not> force \<and> workflow_exists (wk_name w) d then (Err (Store_collision (wk_name w)), d)
      else (case emit_workflow threshold w of (doc, side) \<Rightarrow>
        (let written = d\<lparr>wd_docs := map_set (wk_name w) doc (wd_docs d)\<rparr>; failed = Err (Store_failed ''save'' (wk_name w)) in
         if io = Save_failed then (failed, d)
         else (case side of
             None \<Rightarrow> (Ok (), written)
           | Some locators \<Rightarrow> if io = Sidecar_failed then (failed, written)
               else (Ok (), written\<lparr>wd_sidecars := map_set (wk_name w) locators (wd_sidecars d)\<rparr>)))))"

definition load_workflow :: "jstext \<Rightarrow> workflow_dir \<Rightarrow> store_error + (jstext list + workflow_file)" where
  "load_workflow name d = (case map_get (wd_docs d) name of
     None \<Rightarrow> Err (Store_failed ''load'' name) | Some doc \<Rightarrow> Ok (parse_workflow doc))"

definition delete_workflow :: "jstext \<Rightarrow> workflow_dir \<Rightarrow> (store_error + unit) \<times> workflow_dir" where
  "delete_workflow name d = (if workflow_exists name d
     then (Ok (), d\<lparr>wd_docs := AList.delete name (wd_docs d)\<rparr>) else (Err (Store_failed ''delete'' name), d))"

record workflow_summary =
  wy_name :: jstext
  wy_class :: security_scope
  wy_steps :: nat
  wy_modified :: nat

text \<open>The time a file was last written is an argument; the newest comes first.\<close>

definition summary_of :: "(jstext \<Rightarrow> nat) \<Rightarrow> jstext \<times> workflow_doc \<Rightarrow> workflow_summary" where
  "summary_of mtime = (\<lambda>(name, doc). case parse_workflow doc of
     Inr w \<Rightarrow> \<lparr>wy_name = name, wy_class = wk_class w, wy_steps = length (wk_steps w), wy_modified = mtime name\<rparr>
   | Inl _ \<Rightarrow> \<lparr>wy_name = name, wy_class = Scope_public, wy_steps = 0, wy_modified = mtime name\<rparr>)"

definition list_workflows :: "(jstext \<Rightarrow> nat) \<Rightarrow> workflow_dir \<Rightarrow> workflow_summary list" where
  "list_workflows mtime d = sort_key (\<lambda>s. - int (wy_modified s)) (map (summary_of mtime) (wd_docs d))"

subsection \<open>The catalog an agent sees\<close>

record catalog_param =
  cp_name :: jstext
  cp_type :: param_type
  cp_required :: bool

record catalog_entry =
  ce_name :: jstext
  ce_description :: jstext
  ce_params :: "catalog_param list"
  ce_hosts :: "jstext list"

text \<open>The host of a literal absolute URL, in lower case; a text that is none is left out.\<close>

definition derive_hosts :: "(jstext \<Rightarrow> jstext option) \<Rightarrow> workflow_file \<Rightarrow> jstext list" where
  "derive_hosts url_hostname w = sort (to_jsset (List.map_filter (\<lambda>s. case wf_body s of
     Wf_navigate _ (J_str u) \<Rightarrow> map_option to_lower (url_hostname u) | _ \<Rightarrow> None) (wk_steps w)))"

definition project_catalog_entry :: "(jstext \<Rightarrow> jstext option) \<Rightarrow> workflow_file \<Rightarrow> catalog_entry" where
  "project_catalog_entry url_hostname w = \<lparr>ce_name = wk_name w,
     ce_description = (case wk_description w of Some t \<Rightarrow> t | None \<Rightarrow> []),
     ce_params = map (\<lambda>(k, p). \<lparr>cp_name = k, cp_type = pd_type p, cp_required = pd_required p\<rparr>) (wk_params w),
     ce_hosts = derive_hosts url_hostname w\<rparr>"

definition list_catalog :: "(jstext \<Rightarrow> jstext option) \<Rightarrow> workflow_dir \<Rightarrow> catalog_entry list" where
  "list_catalog url_hostname d = sort_key ce_name (List.map_filter (\<lambda>(name, doc). case parse_workflow doc of
     Inr w \<Rightarrow> Some (project_catalog_entry url_hostname w) | Inl _ \<Rightarrow> None) (wd_docs d))"

section \<open>Saving and reading back\<close>

text \<open>What a save keeps of a step: a short form has neither the consent flag nor what the card is to say.\<close>

definition saved_short :: "wf_step \<Rightarrow> bool" where
  "saved_short s \<longleftrightarrow> wf_scope s = None \<and> (case wf_body s of
     Wf_navigate _ _ \<Rightarrow> True | Wf_click _ _ \<Rightarrow> True | Wf_fill _ _ _ submit \<Rightarrow> \<not> submit
   | Wf_wait_for _ state t \<Rightarrow> state = Wait_visible \<and> t = None | _ \<Rightarrow> False)"

definition without_hints :: "wf_body \<Rightarrow> wf_body" where
  "without_hints b = (case b of
     Wf_navigate _ url \<Rightarrow> Wf_navigate no_hints url | Wf_click _ l \<Rightarrow> Wf_click no_hints l
   | Wf_fill _ l v submit \<Rightarrow> Wf_fill no_hints l v submit | _ \<Rightarrow> b)"

definition as_saved :: "wf_step \<Rightarrow> wf_step" where
  "as_saved s = (if saved_short s then s\<lparr>wf_confirm := False, wf_body := without_hints (wf_body s)\<rparr> else s)"

definition step_ok :: "wf_step \<Rightarrow> bool" where
  "step_ok s \<longleftrightarrow> wf_id s \<noteq> None \<and> (wf_confirm s \<longrightarrow> wf_verb (wf_body s) \<in> CONFIRMABLE_WORKFLOW_VERBS)"

definition workflow_ok :: "workflow_file \<Rightarrow> bool" where
  "workflow_ok w \<longleftrightarrow> (\<forall>s \<in> set (wk_steps w). step_ok s) \<and> wk_steps w \<noteq> [] \<and> length (wk_steps w) \<le> 64 \<and>
     wk_cookies w \<in> {''auto'', ''none''}"

lemma read_back_step: "step_ok s \<Longrightarrow> read_step (from_short_form (to_short_form s) i) = Ok (as_saved s)"
  by (cases s; cases "wf_body s")
    (auto simp: to_short_form_def from_short_form_def short_node_def step_to_canonical_def expand_node_def read_step_def as_saved_def
      saved_short_def without_hints_def step_ok_def Let_def)

lemma step_issues_Ok: "\<forall>r \<in> set rs. is_ok r \<Longrightarrow> step_issues rs = []"
  by (auto simp: step_issues_def enumerate_eq_zip dest!: set_zip_rightD split: sum.splits)

lemma given_list_default [simp]: "or_default [] (given_list xs) = xs"
  by (simp add: given_list_def or_default_def)

definition reloaded :: "nat \<Rightarrow> workflow_file \<Rightarrow> workflow_file" where
  "reloaded threshold w = w\<lparr>wk_steps := map as_saved (wk_steps w), wk_frames := [],
     wk_locators := (if threshold < length (wk_locators w) then [] else wk_locators w)\<rparr>"

lemma parse_emitted:
  assumes "workflow_ok w"
  shows "parse_workflow (fst (emit_workflow threshold w)) = Ok (reloaded threshold w)"
proof -
  let ?d = "fst (emit_workflow threshold w)"
  have steps: "map (\<lambda>(i, n). read_step (from_short_form n i)) (enumerate k (map to_short_form ss)) = map (\<lambda>s. Ok (as_saved s)) ss"
    if "\<forall>s \<in> set ss. step_ok s" for k ss
    using that by (induction ss arbitrary: k) (auto simp: read_back_step)
  have doc: "dc_steps ?d = map to_short_form (wk_steps w)" by (simp add: emit_workflow_def Let_def)
  have rs: "map (\<lambda>(i, n). read_step (from_short_form n i)) (enumerate 0 (dc_steps ?d)) = map (\<lambda>s. Ok (as_saved s)) (wk_steps w)"
    unfolding doc using steps assms by (simp add: workflow_ok_def)
  have "schema_issues ?d (map (\<lambda>s. Ok (as_saved s)) (wk_steps w)) = []"
    using assms by (auto simp: schema_issues_def step_issues_Ok workflow_ok_def emit_workflow_def Let_def MAX_WORKFLOW_STEPS_def)
  then show ?thesis unfolding parse_workflow_def rs Let_def
    by (simp add: emit_workflow_def Let_def or_default_def reloaded_def o_def)
      (simp add: given_list_def)
qed

subsection \<open>The catalog of what was saved\<close>

lemma catalog_url_saved:
  "(case wf_body (as_saved s) of Wf_navigate _ (J_str u) \<Rightarrow> f u | _ \<Rightarrow> None) =
   (case wf_body s of Wf_navigate _ (J_str u) \<Rightarrow> f u | _ \<Rightarrow> None)"
  by (cases "wf_body s") (auto simp: as_saved_def without_hints_def split: json.splits)

lemma reloaded_catalog: "project_catalog_entry h (reloaded threshold w) = project_catalog_entry h w"
  by (simp add: project_catalog_entry_def derive_hosts_def reloaded_def map_filter_def o_def catalog_url_saved)
    (simp add: catalog_url_saved filter_map o_def)

text \<open>A projection reads neither the secrets, nor the locators, nor the cookies.\<close>

lemma catalog_is_secret_free:
  "project_catalog_entry h (w\<lparr>wk_secrets := ss, wk_locators := ls, wk_cookies := c, wk_outputs := os, wk_synthesis := y\<rparr>) =
   project_catalog_entry h w"
  by (simp add: project_catalog_entry_def derive_hosts_def)

text \<open>A save that succeeds writes the document; one that does not may have written it (the locators come after).\<close>

lemma saved_document:
  assumes "save_workflow threshold force io w d = (r, d')"
  shows "wd_docs d' = wd_docs d \<or> wd_docs d' = map_set (wk_name w) (fst (emit_workflow threshold w)) (wd_docs d)"
    and "is_ok r \<Longrightarrow> wd_docs d' = map_set (wk_name w) (fst (emit_workflow threshold w)) (wd_docs d)"
    and "\<not> force \<Longrightarrow> workflow_exists (wk_name w) d \<Longrightarrow> d' = d \<and> r = Err (Store_collision (wk_name w))"
  using assms by (auto simp: save_workflow_def Let_def split: if_splits prod.splits option.splits)

text \<open>What every save keeps of a step, and a workflow that loses nothing.\<close>

definition step_frame :: "wf_step \<Rightarrow> jstext option \<times> security_scope option \<times> step_verb" where
  "step_frame s = (wf_id s, wf_scope s, wf_verb (wf_body s))"

definition lossless :: "nat \<Rightarrow> workflow_file \<Rightarrow> bool" where
  "lossless threshold w \<longleftrightarrow> (\<forall>s \<in> set (wk_steps w). saved_short s \<longrightarrow> \<not> wf_confirm s \<and> without_hints (wf_body s) = wf_body s) \<and>
     wk_frames w = [] \<and> length (wk_locators w) \<le> threshold"

lemma without_hints_simps [simp]:
  "without_hints (without_hints b) = without_hints b" "wf_verb (without_hints b) = wf_verb b"
  by (cases b; simp add: without_hints_def wf_verb_def)+

lemma as_saved_simps [simp]: "as_saved (as_saved s) = as_saved s" "step_frame (as_saved s) = step_frame s"
  "step_ok s \<Longrightarrow> step_ok (as_saved s)"
  by (auto simp: as_saved_def step_frame_def step_ok_def)

lemma reloaded_ok: "workflow_ok w \<Longrightarrow> workflow_ok (reloaded threshold w)"
  by (auto simp: workflow_ok_def reloaded_def)

lemma reloaded_twice: "reloaded threshold (reloaded threshold w) = reloaded threshold w"
  by (simp add: reloaded_def o_def)

lemma reloaded_frame: "map step_frame (wk_steps (reloaded threshold w)) = map step_frame (wk_steps w)"
  by (simp add: reloaded_def o_def)

lemma reloaded_lossless: "lossless threshold w \<Longrightarrow> reloaded threshold w = w"
proof -
  assume l: "lossless threshold w"
  then have "map as_saved (wk_steps w) = wk_steps w"
    by (intro map_idI) (auto simp: lossless_def as_saved_def)
  with l show ?thesis by (simp add: lossless_def reloaded_def)
qed

text \<open>C29. A workflow that was saved is read back: with the steps, parameters, secret names, outputs and the class it had,
  in a form in which only the consent flags and the card texts of the short forms, the frames, and the locators beyond
  the threshold are missing; reading and saving that once more changes nothing. What the catalog shows an
  agent is the same before and after. Every other workflow of the directory reads as before, and without force a
  workflow of the same name is never overwritten.
\<close>

theorem saved_workflow_reads_back:
  assumes "workflow_ok w" and "save_workflow threshold force io w d = (Ok (), d')"
  shows "load_workflow (wk_name w) d' = Ok (Ok (reloaded threshold w)) \<and>
    workflow_ok (reloaded threshold w) \<and> reloaded threshold (reloaded threshold w) = reloaded threshold w \<and>
    map step_frame (wk_steps (reloaded threshold w)) = map step_frame (wk_steps w) \<and>
    (lossless threshold w \<longrightarrow> reloaded threshold w = w) \<and>
    project_catalog_entry h (reloaded threshold w) = project_catalog_entry h w \<and>
    (\<forall>name. name \<noteq> wk_name w \<longrightarrow> load_workflow name d' = load_workflow name d) \<and>
    (force \<or> \<not> workflow_exists (wk_name w) d)"
proof (intro conjI)
  have "wd_docs d' = map_set (wk_name w) (fst (emit_workflow threshold w)) (wd_docs d)"
    using saved_document(2)[OF assms(2)] by simp
  then show "load_workflow (wk_name w) d' = Ok (Ok (reloaded threshold w))"
    and "\<forall>name. name \<noteq> wk_name w \<longrightarrow> load_workflow name d' = load_workflow name d"
    by (simp_all add: load_workflow_def parse_emitted[OF assms(1)])
  show "force \<or> \<not> workflow_exists (wk_name w) d" using saved_document(3)[OF assms(2)] by auto
qed (use assms(1) in \<open>simp_all add: reloaded_ok reloaded_twice reloaded_frame reloaded_lossless reloaded_catalog\<close>)

lemma saved_workflow_reads_back_witness:
  "\<exists>d'. save_workflow 50 False Save_done sample_workflow \<lparr>wd_docs = [], wd_sidecars = []\<rparr> = (Ok (), d') \<and>
     load_workflow ''w'' d' = Ok (Ok (reloaded 50 sample_workflow))"
proof -
  have ok: "workflow_ok sample_workflow"
    by (simp add: sample_workflow_def workflow_ok_def step_ok_def wf_verb_def CONFIRMABLE_WORKFLOW_VERBS_def)
  obtain d' where d': "save_workflow 50 False Save_done sample_workflow \<lparr>wd_docs = [], wd_sidecars = []\<rparr> = (Ok (), d')"
    by (simp add: save_workflow_def workflow_exists_def map_has_def emit_workflow_def sample_workflow_def Let_def)
  show ?thesis using saved_workflow_reads_back[OF ok d'] d' by (auto simp: sample_workflow_def)
qed

section \<open>What is lost\<close>

text \<open>The workflow of the sample asks for consent before its click; the one read back does not.\<close>

lemma saving_drops_consent:
  "workflow_ok sample_workflow \<and> ''pay'' \<in> flagged_in_file sample_workflow \<and>
   flagged_in_file (reloaded 50 sample_workflow) = {}"
proof -
  have "\<not> wf_confirm s" if "s \<in> set (wk_steps (reloaded 50 sample_workflow))" for s
    using that by (auto simp: sample_workflow_def reloaded_def as_saved_def saved_short_def)
  then have "flagged_in_file (reloaded 50 sample_workflow) = {}" by (auto simp: flagged_in_file_def)
  moreover have "''pay'' \<in> flagged_in_file sample_workflow"
    unfolding flagged_in_file_def by (rule CollectI, rule exI [of _ 1]) (simp add: sample_workflow_def step_id_def)
  ultimately show ?thesis
    by (simp add: sample_workflow_def workflow_ok_def step_ok_def wf_verb_def CONFIRMABLE_WORKFLOW_VERBS_def)
qed

text \<open>Locators that went to the file beside the workflow never come back.\<close>

lemma sidecar_is_never_read:
  "threshold < length (wk_locators w) \<Longrightarrow> snd (emit_workflow threshold w) = Some (wk_locators w) \<and> wk_locators (reloaded threshold w) = []"
  by (simp add: emit_workflow_def reloaded_def Let_def)

end
