(* ===== verification/WorkflowRun.thy ===== *)
theory WorkflowRun
  imports WorkflowLint WorkflowStore
begin

text \<open>
  Replaying a workflow: \<open>packages/core/src/workflow/replay/\<close>: parameters (\<open>params-resolver.ts\<close>), the checks before a run
  (\<open>preflight.ts\<close>), outputs (\<open>output-evaluator.ts\<close>), drift of the browser (\<open>chrome-drift.ts\<close>), what a run leaves on disk
  (\<open>manifest-writer.ts\<close>, \<open>run-store.ts\<close>), where a run resumes (\<open>resume.ts\<close>) and the orchestrator over the executor
  (\<open>run-orchestrator.ts\<close>).

  A run directory is a record; its writes succeed. Times are numbers. Of the browser the launch is an argument, as are
  the keychain, the parser of numbers and dates, JSONata, and the Synthesize stage, each a function of what the code gives
  it. Reports are known by the log of steps they show. The parts of a manifest that only agentic runs have, and the event
  a resumption publishes, which only the event file keeps, are left out.
\<close>

section \<open>Definitions\<close>

subsection \<open>Errors and outcomes\<close>

datatype run_status = Run_queued | Run_running | Run_completed | Run_failed | Run_aborted | Run_paused

datatype run_error =
    Rn_workflow_not_found jstext
  | Rn_store store_error
  | Rn_param jstext jstext
  | Rn_missing_params "jstext list"
  | Rn_translation translation_error
  | Rn_secrets_missing "jstext list"
  | Rn_lint jstext nat "jstext list"
  | Rn_ethics jstext jstext
  | Rn_launch jstext
  | Rn_threw jstext
  | Rn_dir_missing jstext
  | Rn_not_resumable jstext run_status jstext

datatype abort_cause = Abort_handoff | Abort_user | Abort_scope | Abort_ethics

datatype replay_outcome =
    Replay_success jstext "(jstext, json) jsmap" "jstext option"
  | Replay_failure jstext failure_class
  | Replay_aborted jstext abort_cause

text \<open>The word for an outcome, which the exit code is read off.\<close>

definition task_outcome_for_replay :: "replay_outcome \<Rightarrow> task_outcome" where
  "task_outcome_for_replay o' = (case o' of
     Replay_success _ _ _ \<Rightarrow> Fulfilled
   | Replay_aborted _ Abort_handoff \<Rightarrow> Handoff
   | Replay_aborted _ Abort_user \<Rightarrow> Aborted
   | Replay_aborted _ _ \<Rightarrow> Failed
   | Replay_failure _ _ \<Rightarrow> Failed)"

definition replay_exit_code :: "replay_outcome \<Rightarrow> nat" where
  "replay_exit_code o' = om_exit_code (TASK_OUTCOME_TABLE (task_outcome_for_replay o'))"

subsection \<open>Parameters\<close>

record value_parsers =
  vp_number :: "jstext \<Rightarrow> json option"
  vp_date :: "jstext \<Rightarrow> json option"

definition stringify_safe :: "json \<Rightarrow> jstext" where
  "stringify_safe v = (case v of
     J_null \<Rightarrow> [] | J_str s \<Rightarrow> s | J_num i \<Rightarrow> show_int i | J_bool b \<Rightarrow> if b then ''true'' else ''false'' | _ \<Rightarrow> json_text v)"

definition coerce_value :: "value_parsers \<Rightarrow> jstext \<Rightarrow> jstext \<Rightarrow> param_type \<Rightarrow> run_error + json" where
  "coerce_value ps key raw t = (case t of
     Param_string \<Rightarrow> Ok (J_str raw)
   | Param_number \<Rightarrow> (case vp_number ps raw of Some n \<Rightarrow> Ok n | None \<Rightarrow> Err (Rn_param key
       (''Expected a number but got '' @ quoted raw @ ''. Provide a numeric value (e.g., 42 or 3.14).'')))
   | Param_boolean \<Rightarrow>
       if raw = ''true'' then Ok (J_bool True) else if raw = ''false'' then Ok (J_bool False)
       else Err (Rn_param key (''Expected a boolean but got '' @ quoted raw @ ''. Use '' @ quoted ''true'' @ '' or '' @ quoted ''false'' @ ''.''))
   | Param_date \<Rightarrow> (case vp_date ps raw of Some d \<Rightarrow> Ok d | None \<Rightarrow> Err (Rn_param key
       (''Expected an ISO-8601 date but got '' @ quoted raw @ ''. Example: '' @ quoted ''2026-04-01'' @ ''.''))))"

definition credential_param :: "jstext \<Rightarrow> run_error" where
  "credential_param key = Rn_param key (''The value for param '' @ quoted key @ '' looks like a secret or credential. '' @
     ''Params are not secrets '' @ [em_dash] @ '' declare a `secrets:` entry and reference it via {{ secret:namespace.key }} instead.'')"

fun resolve_declared ::
  "value_parsers \<Rightarrow> (jstext, json) jsmap \<Rightarrow> (jstext \<times> param_decl) list \<Rightarrow> (jstext, json) jsmap \<Rightarrow> run_error + (jstext, json) jsmap" where
  "resolve_declared ps merged [] result = Ok result"
| "resolve_declared ps merged ((key, decl) # rest) result = (case map_get merged key of
     None \<Rightarrow> resolve_declared ps merged rest result
   | Some raw \<Rightarrow> if raw = J_null then resolve_declared ps merged rest result
     else if CREDENTIAL_PATTERNS (stringify_safe raw) then Err (credential_param key)
     else (case coerce_value ps key (stringify_safe raw) (pd_type decl) of
         Inl e \<Rightarrow> Err e | Inr v \<Rightarrow> resolve_declared ps merged rest (map_set key v result)))"

fun pass_extra ::
  "(jstext, param_decl) jsmap \<Rightarrow> (jstext \<times> json) list \<Rightarrow> (jstext, json) jsmap \<Rightarrow> run_error + (jstext, json) jsmap" where
  "pass_extra declared [] result = Ok result"
| "pass_extra declared ((key, v) # rest) result =
     (if map_has declared key then pass_extra declared rest result
      else if CREDENTIAL_PATTERNS (stringify_safe v) then Err (credential_param key)
      else pass_extra declared rest (map_set key (J_str (stringify_safe v)) result))"

text \<open>The parameters of a file, if one is given, with those of the command line over them.\<close>

definition merge_params :: "(jstext, json) jsmap \<Rightarrow> (jstext \<times> jstext) list \<Rightarrow> (jstext, json) jsmap" where
  "merge_params file cli = fold (\<lambda>(k, v) m. map_set k (J_str v) m) cli file"

definition missing_params :: "(jstext, param_decl) jsmap \<Rightarrow> (jstext, json) jsmap \<Rightarrow> jstext list" where
  "missing_params declared result = map fst (filter (\<lambda>(k, d). pd_required d \<and> \<not> map_has result k) declared)"

definition resolve_params ::
  "value_parsers \<Rightarrow> jstext + (jstext, json) jsmap \<Rightarrow> (jstext \<times> jstext) list \<Rightarrow> (jstext, param_decl) jsmap \<Rightarrow>
   run_error + (jstext, json) jsmap" where
  "resolve_params ps file cli declared = (case file of
     Inl m \<Rightarrow> Err (Rn_param ''<file>'' m)
   | Inr base \<Rightarrow> (let merged = merge_params base cli in
     (case resolve_declared ps merged declared [] of
        Inl e \<Rightarrow> Err e
      | Inr r1 \<Rightarrow> (case pass_extra declared merged r1 of
        Inl e \<Rightarrow> Err e
      | Inr r2 \<Rightarrow> if missing_params declared r2 = [] then Ok r2 else Err (Rn_missing_params (missing_params declared r2))))))"

subsection \<open>Checks before a run\<close>

definition preflight_secrets :: "(jstext \<Rightarrow> bool) \<Rightarrow> jstext list \<Rightarrow> run_error + unit" where
  "preflight_secrets keychain keys = (let missing = filter (\<lambda>k. \<not> keychain k) keys in
     if missing = [] then Ok () else Err (Rn_secrets_missing (sort missing)))"

definition preflight_workflow :: "lint_env \<Rightarrow> workflow_file \<Rightarrow> run_error + unit" where
  "preflight_workflow env w = (let es = lr_errors (lint env False w) in
     if es = [] then Ok () else Err (Rn_lint (wk_name w) (length es)
       (map (\<lambda>e. lf_code e @ '' at '' @ lf_path e @ '': '' @ lf_message e) es)))"

text \<open>Every literal URL a step navigates to is put to the ethics gate; any exception of it refuses.\<close>

fun preflight_ethics :: "'w exec_env \<Rightarrow> plan_step list \<Rightarrow> 'w \<Rightarrow> (run_error + unit) \<times> 'w" where
  "preflight_ethics env [] w = (Ok (), w)"
| "preflight_ethics env (s # ss) w = (case st_body s of
     Navigate_step _ (Literal_value (J_str url)) \<Rightarrow> (case xe_ethics env url w of
         (Ethics_passed, w') \<Rightarrow> preflight_ethics env ss w'
       | (_, w') \<Rightarrow> (Err (Rn_ethics (st_id s) (case xe_url_hostname env url of Some h \<Rightarrow> h | None \<Rightarrow> url)), w'))
   | _ \<Rightarrow> preflight_ethics env ss w)"

subsection \<open>Outputs\<close>

definition MAX_RESULT_BYTES :: nat where
  "MAX_RESULT_BYTES = 102400"

definition output_high_entropy :: "jstext \<Rightarrow> bool" where
  "output_high_entropy s \<longleftrightarrow> 24 \<le> length s \<and> 12 \<le> length (remdups s) \<and>
     3 \<le> length (filter (\<lambda>P. list_ex P s) [is_upper, is_lower, is_digit])"

definition REDACTED :: jstext where
  "REDACTED = ''<redacted:secret-shape>''"

definition redact_string :: "jstext \<Rightarrow> jstext" where
  "redact_string s = (if CREDENTIAL_PATTERNS s \<or> output_high_entropy s then REDACTED else s)"

fun redact_value :: "json \<Rightarrow> json"
and redact_values :: "json list \<Rightarrow> json list"
and redact_members :: "(jstext \<times> json) list \<Rightarrow> (jstext \<times> json) list" where
  "redact_value (J_str s) = J_str (redact_string s)"
| "redact_value (J_arr vs) = J_arr (redact_values vs)"
| "redact_value (J_obj ms) = J_obj (redact_members ms)"
| "redact_value J_null = J_null"
| "redact_value (J_bool b) = J_bool b"
| "redact_value (J_num i) = J_num i"
| "redact_values [] = []"
| "redact_values (v # vs) = redact_value v # redact_values vs"
| "redact_members [] = []"
| "redact_members ((k, v) # ms) = (k, redact_value v) # redact_members ms"

definition redact_outputs_for_disk :: "(jstext, json) jsmap \<Rightarrow> (jstext, json) jsmap" where
  "redact_outputs_for_disk m = map (\<lambda>(k, v). (k, redact_value v)) m"

text \<open>A JSONata run: a message for what it throws or when it times out, nothing for \<open>undefined\<close>, or a value.\<close>

type_synonym jsonata_run = "jstext \<Rightarrow> (jstext, json) jsmap \<Rightarrow> (jstext, json) jsmap \<Rightarrow> jstext + json option"

definition eval_expression :: "jsonata_run \<Rightarrow> jstext \<Rightarrow> (jstext, json) jsmap \<Rightarrow> (jstext, json) jsmap \<Rightarrow> jstext + json option" where
  "eval_expression run e captures params = (case run e captures params of
     Inl m \<Rightarrow> Err m
   | Inr None \<Rightarrow> Ok None
   | Inr (Some v) \<Rightarrow> (let n = utf8_length (json_text v) in
       if MAX_RESULT_BYTES < n then Err (''Result size ('' @ show_nat n @ '' bytes) exceeds the '' @ show_nat MAX_RESULT_BYTES @ ''-byte cap.'')
       else Ok (Some v)))"

record evaluated_outputs =
  eo_persisted :: "(jstext, json) jsmap"
  eo_transient :: "(jstext, json) jsmap"
  eo_errors :: "(jstext \<times> jstext) list"

definition evaluate_binding ::
  "jsonata_run \<Rightarrow> (jstext, json) jsmap \<Rightarrow> (jstext, json) jsmap \<Rightarrow> wf_binding \<Rightarrow> evaluated_outputs \<Rightarrow> evaluated_outputs" where
  "evaluate_binding run captures params b e = (case eval_expression run (wb_expression b) captures params of
     Inl m \<Rightarrow> e\<lparr>eo_errors := eo_errors e @ [(wb_name b, m)]\<rparr>
   | Inr None \<Rightarrow> e
   | Inr (Some v) \<Rightarrow> if wb_retention b = Retain_persisted then e\<lparr>eo_persisted := map_set (wb_name b) v (eo_persisted e)\<rparr>
     else e\<lparr>eo_transient := map_set (wb_name b) v (eo_transient e)\<rparr>)"

definition evaluate_outputs ::
  "jsonata_run \<Rightarrow> wf_binding list \<Rightarrow> (jstext, json) jsmap \<Rightarrow> (jstext, json) jsmap \<Rightarrow> evaluated_outputs" where
  "evaluate_outputs run bs captures params =
     fold (evaluate_binding run captures params) bs \<lparr>eo_persisted = [], eo_transient = [], eo_errors = []\<rparr>"

subsection \<open>What a run leaves on disk\<close>

datatype profile_kind = Kind_workflow | Kind_ephemeral | Kind_explicit

record run_manifest =
  rm_run :: jstext
  rm_task :: jstext
  rm_workflow :: jstext
  rm_params :: "(jstext, json) jsmap"
  rm_started :: nat
  rm_ended :: "nat option"
  rm_status :: run_status
  rm_duration :: "int option"
  rm_failure :: "failure_class option"
  rm_profile :: profile_kind
  rm_profile_path :: "jstext option"
  rm_outputs :: "jstext list"
  rm_drift :: "(nat \<times> nat) option"
  rm_brief :: "jstext option"

record step_log_entry =
  sl_id :: jstext
  sl_type :: step_verb

record run_dir =
  rd_manifest :: "run_manifest option"
  rd_plan :: "plan option"
  rd_checkpoints :: checkpoint_dir
  rd_outputs :: "(jstext, json) jsmap option"
  rd_report :: "step_log_entry list option"
  rd_lock :: bool

type_synonym run_root = "(jstext, run_dir) jsmap"

definition format_run_id :: "jstext \<Rightarrow> jstext \<Rightarrow> jstext \<Rightarrow> jstext" where
  "format_run_id stamp name short = stamp @ ''-'' @
     take 32 (map (\<lambda>c. if is_lower c \<or> is_digit c \<or> c = CHR ''-'' then c else CHR ''-'') name) @ ''-'' @ short"

definition no_run_dir :: run_dir where
  "no_run_dir = \<lparr>rd_manifest = None, rd_plan = None, rd_checkpoints = [], rd_outputs = None, rd_report = None, rd_lock = False\<rparr>"

definition run_dir_at :: "jstext \<Rightarrow> run_root \<Rightarrow> run_dir" where
  "run_dir_at i rs = (case map_get rs i of Some d \<Rightarrow> d | None \<Rightarrow> no_run_dir)"

definition change_dir :: "jstext \<Rightarrow> (run_dir \<Rightarrow> run_dir) \<Rightarrow> run_root \<Rightarrow> run_root" where
  "change_dir i f rs = map_set i (f (run_dir_at i rs)) rs"

definition create_run :: "jstext \<Rightarrow> run_root \<Rightarrow> run_root" where
  "create_run i = change_dir i (\<lambda>d. d\<lparr>rd_lock := True\<rparr>)"

definition write_manifest :: "jstext \<Rightarrow> run_manifest \<Rightarrow> run_root \<Rightarrow> run_root" where
  "write_manifest i m = change_dir i (\<lambda>d. d\<lparr>rd_manifest := Some m\<rparr>)"

definition write_outputs :: "jstext \<Rightarrow> (jstext, json) jsmap \<Rightarrow> run_root \<Rightarrow> run_root" where
  "write_outputs i m = change_dir i (\<lambda>d. d\<lparr>rd_outputs := Some m\<rparr>)"

definition release_lock :: "jstext \<Rightarrow> run_root \<Rightarrow> run_root" where
  "release_lock i = change_dir i (\<lambda>d. d\<lparr>rd_lock := False\<rparr>)"

definition get_run :: "jstext \<Rightarrow> run_root \<Rightarrow> run_manifest option" where
  "get_run i rs = Option.bind (map_get rs i) rd_manifest"

record status_patch =
  sp_status :: run_status
  sp_ended :: "nat option"
  sp_failure :: "failure_class option"

definition keep_if_absent :: "'a option \<Rightarrow> 'a option \<Rightarrow> 'a option" where
  "keep_if_absent new old = (case new of Some x \<Rightarrow> Some x | None \<Rightarrow> old)"

definition update_run_status :: "jstext \<Rightarrow> status_patch \<Rightarrow> run_root \<Rightarrow> run_error + run_root" where
  "update_run_status i p rs = (case get_run i rs of
     None \<Rightarrow> Err (Rn_dir_missing i)
   | Some m \<Rightarrow> Ok (write_manifest i (m\<lparr>rm_status := sp_status p, rm_ended := keep_if_absent (sp_ended p) (rm_ended m),
       rm_failure := keep_if_absent (sp_failure p) (rm_failure m),
       rm_duration := (case sp_ended p of Some t \<Rightarrow> Some (int t - int (rm_started m)) | None \<Rightarrow> rm_duration m)\<rparr>) rs))"

record run_filter =
  rf_workflow :: "jstext option"
  rf_status :: "run_status option"
  rf_limit :: "nat option"

definition list_runs :: "run_filter \<Rightarrow> run_root \<Rightarrow> run_manifest list" where
  "list_runs f rs = take (case rf_limit f of Some n \<Rightarrow> n | None \<Rightarrow> 50)
     (filter (\<lambda>m. (case rf_workflow f of Some w \<Rightarrow> rm_workflow m = w | None \<Rightarrow> True) \<and>
                  (case rf_status f of Some s \<Rightarrow> rm_status m = s | None \<Rightarrow> True))
       (sort_key (\<lambda>m. - int (rm_started m)) (List.map_filter (\<lambda>(i, d). rd_manifest d) rs)))"

text \<open>A parameter whose name is a secret's is not written.\<close>

definition redact_params_for_manifest :: "(jstext, json) jsmap \<Rightarrow> jstext list \<Rightarrow> (jstext, json) jsmap" where
  "redact_params_for_manifest params secrets = map (\<lambda>(k, v). (k, if k \<in> set secrets
     then J_obj [(''kind'', J_str ''secret''), (''key'', J_str k)] else v)) params"

definition DRIFT_THRESHOLD :: nat where
  "DRIFT_THRESHOLD = 2"

definition check_chrome_drift :: "nat \<Rightarrow> workflow_file \<Rightarrow> run_manifest \<Rightarrow> run_manifest" where
  "check_chrome_drift major w m = (case wk_recorded w of
     None \<Rightarrow> m
   | Some r \<Rightarrow> if nat \<bar>int major - int (rw_chrome r)\<bar> \<le> DRIFT_THRESHOLD then m else m\<lparr>rm_drift := Some (rw_chrome r, major)\<rparr>)"

subsection \<open>Where a run resumes\<close>

record resume_point =
  rp_workflow :: jstext
  rp_plan :: plan
  rp_next :: nat
  rp_checkpoint :: "run_checkpoint option"
  rp_manifest :: run_manifest

definition RESUMABLE_STATUSES :: "run_status set" where
  "RESUMABLE_STATUSES = {Run_failed, Run_paused}"

definition next_step_index :: "plan \<Rightarrow> run_checkpoint option \<Rightarrow> nat" where
  "next_step_index p cp = (case cp of None \<Rightarrow> 0
   | Some c \<Rightarrow> (case plan_index p (cp_step c) of None \<Rightarrow> 0 | Some i \<Rightarrow> i + 1))"

definition status_word :: "run_status \<Rightarrow> jstext" where
  "status_word s = (case s of Run_queued \<Rightarrow> ''queued'' | Run_running \<Rightarrow> ''running'' | Run_completed \<Rightarrow> ''completed''
   | Run_failed \<Rightarrow> ''failed'' | Run_aborted \<Rightarrow> ''aborted'' | Run_paused \<Rightarrow> ''paused'')"

definition load_resume_point :: "jstext \<Rightarrow> run_root \<Rightarrow> run_error + resume_point" where
  "load_resume_point i rs = (case get_run i rs of
     None \<Rightarrow> Err (Rn_dir_missing i)
   | Some m \<Rightarrow> if rm_status m \<notin> RESUMABLE_STATUSES then Err (Rn_not_resumable i (rm_status m) ''status'')
     else if rm_profile m = Kind_ephemeral then Err (Rn_not_resumable i (rm_status m) ''ephemeral profile'')
     else (case rd_plan (run_dir_at i rs) of
         None \<Rightarrow> Err (Rn_not_resumable i (rm_status m) ''plan.json'')
       | Some p \<Rightarrow> (let cp = load_last_checkpoint (rd_checkpoints (run_dir_at i rs)) in
           Ok \<lparr>rp_workflow = rm_workflow m, rp_plan = p, rp_next = next_step_index p cp, rp_checkpoint = cp, rp_manifest = m\<rparr>)))"

definition requires_user_consent :: "failure_class option \<Rightarrow> bool" where
  "requires_user_consent f \<longleftrightarrow> f \<in> {Some Scope_violated, Some Ethics_refused}"

subsection \<open>The orchestrator\<close>

datatype launch_profile = Launch_spec profile_spec | Launch_explicit jstext

text \<open>A launch answers the major version of the browser and the path of the profile, or throws.\<close>

record 'w run_opts =
  ro_exec :: "'w exec_env"
  ro_fuel :: nat
  ro_parsers :: value_parsers
  ro_keychain :: "jstext \<Rightarrow> bool"
  ro_lint :: lint_env
  ro_jsonata :: jsonata_run
  ro_launch :: "launch_profile \<Rightarrow> 'w \<Rightarrow> (jstext + nat \<times> jstext) \<times> 'w"
  ro_synthesis :: "(synthesis_spec \<Rightarrow> 'w \<Rightarrow> (jstext option \<times> jstext option) \<times> 'w) option"

record run_request =
  rq_workflow :: jstext
  rq_params :: "(jstext \<times> jstext) list"
  rq_file :: "jstext + (jstext, json) jsmap"

text \<open>The fresh names and the times of one run.\<close>

record run_stamp =
  rt_run :: jstext
  rt_task :: jstext
  rt_plan :: jstext
  rt_start :: nat
  rt_end :: nat

record 'w replay_state =
  rw_runs :: run_root
  rw_world :: 'w

text \<open>Before anything is written: the workflow, its parameters, its plan and the checks.\<close>

definition prepare_run ::
  "'w run_opts \<Rightarrow> run_stamp \<Rightarrow> workflow_dir \<Rightarrow> run_request \<Rightarrow>
   run_error + workflow_file \<times> (jstext, json) jsmap \<times> translated_workflow" where
  "prepare_run opts st dir req = (case load_workflow (rq_workflow req) dir of
     Inl e \<Rightarrow> Err (Rn_store e)
   | Inr (Inl _) \<Rightarrow> Err (Rn_workflow_not_found (rq_workflow req))
   | Inr (Inr w) \<Rightarrow> (case resolve_params (ro_parsers opts) (rq_file req) (rq_params req) (wk_params w) of
     Inl e \<Rightarrow> Err e
   | Inr params \<Rightarrow> (case translate (xe_valid_regex (ro_exec opts)) (rt_task st) (rt_plan st) w of
     Inl e \<Rightarrow> Err (Rn_translation e)
   | Inr t \<Rightarrow> (case preflight_secrets (ro_keychain opts) (tw_secrets t) of
     Inl e \<Rightarrow> Err e
   | Inr _ \<Rightarrow> (case preflight_workflow (ro_lint opts) w of
     Inl e \<Rightarrow> Err e
   | Inr _ \<Rightarrow> Ok (w, params, t))))))"

definition profile_kind_of :: "profile_spec \<Rightarrow> profile_kind" where
  "profile_kind_of p = (case p of Profile_workflow _ \<Rightarrow> Kind_workflow | Profile_ephemeral \<Rightarrow> Kind_ephemeral)"

definition initial_manifest ::
  "run_stamp \<Rightarrow> workflow_file \<Rightarrow> (jstext, json) jsmap \<Rightarrow> translated_workflow \<Rightarrow> run_manifest" where
  "initial_manifest st w params t = \<lparr>rm_run = rt_run st, rm_task = pl_task (tw_plan t), rm_workflow = wk_name w,
     rm_params = redact_params_for_manifest params (tw_secrets t), rm_started = rt_start st, rm_ended = None,
     rm_status = Run_running, rm_duration = None, rm_failure = None, rm_profile = profile_kind_of (tw_profile t),
     rm_profile_path = None, rm_outputs = map wb_name (tw_outputs t), rm_drift = None, rm_brief = None\<rparr>"

definition begin_run :: "run_stamp \<Rightarrow> run_manifest \<Rightarrow> plan \<Rightarrow> run_root \<Rightarrow> run_root" where
  "begin_run st m p rs = change_dir (rt_run st) (\<lambda>d. d\<lparr>rd_plan := Some p\<rparr>) (write_manifest (rt_run st) m (create_run (rt_run st) rs))"

definition map_executor_outcome :: "plan_outcome \<Rightarrow> jstext \<Rightarrow> (jstext, json) jsmap \<Rightarrow> run_error + replay_outcome" where
  "map_executor_outcome o' i outputs = (case o' of
     Plan_completed _ \<Rightarrow> Ok (Replay_success i outputs None)
   | Plan_handoff \<Rightarrow> Ok (Replay_aborted i Abort_handoff)
   | Plan_failed f \<Rightarrow> Ok (Replay_failure i f)
   | Plan_threw m \<Rightarrow> Err (Rn_threw m))"

text \<open>The checkpoints an execution saved.\<close>

definition saved_checkpoints :: "exec_action list \<Rightarrow> checkpoint_dir \<Rightarrow> checkpoint_dir" where
  "saved_checkpoints l d = fold (\<lambda>a d. case a of Saved cp \<Rightarrow> save_checkpoint cp d | _ \<Rightarrow> d) l d"

definition build_step_log :: "plan \<Rightarrow> nat \<Rightarrow> step_log_entry list" where
  "build_step_log p i = map (\<lambda>s. \<lparr>sl_id = st_id s, sl_type = st_verb s\<rparr>) (take i (pl_steps p))"

definition maybe_synthesize ::
  "'w run_opts \<Rightarrow> synthesis_spec option \<Rightarrow> bool \<Rightarrow> 'w \<Rightarrow> (jstext option \<times> jstext option) \<times> 'w" where
  "maybe_synthesize opts spec completed w = (case (spec, ro_synthesis opts, completed) of
     (Some sp, Some stage, True) \<Rightarrow> stage sp w | _ \<Rightarrow> ((None, None), w))"

definition replay_succeeded :: "replay_outcome \<Rightarrow> bool" where
  "replay_succeeded o' \<longleftrightarrow> (case o' of Replay_success _ _ _ \<Rightarrow> True | _ \<Rightarrow> False)"

definition with_brief :: "jstext option \<Rightarrow> replay_outcome \<Rightarrow> replay_outcome" where
  "with_brief b o' = (case (o', b) of (Replay_success i m _, Some p) \<Rightarrow> Replay_success i m (Some p) | _ \<Rightarrow> o')"

definition settle_manifest :: "nat \<Rightarrow> replay_outcome \<Rightarrow> run_manifest \<Rightarrow> run_manifest" where
  "settle_manifest now o' m = m\<lparr>rm_status := (if replay_succeeded o' then Run_completed else Run_failed), rm_ended := Some now,
     rm_duration := Some (int now - int (rm_started m)),
     rm_failure := (case o' of Replay_failure _ f \<Rightarrow> Some f | _ \<Rightarrow> rm_failure m)\<rparr>"

text \<open>One execution on a fresh context: what it throws before it starts, or its end; None when the fuel does not suffice.\<close>

definition execute_plan ::
  "'w run_opts \<Rightarrow> jstext \<Rightarrow> plan \<Rightarrow> (jstext, json) jsmap \<Rightarrow> (jstext \<Rightarrow> engine_chain option) option \<Rightarrow> run_checkpoint option \<Rightarrow> 'w \<Rightarrow>
   (run_error + plan_outcome \<times> 'w exec_ctx) option" where
  "execute_plan opts i p params locators cp w =
     (let env = (ro_exec opts)\<lparr>xe_plan := p, xe_run := i, xe_scopes := build_scope_chain p, xe_params := params,
                  xe_locators := locators\<rparr> in
      case create_context p None None None False False (Some (new_ledger MAX_EVIDENCE_ENTRIES MAX_EVIDENCE_TEXT_BYTES)) w of
        Inl m \<Rightarrow> Some (Err (Rn_threw m))
      | Inr c \<Rightarrow> map_option Ok (start_or_resume (ro_fuel opts) env cp c))"

definition keep_checkpoints :: "jstext \<Rightarrow> exec_action list \<Rightarrow> run_root \<Rightarrow> run_root" where
  "keep_checkpoints i l = change_dir i (\<lambda>d. d\<lparr>rd_checkpoints := saved_checkpoints l (rd_checkpoints d)\<rparr>)"

text \<open>After the execution of a new run: outputs, the Synthesize stage, the manifest and the report.\<close>

definition settle_run ::
  "'w run_opts \<Rightarrow> run_stamp \<Rightarrow> translated_workflow \<Rightarrow> (jstext, json) jsmap \<Rightarrow> run_manifest \<Rightarrow> plan_outcome \<Rightarrow> 'w exec_ctx \<Rightarrow>
   run_root \<Rightarrow> (run_error + replay_outcome) \<times> 'w replay_state" where
  "settle_run opts st t params m o' c rs =
     (let i = rt_run st;
          eo = evaluate_outputs (ro_jsonata opts) (tw_outputs t) (xc_captures c) params in
      case map_executor_outcome o' i (eo_persisted eo) of
        Inl e \<Rightarrow> (Err e, \<lparr>rw_runs = release_lock i rs, rw_world = xc_world c\<rparr>)
      | Inr base \<Rightarrow> (case maybe_synthesize opts (tw_synthesis t) (replay_succeeded base) (xc_world c) of
          ((brief, note_path), w) \<Rightarrow>
            (let m' = settle_manifest (rt_end st) base (if note_path = None then m else m\<lparr>rm_brief := note_path\<rparr>) in
             (Ok (with_brief brief base),
              \<lparr>rw_runs = release_lock i (change_dir i (\<lambda>d. d\<lparr>rd_report := Some (build_step_log (tw_plan t) (xc_idx c))\<rparr>)
                 (write_manifest i m' (write_outputs i (redact_outputs_for_disk (eo_persisted eo)) rs))), rw_world = w\<rparr>))))"

definition run_workflow ::
  "'w run_opts \<Rightarrow> run_stamp \<Rightarrow> workflow_dir \<Rightarrow> run_request \<Rightarrow> 'w replay_state \<Rightarrow> ((run_error + replay_outcome) \<times> 'w replay_state) option" where
  "run_workflow opts st dir req s = (case prepare_run opts st dir req of
     Inl e \<Rightarrow> Some (Err e, s)
   | Inr (w, params, t) \<Rightarrow>
       (let i = rt_run st; m0 = initial_manifest st w params t; rs0 = begin_run st m0 (tw_plan t) (rw_runs s) in
        case ro_launch opts (Launch_spec (tw_profile t)) (rw_world s) of
          (Inl e, w1) \<Rightarrow> Some (Err (Rn_launch e), \<lparr>rw_runs = rs0, rw_world = w1\<rparr>)
        | (Inr (major, path), w1) \<Rightarrow>
            (let m1 = check_chrome_drift major w (if rm_profile m0 = Kind_workflow then m0\<lparr>rm_profile_path := Some path\<rparr> else m0);
                 rs1 = write_manifest i m1 rs0 in
             case preflight_ethics (ro_exec opts) (pl_steps (tw_plan t)) w1 of
               (Inl e, w2) \<Rightarrow> Some (Err e, \<lparr>rw_runs = release_lock i rs1, rw_world = w2\<rparr>)
             | (Inr _, w2) \<Rightarrow> (case execute_plan opts i (tw_plan t) params (Some (map_get (tw_locators t))) None w2 of
                 None \<Rightarrow> None
               | Some (Inl e) \<Rightarrow> Some (Err e, \<lparr>rw_runs = release_lock i rs1, rw_world = w2\<rparr>)
               | Some (Inr (o', c)) \<Rightarrow> Some (settle_run opts st t params m1 o' c (keep_checkpoints i (xc_log c) rs1))))))"

text \<open>The bindings of the workflow as it is now; a file that no longer parses has none, one that does not load or translate throws.\<close>

definition reload_bindings :: "'w run_opts \<Rightarrow> run_stamp \<Rightarrow> workflow_dir \<Rightarrow> jstext \<Rightarrow> run_error + wf_binding list" where
  "reload_bindings opts st dir name = (case load_workflow name dir of
     Inl e \<Rightarrow> Err (Rn_store e)
   | Inr (Inl _) \<Rightarrow> Ok []
   | Inr (Inr w) \<Rightarrow> (case translate (xe_valid_regex (ro_exec opts)) (rt_task st) (rt_plan st) w of
       Inl e \<Rightarrow> Err (Rn_translation e) | Inr t \<Rightarrow> Ok (tw_outputs t)))"

definition settle_resumed ::
  "'w run_opts \<Rightarrow> run_stamp \<Rightarrow> workflow_dir \<Rightarrow> jstext \<Rightarrow> run_manifest \<Rightarrow> plan_outcome \<Rightarrow> 'w exec_ctx \<Rightarrow> run_root \<Rightarrow>
   (run_error + replay_outcome) \<times> 'w replay_state" where
  "settle_resumed opts st dir i m o' c rs = (let thrown = (\<lambda>e. (Err e, \<lparr>rw_runs = release_lock i rs, rw_world = xc_world c\<rparr>)) in
     case o' of Plan_threw e \<Rightarrow> thrown (Rn_threw e)
     | _ \<Rightarrow> (case reload_bindings opts st dir (rm_workflow m) of
         Inl e \<Rightarrow> thrown e
       | Inr bs \<Rightarrow> (let eo = evaluate_outputs (ro_jsonata opts) bs (xc_captures c) (rm_params m) in
           case map_executor_outcome o' i (eo_persisted eo) of
             Inl e \<Rightarrow> thrown e
           | Inr out \<Rightarrow> (Ok out, \<lparr>rw_runs = release_lock i (write_manifest i (settle_manifest (rt_end st) out m)
               (write_outputs i (redact_outputs_for_disk (eo_persisted eo)) rs)), rw_world = xc_world c\<rparr>))))"

definition resume_profile :: "run_manifest \<Rightarrow> launch_profile" where
  "resume_profile m = (case (rm_profile m, rm_profile_path m) of
     (Kind_workflow, Some path) \<Rightarrow> Launch_explicit path | _ \<Rightarrow> Launch_spec Profile_ephemeral)"

definition resume_run ::
  "'w run_opts \<Rightarrow> run_stamp \<Rightarrow> workflow_dir \<Rightarrow> jstext \<Rightarrow> 'w replay_state \<Rightarrow> ((run_error + replay_outcome) \<times> 'w replay_state) option" where
  "resume_run opts st dir i s = (case load_resume_point i (rw_runs s) of
     Inl e \<Rightarrow> Some (Err e, s)
   | Inr pt \<Rightarrow>
       (let m = (rp_manifest pt)\<lparr>rm_status := Run_running\<rparr>; rs0 = write_manifest i m (rw_runs s) in
        case ro_launch opts (resume_profile m) (rw_world s) of
          (Inl e, w1) \<Rightarrow> Some (Err (Rn_launch e), \<lparr>rw_runs = rs0, rw_world = w1\<rparr>)
        | (Inr _, w1) \<Rightarrow> (case execute_plan opts i (rp_plan pt) (rm_params m) None (rp_checkpoint pt) w1 of
            None \<Rightarrow> None
          | Some (Inl e) \<Rightarrow> Some (Err e, \<lparr>rw_runs = release_lock i rs0, rw_world = w1\<rparr>)
          | Some (Inr (o', c)) \<Rightarrow> Some (settle_resumed opts st dir i m o' c (keep_checkpoints i (xc_log c) rs0)))))"

section \<open>Values on disk\<close>

fun json_strings :: "json \<Rightarrow> jstext list"
and list_strings :: "json list \<Rightarrow> jstext list"
and member_strings :: "(jstext \<times> json) list \<Rightarrow> jstext list" where
  "json_strings (J_str s) = [s]"
| "json_strings (J_arr vs) = list_strings vs"
| "json_strings (J_obj ms) = member_strings ms"
| "json_strings J_null = []"
| "json_strings (J_bool b) = []"
| "json_strings (J_num i) = []"
| "list_strings [] = []"
| "list_strings (v # vs) = json_strings v @ list_strings vs"
| "member_strings [] = []"
| "member_strings ((k, v) # ms) = json_strings v @ member_strings ms"

definition presentable :: "jstext \<Rightarrow> bool" where
  "presentable s \<longleftrightarrow> \<not> CREDENTIAL_PATTERNS s \<and> \<not> output_high_entropy s"

definition outputs_clean :: "(jstext, json) jsmap \<Rightarrow> bool" where
  "outputs_clean m \<longleftrightarrow> (\<forall>(k, v) \<in> set m. \<forall>s \<in> set (json_strings v). presentable s)"

lemma REDACTED_presentable: "presentable REDACTED"
  by code_simp

lemma redact_string_presentable: "presentable (redact_string s)"
  using REDACTED_presentable by (auto simp: redact_string_def presentable_def)

lemma redacted_presentable:
  "\<forall>s \<in> set (json_strings (redact_value v)). presentable s"
  "\<forall>s \<in> set (list_strings (redact_values vs)). presentable s"
  "\<forall>s \<in> set (member_strings (redact_members ms)). presentable s"
  by (induction v and vs and ms rule: redact_value_redact_values_redact_members.induct) (auto simp: redact_string_presentable)

lemma redacted_clean: "outputs_clean (redact_outputs_for_disk m)"
  using redacted_presentable(1) by (fastforce simp: outputs_clean_def redact_outputs_for_disk_def)

section \<open>Parameters\<close>

lemma merged_get: "map_get (merge_params base cli) k = (case map_get (rev cli) k of Some v \<Rightarrow> Some (J_str v) | None \<Rightarrow> map_get base k)"
  by (induction cli arbitrary: base) (auto simp: merge_params_def map_of_append map_add_def split: option.splits)

lemma merged_distinct: "distinct (map fst base) \<Longrightarrow> distinct (map fst (merge_params base cli))"
  by (induction cli arbitrary: base) (auto simp: merge_params_def distinct_update)

text \<open>What a parameter is resolved to.\<close>

definition resolved_as :: "value_parsers \<Rightarrow> (jstext, param_decl) jsmap \<Rightarrow> jstext \<Rightarrow> json \<Rightarrow> json \<Rightarrow> bool" where
  "resolved_as ps declared k raw v \<longleftrightarrow> \<not> CREDENTIAL_PATTERNS (stringify_safe raw) \<and>
     (case map_get declared k of
        Some d \<Rightarrow> coerce_value ps k (stringify_safe raw) (pd_type d) = Ok v
      | None \<Rightarrow> v = J_str (stringify_safe raw))"

definition all_resolved :: "value_parsers \<Rightarrow> (jstext, param_decl) jsmap \<Rightarrow> (jstext, json) jsmap \<Rightarrow> (jstext, json) jsmap \<Rightarrow> bool" where
  "all_resolved ps declared merged r \<longleftrightarrow>
     (\<forall>k v. map_get r k = Some v \<longrightarrow> (\<exists>raw. map_get merged k = Some raw \<and> resolved_as ps declared k raw v))"

lemma all_resolved_set:
  "all_resolved ps declared merged r \<Longrightarrow> map_get merged k = Some raw \<Longrightarrow> resolved_as ps declared k raw v \<Longrightarrow>
   all_resolved ps declared merged (map_set k v r)"
  by (simp add: all_resolved_def)

lemma resolve_declared_sound:
  assumes "resolve_declared ps merged ds r0 = Ok r" and "\<forall>(k, d) \<in> set ds. map_get declared k = Some d"
    and "all_resolved ps declared merged r0"
  shows "all_resolved ps declared merged r"
  using assms
proof (induction ds arbitrary: r0)
  case (Cons x ds)
  obtain key decl where x: "x = (key, decl)" by (cases x)
  have rest: "\<forall>(k, d) \<in> set ds. map_get declared k = Some d" "map_get declared key = Some decl" using Cons.prems(2) x by auto
  consider "resolve_declared ps merged ds r0 = Ok r"
    | raw v where "map_get merged key = Some raw" "\<not> CREDENTIAL_PATTERNS (stringify_safe raw)"
      "coerce_value ps key (stringify_safe raw) (pd_type decl) = Ok v" "resolve_declared ps merged ds (map_set key v r0) = Ok r"
    using Cons.prems(1) x by (auto split: option.splits if_splits sum.splits)
  then show ?case
  proof cases
    case 1
    then show ?thesis using Cons.IH rest(1) Cons.prems(3) by blast
  next
    case (2 raw v)
    have "resolved_as ps declared key raw v" using 2(2,3) rest(2) by (simp add: resolved_as_def)
    from Cons.IH [OF 2(4) rest(1) all_resolved_set [OF Cons.prems(3) 2(1) this]] show ?thesis .
  qed
qed simp

lemma pass_extra_sound:
  assumes "pass_extra declared es r0 = Ok r" and "\<forall>(k, v) \<in> set es. map_get merged k = Some v"
    and "all_resolved ps declared merged r0"
  shows "all_resolved ps declared merged r"
  using assms
proof (induction es arbitrary: r0)
  case (Cons x es)
  obtain key v where x: "x = (key, v)" by (cases x)
  have rest: "\<forall>(k, v) \<in> set es. map_get merged k = Some v" "map_get merged key = Some v" using Cons.prems(2) x by auto
  show ?case
  proof (cases "map_has declared key")
    case True
    then show ?thesis using Cons.IH [of r0] Cons.prems x rest(1) by simp
  next
    case False
    then have v: "\<not> CREDENTIAL_PATTERNS (stringify_safe v)" "pass_extra declared es (map_set key (J_str (stringify_safe v)) r0) = Ok r"
      using Cons.prems(1) x by (auto split: if_splits)
    have "resolved_as ps declared key v (J_str (stringify_safe v))"
      using v(1) False by (simp add: resolved_as_def map_has_get)
    from Cons.IH [OF v(2) rest(1) all_resolved_set [OF Cons.prems(3) rest(2) this]] show ?thesis .
  qed
qed simp

lemma resolve_params_sound:
  assumes "resolve_params ps (Ok base) cli declared = Ok r" and "distinct (map fst declared)" and "distinct (map fst base)"
  shows "(\<forall>(k, d) \<in> set declared. pd_required d \<longrightarrow> map_has r k) \<and> all_resolved ps declared (merge_params base cli) r"
proof -
  let ?m = "merge_params base cli"
  obtain r1 where r: "resolve_declared ps ?m declared [] = Ok r1" "pass_extra declared ?m r1 = Ok r" "missing_params declared r = []"
    using assms(1) by (auto simp: resolve_params_def Let_def split: sum.splits if_splits)
  have "\<forall>(k, d) \<in> set declared. map_get declared k = Some d" "\<forall>(k, v) \<in> set ?m. map_get ?m k = Some v"
    using assms(2) merged_distinct [OF assms(3)] by auto
  then have "all_resolved ps declared ?m r"
    using resolve_declared_sound [OF r(1), of declared] pass_extra_sound [OF r(2)] by (simp add: all_resolved_def)
  then show ?thesis using r(3) by (fastforce simp: missing_params_def filter_empty_conv)
qed

section \<open>Before a run\<close>

text \<open>What holds of a run that got past its checks.\<close>

definition run_checked ::
  "'w run_opts \<Rightarrow> run_stamp \<Rightarrow> workflow_dir \<Rightarrow> run_request \<Rightarrow> workflow_file \<Rightarrow> (jstext, json) jsmap \<Rightarrow> translated_workflow \<Rightarrow> bool" where
  "run_checked opts st dir req w params t \<longleftrightarrow> load_workflow (rq_workflow req) dir = Ok (Ok w) \<and>
     resolve_params (ro_parsers opts) (rq_file req) (rq_params req) (wk_params w) = Ok params \<and>
     translate (xe_valid_regex (ro_exec opts)) (rt_task st) (rt_plan st) w = Ok t \<and>
     (\<forall>k \<in> set (tw_secrets t). ro_keychain opts k) \<and> lr_errors (lint (ro_lint opts) False w) = []"

lemma prepare_run_Ok: "prepare_run opts st dir req = Ok (w, params, t) \<longleftrightarrow> run_checked opts st dir req w params t"
  by (auto simp: prepare_run_def run_checked_def preflight_secrets_def preflight_workflow_def Let_def filter_empty_conv
      split: sum.splits if_splits)

lemma checked_plan_secrets:
  assumes "run_checked opts st dir req w params t" and "p \<in> set (pl_steps (tw_plan t))" and "Secret_value k hs \<in> set (body_value_refs (st_body p))"
  shows "ro_keychain opts k"
  using clean_plan_closed [of "ro_lint opts" False w "xe_valid_regex (ro_exec opts)" "rt_task st" "rt_plan st" t p] assms
  by (auto simp: run_checked_def)

lemma preflight_ethics_passes:
  assumes "preflight_ethics env ss w = (Ok (), w')" and "s \<in> set ss" and "st_body s = Navigate_step h (Literal_value (J_str url))"
  shows "\<exists>w1 w2. xe_ethics env url w1 = (Ethics_passed, w2)"
  using assms
proof (induction ss arbitrary: w)
  case (Cons x ss)
  show ?case
  proof (cases "s = x")
    case True
    then obtain w2 where "xe_ethics env url w = (Ethics_passed, w2)"
      using Cons.prems(1,3) by (auto split: prod.splits ethics_verdict.splits)
    then show ?thesis by blast
  next
    case False
    then have "s \<in> set ss" using Cons.prems(2) by simp
    moreover obtain w2 where "preflight_ethics env ss w2 = (Ok (), w')"
      using Cons.prems(1)
      by (cases "st_body x") (auto split: value_ref.splits json.splits prod.splits ethics_verdict.splits)
    ultimately show ?thesis using Cons.IH Cons.prems(3) by blast
  qed
qed simp

section \<open>Run directories\<close>

lemma change_dir_get [simp]: "map_get (change_dir i f rs) j = (if j = i then Some (f (run_dir_at i rs)) else map_get rs j)"
  by (simp add: change_dir_def)

lemma run_dir_at_change [simp]: "run_dir_at j (change_dir i f rs) = (if j = i then f (run_dir_at i rs) else run_dir_at j rs)"
  by (simp add: run_dir_at_def)

lemmas dir_defs = create_run_def write_manifest_def write_outputs_def release_lock_def begin_run_def keep_checkpoints_def

definition dir_sound :: "jstext \<Rightarrow> run_dir \<Rightarrow> bool" where
  "dir_sound i d \<longleftrightarrow> (\<exists>m. rd_manifest d = Some m \<and> rm_run m = i \<and> rd_plan d \<noteq> None \<and>
     rm_status m \<in> {Run_running, Run_completed, Run_failed} \<and>
     (rm_status m \<noteq> Run_running \<longrightarrow> \<not> rd_lock d \<and> rd_outputs d \<noteq> None \<and> rm_ended m \<noteq> None)) \<and>
     (\<forall>m. rd_outputs d = Some m \<longrightarrow> outputs_clean m)"

definition root_sound :: "run_root \<Rightarrow> bool" where
  "root_sound rs \<longleftrightarrow> (\<forall>i d. map_get rs i = Some d \<longrightarrow> dir_sound i d)"

definition completed_in :: "run_root \<Rightarrow> jstext \<Rightarrow> bool" where
  "completed_in rs i \<longleftrightarrow> (\<exists>m. get_run i rs = Some m \<and> rm_status m = Run_completed)"

text \<open>
  Calls and crashes: a run under a fresh name, a resumption, and a process that dies after it began either, with some
  checkpoints saved and perhaps its outputs written.
\<close>

definition left_behind :: "jstext \<Rightarrow> exec_action list \<Rightarrow> (jstext, json) jsmap option \<Rightarrow> run_root \<Rightarrow> run_root" where
  "left_behind i l outs rs = (case outs of
     None \<Rightarrow> keep_checkpoints i l rs
   | Some m \<Rightarrow> write_outputs i (redact_outputs_for_disk m) (keep_checkpoints i l rs))"

inductive replay_step :: "'w run_opts \<Rightarrow> 'w replay_state \<Rightarrow> 'w replay_state \<Rightarrow> bool" for opts where
  started: "run_workflow opts st dir req s = Some (r, s') \<Longrightarrow> map_get (rw_runs s) (rt_run st) = None \<Longrightarrow> replay_step opts s s'"
| resumed: "resume_run opts st dir i s = Some (r, s') \<Longrightarrow> replay_step opts s s'"
| killed: "prepare_run opts st dir req = Ok (w, params, t) \<Longrightarrow> map_get (rw_runs s) (rt_run st) = None \<Longrightarrow>
    replay_step opts s (s\<lparr>rw_runs := left_behind (rt_run st) l outs
       (begin_run st (initial_manifest st w params t) (tw_plan t) (rw_runs s))\<rparr>)"
| killed_again: "load_resume_point i (rw_runs s) = Ok pt \<Longrightarrow>
    replay_step opts s (s\<lparr>rw_runs := left_behind i l outs (write_manifest i ((rp_manifest pt)\<lparr>rm_status := Run_running\<rparr>) (rw_runs s))\<rparr>)"

inductive run_history :: "'w run_opts \<Rightarrow> 'w replay_state \<Rightarrow> bool" for opts where
  empty: "rw_runs s = [] \<Longrightarrow> run_history opts s"
| step: "run_history opts s \<Longrightarrow> replay_step opts s s' \<Longrightarrow> run_history opts s'"

text \<open>
  Every write of a run goes to its own directory. What it leaves there: the manifest of a run still under way, or one that
  is settled, with its outputs and without a lock.
\<close>

definition only_dir :: "jstext \<Rightarrow> run_root \<Rightarrow> run_root \<Rightarrow> bool" where
  "only_dir i rs rs' \<longleftrightarrow> (\<forall>j. j \<noteq> i \<longrightarrow> map_get rs' j = map_get rs j)"

lemma only_dir_simps [simp]: "only_dir i rs rs" "only_dir i rs (change_dir i f rs') \<longleftrightarrow> only_dir i rs rs'"
  by (auto simp: only_dir_def)

definition dir_left :: "jstext \<Rightarrow> run_root \<Rightarrow> bool" where
  "dir_left i rs \<longleftrightarrow> (\<exists>d. map_get rs i = Some d \<and> dir_sound i d)"

lemma settle_manifest_fields:
  "rm_run (settle_manifest now o' m) = rm_run m" "rm_status (settle_manifest now o' m) \<in> {Run_completed, Run_failed}"
  "rm_ended (settle_manifest now o' m) = Some now"
  "rm_status (settle_manifest now o' m) = Run_completed \<longleftrightarrow> replay_succeeded o'"
  by (auto simp: settle_manifest_def)

lemma drift_fields: "rm_run (check_chrome_drift a w m) = rm_run m" "rm_status (check_chrome_drift a w m) = rm_status m"
  by (auto simp: check_chrome_drift_def split: option.split)

lemma outcome_success: "map_executor_outcome o' i eo = Ok out \<Longrightarrow> rm_status (settle_manifest now out m) = Run_completed \<longleftrightarrow> replay_exit_code out = 0"
  by (auto simp: map_executor_outcome_def settle_manifest_def replay_succeeded_def replay_exit_code_def task_outcome_for_replay_def
      split: plan_outcome.splits)

lemma with_brief_code: "replay_exit_code (with_brief b out) = replay_exit_code out"
  by (auto simp: with_brief_def replay_exit_code_def task_outcome_for_replay_def split: replay_outcome.splits option.splits)

definition under_way :: "jstext \<Rightarrow> run_root \<Rightarrow> bool" where
  "under_way i rs \<longleftrightarrow> (\<exists>d m. map_get rs i = Some d \<and> rd_manifest d = Some m \<and> rm_run m = i \<and> rm_status m = Run_running \<and>
     rd_plan d \<noteq> None \<and> (\<forall>x. rd_outputs d = Some x \<longrightarrow> outputs_clean x))"

lemma under_way_left: "under_way i rs \<Longrightarrow> dir_left i rs"
  by (auto simp: under_way_def dir_left_def dir_sound_def)

lemma under_way_kept:
  "under_way i rs \<Longrightarrow> rm_run m = i \<Longrightarrow> rm_status m = Run_running \<Longrightarrow> under_way i (write_manifest i m rs)"
  "under_way i rs \<Longrightarrow> under_way i (release_lock i rs)"
  "under_way i rs \<Longrightarrow> under_way i (keep_checkpoints i l rs)"
  "under_way i rs \<Longrightarrow> under_way i (left_behind i l outs rs)"
  using redacted_clean by (auto simp: under_way_def dir_defs run_dir_at_def left_behind_def split: option.split)

lemma under_way_begun:
  "map_get rs (rt_run st) = None \<Longrightarrow> rm_run m = rt_run st \<Longrightarrow> rm_status m = Run_running \<Longrightarrow> under_way (rt_run st) (begin_run st m p rs)"
  by (simp add: under_way_def dir_defs run_dir_at_def no_run_dir_def)

lemma under_way_resumed:
  assumes "load_resume_point i rs = Ok pt" and "root_sound rs"
  shows "under_way i (write_manifest i ((rp_manifest pt)\<lparr>rm_status := Run_running\<rparr>) rs)" and "rm_run (rp_manifest pt) = i"
    and "\<not> completed_in rs i"
proof -
  obtain d m where d: "map_get rs i = Some d" "rd_manifest d = Some m" "rp_manifest pt = m" "rm_status m \<in> RESUMABLE_STATUSES"
    using assms(1) by (auto simp: load_resume_point_def get_run_def Let_def Option.bind_eq_Some_conv split: option.splits if_splits)
  have "dir_sound i d" using assms(2) d(1) by (auto simp: root_sound_def)
  then show "under_way i (write_manifest i ((rp_manifest pt)\<lparr>rm_status := Run_running\<rparr>) rs)" "rm_run (rp_manifest pt) = i"
    using d by (auto simp: under_way_def dir_sound_def dir_defs run_dir_at_def)
  show "\<not> completed_in rs i" using d by (auto simp: completed_in_def get_run_def RESUMABLE_STATUSES_def)
qed

text \<open>What a settled run leaves: clean outputs, a manifest with its end, no lock.\<close>

lemma settled_left:
  assumes "under_way i rs" and "rm_run m = i"
  shows "dir_left i (release_lock i (write_manifest i (settle_manifest now out m) (write_outputs i (redact_outputs_for_disk eo) rs)))"
    and "dir_left i (release_lock i (change_dir i (\<lambda>d. d\<lparr>rd_report := rep\<rparr>)
           (write_manifest i (settle_manifest now out m) (write_outputs i (redact_outputs_for_disk eo) rs))))"
  using assms settle_manifest_fields [of now out m] redacted_clean [of eo]
  by (auto simp: dir_left_def dir_sound_def under_way_def dir_defs run_dir_at_def)

lemma own_dir [simp]:
  "only_dir i rs (write_manifest i m rs') \<longleftrightarrow> only_dir i rs rs'" "only_dir i rs (release_lock i rs') \<longleftrightarrow> only_dir i rs rs'"
  "only_dir i rs (keep_checkpoints i l rs') \<longleftrightarrow> only_dir i rs rs'" "only_dir i rs (write_outputs i x rs') \<longleftrightarrow> only_dir i rs rs'"
  "only_dir (rt_run st) rs (begin_run st m p rs') \<longleftrightarrow> only_dir (rt_run st) rs rs'"
  "only_dir i rs (left_behind i l outs rs') \<longleftrightarrow> only_dir i rs rs'"
  by (simp_all add: dir_defs left_behind_def split: option.split)

text \<open>The manifest of the run says completed exactly when its outcome has exit code zero.\<close>

definition manifest_agrees :: "jstext \<Rightarrow> replay_outcome \<Rightarrow> run_root \<Rightarrow> bool" where
  "manifest_agrees i out rs \<longleftrightarrow> (\<exists>m. get_run i rs = Some m \<and> \<not> rd_lock (run_dir_at i rs) \<and>
     (rm_status m = Run_completed \<longleftrightarrow> replay_exit_code out = 0) \<and> (rm_status m \<noteq> Run_completed \<longrightarrow> rm_status m = Run_failed))"

lemma settle_run_left:
  assumes "settle_run opts st t params m o' c rs = (r, s')" and "under_way (rt_run st) rs" and "rm_run m = rt_run st"
  shows "dir_left (rt_run st) (rw_runs s')" and "only_dir (rt_run st) rs (rw_runs s')"
    and "r = Ok out \<Longrightarrow> manifest_agrees (rt_run st) out (rw_runs s')"
proof -
  let ?eo = "eo_persisted (evaluate_outputs (ro_jsonata opts) (tw_outputs t) (xc_captures c) params)"
  have "dir_left (rt_run st) (rw_runs s') \<and> only_dir (rt_run st) rs (rw_runs s') \<and>
    (\<forall>out. r = Ok out \<longrightarrow> manifest_agrees (rt_run st) out (rw_runs s'))"
  proof (cases "map_executor_outcome o' (rt_run st) ?eo")
    case (Inl e)
    then show ?thesis using assms(1) under_way_left [OF under_way_kept(2) [OF assms(2)]] by (auto simp: settle_run_def Let_def)
  next
    case (Inr base)
    obtain brief kept w where b: "maybe_synthesize opts (tw_synthesis t) (replay_succeeded base) (xc_world c) = ((brief, kept), w)"
      by (metis prod.exhaust)
    let ?m = "if kept = None then m else m\<lparr>rm_brief := kept\<rparr>"
    have m: "rm_run ?m = rt_run st" using assms(3) by simp
    have s': "r = Ok (with_brief brief base)" "rw_runs s' = release_lock (rt_run st) (change_dir (rt_run st)
        (\<lambda>d. d\<lparr>rd_report := Some (build_step_log (tw_plan t) (xc_idx c))\<rparr>)
        (write_manifest (rt_run st) (settle_manifest (rt_end st) base ?m)
          (write_outputs (rt_run st) (redact_outputs_for_disk ?eo) rs)))"
      using assms(1) Inr b by (auto simp: settle_run_def Let_def)
    have "manifest_agrees (rt_run st) (with_brief brief base) (rw_runs s')"
      unfolding s'(2) using outcome_success [OF Inr, of "rt_end st" ?m] settle_manifest_fields(2) [of "rt_end st" base ?m]
      by (auto simp: manifest_agrees_def get_run_def dir_defs with_brief_code run_dir_at_def)
    then show ?thesis using settled_left(2) [OF assms(2) m] s' by simp
  qed
  then show "dir_left (rt_run st) (rw_runs s')" "only_dir (rt_run st) rs (rw_runs s')"
    "r = Ok out \<Longrightarrow> manifest_agrees (rt_run st) out (rw_runs s')" by blast+
qed

lemma settle_resumed_left:
  assumes "settle_resumed opts st dir i m o' c rs = (r, s')" and "under_way i rs" and "rm_run m = i"
  shows "dir_left i (rw_runs s')" and "only_dir i rs (rw_runs s')" and "r = Ok out \<Longrightarrow> manifest_agrees i out (rw_runs s')"
proof -
  have released: "dir_left i (release_lock i rs)" using under_way_left [OF under_way_kept(2) [OF assms(2)]] .
  have "dir_left i (rw_runs s') \<and> only_dir i rs (rw_runs s') \<and> (\<forall>out. r = Ok out \<longrightarrow> manifest_agrees i out (rw_runs s'))"
  proof (cases "\<exists>e. r = Err e")
    case True
    then show ?thesis using assms(1) released
      by (auto simp: settle_resumed_def Let_def split: plan_outcome.splits sum.splits)
  next
    case False
    then obtain out bs where o: "r = Ok out" by (cases r) auto
    then obtain eo where s': "map_executor_outcome o' i eo = Ok out"
        "rw_runs s' = release_lock i (write_manifest i (settle_manifest (rt_end st) out m) (write_outputs i (redact_outputs_for_disk eo) rs))"
      using assms(1) by (auto simp: settle_resumed_def Let_def split: plan_outcome.splits sum.splits)
    have "manifest_agrees i out (rw_runs s')"
      unfolding s'(2) using outcome_success [OF s'(1), of "rt_end st" m] settle_manifest_fields(2) [of "rt_end st" out m]
      by (auto simp: manifest_agrees_def get_run_def dir_defs run_dir_at_def)
    then show ?thesis using settled_left(1) [OF assms(2,3)] s'(2) o by simp
  qed
  then show "dir_left i (rw_runs s')" "only_dir i rs (rw_runs s')" "r = Ok out \<Longrightarrow> manifest_agrees i out (rw_runs s')" by blast+
qed

lemma run_workflow_left:
  assumes "run_workflow opts st dir req s = Some (r, s')"
  obtains (refused) e where "prepare_run opts st dir req = Err e" "r = Err e" "s' = s"
  | (begun) w params t where "run_checked opts st dir req w params t" "only_dir (rt_run st) (rw_runs s) (rw_runs s')"
      "map_get (rw_runs s) (rt_run st) = None \<Longrightarrow> dir_left (rt_run st) (rw_runs s')"
      "\<And>out. r = Ok out \<Longrightarrow> map_get (rw_runs s) (rt_run st) = None \<Longrightarrow> manifest_agrees (rt_run st) out (rw_runs s')"
      "\<And>out. r = Ok out \<Longrightarrow> \<exists>w1 w2. preflight_ethics (ro_exec opts) (pl_steps (tw_plan t)) w1 = (Ok (), w2)"
proof (cases "prepare_run opts st dir req")
  case (Inl e)
  then show ?thesis using assms refused by (simp add: run_workflow_def)
next
  case (Inr x)
  obtain w params t where x: "x = (w, params, t)" by (cases x)
  let ?i = "rt_run st" and ?m0 = "initial_manifest st w params t"
  let ?rs0 = "begin_run st ?m0 (tw_plan t) (rw_runs s)"
  have m0: "rm_run ?m0 = ?i" "rm_status ?m0 = Run_running" by (simp_all add: initial_manifest_def)
  have checked: "run_checked opts st dir req w params t" using Inr x by (simp add: prepare_run_Ok)
  note begun0 = under_way_begun [of "rw_runs s" st ?m0 "tw_plan t", OF _ m0]
  obtain launch w1 where l: "ro_launch opts (Launch_spec (tw_profile t)) (rw_world s) = (launch, w1)" by (cases "ro_launch opts (Launch_spec (tw_profile t)) (rw_world s)")
  show ?thesis
  proof (cases launch)
    case (Inl e)
    then have "r = Err (Rn_launch e)" "rw_runs s' = ?rs0" using assms Inr x l by (auto simp: run_workflow_def Let_def)
    then show ?thesis using begun [OF checked] begun0 under_way_left by simp
  next
    case (Inr found)
    obtain major path where found: "found = (major, path)" by (cases found)
    define m1 where "m1 = check_chrome_drift major w (if rm_profile ?m0 = Kind_workflow then ?m0\<lparr>rm_profile_path := Some path\<rparr> else ?m0)"
    have m1: "rm_run m1 = ?i" "rm_status m1 = Run_running" using m0 by (simp_all add: m1_def drift_fields)
    let ?rs1 = "write_manifest ?i m1 ?rs0"
    have way: "under_way ?i ?rs1" if "map_get (rw_runs s) ?i = None" using under_way_kept(1) [OF begun0 [OF that] m1] .
    obtain pre w2 where pre: "preflight_ethics (ro_exec opts) (pl_steps (tw_plan t)) w1 = (pre, w2)"
      by (cases "preflight_ethics (ro_exec opts) (pl_steps (tw_plan t)) w1")
    let ?ex = "execute_plan opts ?i (tw_plan t) params (Some (map_get (tw_locators t))) None w2"
    have "run_workflow opts st dir req s = (case pre of
        Inl e \<Rightarrow> Some (Err e, \<lparr>rw_runs = release_lock ?i ?rs1, rw_world = w2\<rparr>)
      | Inr _ \<Rightarrow> (case ?ex of None \<Rightarrow> None
         | Some (Inl e) \<Rightarrow> Some (Err e, \<lparr>rw_runs = release_lock ?i ?rs1, rw_world = w2\<rparr>)
         | Some (Inr (o', c)) \<Rightarrow> Some (settle_run opts st t params m1 o' c (keep_checkpoints ?i (xc_log c) ?rs1))))"
      unfolding run_workflow_def \<open>prepare_run opts st dir req = Inr x\<close> x Let_def m1_def
      by (simp only: sum.case prod.case l Inr found pre)
    note res = assms [unfolded this]
    consider e where "r = Err e" "rw_runs s' = release_lock ?i ?rs1"
      | o' c where "pre = Ok ()" "settle_run opts st t params m1 o' c (keep_checkpoints ?i (xc_log c) ?rs1) = (r, s')"
      using res by (auto split: sum.splits option.splits prod.splits)
    then show ?thesis
    proof cases
      case 1
      then show ?thesis using begun [OF checked] under_way_left [OF under_way_kept(2) [OF way]] by simp
    next
      case (2 o' c)
      have only: "only_dir ?i (rw_runs s) (rw_runs s')" if "only_dir ?i (keep_checkpoints ?i (xc_log c) ?rs1) (rw_runs s')"
        using that by (auto simp: only_dir_def dir_defs)
      have "only_dir ?i (keep_checkpoints ?i (xc_log c) ?rs1) (rw_runs s')"
        using 2(2) by (auto simp: settle_run_def Let_def split: sum.splits prod.splits)
      then show ?thesis
        using begun [OF checked only] settle_run_left [OF 2(2) under_way_kept(3) [OF way] m1(1)] pre 2(1) by blast
    qed
  qed
qed

lemma resume_run_left:
  assumes "resume_run opts st dir i s = Some (r, s')" and "root_sound (rw_runs s)"
  shows "s' = s \<and> (\<exists>e. r = Err e) \<or> dir_left i (rw_runs s') \<and> only_dir i (rw_runs s) (rw_runs s') \<and> \<not> completed_in (rw_runs s) i \<and>
    (\<forall>out. r = Ok out \<longrightarrow> manifest_agrees i out (rw_runs s'))"
proof (cases "load_resume_point i (rw_runs s)")
  case (Inl e)
  then show ?thesis using assms(1) by (auto simp: resume_run_def)
next
  case (Inr pt)
  let ?m = "(rp_manifest pt)\<lparr>rm_status := Run_running\<rparr>"
  let ?rs0 = "write_manifest i ?m (rw_runs s)"
  note way = under_way_resumed [OF Inr assms(2)]
  have run: "rm_run ?m = i" using way(2) by simp
  obtain launch w1 where l: "ro_launch opts (resume_profile ?m) (rw_world s) = (launch, w1)"
    by (cases "ro_launch opts (resume_profile ?m) (rw_world s)")
  let ?ex = "execute_plan opts i (rp_plan pt) (rm_params ?m) None (rp_checkpoint pt) w1"
  have res: "Some (r, s') = (case launch of
      Inl e \<Rightarrow> Some (Err (Rn_launch e), \<lparr>rw_runs = ?rs0, rw_world = w1\<rparr>)
    | Inr _ \<Rightarrow> (case ?ex of None \<Rightarrow> None
       | Some (Inl e) \<Rightarrow> Some (Err e, \<lparr>rw_runs = release_lock i ?rs0, rw_world = w1\<rparr>)
       | Some (Inr (o', c)) \<Rightarrow> Some (settle_resumed opts st dir i ?m o' c (keep_checkpoints i (xc_log c) ?rs0))))"
    using assms(1) [symmetric] Inr l by (simp add: resume_run_def Let_def)
  consider e where "r = Err e" "rw_runs s' = ?rs0 \<or> rw_runs s' = release_lock i ?rs0"
    | o' c where "settle_resumed opts st dir i ?m o' c (keep_checkpoints i (xc_log c) ?rs0) = (r, s')"
    using res by (auto split: sum.splits option.splits prod.splits)
  then show ?thesis
  proof cases
    case 1
    then show ?thesis using under_way_left [OF way(1)] under_way_left [OF under_way_kept(2) [OF way(1)]] way(3) by auto
  next
    case (2 o' c)
    have "only_dir i (rw_runs s) (rw_runs s')" if "only_dir i (keep_checkpoints i (xc_log c) ?rs0) (rw_runs s')"
      using that by (auto simp: only_dir_def dir_defs)
    then show ?thesis using settle_resumed_left [OF 2 under_way_kept(3) [OF way(1)] run] way(3) by blast
  qed
qed

lemma root_sound_after: "root_sound rs \<Longrightarrow> only_dir i rs rs' \<Longrightarrow> dir_left i rs' \<Longrightarrow> root_sound rs'"
  by (auto simp: root_sound_def only_dir_def dir_left_def) (metis option.inject)

text \<open>One step writes one directory at most, soundly, and not that of a completed run.\<close>

lemma run_step_writes:
  assumes "replay_step opts s s'" and "root_sound (rw_runs s)"
  shows "rw_runs s' = rw_runs s \<or> (\<exists>i. only_dir i (rw_runs s) (rw_runs s') \<and> dir_left i (rw_runs s') \<and> \<not> completed_in (rw_runs s) i)"
  using assms
proof cases
  case (started st dir req r)
  have "\<not> completed_in (rw_runs s) (rt_run st)" using started(2) by (simp add: completed_in_def get_run_def)
  with started show ?thesis by (elim run_workflow_left) blast+
next
  case (resumed st dir i r)
  then show ?thesis using resume_run_left [OF resumed assms(2)] by blast
next
  case (killed st dir req w params t l outs)
  have "under_way (rt_run st) (begin_run st (initial_manifest st w params t) (tw_plan t) (rw_runs s))"
    using killed(3) by (intro under_way_begun) (simp_all add: initial_manifest_def)
  from under_way_left [OF under_way_kept(4) [OF this]] show ?thesis
    using killed by (auto simp: completed_in_def get_run_def intro!: exI [of _ "rt_run st"])
next
  case (killed_again i pt l outs)
  note way = under_way_resumed [OF killed_again(2) assms(2)]
  show ?thesis using killed_again(1) way(3) under_way_left [OF under_way_kept(4) [OF way(1)]] by (auto intro!: exI [of _ i])
qed

lemma run_history_sound: "run_history opts s \<Longrightarrow> root_sound (rw_runs s)"
proof (induction rule: run_history.induct)
  case (empty s)
  then show ?case by (simp add: root_sound_def)
next
  case (step s s')
  then show ?case using run_step_writes [OF step(2)] root_sound_after by metis
qed

lemma completed_stays:
  assumes "replay_step opts s s'" and "root_sound (rw_runs s)" and "completed_in (rw_runs s) i"
  shows "map_get (rw_runs s') i = map_get (rw_runs s) i"
  using run_step_writes [OF assms(1,2)] assms(3) by (metis only_dir_def)

lemma resumable_iff:
  assumes "root_sound rs" and "map_get rs i = Some d" and "rd_manifest d = Some m"
  shows "(\<exists>pt. load_resume_point i rs = Ok pt) \<longleftrightarrow> rm_status m = Run_failed \<and> rm_profile m \<noteq> Kind_ephemeral"
proof -
  have "dir_sound i d" using assms(1,2) by (simp add: root_sound_def)
  then obtain p where "rd_plan d = Some p" "rm_status m \<in> {Run_running, Run_completed, Run_failed}" using assms(3) by (auto simp: dir_sound_def)
  then show ?thesis using assms(2,3)
    by (auto simp: load_resume_point_def get_run_def run_dir_at_def RESUMABLE_STATUSES_def Let_def)
qed

section \<open>A concrete run\<close>

text \<open>
  One step, a click for which consent is asked, on a page of the world of numbers: with a gateway that denies, the run is
  handed off, and failed on disk.
\<close>

definition pay_workflow :: workflow_file where
  "pay_workflow = sample_workflow\<lparr>wk_cookies := ''auto'', wk_steps := [\<lparr>wf_id = Some ''pay'', wf_scope = Some Scope_authenticated,
     wf_confirm = True, wf_body = Wf_click sample_hints ''pay''\<rparr>]\<rparr>"

definition pay_plan :: plan where
  "pay_plan = sample_plan\<lparr>pl_steps := [\<lparr>st_id = ''pay'', st_scope = Some Scope_authenticated, st_confirm = True,
     st_body = Click_step sample_hints (Workflow_locator ''pay'') None\<rparr>]\<rparr>"

definition sample_run_opts :: "nat run_opts" where
  "sample_run_opts = \<lparr>ro_exec = sample_run_env Denied, ro_fuel = 2,
     ro_parsers = \<lparr>vp_number = (\<lambda>s. if s = ''42'' then Some (J_num 42) else None), vp_date = (\<lambda>_. None)\<rparr>,
     ro_keychain = (\<lambda>_. False), ro_lint = sample_lint_env, ro_jsonata = (\<lambda>_ _ _. Ok None),
     ro_launch = (\<lambda>_ w. (Ok (128, ''p''), w)), ro_synthesis = None\<rparr>"

definition sample_stamp :: run_stamp where
  "sample_stamp = \<lparr>rt_run = ''r1'', rt_task = ''t'', rt_plan = ''p'', rt_start = 1, rt_end = 5\<rparr>"

definition sample_request :: run_request where
  "sample_request = \<lparr>rq_workflow = ''w'', rq_params = [], rq_file = Ok []\<rparr>"

definition pay_dir :: workflow_dir where
  "pay_dir = snd (save_workflow 50 False Save_done pay_workflow \<lparr>wd_docs = [], wd_sidecars = []\<rparr>)"

definition sample_state :: "nat replay_state" where
  "sample_state = \<lparr>rw_runs = [], rw_world = 0\<rparr>"

lemma pay_loads: "load_workflow ''w'' pay_dir = Ok (Ok pay_workflow)"
  by code_simp

lemma pay_clean: "lr_errors (lint sample_lint_env False pay_workflow) = []"
  by code_simp

lemma pay_plan_valid: "plan_valid no_context pay_plan"
  by (auto simp: plan_valid_def no_context_def pay_plan_def sample_plan_def out_of_scope_def effective_scope_def less_Suc_eq
      target_ids_def body_value_refs_def Let_def)

lemma pay_translated:
  "translate (\<lambda>_ _. True) ''t'' ''p'' pay_workflow = Ok \<lparr>tw_plan = pay_plan,
     tw_locators = [(''pay'', \<lparr>ec_name = ''pay'', ec_candidates = [Css_intent ''#pay'']\<rparr>)], tw_profile = Profile_workflow ''w'',
     tw_outputs = [], tw_secrets = [], tw_synthesis = None\<rparr>"
proof -
  have "translate_steps ''w'' 0 [] (wk_steps pay_workflow) = Ok (pl_steps pay_plan)"
    by (simp add: pay_workflow_def pay_plan_def step_id_def translate_step_def translate_body_def Let_def)
  moreover have "\<lparr>pl_task = ''t'', pl_id = ''p'', pl_default_scope = Scope_authenticated, pl_steps = pl_steps pay_plan,
      pl_outputs = []\<rparr> = pay_plan" by (simp add: pay_plan_def sample_plan_def)
  moreover have "validate_semantics no_context pay_plan = Ok pay_plan"
    using pay_plan_valid validate_semantics_iff by blast
  moreover have "build_locator_table (\<lambda>_ _. True) (wk_locators pay_workflow) =
      Ok [(''pay'', \<lparr>ec_name = ''pay'', ec_candidates = [Css_intent ''#pay'']\<rparr>)]"
    by (simp add: pay_workflow_def sample_workflow_def workflow_candidate_to_engine_def trim_def is_space_def code_def)
  moreover have "wk_name pay_workflow = ''w''" "wk_cookies pay_workflow = ''auto''" "wk_class pay_workflow = Scope_authenticated"
    "wk_outputs pay_workflow = []" "wk_secrets pay_workflow = []" "wk_synthesis pay_workflow = None"
    by (simp_all add: pay_workflow_def sample_workflow_def)
  ultimately show ?thesis by (simp add: translate_def cookie_mode_to_profile_spec_def Let_def)
qed

lemma pay_handed_off:
  assumes "xe_plan env = pay_plan" and "xe_browser env = Some (\<lambda>w. (Ok True, w))"
    and "xe_gateway env = Some (\<lambda>q w. (Ok (Decision \<lparr>cd_id = cq_id q, cd_verdict = Denied, cd_by = b\<rparr>), w))"
  shows "\<exists>c'. run_plan n env c = Some (Plan_handoff, c')"
proof -
  have scope: "validate_scope_violations (xe_url_hostname env) pay_plan = []"
    using scope_gates_agree [of "xe_url_hostname env" pay_plan]
    by (simp add: pay_plan_def sample_plan_def out_of_scope_def effective_scope_def ALLOWED_VERBS_BY_SCOPE_def STEP_VERBS_def)
  have "\<exists>c1. ensure_browser env c = Ok c1" using assms(2) by (cases "xc_page c") (simp_all add: ensure_browser_def)
  then obtain c1 where c1: "ensure_browser env c = Ok c1" ..
  have step: "pl_steps pay_plan ! 0 = hd (pl_steps pay_plan)" "st_confirm (hd (pl_steps pay_plan))" "length (pl_steps pay_plan) = 1"
    by (simp_all add: pay_plan_def)
  have "\<exists>c2. execute_step n env 0 c' = Some (Inl Plan_handoff, c2)" for c'
    using checkpoint_follows_verdict [OF assms(3)] step assms(1)
    by (auto simp: execute_step_def Let_def split: prod.splits bool.splits) (metis Pair_inject confirmation_verdict.distinct(1))+
  from this [of "publish Ev_task_started c1"] obtain c2
    where "execute_step n env 0 (publish Ev_task_started c1) = Some (Inl Plan_handoff, c2)" ..
  then show ?thesis using scope c1 step assms(1) by (simp add: run_plan_def execute_loop_next MAX_TOTAL_STEP_EXECUTIONS_def)
qed

lemma pay_run:
  "\<exists>s'. run_workflow sample_run_opts sample_stamp pay_dir sample_request sample_state =
     Some (Ok (Replay_aborted ''r1'' Abort_handoff), s')"
proof -
  let ?L = "[(''pay'', \<lparr>ec_name = ''pay'', ec_candidates = [Css_intent ''#pay'']\<rparr>)]"
  let ?t = "\<lparr>tw_plan = pay_plan, tw_locators = ?L, tw_profile = Profile_workflow ''w'', tw_outputs = [], tw_secrets = [],
    tw_synthesis = None\<rparr>"
  have params: "resolve_params (ro_parsers sample_run_opts) (Ok []) [] (wk_params pay_workflow) = Ok []"
    by (simp add: resolve_params_def pay_workflow_def sample_workflow_def merge_params_def missing_params_def)
  have checked: "prepare_run sample_run_opts sample_stamp pay_dir sample_request = Ok (pay_workflow, [], ?t)"
    using pay_loads pay_clean pay_translated params
    by (simp add: prepare_run_Ok run_checked_def) (simp add: sample_request_def sample_run_opts_def sample_stamp_def sample_run_env_def)
  have ethics: "preflight_ethics (ro_exec sample_run_opts) (pl_steps (tw_plan ?t)) 0 = (Ok (), 0)"
    by (simp add: pay_plan_def)
  have "\<exists>c'. execute_plan sample_run_opts ''r1'' pay_plan [] (Some (map_get ?L)) None 0 = Some (Ok (Plan_handoff, c'))"
  proof -
    have "\<exists>c. create_context pay_plan None None None False False e (0::nat) = Ok c" for e
      by (simp add: create_context_def pay_plan_def)
    then obtain c where "create_context pay_plan None None None False False
        (Some (new_ledger MAX_EVIDENCE_ENTRIES MAX_EVIDENCE_TEXT_BYTES)) (0::nat) = Ok c" by blast
    then show ?thesis
      using pay_handed_off [of "(ro_exec sample_run_opts)\<lparr>xe_plan := pay_plan, xe_run := ''r1'', xe_scopes := build_scope_chain pay_plan,
          xe_params := [], xe_locators := Some (map_get ?L)\<rparr>" By_user_cli 2 c]
      by (simp add: execute_plan_def start_or_resume_def Let_def) (simp add: sample_run_opts_def sample_run_env_def)
  qed
  then obtain c' where "execute_plan sample_run_opts ''r1'' pay_plan [] (Some (map_get ?L)) None 0 = Some (Ok (Plan_handoff, c'))" ..
  then show ?thesis using checked ethics
    by (simp add: run_workflow_def Let_def sample_state_def)
      (simp add: sample_stamp_def sample_run_opts_def settle_run_def map_executor_outcome_def maybe_synthesize_def with_brief_def
        replay_succeeded_def Let_def)
qed

section \<open>Properties\<close>

text \<open>C31. A new run either stops before it writes anything, with nothing changed, or its workflow has loaded and passed the
  lint, its parameters are resolved, its plan is a valid translation, every secret a step names is in the keychain, and it
  writes to its own directory alone; if it answers with an outcome, each literal URL it navigates to passed the ethics gate
  first, and the manifest on disk is completed exactly when the exit code is zero, failed otherwise, the lock released.\<close>

theorem runs_are_checked_first:
  assumes "run_workflow opts st dir req s = Some (r, s')" and "map_get (rw_runs s) (rt_run st) = None"
  shows "(s' = s \<and> (\<exists>e. r = Err e \<and> prepare_run opts st dir req = Err e)) \<or>
    (\<exists>w params t. load_workflow (rq_workflow req) dir = Ok (Ok w) \<and> lr_errors (lint (ro_lint opts) False w) = [] \<and>
       resolve_params (ro_parsers opts) (rq_file req) (rq_params req) (wk_params w) = Ok params \<and>
       translate (xe_valid_regex (ro_exec opts)) (rt_task st) (rt_plan st) w = Ok t \<and> plan_valid no_context (tw_plan t) \<and>
       (\<forall>p \<in> set (pl_steps (tw_plan t)). \<forall>k hs. Secret_value k hs \<in> set (body_value_refs (st_body p)) \<longrightarrow> ro_keychain opts k) \<and>
       (\<forall>i. i \<noteq> rt_run st \<longrightarrow> map_get (rw_runs s') i = map_get (rw_runs s) i) \<and>
       (\<forall>out. r = Ok out \<longrightarrow>
          (\<forall>p \<in> set (pl_steps (tw_plan t)). \<forall>h url. st_body p = Navigate_step h (Literal_value (J_str url)) \<longrightarrow>
             (\<exists>w1 w2. xe_ethics (ro_exec opts) url w1 = (Ethics_passed, w2))) \<and>
          (\<exists>m. get_run (rt_run st) (rw_runs s') = Some m \<and> \<not> rd_lock (run_dir_at (rt_run st) (rw_runs s')) \<and>
             rm_status m = (if replay_exit_code out = 0 then Run_completed else Run_failed))))"
  using assms(1)
proof (cases rule: run_workflow_left)
  case (refused e)
  then show ?thesis by blast
next
  case (begun w params t)
  have "manifest_agrees (rt_run st) out (rw_runs s')" "\<exists>w1 w2. preflight_ethics (ro_exec opts) (pl_steps (tw_plan t)) w1 = (Ok (), w2)"
    if "r = Ok out" for out using begun(4,5) that assms(2) by blast+
  note ok = this
  have ethics: "\<exists>w1 w2. xe_ethics (ro_exec opts) url w1 = (Ethics_passed, w2)"
    if o: "r = Ok out" and p: "p \<in> set (pl_steps (tw_plan t))" "st_body p = Navigate_step h (Literal_value (J_str url))" for out p h url
  proof -
    obtain w1 w2 where "preflight_ethics (ro_exec opts) (pl_steps (tw_plan t)) w1 = (Ok (), w2)" using ok(2) [OF o] by blast
    then show ?thesis using p by (rule preflight_ethics_passes)
  qed
  have kept: "\<exists>m. get_run (rt_run st) (rw_runs s') = Some m \<and> \<not> rd_lock (run_dir_at (rt_run st) (rw_runs s')) \<and>
      rm_status m = (if replay_exit_code out = 0 then Run_completed else Run_failed)" if "r = Ok out" for out
    using ok(1) [OF that] by (auto simp: manifest_agrees_def)
  have "plan_valid no_context (tw_plan t)" using begun(1) translate_Ok by (auto simp: run_checked_def)
  then show ?thesis using begun(1,2) checked_plan_secrets [OF begun(1)] ethics kept
    unfolding run_checked_def only_dir_def by blast
qed

theorem runs_are_checked_first_witness:
  "\<exists>s' m. run_workflow sample_run_opts sample_stamp pay_dir sample_request sample_state =
       Some (Ok (Replay_aborted ''r1'' Abort_handoff), s') \<and>
     get_run ''r1'' (rw_runs s') = Some m \<and> rm_status m = Run_failed \<and> \<not> rd_lock (run_dir_at ''r1'' (rw_runs s'))"
proof -
  obtain s' where run: "run_workflow sample_run_opts sample_stamp pay_dir sample_request sample_state =
       Some (Ok (Replay_aborted ''r1'' Abort_handoff), s')" using pay_run by blast
  have "map_get (rw_runs sample_state) (rt_run sample_stamp) = None" by (simp add: sample_state_def)
  from runs_are_checked_first [OF run this]
  have "\<exists>m. get_run (rt_run sample_stamp) (rw_runs s') = Some m \<and> \<not> rd_lock (run_dir_at (rt_run sample_stamp) (rw_runs s')) \<and>
      rm_status m = (if replay_exit_code (Replay_aborted ''r1'' Abort_handoff) = 0 then Run_completed else Run_failed)" by blast
  moreover have "rt_run sample_stamp = ''r1''" by (simp add: sample_stamp_def)
  moreover have "replay_exit_code (Replay_aborted ''r1'' Abort_handoff) = 4" by code_simp
  ultimately show ?thesis using run by auto
qed



text \<open>C33. Resolved parameters hold every required one, and each is the value given on the command line, else in the file: of
  the declared type, or the text of it where none is declared; and no value with the shape of a credential gets through.\<close>

theorem resolved_parameters:
  assumes "resolve_params ps (Ok base) cli declared = Ok r" and "distinct (map fst declared)" and "distinct (map fst base)"
  shows "(\<forall>(k, d) \<in> set declared. pd_required d \<longrightarrow> map_has r k) \<and>
    (\<forall>k v. map_get r k = Some v \<longrightarrow> (\<exists>raw.
       Some raw = (case map_get (rev cli) k of Some x \<Rightarrow> Some (J_str x) | None \<Rightarrow> map_get base k) \<and>
       \<not> CREDENTIAL_PATTERNS (stringify_safe raw) \<and>
       (case map_get declared k of
          Some d \<Rightarrow> coerce_value ps k (stringify_safe raw) (pd_type d) = Ok v
        | None \<Rightarrow> v = J_str (stringify_safe raw))))"
proof -
  have "\<exists>raw. Some raw = (case map_get (rev cli) k of Some x \<Rightarrow> Some (J_str x) | None \<Rightarrow> map_get base k) \<and>
      resolved_as ps declared k raw v"
    if "map_get r k = Some v" for k v
    using resolve_params_sound [OF assms] that
    by (auto simp: all_resolved_def merged_get split: option.splits dest!: spec [of _ k])
  then show ?thesis using resolve_params_sound [OF assms] unfolding resolved_as_def by blast
qed

theorem resolved_parameters_witness:
  "\<exists>r. resolve_params (ro_parsers sample_run_opts) (Ok [(''n'', J_str ''7'')]) [(''n'', ''42'')]
       [(''n'', \<lparr>pd_type = Param_number, pd_example = None, pd_required = True\<rparr>)] = Ok r \<and>
     map_get r ''n'' = Some (J_num 42) \<and> coerce_value (ro_parsers sample_run_opts) ''n'' ''42'' Param_number = Ok (J_num 42)"
proof -
  let ?d = "[(''n'', \<lparr>pd_type = Param_number, pd_example = None, pd_required = True\<rparr>)]"
  have r: "resolve_params (ro_parsers sample_run_opts) (Ok [(''n'', J_str ''7'')]) [(''n'', ''42'')] ?d = Ok [(''n'', J_num 42)]"
    by code_simp
  have "map_get [(''n'', J_num 42)] ''n'' = Some (J_num 42)" by simp
  with resolved_parameters [OF r] obtain raw where "Some raw = Some (J_str ''42'')"
      "coerce_value (ro_parsers sample_run_opts) ''n'' (stringify_safe raw) Param_number = Ok (J_num 42)" by fastforce
  then have "coerce_value (ro_parsers sample_run_opts) ''n'' ''42'' Param_number = Ok (J_num 42)" by (simp add: stringify_safe_def)
  then show ?thesis using r by (auto simp: map_has_def)
qed

end
