(* ===== verification/Ulid.thy ===== *)
theory Ulid
  imports Prelude "HOL-Library.Word"
begin

unbundle bit_operations_syntax

text \<open>
  Identifiers of documents, plans and schedules (\<open>packages/protocol/src/utils/ulid.ts\<close>): ten characters of the
  time and sixteen of eighty random bits. The time and the random bytes are arguments. The bit buffer is a JavaScript
  number under bitwise operators, a word of 32 bits that overflows and is shifted with its sign.
\<close>

section \<open>Definitions\<close>

definition CROCKFORD :: jstext where
  "CROCKFORD = ''0123456789ABCDEFGHJKMNPQRSTVWXYZ''"

definition ULID_PATTERN :: "jstext \<Rightarrow> bool" where
  "ULID_PATTERN s \<longleftrightarrow> length s = 26 \<and> list_all (\<lambda>c. c \<in> set CROCKFORD) s"

definition crockford_char :: "32 word \<Rightarrow> char" where
  "crockford_char w = CROCKFORD ! unat (w AND 0x1F)"

fun ts_chars :: "nat \<Rightarrow> nat \<Rightarrow> jstext \<Rightarrow> jstext" where
  "ts_chars 0 ts acc = acc"
| "ts_chars (Suc i) ts acc = ts_chars i (ts div 32) (crockford_char (word_of_nat ts) # acc)"

text \<open>A byte past the end of the array is undefined, which the operator takes as zero.\<close>

function refill_bits :: "32 word \<Rightarrow> nat \<Rightarrow> 8 word list \<Rightarrow> 32 word \<times> nat \<times> 8 word list" where
  "refill_bits buf left bs = (if left < 5
     then refill_bits (push_bit 8 buf OR (case bs of [] \<Rightarrow> 0 | x # _ \<Rightarrow> ucast x)) (left + 8) (tl bs)
     else (buf, left, bs))"
  by pat_completeness auto

termination
  by (relation "measure (\<lambda>(buf, left, bs). 5 - left)") auto

declare refill_bits.simps [simp del]

fun rand_chars :: "nat \<Rightarrow> 32 word \<Rightarrow> nat \<Rightarrow> 8 word list \<Rightarrow> jstext" where
  "rand_chars 0 buf left bs = []"
| "rand_chars (Suc i) buf left bs = (case refill_bits buf left bs of
     (buf', left', bs') \<Rightarrow> crockford_char (signed_drop_bit (left' - 5) buf') # rand_chars i buf' (left' - 5) bs')"

definition generate_ulid :: "nat \<Rightarrow> 8 word list \<Rightarrow> jstext" where
  "generate_ulid now bytes = ts_chars 10 now [] @ rand_chars 16 0 0 bytes"

section \<open>Reading an identifier back\<close>

text \<open>A character's digit is its place in the alphabet; a text is a number in base 32, the bytes one in base 256.\<close>

fun place :: "char \<Rightarrow> jstext \<Rightarrow> nat" where
  "place c [] = 0"
| "place c (d # ds) = (if c = d then 0 else Suc (place c ds))"

definition crockford_digit :: "char \<Rightarrow> nat" where
  "crockford_digit c = place c CROCKFORD"

fun in_base :: "nat \<Rightarrow> nat list \<Rightarrow> nat" where
  "in_base b [] = 0"
| "in_base b (d # ds) = d * b ^ length ds + in_base b ds"

definition ulid_number :: "jstext \<Rightarrow> nat" where
  "ulid_number s = in_base 32 (map crockford_digit s)"

definition bytes_number :: "8 word list \<Rightarrow> nat" where
  "bytes_number bs = in_base 256 (map unat bs)"

lemma in_base_append: "in_base b (xs @ ys) = in_base b xs * b ^ length ys + in_base b ys"
  by (induction xs) (simp_all add: algebra_simps power_add)

lemma in_base_less: "\<forall>d \<in> set ds. d < b \<Longrightarrow> in_base b ds < b ^ length ds"
proof (induction ds)
  case (Cons d ds)
  then have "Suc d * b ^ length ds \<le> b * b ^ length ds" by (intro mult_le_mono1) auto
  then show ?case using Cons by auto
qed simp

lemma crockford_length: "length CROCKFORD = 32"
  by (simp add: CROCKFORD_def)

lemma place_nth: "distinct xs \<Longrightarrow> k < length xs \<Longrightarrow> place (xs ! k) xs = k"
  by (induction xs arbitrary: k) (auto simp: nth_Cons' split: if_splits)

lemma crockford_distinct: "distinct CROCKFORD"
  by (simp add: CROCKFORD_def)

lemma mask_five: "unat (w AND 0x1F :: 32 word) = unat w mod 32"
proof -
  have "w AND 0x1F = take_bit 5 w" by (simp add: take_bit_eq_mask mask_eq_exp_minus_1)
  then have "unat (w AND 0x1F) = take_bit 5 (unat w)" by (simp only: unsigned_take_bit_eq)
  then show ?thesis by (simp add: take_bit_eq_mod)
qed

lemma crockford_char_digit: "crockford_digit (crockford_char w) = unat w mod 32" "crockford_char w \<in> set CROCKFORD"
  using place_nth [OF crockford_distinct, of "unat w mod 32"] crockford_length
  by (simp_all add: crockford_char_def crockford_digit_def mask_five)

section \<open>The time\<close>

lemma word_low_bits: "unat (word_of_nat n :: 32 word) mod 32 = n mod 32"
  by (simp add: unsigned_of_nat take_bit_eq_mod mod_mod_cancel)

lemma ts_chars_number:
  "ulid_number (ts_chars i ts acc) = (ts mod 32 ^ i) * 32 ^ length acc + ulid_number acc \<and>
   length (ts_chars i ts acc) = i + length acc \<and> (list_all (\<lambda>c. c \<in> set CROCKFORD) acc \<longrightarrow> list_all (\<lambda>c. c \<in> set CROCKFORD) (ts_chars i ts acc))"
proof (induction i arbitrary: ts acc)
  case (Suc i)
  have "ts mod 32 ^ Suc i = ts mod 32 + 32 * (ts div 32 mod 32 ^ i)" by (simp add: mod_mult2_eq)
  then show ?case using Suc [of "ts div 32" "crockford_char (word_of_nat ts) # acc"]
    by (simp add: ulid_number_def crockford_char_digit word_low_bits algebra_simps)
qed simp

section \<open>The random bits\<close>

lemma shifted_byte:
  fixes b :: "32 word" and x :: "8 word"
  assumes "n + 8 \<le> 32"
  shows "unat (push_bit 8 b OR ucast x) mod 2 ^ (n + 8) = (unat b mod 2 ^ n) * 256 + unat x"
proof -
  have small: "k < 8" if "bit x k" for k using that bit_imp_le_length [of x k] by simp
  have "push_bit 8 (take_bit n (unat b)) + unat x = push_bit 8 (take_bit n (unat b)) OR unat x"
    by (rule disjunctive_add_eq_or, rule bit_eqI) (auto simp: bit_simps dest: small)
  also have "\<dots> = take_bit (n + 8) (unat (push_bit 8 b OR ucast x))"
    using assms by (intro bit_eqI) (auto simp: bit_simps dest: small)
  finally show ?thesis by (simp add: take_bit_eq_mod push_bit_eq_mult mult.commute)
qed

lemma top_bits:
  fixes b :: "32 word"
  assumes "m + 5 \<le> 32"
  shows "unat (signed_drop_bit m b) mod 32 = (unat b mod 2 ^ (m + 5)) div 2 ^ m"
proof -
  have "take_bit 5 (unat (signed_drop_bit m b)) = drop_bit m (take_bit (m + 5) (unat b))"
    using assms by (intro bit_eqI) (auto simp: bit_simps bit_signed_drop_bit_iff)
  then show ?thesis by (simp add: take_bit_eq_mod drop_bit_eq_div)
qed

text \<open>
  What is still to be written, the low bits of the buffer and then the bytes not read yet, is a whole number of digits;
  the digits are those of that number. The buffer holds at most twelve bits that matter, so neither its overflow nor its
  sign reaches them.
\<close>

lemma refilled:
  assumes "5 \<le> left + 8 * length bs" and "left < 8"
  obtains buf' left' bs' where "refill_bits buf left bs = (buf', left', bs')" and "5 \<le> left'" and "left' < 13"
    and "left' + 8 * length bs' = left + 8 * length bs"
    and "(unat buf' mod 2 ^ left') * 256 ^ length bs' + bytes_number bs' = (unat buf mod 2 ^ left) * 256 ^ length bs + bytes_number bs"
proof (cases "left < 5")
  case True
  then obtain x xs where bs: "bs = x # xs" using assms(1) by (cases bs) auto
  have "refill_bits buf left bs = (push_bit 8 buf OR ucast x, left + 8, xs)"
    using True bs by (subst refill_bits.simps, subst refill_bits.simps) simp
  then show ?thesis using that shifted_byte [of left buf x] True bs
    by (auto simp: bytes_number_def algebra_simps)
next
  case False
  then have "refill_bits buf left bs = (buf, left, bs)" by (subst refill_bits.simps) simp
  then show ?thesis using that False assms(2) by auto
qed

lemma split_top: "(n mod 2 ^ (m + 5)) div 2 ^ m * 2 ^ m + n mod 2 ^ m = (n :: nat) mod 2 ^ (m + 5)"
  using div_mult_mod_eq [of "n mod 2 ^ (m + 5)" "2 ^ m"] by (simp add: mod_mod_cancel le_imp_power_dvd)

lemma rand_chars_number:
  assumes "5 * i = left + 8 * length bs" and "left < 8"
  shows "ulid_number (rand_chars i buf left bs) = (unat buf mod 2 ^ left) * 256 ^ length bs + bytes_number bs \<and>
    length (rand_chars i buf left bs) = i \<and> list_all (\<lambda>c. c \<in> set CROCKFORD) (rand_chars i buf left bs)"
  using assms
proof (induction i arbitrary: buf left bs)
  case 0
  then show ?case by (simp add: ulid_number_def bytes_number_def)
next
  case (Suc i)
  obtain buf' left' bs' where r: "refill_bits buf left bs = (buf', left', bs')" "5 \<le> left'" "left' < 13"
      "left' + 8 * length bs' = left + 8 * length bs"
      "(unat buf' mod 2 ^ left') * 256 ^ length bs' + bytes_number bs' = (unat buf mod 2 ^ left) * 256 ^ length bs + bytes_number bs"
    using refilled [of left bs buf] Suc.prems by auto
  define m where "m = left' - 5"
  have m: "left' = m + 5" "m < 8" "5 * i = m + 8 * length bs'" using r(2-4) Suc.prems(1) by (simp_all add: m_def)
  have "(32 :: nat) ^ i = 2 ^ (5 * i)" by (simp add: power_mult)
  also have "\<dots> = 2 ^ m * 256 ^ length bs'" by (simp add: m(3) power_add power_mult)
  finally have pow: "(32 :: nat) ^ i = 2 ^ m * 256 ^ length bs'" .
  let ?d = "(unat buf' mod 2 ^ (m + 5)) div 2 ^ m"
  have "crockford_digit (crockford_char (signed_drop_bit m buf')) = ?d"
    using m(2) by (simp add: crockford_char_digit top_bits)
  moreover have "?d * 32 ^ i + (unat buf' mod 2 ^ m) * 256 ^ length bs' = (?d * 2 ^ m + unat buf' mod 2 ^ m) * 256 ^ length bs'"
    by (simp add: pow algebra_simps)
  ultimately show ?case
    using Suc.IH [OF m(3,2), of buf'] r(1,5) m(1) split_top [of "unat buf'" m]
    by (simp add: ulid_number_def crockford_char_digit(2) flip: add.assoc)
qed

section \<open>Order\<close>

definition char_less :: "(char \<times> char) set" where
  "char_less = {(c, d). code c < code d}"

lemma crockford_ascending:
  assumes "c \<in> set CROCKFORD" and "d \<in> set CROCKFORD"
  shows "crockford_digit c < crockford_digit d \<longleftrightarrow> code c < code d"
proof -
  have "list_all (\<lambda>c. list_all (\<lambda>d. crockford_digit c < crockford_digit d \<longleftrightarrow> code c < code d) CROCKFORD) CROCKFORD"
    by code_simp
  then show ?thesis using assms by (auto simp: list_all_iff)
qed

lemma digits_bounded: "list_all (\<lambda>c. c \<in> set CROCKFORD) s \<Longrightarrow> ulid_number s < 32 ^ length s"
proof -
  assume s: "list_all (\<lambda>c. c \<in> set CROCKFORD) s"
  have "place c xs < length xs" if "c \<in> set xs" for c xs using that by (induction xs) auto
  then have "\<forall>c \<in> set s. crockford_digit c < 32" using s crockford_length by (fastforce simp: crockford_digit_def list_all_iff)
  then show ?thesis using in_base_less [of "map crockford_digit s" 32] by (simp add: ulid_number_def)
qed

lemma number_order:
  assumes "length s = length t" and "list_all (\<lambda>c. c \<in> set CROCKFORD) s" and "list_all (\<lambda>c. c \<in> set CROCKFORD) t"
    and "ulid_number s < ulid_number t"
  shows "(s, t) \<in> lexord char_less"
  using assms
proof (induction s t rule: list_induct2)
  case (Cons c s d t)
  have bound: "ulid_number t < 32 ^ length s" "ulid_number s < 32 ^ length s"
    using digits_bounded [of s] digits_bounded [of t] Cons by simp_all
  have num: "ulid_number (c # s) = crockford_digit c * 32 ^ length s + ulid_number s"
    "ulid_number (d # t) = crockford_digit d * 32 ^ length s + ulid_number t"
    using Cons(1) by (simp_all add: ulid_number_def)
  consider "crockford_digit c < crockford_digit d" | "crockford_digit c = crockford_digit d" | "crockford_digit d < crockford_digit c"
    by linarith
  then show ?case
  proof cases
    case 1
    then show ?thesis using crockford_ascending Cons.prems by (simp add: char_less_def)
  next
    case 2
    then have "\<not> code c < code d" "\<not> code d < code c" using crockford_ascending [of c d] crockford_ascending [of d c] Cons.prems by simp_all
    then have "c = d" by (simp add: code_def)
    then show ?thesis using Cons 2 num by simp
  next
    case 3
    then have "Suc (crockford_digit d) * 32 ^ length s \<le> crockford_digit c * 32 ^ length s" by (intro mult_le_mono1) simp
    then show ?thesis using Cons.prems(3) num bound by simp
  qed
qed (simp add: ulid_number_def)

text \<open>C34. A generated identifier has the shape the schemas demand, and it encodes the time and the eighty random bits: as a number in
  base 32 it is the time in milliseconds times 2 to the 80 plus the number of the bytes, so nothing of either is lost. Of
  two identifiers of different milliseconds the earlier is the smaller text.\<close>

theorem ulids_encode_and_sort:
  assumes "now < 2 ^ 48" and "length bytes = 10"
  shows "ULID_PATTERN (generate_ulid now bytes) \<and>
    ulid_number (generate_ulid now bytes) = now * 2 ^ 80 + bytes_number bytes \<and>
    (\<forall>later bytes'. now < later \<and> later < 2 ^ 48 \<and> length bytes' = 10 \<longrightarrow>
       (generate_ulid now bytes, generate_ulid later bytes') \<in> lexord char_less)"
proof -
  have enc: "ULID_PATTERN (generate_ulid t bs) \<and> ulid_number (generate_ulid t bs) = t * 2 ^ 80 + bytes_number bs"
    if "t < 2 ^ 48" "length bs = 10" for t bs
  proof -
    note ts = ts_chars_number [of 10 t "[]"] and rnd = rand_chars_number [of 16 0 bs 0]
    have "t mod 32 ^ 10 = t" using that(1) by simp
    then show ?thesis using ts rnd that(2)
      by (simp add: generate_ulid_def ULID_PATTERN_def ulid_number_def in_base_append)
  qed
  have "(generate_ulid now bytes, generate_ulid later bytes') \<in> lexord char_less"
    if later: "now < later" "later < 2 ^ 48" "length bytes' = 10" for later bytes'
  proof (rule number_order)
    have "bytes_number bytes < 256 ^ 10"
      using in_base_less [of "map unat bytes" 256] assms(2) unsigned_less [where 'b = 8 and 'a = nat] by (auto simp: bytes_number_def)
    moreover have "Suc now * 2 ^ 80 \<le> later * 2 ^ 80" using later(1) by (intro mult_le_mono1) simp
    ultimately show "ulid_number (generate_ulid now bytes) < ulid_number (generate_ulid later bytes')"
      using enc [OF assms] enc [OF later(2,3)] by simp
  qed (use enc [OF assms] enc [OF later(2,3)] in \<open>simp_all add: ULID_PATTERN_def\<close>)
  then show ?thesis using enc [OF assms] by blast
qed

theorem ulids_encode_and_sort_witness:
  "ULID_PATTERN (generate_ulid 1700000000000 (replicate 10 255)) \<and>
   (generate_ulid 1700000000000 (replicate 10 255), generate_ulid 1700000000001 (replicate 10 0)) \<in> lexord char_less"
  using ulids_encode_and_sort [of 1700000000000 "replicate 10 255"] by simp

end
