(* ===== verification/Spec2Isabelle.thy ===== *)
theory Spec2Isabelle
  imports UrlPolicy UrlProvenance SubmitPolicy Supervisor ResearchLoop Scheduler WorkflowRun Ulid
begin

text \<open>
  Yantra, a verification development.

  Yantra automates a browser. An agentic run (\<open>packages/agent/src/runtime\<close>) lets a model call tools under budgets and
  policies, records what was done, and settles on an outcome from evidence. A plan run (\<open>packages/core/src/executor\<close>)
  walks a finite list of steps. Saved workflows (\<open>packages/core/src/workflow\<close>) are files translated to plans, run by a
  user or by the scheduler (\<open>packages/core/src/scheduler\<close>). Research runs (\<open>packages/core/src/research\<close>) search and read
  pages within a budget. Every request for a page passes the ethics gate (\<open>packages/core/src/ethics\<close>). Documents, plans
  and schedules have the shapes of \<open>packages/protocol\<close>.

  Foundations. \<open>Prelude\<close>: texts as char lists with the JavaScript operations on them, results, maps in insertion order
  and sets, and the interface of a keyed store, interpreted on the maps. \<open>Json\<close>: the values of plans and their text.
  Texts are characters of one byte; four of them stand for the characters beyond that range that the code writes.
  Integers of JavaScript are \<open>nat\<close> and \<open>int\<close> where the code cannot leave the exact range, and words where it uses the
  bitwise operators (\<open>Ulid\<close>).

  The agentic run. \<open>AgentBudget\<close> (\<open>budget.ts\<close>): caps on calls, hosts and time; every sequence of operations keeps
  them. \<open>UrlPolicy\<close> (\<open>url-policy.ts\<close>): which URL is let out, and that each decision is audited and charged once.
  \<open>UrlProvenance\<close> (\<open>url-provenance.ts\<close>): where the run learnt of a URL; the four maps refine the chronological log of
  attestations. \<open>TaskContract\<close> (\<open>task-contract.ts\<close> and its schema): declared requirements, normalised and bounded.
  \<open>SubmitPolicy\<close> (\<open>submit-policy.ts\<close>): when a form may be submitted. \<open>ActionLedger\<close> (\<open>action-ledger.ts\<close>,
  \<open>capture-artifacts.ts\<close>): the append-only record of verified actions. \<open>ContractDelivery\<close> (\<open>contract-delivery.ts\<close>) and
  \<open>Fulfillment\<close> (\<open>fulfillment.ts\<close>): published content and the ledger judged against the contract. \<open>ProgressLedger\<close>
  (\<open>progress-ledger.ts\<close>, with \<open>UrlIdentity\<close>): what counts as progress. \<open>Recovery\<close> (\<open>recovery.ts\<close>): the ladder of
  interventions. \<open>Outcome\<close> (\<open>outcome.ts\<close> and the outcome table): the terminal word, and that every record of it agrees.
  \<open>Supervisor\<close> (\<open>orchestrator.ts\<close>, \<open>location-gate.ts\<close>): the events of a run as operations on one state, its breakers,
  its stops and its settlement, over the ledgers above.

  Plans. \<open>Plan\<close> (\<open>schemas/plan.ts\<close>, \<open>steps.ts\<close>, \<open>refs.ts\<close>, \<open>security.ts\<close>, \<open>validators/semantic.ts\<close>,
  \<open>scope-enforcer.ts\<close>): the language of steps and its validator, which accepts exactly the valid plans. \<open>ExecStores\<close>:
  retry budget, captures, checkpoints, evidence, consent log and the resolution of values. \<open>StepHandlers\<close>: one operation
  per step handler. \<open>Executor\<close> (\<open>executor.ts\<close>, \<open>execution-context.ts\<close>): the walk with its consent checkpoint, retries,
  jumps and terminal events. A run is a function of an environment that holds what the code injects (page, locator
  engine, gateway, clock), each a function on the state of the world; its log records every event, dispatched handler,
  saved checkpoint and grant. \<open>execute_loop\<close> recurses over the code's own cap of 1000 step executions; the fuel of
  \<open>dispatch\<close> bounds nested loops and polling, and with a clock that advances a fuel beyond the depth of the loops plus
  the longest timeout is proved to be enough (\<open>runs_return_within_bounds\<close>). No step flagged for confirmation outside a
  loop body is dispatched without a grant given after it last started (\<open>flagged_steps_need_consent\<close>).

  Workflows. \<open>Workflow\<close> (\<open>schemas/workflow.ts\<close>, \<open>replay/workflow-to-plan.ts\<close>): files, reference expressions and the
  translation to plans, which keeps the steps and the consent flags. \<open>WorkflowStore\<close> (\<open>yaml/\<close>, \<open>store.ts\<close>,
  \<open>catalog.ts\<close>): what a save writes and a load reads back, with what is lost in between. \<open>WorkflowLint\<close> (\<open>lint/\<close>): the
  fourteen rules, and what a file without errors guarantees of its plan. \<open>WorkflowRun\<close> (the rest of \<open>replay/\<close>):
  parameters, the checks before a run, outputs, run directories, resume points and the orchestrator that joins store,
  lint, translation and executor; a run directory is a record, the launch of the browser and the Synthesize stage are
  arguments, and invariants go by rule induction over \<open>run_history\<close>, in which runs, resumptions and killed processes
  follow each other. \<open>Scheduler\<close> (\<open>scheduler/\<close>,
  \<open>schedule-store.ts\<close>): the daemon as a step relation in which edits of the table, polls, fires, resumptions and stops
  interleave; its invariants go by rule induction over \<open>daemon_reachable\<close>. \<open>Ulid\<close> (\<open>utils/ulid.ts\<close>): identifiers on
  words of 32 bits.

  Research and ethics. \<open>Ethics\<close>: blocklist, robots cache, token buckets with their persistence, the gate over them;
  time is rational and every wait is bounded. \<open>Similarity\<close>, \<open>Research\<close> and \<open>ResearchLoop\<close>: the pool of sources with its
  caps, coverage, follow-up queries, and the controller, whose recursion is over the remaining hops.

  Properties carry the names C1 to C40 in the text above them; each with a hypothesis is followed by a witness that
  applies it to concrete data. Some theorems state what is not as the comments say, and are named where the manifest
  reports a finding.

  Not modelled. Live pages (browser control, locator engine, interaction, fill engine, widgets, discovery), HTML and
  search, the model provider, the keychain, SQL, the texts of prompts and reports, the command line and the interface:
  they are I/O, third-party calls or rendering, and where a modelled part depends on them it takes them as arguments.
  Parsers of the platform (URL, regular expressions of authors, JSONata, YAML, dates, cron) are arguments too. The
  semantic fill step, the layout of reports, the run directories of agentic runs and the recording of workflows are left
  out.
\<close>

end
